(* ===== verification/Py.thy ===== *)
theory Py
  imports Main "HOL-Library.Char_ord" "HOL-Library.List_Lexorder" "HOL-Library.Product_Lexorder"
    "HOL-Library.AList"
begin

text \<open>
  The part of Python that the modelled scripts share: strings and their methods, printing and
  parsing of integers, JSON values with truthiness, \<open>get\<close>, \<open>str\<close> and \<open>repr\<close>, and exceptions as
  the left side of a sum.

  A Python string is a list of \<open>char\<close>, read as the code points 0 to 255, for which
  \<open>strip\<close>, \<open>lower\<close>, \<open>splitlines\<close> and \<open>repr\<close> are the ones of Python. The two
  characters beyond that range which fixed texts of the scripts contain stand at unused control
  codes: the em dash at 0x97 and the horizontal ellipsis at 0x96.
\<close>

named_theorems py_simps \<open>equations that evaluate the string and JSON operations\<close>

section \<open>Characters and strings\<close>

abbreviation em_dash :: char where "em_dash \<equiv> CHR 0x97"
abbreviation ellipsis :: char where "ellipsis \<equiv> CHR 0x96"
abbreviation newline :: char where "newline \<equiv> CHR 0x0A"

definition code_point :: "char \<Rightarrow> nat" where
  "code_point c = of_char c"

definition is_space :: "char \<Rightarrow> bool" where
  "is_space c \<longleftrightarrow> code_point c \<in> {9, 10, 11, 12, 13, 28, 29, 30, 31, 32, 133, 160}"

definition is_linebreak :: "char \<Rightarrow> bool" where
  "is_linebreak c \<longleftrightarrow> code_point c \<in> {10, 11, 12, 13, 28, 29, 30, 133}"

definition is_digit :: "char \<Rightarrow> bool" where
  "is_digit c \<longleftrightarrow> 48 \<le> code_point c \<and> code_point c \<le> 57"

definition is_hex_lower :: "char \<Rightarrow> bool" where
  "is_hex_lower c \<longleftrightarrow> is_digit c \<or> 97 \<le> code_point c \<and> code_point c \<le> 102"

definition to_lower :: "char \<Rightarrow> char" where
  "to_lower c = (let n = code_point c in
     if 65 \<le> n \<and> n \<le> 90 \<or> 192 \<le> n \<and> n \<le> 222 \<and> n \<noteq> 215 then char_of (n + 32) else c)"

definition lower :: "string \<Rightarrow> string" where
  "lower s = map to_lower s"

definition lstrip :: "string \<Rightarrow> string" where
  "lstrip s = dropWhile is_space s"

definition rstrip :: "string \<Rightarrow> string" where
  "rstrip s = rev (dropWhile is_space (rev s))"

definition strip :: "string \<Rightarrow> string" where
  "strip s = rstrip (lstrip s)"

definition rstrip_chars :: "string \<Rightarrow> string \<Rightarrow> string" where
  "rstrip_chars cs s = rev (dropWhile (\<lambda>c. c \<in> set cs) (rev s))"

definition startswith :: "string \<Rightarrow> string \<Rightarrow> bool" where
  "startswith s p \<longleftrightarrow> take (length p) s = p"

definition endswith :: "string \<Rightarrow> string \<Rightarrow> bool" where
  "endswith s p \<longleftrightarrow> startswith (rev s) (rev p)"

fun contains :: "string \<Rightarrow> string \<Rightarrow> bool" where
  "contains [] p \<longleftrightarrow> p = []"
| "contains (c # cs) p \<longleftrightarrow> startswith (c # cs) p \<or> contains cs p"

fun split_on :: "char \<Rightarrow> string \<Rightarrow> string list" where
  "split_on c [] = [[]]"
| "split_on c (x # xs) =
     (if x = c then [] # split_on c xs
      else (case split_on c xs of [] \<Rightarrow> [[x]] | y # ys \<Rightarrow> (x # y) # ys))"

definition before :: "char \<Rightarrow> string \<Rightarrow> string" where
  \<comment> \<open>\<open>s.split(c, 1)[0]\<close>, which is also \<open>s.split(c)[0]\<close>\<close>
  "before c s = takeWhile (\<lambda>x. x \<noteq> c) s"

fun join :: "string \<Rightarrow> string list \<Rightarrow> string" where
  "join sep [] = []"
| "join sep [x] = x"
| "join sep (x # y # ys) = x @ sep @ join sep (y # ys)"

function splitlines :: "string \<Rightarrow> string list" where
  "splitlines [] = []"
| "splitlines (c # cs) =
     (if is_linebreak c
      then [] # splitlines (if c = CHR 0x0D \<and> take 1 cs = [CHR 0x0A] then tl cs else cs)
      else (case splitlines cs of [] \<Rightarrow> [[c]] | l # ls \<Rightarrow> (c # l) # ls))"
  by pat_completeness auto
termination
  by (relation "measure length") auto

section \<open>Integers as text\<close>

function universal_newlines :: "string \<Rightarrow> string" where
  "universal_newlines [] = []"
| "universal_newlines (c # cs) =
     (if c = CHR 0x0D
      then newline # universal_newlines (if take 1 cs = [newline] then tl cs else cs)
      else c # universal_newlines cs)"
  by pat_completeness auto
termination
  by (relation "measure length") auto

definition digit :: "nat \<Rightarrow> char" where
  "digit n = char_of (48 + n)"

fun nat_str :: "nat \<Rightarrow> string" where
  "nat_str n = (if n < 10 then [digit n] else nat_str (n div 10) @ [digit (n mod 10)])"

declare nat_str.simps [simp del]

definition int_str :: "int \<Rightarrow> string" where
  "int_str i = (if i < 0 then CHR ''-'' # nat_str (nat (- i)) else nat_str (nat i))"

definition digit_val :: "char \<Rightarrow> nat" where
  "digit_val c = code_point c - 48"

definition digits_val :: "string \<Rightarrow> nat" where
  "digits_val s = foldl (\<lambda>a c. a * 10 + digit_val c) 0 s"

text \<open>
  The numeral of \<open>int(s)\<close>: surrounding white space, one sign, then digits with single underscores
  between them. \<open>None\<close> is the \<open>ValueError\<close>.
\<close>

fun digit_groups :: "string \<Rightarrow> bool" where
  "digit_groups [] \<longleftrightarrow> False"
| "digit_groups [c] \<longleftrightarrow> is_digit c"
| "digit_groups (c # d # cs) \<longleftrightarrow>
     is_digit c \<and> (if d = CHR ''_'' then digit_groups cs else digit_groups (d # cs))"

definition parse_unsigned :: "string \<Rightarrow> nat option" where
  "parse_unsigned s =
     (if digit_groups s then Some (digits_val (filter (\<lambda>c. c \<noteq> CHR ''_'') s)) else None)"

definition parse_int :: "string \<Rightarrow> int option" where
  "parse_int s =
     (case strip s of
        [] \<Rightarrow> None
      | c # cs \<Rightarrow>
          if c = CHR ''-'' then map_option (\<lambda>n. - int n) (parse_unsigned cs)
          else if c = CHR ''+'' then map_option int (parse_unsigned cs)
          else map_option int (parse_unsigned (c # cs)))"

section \<open>JSON values\<close>

text \<open>
  The values \<open>json.loads\<close> returns. A dictionary is an association list in insertion order with
  distinct keys. A float is kept as its \<open>repr\<close> text, which identifies it; documents are taken
  to spell their floats that way.
\<close>

datatype json =
    JNull
  | JBool bool
  | JInt int
  | JFloat string
  | JStr string
  | JList "json list"
  | JObj "(string \<times> json) list"

type_synonym dict = "(string \<times> json) list"

abbreviation float_zero :: "string \<Rightarrow> bool" where
  "float_zero t \<equiv> t = ''0.0'' \<or> t = ''-0.0''"

fun truthy :: "json \<Rightarrow> bool" where
  "truthy JNull \<longleftrightarrow> False"
| "truthy (JBool b) \<longleftrightarrow> b"
| "truthy (JInt i) \<longleftrightarrow> i \<noteq> 0"
| "truthy (JFloat t) \<longleftrightarrow> \<not> float_zero t"
| "truthy (JStr s) \<longleftrightarrow> s \<noteq> []"
| "truthy (JList xs) \<longleftrightarrow> xs \<noteq> []"
| "truthy (JObj kvs) \<longleftrightarrow> kvs \<noteq> []"

definition get :: "dict \<Rightarrow> string \<Rightarrow> json" where
  \<comment> \<open>\<open>d.get(k)\<close>: \<open>None\<close> where the key is missing\<close>
  "get d k = (case map_of d k of None \<Rightarrow> JNull | Some v \<Rightarrow> v)"

fun is_dict :: "json \<Rightarrow> bool" where
  "is_dict (JObj _) \<longleftrightarrow> True"
| "is_dict _ \<longleftrightarrow> False"

fun type_name :: "json \<Rightarrow> string" where
  "type_name JNull = ''NoneType''"
| "type_name (JBool _) = ''bool''"
| "type_name (JInt _) = ''int''"
| "type_name (JFloat _) = ''float''"
| "type_name (JStr _) = ''str''"
| "type_name (JList _) = ''list''"
| "type_name (JObj _) = ''dict''"

fun hashable :: "json \<Rightarrow> bool" where
  "hashable (JList _) \<longleftrightarrow> False"
| "hashable (JObj _) \<longleftrightarrow> False"
| "hashable _ \<longleftrightarrow> True"

definition hex_digit :: "nat \<Rightarrow> char" where
  "hex_digit n = (if n < 10 then char_of (48 + n) else char_of (87 + n))"

definition hex_val :: "char \<Rightarrow> nat option" where
  "hex_val c = (let n = code_point c in
     if 48 \<le> n \<and> n \<le> 57 then Some (n - 48)
     else if 97 \<le> n \<and> n \<le> 102 then Some (n - 87)
     else if 65 \<le> n \<and> n \<le> 70 then Some (n - 55) else None)"

definition hex2 :: "nat \<Rightarrow> string" where
  "hex2 n = [hex_digit (n div 16 mod 16), hex_digit (n mod 16)]"

definition repr_char :: "char \<Rightarrow> char \<Rightarrow> string" where
  "repr_char q c = (let n = code_point c in
     if c = q \<or> c = CHR 0x5C then [CHR 0x5C, c]
     else if n = 10 then [CHR 0x5C, CHR ''n'']
     else if n = 13 then [CHR 0x5C, CHR ''r'']
     else if n = 9 then [CHR 0x5C, CHR ''t'']
     else if n < 32 \<or> 127 \<le> n \<and> n \<le> 160 \<or> n = 173 then CHR 0x5C # CHR ''x'' # hex2 n
     else [c])"

definition repr_str :: "string \<Rightarrow> string" where
  "repr_str s = (let q = (if CHR 0x27 \<in> set s \<and> CHR 0x22 \<notin> set s then CHR 0x22 else CHR 0x27)
     in [q] @ concat (map (repr_char q) s) @ [q])"

fun py_repr :: "json \<Rightarrow> string"
  and py_repr_list :: "json list \<Rightarrow> string list"
  and py_repr_items :: "dict \<Rightarrow> string list" where
  "py_repr JNull = ''None''"
| "py_repr (JBool b) = (if b then ''True'' else ''False'')"
| "py_repr (JInt i) = int_str i"
| "py_repr (JFloat t) = t"
| "py_repr (JStr s) = repr_str s"
| "py_repr (JList xs) = ''['' @ join '', '' (py_repr_list xs) @ '']''"
| "py_repr (JObj kvs) = ''{'' @ join '', '' (py_repr_items kvs) @ ''}''"
| "py_repr_list [] = []"
| "py_repr_list (x # xs) = py_repr x # py_repr_list xs"
| "py_repr_items [] = []"
| "py_repr_items ((k, v) # kvs) = (repr_str k @ '': '' @ py_repr v) # py_repr_items kvs"

fun py_str :: "json \<Rightarrow> string" where
  "py_str (JStr s) = s"
| "py_str j = py_repr j"

definition sq :: "string \<Rightarrow> string" where
  \<comment> \<open>the text between single quotes\<close>
  "sq s = CHR 0x27 # s @ [CHR 0x27]"

definition slice_from :: "int \<Rightarrow> 'a list \<Rightarrow> 'a list" where
  \<comment> \<open>\<open>xs[n:]\<close>\<close>
  "slice_from n xs = (if 0 \<le> n then drop (nat n) xs else drop (length xs - nat (- n)) xs)"

definition slice_to :: "int \<Rightarrow> 'a list \<Rightarrow> 'a list" where
  \<comment> \<open>\<open>xs[:n]\<close>\<close>
  "slice_to n xs = (if 0 \<le> n then take (nat n) xs else take (length xs - nat (- n)) xs)"

section \<open>Exceptions\<close>

text \<open>An exception is its class and the text \<open>str(e)\<close> gives; a fallible call returns a sum.\<close>

datatype exn =
    MCPError string
  | WritebackError string
  | KeyError string
  | TypeError string
  | ValueError string
  | AttributeError string
  | HTTPError nat string
  | OverflowError string
  | OSError string
  | URLError string
  | RuntimeError string
  | CalledProcessError nat "string list"
  | SystemExit int

fun exn_str :: "exn \<Rightarrow> string" where
  "exn_str (MCPError m) = m"
| "exn_str (WritebackError m) = m"
| "exn_str (KeyError m) = m"
| "exn_str (TypeError m) = m"
| "exn_str (ValueError m) = m"
| "exn_str (AttributeError m) = m"
| "exn_str (HTTPError c m) = m"
| "exn_str (OverflowError m) = m"
| "exn_str (OSError m) = m"
| "exn_str (URLError m) = ''<urlopen error '' @ m @ ''>''"
| "exn_str (RuntimeError m) = m"
| "exn_str (CalledProcessError rc cmd) =
     ''Command '' @ sq (py_repr (JList (map JStr cmd))) @ '' returned non-zero exit status '' @ nat_str rc @ ''.''"
| "exn_str (SystemExit i) = int_str i"

fun exn_repr :: "exn \<Rightarrow> string" where
  \<comment> \<open>\<open>repr(e)\<close>: the class and the arguments it was built from\<close>
  "exn_repr (MCPError m) = ''MCPError('' @ repr_str m @ '')''"
| "exn_repr (WritebackError m) = ''WritebackError('' @ repr_str m @ '')''"
| "exn_repr (KeyError m) = ''KeyError('' @ m @ '')''"
| "exn_repr (TypeError m) = ''TypeError('' @ repr_str m @ '')''"
| "exn_repr (ValueError m) = ''ValueError('' @ repr_str m @ '')''"
| "exn_repr (AttributeError m) = ''AttributeError('' @ repr_str m @ '')''"
| "exn_repr (HTTPError c m) = ''<HTTPError '' @ nat_str c @ '': '' @ repr_str m @ ''>''"
| "exn_repr (OverflowError m) = ''OverflowError('' @ repr_str m @ '')''"
| "exn_repr (OSError m) = ''OSError('' @ repr_str m @ '')''"
| "exn_repr (URLError m) = ''URLError('' @ repr_str m @ '')''"
| "exn_repr (RuntimeError m) = ''RuntimeError('' @ repr_str m @ '')''"
| "exn_repr (CalledProcessError rc cmd) = ''CalledProcessError('' @ nat_str rc @ '', '' @ py_repr (JList (map JStr cmd)) @ '')''"
| "exn_repr (SystemExit i) = ''SystemExit('' @ int_str i @ '')''"

type_synonym 'a res = "exn + 'a"

text \<open>
  \<open>int(x)\<close> of a float, read off its \<open>repr\<close>: truncation towards zero; a number printed with a
  positive exponent is the double nearest to its decimal, an integer.
\<close>

fun bit_len :: "nat \<Rightarrow> nat" where
  "bit_len n = (if n = 0 then 0 else Suc (bit_len (n div 2)))"

declare bit_len.simps [simp del]

definition round_double :: "nat \<Rightarrow> nat" where
  \<comment> \<open>to 53 significant bits, ties to even\<close>
  "round_double n =
     (if n < 2 ^ 53 then n
      else (let u = 2 ^ (bit_len n - 53); q = n div u; r = n mod u in
        if 2 * r < u \<or> 2 * r = u \<and> even q then q * u else (q + 1) * u))"

definition decimal_trunc :: "string \<Rightarrow> nat" where
  "decimal_trunc t =
     (let m = before (CHR ''e'') t; ip = before (CHR ''.'') m;
          fr = drop (length ip + 1) m; ex = parse_int (drop (length m + 1) t);
          ds = digits_val (ip @ fr);
          sc = (case ex of None \<Rightarrow> 0 | Some e \<Rightarrow> e) - int (length fr)
      in if 0 \<le> sc then round_double (ds * 10 ^ nat sc) else ds div 10 ^ nat (- sc))"

definition float_int :: "string \<Rightarrow> int res" where
  "float_int t =
     (if t = ''nan'' then Inl (ValueError ''cannot convert float NaN to integer'')
      else if t = ''inf'' \<or> t = ''-inf''
      then Inl (OverflowError ''cannot convert float infinity to integer'')
      else if startswith t ''-'' then Inr (- int (decimal_trunc (tl t)))
      else Inr (int (decimal_trunc t)))"

definition rbind :: "'a res \<Rightarrow> ('a \<Rightarrow> 'b res) \<Rightarrow> 'b res" where
  "rbind m f = (case m of Inl e \<Rightarrow> Inl e | Inr a \<Rightarrow> f a)"

fun rmap :: "('a \<Rightarrow> 'b res) \<Rightarrow> 'a list \<Rightarrow> 'b list res" where
  "rmap f [] = Inr []"
| "rmap f (x # xs) = rbind (f x) (\<lambda>y. rbind (rmap f xs) (\<lambda>ys. Inr (y # ys)))"

text \<open>Code that changes a state and may raise: the state is kept on both paths.\<close>

type_synonym ('a, 's) stm = "'s \<Rightarrow> 'a res \<times> 's"

definition mbind :: "('a, 's) stm \<Rightarrow> ('a \<Rightarrow> ('b, 's) stm) \<Rightarrow> ('b, 's) stm" where
  "mbind m f c = (case m c of (Inl e, c') \<Rightarrow> (Inl e, c') | (Inr a, c') \<Rightarrow> f a c')"

definition mlift :: "'a res \<Rightarrow> ('a, 's) stm" where
  "mlift r c = (r, c)"

definition key_error :: "string \<Rightarrow> exn" where
  "key_error k = KeyError (repr_str k)"

definition attr_error :: "json \<Rightarrow> string \<Rightarrow> exn" where
  "attr_error j a = AttributeError
     (repr_str (type_name j) @ '' object has no attribute '' @ repr_str a)"

fun as_dict :: "json \<Rightarrow> dict res" where
  \<comment> \<open>the receiver of a \<open>.get\<close> call, which must be a dictionary\<close>
  "as_dict (JObj kvs) = Inr kvs"
| "as_dict j = Inl (attr_error j ''get'')"

definition get_or :: "dict \<Rightarrow> string \<Rightarrow> json \<Rightarrow> json" where
  \<comment> \<open>\<open>d.get(k, default)\<close>\<close>
  "get_or d k dflt = (case map_of d k of None \<Rightarrow> dflt | Some v \<Rightarrow> v)"

definition field :: "json \<Rightarrow> string \<Rightarrow> json \<Rightarrow> json res" where
  \<comment> \<open>\<open>j.get(k, default)\<close> on a value that should be a dictionary\<close>
  "field j k dflt = rbind (as_dict j) (\<lambda>d. Inr (get_or d k dflt))"

definition value_at :: "json \<Rightarrow> string \<Rightarrow> json res" where
  \<comment> \<open>\<open>w[k]\<close> with a string\<close>
  "value_at w k =
     (case w of
        JObj d \<Rightarrow> (case map_of d k of Some v \<Rightarrow> Inr v | None \<Rightarrow> Inl (key_error k))
      | _ \<Rightarrow> Inl (TypeError ''indices must be integers or slices''))"

fun iterate :: "json \<Rightarrow> json list res" where
  \<comment> \<open>the elements a \<open>for\<close> loop over the value visits\<close>
  "iterate (JList xs) = Inr xs"
| "iterate (JObj kvs) = Inr (map (JStr \<circ> fst) kvs)"
| "iterate (JStr s) = Inr (map (\<lambda>c. JStr [c]) s)"
| "iterate j = Inl (TypeError (repr_str (type_name j) @ '' object is not iterable''))"

text \<open>A mail handed to the notification service.\<close>

record mail =
  ml_subject :: string
  ml_body :: string
  ml_agent :: string

section \<open>Library lemmas\<close>

subsection \<open>Characters\<close>

lemma code_point_less [simp]: "code_point c < 256"
  by (simp add: code_point_def)

lemma char_of_code_point [simp]: "char_of (code_point c) = c"
  by (simp add: code_point_def)

lemma code_point_char_of [simp]: "n < 256 \<Longrightarrow> code_point (char_of n) = n"
  by (simp add: code_point_def)

lemma code_point_inj [simp]: "code_point c = code_point d \<longleftrightarrow> c = d"
  by (simp add: code_point_def)

text \<open>Equations that evaluate these tests by comparing characters instead of their codes.\<close>

lemma is_linebreak_code [code]:
  "is_linebreak c \<longleftrightarrow> c = CHR 0x0A \<or> c = CHR 0x0D \<or> c = CHR 0x0B \<or> c = CHR 0x0C \<or> c = CHR 0x1C
     \<or> c = CHR 0x1D \<or> c = CHR 0x1E \<or> c = CHR 0x85"
  unfolding is_linebreak_def code_point_inj [symmetric, of c] by (auto simp: code_point_def)

lemma is_space_code [code]:
  "is_space c \<longleftrightarrow> c = CHR '' '' \<or> c = CHR 0x0A \<or> c = CHR 0x09 \<or> c = CHR 0x0D \<or> c = CHR 0x0B \<or> c = CHR 0x0C
     \<or> c = CHR 0x1C \<or> c = CHR 0x1D \<or> c = CHR 0x1E \<or> c = CHR 0x1F \<or> c = CHR 0x85 \<or> c = CHR 0xA0"
  unfolding is_space_def code_point_inj [symmetric, of c] by (auto simp: code_point_def)

lemma to_lower_code [code]:
  "to_lower (Char b0 b1 b2 b3 b4 b5 b6 b7) =
     (if b6 \<and> \<not> b5 \<and> (if b7 then \<not> (b0 \<and> b1 \<and> b2 \<and> b4)
          else (b0 \<or> b1 \<or> b2 \<or> b3 \<or> b4) \<and> \<not> (b4 \<and> b3 \<and> (b2 \<or> b1 \<and> b0)))
      then Char b0 b1 b2 b3 b4 True b6 b7 else Char b0 b1 b2 b3 b4 b5 b6 b7)"
  by (cases b0; cases b1; cases b2; cases b3; cases b4; cases b5; cases b6; cases b7)
    (simp_all add: to_lower_def code_point_def char_of_eq_iff)

lemma is_digit_code [code]:
  "is_digit (Char b0 b1 b2 b3 b4 b5 b6 b7) \<longleftrightarrow> b4 \<and> b5 \<and> \<not> b6 \<and> \<not> b7 \<and> (\<not> b3 \<or> \<not> b1 \<and> \<not> b2)"
  by (cases b0; cases b1; cases b2; cases b3; cases b4; cases b5; cases b6; cases b7)
    (simp_all add: is_digit_def code_point_def)

lemma eq_char_of_iff: "c = char_of n \<longleftrightarrow> of_char c = (n mod 256 :: nat)"
  by (subst eq_commute) (auto simp: char_of_eq_iff take_bit_eq_mod)

lemmas str_eval = strip_def lstrip_def rstrip_def is_space_def lower_def to_lower_def
  code_point_def char_of_eq_iff eq_char_of_iff before_def

lemma is_digit_not_space: "is_digit c \<Longrightarrow> \<not> is_space c"
  by (auto simp: is_digit_def is_space_def)

lemma to_lower_idem [simp]: "to_lower (to_lower c) = to_lower c"
proof (cases "65 \<le> code_point c \<and> code_point c \<le> 90
    \<or> 192 \<le> code_point c \<and> code_point c \<le> 222 \<and> code_point c \<noteq> 215")
  case True
  then have "to_lower c = char_of (code_point c + 32)" and "code_point c + 32 < 256"
    by (auto simp: to_lower_def Let_def)
  with True show ?thesis by (auto simp: to_lower_def Let_def)
next
  case False
  then have "to_lower c = c" by (simp only: to_lower_def Let_def if_False)
  then show ?thesis by simp
qed

lemma is_space_to_lower [simp]: "is_space (to_lower c) \<longleftrightarrow> is_space c"
  by (auto simp: to_lower_def is_space_def Let_def)

subsection \<open>Stripping and case\<close>

lemma dropWhile_map_lower: "dropWhile is_space (map to_lower s) = map to_lower (dropWhile is_space s)"
  by (induction s) auto

lemma strip_lower: "strip (lower s) = lower (strip s)"
  by (simp add: strip_def lstrip_def rstrip_def lower_def dropWhile_map_lower rev_map)

lemma lower_idem [simp]: "lower (lower s) = lower s"
  by (simp add: lower_def)

lemma lower_eq_Nil [simp]: "lower s = [] \<longleftrightarrow> s = []"
  by (simp add: lower_def)

lemma dropWhile_idem: "dropWhile P (dropWhile P xs) = dropWhile P xs"
  by (induction xs) auto

lemma dropWhile_rev_dropWhile:
  "dropWhile P (rev (dropWhile P (rev (dropWhile P xs)))) = rev (dropWhile P (rev (dropWhile P xs)))"
proof (cases "dropWhile P xs")
  case (Cons y ys)
  then have y: "\<not> P y" by (simp add: dropWhile_eq_Cons_conv)
  then have "dropWhile P (rev (y # ys)) = dropWhile P (rev ys) @ [y]
      \<or> dropWhile P (rev (y # ys)) = [y]"
    by (cases "\<forall>x\<in>set ys. P x") (auto simp: dropWhile_append)
  with y show ?thesis by (auto simp: Cons)
next
  case Nil
  then show ?thesis by (simp only: rev.simps dropWhile.simps)
qed

lemma strip_idem [simp]: "strip (strip s) = strip s"
  by (simp add: strip_def lstrip_def rstrip_def dropWhile_rev_dropWhile)

lemma strip_no_space:
  assumes "s = [] \<or> \<not> is_space (hd s) \<and> \<not> is_space (last s)"
  shows "strip s = s"
proof (cases s)
  case (Cons c cs)
  with assms have "dropWhile is_space s = s" by simp
  moreover have "dropWhile is_space (rev s) = rev s"
    using assms Cons by (cases "rev s") (auto simp flip: hd_rev)
  ultimately show ?thesis by (simp add: strip_def lstrip_def rstrip_def)
qed (simp add: strip_def lstrip_def rstrip_def)

subsection \<open>Splitting\<close>

lemma before_append: "c \<notin> set a \<Longrightarrow> before c (a @ c # b) = a"
  by (induction a) (auto simp: before_def)

lemma before_none [simp]: "c \<notin> set a \<Longrightarrow> before c a = a"
  by (induction a) (auto simp: before_def)

lemma before_notin [simp]: "c \<notin> set (before c a)"
  by (auto simp: before_def dest: set_takeWhileD)

lemma split_on_nonempty [simp]: "split_on c s \<noteq> []"
  by (cases s) (auto split: list.splits)

lemma hd_split_on: "hd (split_on c s) = before c s"
  by (induction s) (auto simp: before_def split: list.splits)

lemma split_on_none: "c \<notin> set a \<Longrightarrow> split_on c a = [a]"
  by (induction a) auto

lemma split_on_append: "c \<notin> set a \<Longrightarrow> split_on c (a @ c # b) = a # split_on c b"
  by (induction a) auto

lemma set_strip_sub: "set (strip s) \<subseteq> set s"
  by (fastforce simp: strip_def lstrip_def rstrip_def dest: set_dropWhileD)

lemma split_on_join:
  assumes "q \<noteq> []" "\<forall>c \<in> set q. d \<notin> set c"
  shows "split_on d (join [d] q) = q"
  using assms
proof (induction q rule: induct_list012)
  case (3 x y zs)
  then show ?case using split_on_append [of d x] by simp
qed (simp_all add: split_on_none)

lemma startswith_append [simp]: "startswith (p @ s) p"
  by (simp add: startswith_def)

lemma startswith_iff: "startswith s p \<longleftrightarrow> (\<exists>t. s = p @ t)"
proof
  assume "startswith s p"
  then show "\<exists>t. s = p @ t"
    unfolding startswith_def by (metis append_take_drop_id)
qed (auto simp: startswith_def)

subsection \<open>Decimal text\<close>

lemma nat_str_small: "n < 10 \<Longrightarrow> nat_str n = [digit n]"
  by (simp add: nat_str.simps)

lemma nat_str_large: "10 \<le> n \<Longrightarrow> nat_str n = nat_str (n div 10) @ [digit (n mod 10)]"
  by (simp add: nat_str.simps [of n])

lemmas nat_str_eval [py_simps] = nat_str_small nat_str_large

lemma digit_props [simp]: "n < 10 \<Longrightarrow> is_digit (digit n)" "n < 10 \<Longrightarrow> digit_val (digit n) = n"
  by (auto simp: is_digit_def digit_def digit_val_def)

lemma digit_chars [py_simps]:
  "digit 0 = CHR ''0''" "digit 1 = CHR ''1''" "digit (Suc 0) = CHR ''1''" "digit 2 = CHR ''2''"
  "digit 3 = CHR ''3''" "digit 4 = CHR ''4''" "digit 5 = CHR ''5''" "digit 6 = CHR ''6''"
  "digit 7 = CHR ''7''" "digit 8 = CHR ''8''" "digit 9 = CHR ''9''"
  by (simp_all add: digit_def char_of_eq_iff)

lemma nat_str_nonempty [simp]: "nat_str n \<noteq> []"
  by (subst nat_str.simps) simp

lemma nat_str_digits: "c \<in> set (nat_str n) \<Longrightarrow> is_digit c"
  by (induction n rule: nat_str.induct) (subst (asm) (2) nat_str.simps, auto split: if_splits)

lemma digits_val_snoc [simp]: "digits_val (s @ [c]) = digits_val s * 10 + digit_val c"
  by (simp add: digits_val_def)

lemma digits_val_Nil [simp]: "digits_val [] = 0"
  by (simp add: digits_val_def)

lemma digits_val_nat_str [simp]: "digits_val (nat_str n) = n"
proof (induction n rule: nat_str.induct)
  case (1 n)
  show ?case
  proof (cases "n < 10")
    case True
    then show ?thesis using digits_val_snoc [of "[]" "digit n"] by (simp add: nat_str_small)
  next
    case False
    with 1 show ?thesis by (simp add: nat_str_large)
  qed
qed

lemma nat_str_inj [simp]: "nat_str m = nat_str n \<longleftrightarrow> m = n"
  by (metis digits_val_nat_str)

lemma nat_str_head: "nat_str n = c # cs \<Longrightarrow> n \<noteq> 0 \<Longrightarrow> c \<noteq> CHR ''0''"
proof (induction n arbitrary: cs rule: nat_str.induct)
  case (1 n)
  show ?case
  proof (cases "n < 10")
    case True
    with 1 have "c = digit n" by (simp add: nat_str_small)
    then have "digit_val c = n" using True by simp
    moreover have "digit_val (CHR ''0'') = 0" by (simp add: digit_val_def code_point_def)
    ultimately show ?thesis using 1(3) by metis
  next
    case False
    then have "nat_str n = nat_str (n div 10) @ [digit (n mod 10)]" by (simp add: nat_str_large)
    with 1(2) obtain ds where "nat_str (n div 10) = c # ds"
      by (cases "nat_str (n div 10)") auto
    with 1(1) False show ?thesis by auto
  qed
qed

lemma minus_not_digit: "is_digit c \<Longrightarrow> c \<noteq> CHR ''-''"
  by (auto simp: is_digit_def code_point_def)

lemma int_str_inj [simp]: "int_str i = int_str j \<longleftrightarrow> i = j"
proof -
  have *: "nat_str m \<noteq> CHR ''-'' # s" for m s
    using nat_str_digits [of "CHR ''-''" m] minus_not_digit by (metis list.set_intros(1))
  show ?thesis by (auto simp: int_str_def * [symmetric] *)
qed

lemma digit_groups_digits: "s \<noteq> [] \<Longrightarrow> (\<And>c. c \<in> set s \<Longrightarrow> is_digit c) \<Longrightarrow> digit_groups s"
proof (induction s rule: digit_groups.induct)
  case (3 c d cs)
  then have "is_digit d" by simp
  then have "d \<noteq> CHR ''_''" by (auto simp: is_digit_def code_point_def)
  with 3 show ?case by simp
qed auto

lemma parse_unsigned_digits:
  assumes "s \<noteq> []" "\<And>c. c \<in> set s \<Longrightarrow> is_digit c"
  shows "parse_unsigned s = Some (digits_val s)"
proof -
  have "filter (\<lambda>c. c \<noteq> CHR ''_'') s = s"
    using assms(2) [of "CHR ''_''"] by (intro filter_True) (auto simp: is_digit_def code_point_def)
  with digit_groups_digits [OF assms] show ?thesis by (simp add: parse_unsigned_def)
qed

lemma parse_unsigned_nat_str [simp]: "parse_unsigned (nat_str n) = Some n"
  using parse_unsigned_digits [OF nat_str_nonempty nat_str_digits, of n] by simp

lemma parse_int_int_str [simp]: "parse_int (int_str i) = Some i"
proof (cases "i < 0")
  case True
  have "strip (CHR ''-'' # nat_str (nat (- i))) = CHR ''-'' # nat_str (nat (- i))"
    using is_digit_not_space [OF nat_str_digits [OF last_in_set [OF nat_str_nonempty]]]
    by (intro strip_no_space) (simp add: is_space_def [of "CHR ''-''"] code_point_def)
  with True show ?thesis by (simp add: parse_int_def int_str_def)
next
  case False
  have "strip (nat_str (nat i)) = nat_str (nat i)"
    by (intro strip_no_space)
      (auto intro!: is_digit_not_space nat_str_digits [OF last_in_set] nat_str_digits [OF hd_in_set])
  moreover obtain c cs where c: "nat_str (nat i) = c # cs" by (cases "nat_str (nat i)") auto
  moreover have "c \<noteq> CHR ''-''" "c \<noteq> CHR ''+''"
    using nat_str_digits [of c "nat i"] c by (auto simp: is_digit_def code_point_def)
  ultimately show ?thesis
    using False parse_unsigned_nat_str [of "nat i"] by (simp add: parse_int_def int_str_def)
qed

subsection \<open>Fallible computations\<close>

lemma rbind_simps [simp]: "rbind (Inl e) f = Inl e" "rbind (Inr a) f = f a"
  by (simp_all add: rbind_def)

lemma rbind_Inr_iff: "rbind m f = Inr b \<longleftrightarrow> (\<exists>a. m = Inr a \<and> f a = Inr b)"
  by (cases m) auto

lemma rmap_Inr_length: "rmap f xs = Inr ys \<Longrightarrow> length ys = length xs"
  by (induction xs arbitrary: ys) (auto simp: rbind_Inr_iff)

lemma mlift_simps [simp]: "mlift r c = (r, c)"
  by (simp add: mlift_def)

lemma mbind_Inr: "m c = (Inr a, c') \<Longrightarrow> mbind m f c = f a c'"
  by (simp add: mbind_def)

lemma mbind_ok: "mbind m f c = (Inr b, c') \<longleftrightarrow> (\<exists>a c1. m c = (Inr a, c1) \<and> f a c1 = (Inr b, c'))"
  by (auto simp: mbind_def split: prod.splits sum.splits)

lemma mbind_Inl: "m c = (Inl e, c') \<Longrightarrow> mbind m f c = (Inl e, c')"
  by (simp add: mbind_def)

lemma snd_mbind_mlift: "snd (mbind m (\<lambda>a. mlift (f a)) c) = snd (m c)"
  by (simp add: mbind_def split: prod.splits sum.splits)

subsection \<open>What a computation adds to a log\<close>

text \<open>
  The events of a computation, whatever its environment answers: \<open>traces tr P m\<close> says that running
  \<open>m\<close> appends to the log \<open>tr\<close> of the state a list of events with the property \<open>P\<close>.
\<close>

definition traces :: "('s \<Rightarrow> 'e list) \<Rightarrow> ('e list \<Rightarrow> bool) \<Rightarrow> ('a, 's) stm \<Rightarrow> bool" where
  "traces tr P m \<longleftrightarrow> (\<forall>c. \<exists>new. tr (snd (m c)) = tr c @ new \<and> P new)"

lemma traces_mono: "traces tr P m \<Longrightarrow> (\<And>x. P x \<Longrightarrow> Q x) \<Longrightarrow> traces tr Q m"
  unfolding traces_def by blast

lemma traces_lift: "P [] \<Longrightarrow> traces tr P (mlift r)"
  by (simp add: traces_def)

lemma traces_step:
  assumes "traces tr P m" "m c = (r, c')"
  obtains new where "tr c' = tr c @ new" "P new"
  using assms unfolding traces_def by (metis snd_conv)

lemma traces_bind:
  assumes "traces tr P m" "\<And>a. traces tr (Q a) (f a)" "\<And>x. P x \<Longrightarrow> R x"
    "\<And>a x y. P x \<Longrightarrow> Q a y \<Longrightarrow> R (x @ y)"
  shows "traces tr R (mbind m f)"
  unfolding traces_def
proof
  fix c
  obtain r c1 where m: "m c = (r, c1)" by fastforce
  obtain x where x: "tr c1 = tr c @ x" "P x" using traces_step [OF assms(1) m] by blast
  show "\<exists>new. tr (snd (mbind m f c)) = tr c @ new \<and> R new"
  proof (cases r)
    case (Inl e)
    with m x assms(3) show ?thesis by (auto simp: mbind_def)
  next
    case (Inr a)
    obtain y where "tr (snd (f a c1)) = tr c1 @ y" "Q a y"
      using assms(2) unfolding traces_def by blast
    with m x Inr assms(4) show ?thesis by (auto simp: mbind_def)
  qed
qed

lemma traces_bind_lift: "(\<And>a. r = Inr a \<Longrightarrow> traces tr P (f a)) \<Longrightarrow> P [] \<Longrightarrow> traces tr P (mbind (mlift r) f)"
  by (cases r) (auto simp: traces_def mbind_def)

text \<open>The same with the outcome: \<open>does tr Q m\<close> relates what \<open>m\<close> returned or raised to its events.\<close>

definition does :: "('s \<Rightarrow> 'e list) \<Rightarrow> ('a res \<Rightarrow> 'e list \<Rightarrow> bool) \<Rightarrow> ('a, 's) stm \<Rightarrow> bool" where
  "does tr Q m \<longleftrightarrow> (\<forall>c. \<exists>new. tr (snd (m c)) = tr c @ new \<and> Q (fst (m c)) new)"

lemma does_mono: "does tr P m \<Longrightarrow> (\<And>r x. P r x \<Longrightarrow> Q r x) \<Longrightarrow> does tr Q m"
  unfolding does_def by blast

lemma does_traces: "traces tr P m \<Longrightarrow> (\<And>r x. P x \<Longrightarrow> Q r x) \<Longrightarrow> does tr Q m"
  unfolding does_def traces_def by blast

lemma traces_does: "does tr (\<lambda>_. P) m \<Longrightarrow> traces tr P m"
  unfolding does_def traces_def by blast

lemma does_lift: "Q r [] \<Longrightarrow> does tr Q (mlift r)"
  by (simp add: does_def)

lemma does_step:
  assumes "does tr Q m" "m c = (r, c')"
  obtains new where "tr c' = tr c @ new" "Q r new"
  using assms unfolding does_def by (metis fst_conv snd_conv)

lemma does_bind:
  assumes "does tr P m"
    "\<And>a x. P (Inr a) x \<Longrightarrow> does tr (\<lambda>r y. R r (x @ y)) (f a)"
    "\<And>e x. P (Inl e) x \<Longrightarrow> R (Inl e) x"
  shows "does tr R (mbind m f)"
  unfolding does_def
proof
  fix c
  obtain r c1 where m: "m c = (r, c1)" by fastforce
  obtain x where x: "tr c1 = tr c @ x" "P r x" using does_step [OF assms(1) m] by blast
  show "\<exists>new. tr (snd (mbind m f c)) = tr c @ new \<and> R (fst (mbind m f c)) new"
  proof (cases r)
    case (Inl e)
    with m x assms(3) show ?thesis by (auto simp: mbind_def)
  next
    case (Inr a)
    with x(2) have "does tr (\<lambda>r y. R r (x @ y)) (f a)" by (blast intro: assms(2))
    then obtain y where "tr (snd (f a c1)) = tr c1 @ y" "R (fst (f a c1)) (x @ y)"
      unfolding does_def by blast
    with m x Inr show ?thesis by (auto simp: mbind_def)
  qed
qed

lemma does_bind_lift:
  "(\<And>a. r = Inr a \<Longrightarrow> does tr Q (f a)) \<Longrightarrow> (\<And>e. r = Inl e \<Longrightarrow> Q (Inl e) []) \<Longrightarrow> does tr Q (mbind (mlift r) f)"
  by (cases r) (auto simp: does_def mbind_def)

text \<open>A \<open>try\<close> block whose handler does nothing to the state.\<close>

lemma does_recover:
  assumes "does tr P m" "\<And>a x. P (Inr a) x \<Longrightarrow> does tr (\<lambda>r y. R r (x @ y)) (f a)" "\<And>e x. P (Inl e) x \<Longrightarrow> R (h e) x"
  shows "does tr R (\<lambda>c. case m c of (Inr a, c') \<Rightarrow> f a c' | (Inl e, c') \<Rightarrow> (h e, c'))"
  unfolding does_def
proof
  fix c
  obtain r c1 where m: "m c = (r, c1)" by fastforce
  obtain x where x: "tr c1 = tr c @ x" "P r x" using does_step [OF assms(1) m] by blast
  let ?r = "case m c of (Inr a, c') \<Rightarrow> f a c' | (Inl e, c') \<Rightarrow> (h e, c')"
  show "\<exists>new. tr (snd ?r) = tr c @ new \<and> R (fst ?r) new"
  proof (cases r)
    case (Inr a)
    with x(2) have "does tr (\<lambda>r y. R r (x @ y)) (f a)" by (blast intro: assms(2))
    then obtain y where "tr (snd (f a c1)) = tr c1 @ y" "R (fst (f a c1)) (x @ y)"
      unfolding does_def by blast
    with m x Inr show ?thesis by auto
  qed (use m x assms(3) in auto)
qed

lemma does_returns:
  \<comment> \<open>what a computation is known to return, whatever the events\<close>
  assumes "does tr Q m" "\<And>c. R (fst (m c))"
  shows "does tr (\<lambda>r x. Q r x \<and> R r) m"
  using assms unfolding does_def by blast

lemma get_simps [simp]:
  "get [] k = JNull" "get ((k, v) # d) k = v" "k' \<noteq> k \<Longrightarrow> get ((k', v) # d) k = get d k"
  by (simp_all add: get_def)

end
