(* ===== verification/PyHash.thy ===== *)
theory PyHash
  imports Py "HOL-Library.Word"
begin

text \<open>
  \<open>str.encode\<close> and the digest \<open>hashlib.sha1\<close>, as FIPS 180-4 defines it: the fingerprint of a
  drift is a prefix of it. A 32-bit word is a natural number, with the wrap-around of the
  additions and rotations written out, so that the simplifier evaluates a digest.
\<close>

unbundle bit_operations_syntax

section \<open>Bytes\<close>

definition utf8_char :: "char \<Rightarrow> nat list" where
  "utf8_char c = (let n = code_point c in if n < 128 then [n] else [192 + n div 64, 128 + n mod 64])"

definition encode :: "string \<Rightarrow> nat list" where
  "encode s = concat (map utf8_char s)"

fun be_words :: "nat list \<Rightarrow> nat list" where
  "be_words (a # b # c # d # rest) = (((a * 256 + b) * 256 + c) * 256 + d) # be_words rest"
| "be_words _ = []"

definition len_bytes :: "nat \<Rightarrow> nat list" where
  "len_bytes n = map (\<lambda>k. n div k mod 256)
     [2 ^ 56, 2 ^ 48, 2 ^ 40, 2 ^ 32, 2 ^ 24, 2 ^ 16, 2 ^ 8, 1]"

definition pad :: "nat list \<Rightarrow> nat list" where
  "pad bs = bs @ [128] @ replicate ((119 - length bs mod 64) mod 64) 0 @ len_bytes (8 * length bs)"

function blocks :: "'a list \<Rightarrow> 'a list list" where
  "blocks xs = (if length xs < 16 then [] else take 16 xs # blocks (drop 16 xs))"
  by pat_completeness auto
termination
  by (relation "measure length") auto

declare blocks.simps [simp del]

section \<open>SHA-1\<close>

abbreviation word_size :: nat where "word_size \<equiv> 0x100000000"

definition add32 :: "nat \<Rightarrow> nat \<Rightarrow> nat" where
  "add32 a b = (a + b) mod word_size"

definition not32 :: "nat \<Rightarrow> nat" where
  "not32 a = word_size - 1 - a"

definition rotl1 :: "nat \<Rightarrow> nat" where
  "rotl1 x = x * 2 mod word_size + x div 2 ^ 31"

definition rotl5 :: "nat \<Rightarrow> nat" where
  "rotl5 x = x * 2 ^ 5 mod word_size + x div 2 ^ 27"

definition rotl30 :: "nat \<Rightarrow> nat" where
  "rotl30 x = x * 2 ^ 30 mod word_size + x div 2 ^ 2"

type_synonym sha1_state = "nat \<times> nat \<times> nat \<times> nat \<times> nat"

definition sha1_init :: sha1_state where
  "sha1_init = (0x67452301, 0xEFCDAB89, 0x98BADCFE, 0x10325476, 0xC3D2E1F0)"

definition sha1_f :: "nat \<Rightarrow> nat \<Rightarrow> nat \<Rightarrow> nat \<Rightarrow> nat" where
  "sha1_f t b c d =
     (if t < 20 then (b AND c) OR (not32 b AND d)
      else if t < 40 then b XOR c XOR d
      else if t < 60 then (b AND c) OR (b AND d) OR (c AND d)
      else b XOR c XOR d)"

definition sha1_k :: "nat \<Rightarrow> nat" where
  "sha1_k t = (if t < 20 then 0x5A827999 else if t < 40 then 0x6ED9EBA1
     else if t < 60 then 0x8F1BBCDC else 0xCA62C1D6)"

text \<open>
  The rounds. The last sixteen schedule words are kept oldest first; each round consumes the
  oldest and appends the next one.
\<close>

definition sha1_next :: "nat list \<Rightarrow> nat" where
  "sha1_next w = rotl1 (w ! 13 XOR w ! 8 XOR w ! 2 XOR hd w)"

fun sha1_rounds :: "nat list \<Rightarrow> nat list \<Rightarrow> sha1_state \<Rightarrow> sha1_state" where
  "sha1_rounds [] w s = s"
| "sha1_rounds (t # ts) w (a, b, c, d, e) =
     sha1_rounds ts (tl w @ [sha1_next w])
       (add32 (add32 (add32 (add32 (rotl5 a) (sha1_f t b c d)) e) (sha1_k t)) (hd w),
        a, rotl30 b, c, d)"

fun sha1_add :: "sha1_state \<Rightarrow> sha1_state \<Rightarrow> sha1_state" where
  "sha1_add (a, b, c, d, e) (a', b', c', d', e') =
     (add32 a a', add32 b b', add32 c c', add32 d d', add32 e e')"

definition sha1_block :: "sha1_state \<Rightarrow> nat list \<Rightarrow> sha1_state" where
  "sha1_block s w = sha1_add s (sha1_rounds [0..<80] w s)"

definition hex_word :: "nat \<Rightarrow> string" where
  "hex_word x = map (\<lambda>k. hex_digit (x div k mod 16))
     [2 ^ 28, 2 ^ 24, 2 ^ 20, 2 ^ 16, 2 ^ 12, 2 ^ 8, 2 ^ 4, 1]"

fun sha1_digest :: "sha1_state \<Rightarrow> string" where
  "sha1_digest (a, b, c, d, e) = concat (map hex_word [a, b, c, d, e])"

definition sha1_hex :: "nat list \<Rightarrow> string" where
  "sha1_hex bs = sha1_digest (foldl sha1_block sha1_init (blocks (be_words (pad bs))))"

section \<open>Evaluation and shape\<close>

lemmas sha1_eval = sha1_init_def sha1_f_def sha1_k_def sha1_next_def add32_def not32_def
  rotl1_def rotl5_def rotl30_def

lemma is_hex_lower_hex_digit: "n < 16 \<Longrightarrow> is_hex_lower (hex_digit n)"
  by (auto simp: is_hex_lower_def hex_digit_def is_digit_def)

lemma length_hex_word [simp]: "length (hex_word x) = 8"
  by (simp add: hex_word_def)

lemma hex_word_chars: "c \<in> set (hex_word x) \<Longrightarrow> is_hex_lower c"
  by (auto simp: hex_word_def is_hex_lower_hex_digit)

lemma length_sha1_hex [simp]: "length (sha1_hex bs) = 40"
  by (cases "foldl sha1_block sha1_init (blocks (be_words (pad bs)))") (simp add: sha1_hex_def)

lemma sha1_hex_chars: "c \<in> set (sha1_hex bs) \<Longrightarrow> is_hex_lower c"
  by (cases "foldl sha1_block sha1_init (blocks (be_words (pad bs)))")
    (auto simp: sha1_hex_def hex_word_chars)

text \<open>
  The evaluation of a digest, block by block: the padding and the word split first, then the
  rounds, which the simplifier runs on numerals.
\<close>

lemma replicate_numeral: "replicate (numeral k) x = x # replicate (pred_numeral k) x"
  by (simp add: numeral_eq_Suc)

lemmas sha1_block_eval = sha1_block_def sha1_eval upt_conv_Cons
lemmas sha1_input_eval = encode_def utf8_char_def code_point_def pad_def len_bytes_def
  replicate_numeral

lemma blocks_one: "length xs = 16 \<Longrightarrow> blocks xs = [xs]"
  by (simp add: blocks.simps [of xs] blocks.simps [of "[]"])

lemma sha1_hex_one_block:
  "be_words (pad bs) = w \<Longrightarrow> length w = 16 \<Longrightarrow> sha1_block sha1_init w = s
    \<Longrightarrow> sha1_hex bs = sha1_digest s"
  by (simp add: sha1_hex_def blocks_one)

lemma sha1_block_abc:
  "sha1_block sha1_init [0x61626380, 0, 0, 0, 0, 0, 0, 0, 0, 0, 0, 0, 0, 0, 0, 24] =
     (0xA9993E36, 0x4706816A, 0xBA3E2571, 0x7850C26C, 0x9CD0D89D)"
  by (simp add: sha1_block_eval)

lemma sha1_abc: "sha1_hex (encode ''abc'') = ''a9993e364706816aba3e25717850c26c9cd0d89d''"
proof -
  have "be_words (pad (encode ''abc'')) = [0x61626380, 0, 0, 0, 0, 0, 0, 0, 0, 0, 0, 0, 0, 0, 0, 24]"
    by (simp add: sha1_input_eval)
  from sha1_hex_one_block [OF this _ sha1_block_abc] show ?thesis
    by (simp add: hex_word_def hex_digit_def char_of_eq_iff)
qed

end
