(* ===== verification/PyNet.thy ===== *)
theory PyNet
  imports Py
begin

text \<open>
  What the scripts use of Python's \<open>ipaddress\<close>: \<open>str(ip_network(s, strict=False))\<close>, for IPv4
  (prefix length, netmask and hostmask notation) and IPv6 (zero compression, embedded IPv4, scope
  ids), as of Python 3.13. An address is a natural number; \<open>None\<close> is the \<open>ValueError\<close>.
\<close>

section \<open>IPv4\<close>

definition all_digits :: "string \<Rightarrow> bool" where
  "all_digits s \<longleftrightarrow> s \<noteq> [] \<and> list_all is_digit s"

definition parse_octet :: "string \<Rightarrow> nat option" where
  "parse_octet s =
     (if \<not> all_digits s \<or> 3 < length s \<or> s \<noteq> ''0'' \<and> hd s = CHR ''0'' \<or> 255 < digits_val s
      then None else Some (digits_val s))"

definition v4_parse :: "string \<Rightarrow> nat option" where
  "v4_parse s =
     (case map parse_octet (split_on (CHR ''.'') s) of
        [Some a, Some b, Some c, Some d] \<Rightarrow> Some (((a * 256 + b) * 256 + c) * 256 + d)
      | _ \<Rightarrow> None)"

definition v4_str :: "nat \<Rightarrow> string" where
  "v4_str n = join ''.'' (map nat_str
     [n div 16777216 mod 256, n div 65536 mod 256, n div 256 mod 256, n mod 256])"

fun trailing_zeros :: "nat \<Rightarrow> nat \<Rightarrow> nat" where
  "trailing_zeros 0 n = 0"
| "trailing_zeros (Suc b) n = (if odd n then 0 else Suc (trailing_zeros b (n div 2)))"

definition prefix_from_int :: "nat \<Rightarrow> nat option" where
  "prefix_from_int n = (let z = trailing_zeros 32 n in
     if n div 2 ^ z = 2 ^ (32 - z) - 1 then Some (32 - z) else None)"

definition prefix_from_digits :: "nat \<Rightarrow> string \<Rightarrow> nat option" where
  "prefix_from_digits w s =
     (if all_digits s \<and> digits_val s \<le> w then Some (digits_val s) else None)"

definition v4_prefix :: "string \<Rightarrow> nat option" where
  "v4_prefix s =
     (case prefix_from_digits 32 s of
        Some p \<Rightarrow> Some p
      | None \<Rightarrow>
          (case v4_parse s of
             None \<Rightarrow> None
           | Some n \<Rightarrow>
               (case prefix_from_int n of
                  Some p \<Rightarrow> Some p
                | None \<Rightarrow> prefix_from_int (4294967295 - n))))"

definition clear_host :: "nat \<Rightarrow> nat \<Rightarrow> nat" where
  \<comment> \<open>the address with its low \<open>h\<close> bits cleared\<close>
  "clear_host h n = n div 2 ^ h * 2 ^ h"

definition cidr_str :: "string \<Rightarrow> nat \<Rightarrow> string" where
  "cidr_str a p = a @ ''/'' @ nat_str p"

definition ipv4_network :: "string \<Rightarrow> string option" where
  "ipv4_network s =
     (case split_on (CHR ''/'') s of
        [a] \<Rightarrow> map_option (\<lambda>n. cidr_str (v4_str n) 32) (v4_parse a)
      | [a, m] \<Rightarrow>
          (case (v4_parse a, v4_prefix m) of
             (Some n, Some p) \<Rightarrow> Some (cidr_str (v4_str (clear_host (32 - p) n)) p)
           | _ \<Rightarrow> None)
      | _ \<Rightarrow> None)"

section \<open>IPv6\<close>

definition parse_hextet :: "string \<Rightarrow> nat option" where
  "parse_hextet s =
     (if s = [] \<or> 4 < length s then None
      else foldl (\<lambda>acc c. case (acc, hex_val c) of
               (Some a, Some v) \<Rightarrow> Some (a * 16 + v) | _ \<Rightarrow> None) (Some 0) s)"

definition hex_str :: "nat \<Rightarrow> string" where
  \<comment> \<open>\<open>'%x'\<close> of a 16-bit number\<close>
  "hex_str n = (let ds = dropWhile (\<lambda>d. d = 0)
       [n div 4096 mod 16, n div 256 mod 16, n div 16 mod 16, n mod 16]
     in if ds = [] then ''0'' else map hex_digit ds)"

fun hextets_val :: "nat \<Rightarrow> string list \<Rightarrow> nat option" where
  "hextets_val acc [] = Some acc"
| "hextets_val acc (h # hs) =
     (case parse_hextet h of None \<Rightarrow> None | Some v \<Rightarrow> hextets_val (acc * 65536 + v) hs)"

definition v6_parts :: "string \<Rightarrow> string list option" where
  \<comment> \<open>the parts between colons, with an IPv4 suffix rewritten as two hextets\<close>
  "v6_parts s = (let parts = split_on (CHR '':'') s in
     if length parts < 3 then None
     else if CHR ''.'' \<in> set (last parts)
     then map_option (\<lambda>n. butlast parts @ [hex_str (n div 65536), hex_str (n mod 65536)])
            (v4_parse (last parts))
     else Some parts)"

definition v6_parse :: "string \<Rightarrow> nat option" where
  "v6_parse s =
     (case v6_parts s of
        None \<Rightarrow> None
      | Some parts \<Rightarrow>
          (let n = length parts; skips = filter (\<lambda>i. parts ! i = []) [1 ..< n - 1] in
           if 9 < n then None
           else (case skips of
               [] \<Rightarrow> if n \<noteq> 8 then None else hextets_val 0 parts
             | [i] \<Rightarrow>
                 (let open_l = hd parts = []; open_r = last parts = [];
                      hi = (if open_l then i - 1 else i);
                      lo = (if open_r then n - i - 2 else n - i - 1) in
                  if open_l \<and> hi \<noteq> 0 \<or> open_r \<and> lo \<noteq> 0 \<or> 8 \<le> hi + lo then None
                  else (case hextets_val 0 (take hi parts) of
                      None \<Rightarrow> None
                    | Some a \<Rightarrow> hextets_val (a * 65536 ^ (8 - (hi + lo))) (drop (n - lo) parts)))
             | _ \<Rightarrow> None)))"

fun best_zeros :: "nat \<Rightarrow> nat \<Rightarrow> nat \<Rightarrow> nat \<Rightarrow> string list \<Rightarrow> nat \<times> nat" where
  \<comment> \<open>start and length of the first longest run of zero hextets; \<open>l\<close> is the length of the run
    that ends just before index \<open>i\<close>\<close>
  "best_zeros i l bs bl [] = (bs, bl)"
| "best_zeros i l bs bl (h # hs) =
     (if h = ''0''
      then (if bl < Suc l then best_zeros (Suc i) (Suc l) (i - l) (Suc l) hs
            else best_zeros (Suc i) (Suc l) bs bl hs)
      else best_zeros (Suc i) 0 bs bl hs)"

definition compress_hextets :: "string list \<Rightarrow> string list" where
  "compress_hextets hs = (let (s, l) = best_zeros 0 0 0 0 hs in
     if 1 < l
     then (if s = 0 then [[]] else []) @ take s hs @ [[]] @ drop (s + l) hs
          @ (if s + l = length hs then [[]] else [])
     else hs)"

definition hextets :: "nat \<Rightarrow> string list" where
  "hextets n = map (\<lambda>i. hex_str (n div 65536 ^ i mod 65536)) [7, 6, 5, 4, 3, 2, 1, 0]"

definition v6_str :: "nat \<Rightarrow> string" where
  "v6_str n =
     (if n div 2 ^ 32 = 65535
      then ''::ffff:'' @ v4_str (n mod 2 ^ 32)
      else join '':'' (compress_hextets (hextets n)))"

definition split_scope :: "string \<Rightarrow> (string \<times> string) option" where
  \<comment> \<open>address and scope id; the scope is empty where there is none\<close>
  "split_scope s =
     (case split_on (CHR ''%'') s of
        [a] \<Rightarrow> Some (a, [])
      | [a, sc] \<Rightarrow> if sc = [] then None else Some (a, sc)
      | _ \<Rightarrow> None)"

definition v6_show :: "nat \<Rightarrow> string \<Rightarrow> string" where
  "v6_show n sc = v6_str n @ (if sc = [] then [] else ''%'' @ sc)"

definition v6_net :: "string \<Rightarrow> nat option \<Rightarrow> string option" where
  "v6_net a pf =
     (case split_scope a of
        None \<Rightarrow> None
      | Some (b, sc) \<Rightarrow>
          (case (v6_parse b, pf) of
             (Some n, Some p) \<Rightarrow>
               (let m = clear_host (128 - p) n in
                Some (cidr_str (v6_show m (if m = n then sc else [])) p))
           | _ \<Rightarrow> None))"

definition ipv6_network :: "string \<Rightarrow> string option" where
  "ipv6_network s =
     (case split_on (CHR ''/'') s of
        [a] \<Rightarrow> v6_net a (Some 128)
      | [a, m] \<Rightarrow> v6_net a (prefix_from_digits 128 m)
      | _ \<Rightarrow> None)"

definition ip_network :: "string \<Rightarrow> string option" where
  "ip_network s = (case ipv4_network s of Some n \<Rightarrow> Some n | None \<Rightarrow> ipv6_network s)"

section \<open>IPv4 networks are normal forms\<close>

lemma dot_not_digit: "is_digit c \<Longrightarrow> c \<noteq> CHR ''.''" "is_digit c \<Longrightarrow> c \<noteq> CHR ''/''"
  by (auto simp: is_digit_def code_point_def)

lemma nat_str_no_sep [simp]: "CHR ''.'' \<notin> set (nat_str n)" "CHR ''/'' \<notin> set (nat_str n)"
  using nat_str_digits dot_not_digit by blast+

lemma all_digits_nat_str [simp]: "all_digits (nat_str n)"
  by (simp add: all_digits_def list_all_iff nat_str_digits)

lemma length_nat_str_octet: "n < 256 \<Longrightarrow> length (nat_str n) \<le> 3"
  by (simp add: nat_str.simps [of n] nat_str.simps [of "n div 10"] nat_str.simps [of "n div 10 div 10"])

lemma parse_octet_nat_str [simp]: "n < 256 \<Longrightarrow> parse_octet (nat_str n) = Some n"
proof -
  assume n: "n < 256"
  have "nat_str n = ''0'' \<or> hd (nat_str n) \<noteq> CHR ''0''"
  proof (cases "n = 0")
    case True
    then show ?thesis by (simp add: nat_str_small digit_chars)
  next
    case False
    obtain c cs where "nat_str n = c # cs" by (cases "nat_str n") auto
    with nat_str_head [OF this False] show ?thesis by simp
  qed
  with n length_nat_str_octet [OF n] show ?thesis by (auto simp: parse_octet_def)
qed

lemma v4_str_parts:
  "split_on (CHR ''.'') (v4_str n) =
     map nat_str [n div 16777216 mod 256, n div 65536 mod 256, n div 256 mod 256, n mod 256]"
  by (simp add: v4_str_def split_on_append split_on_none)

lemma v4_octets:
  fixes n :: nat
  assumes "n < 4294967296"
  shows "((n div 16777216 mod 256 * 256 + n div 65536 mod 256) * 256 + n div 256 mod 256) * 256
    + n mod 256 = n"
proof -
  have "n div 65536 div 256 = n div 16777216" "n div 256 div 256 = n div 65536"
    by (simp_all add: div_mult2_eq [symmetric])
  moreover have "n div 16777216 mod 256 = n div 16777216"
    using assms by (intro mod_less) (simp add: div_less_iff_less_mult)
  ultimately show ?thesis
    by (metis div_mult_mod_eq)
qed

lemma v4_parse_v4_str [simp]: "n < 4294967296 \<Longrightarrow> v4_parse (v4_str n) = Some n"
  using v4_octets [of n] by (simp add: v4_parse_def v4_str_parts algebra_simps)

lemma v4_str_inj: "m < 4294967296 \<Longrightarrow> n < 4294967296 \<Longrightarrow> v4_str m = v4_str n \<longleftrightarrow> m = n"
  by (metis option.inject v4_parse_v4_str)

lemma v4_str_no_slash [simp]: "CHR ''/'' \<notin> set (v4_str n)"
  by (simp add: v4_str_def)

lemma parse_octet_bound: "parse_octet s = Some n \<Longrightarrow> n < 256"
  by (auto simp: parse_octet_def split: if_splits)

lemma v4_parse_bound: "v4_parse s = Some n \<Longrightarrow> n < 4294967296"
proof -
  assume "v4_parse s = Some n"
  then obtain a b c d where os: "map parse_octet (split_on (CHR ''.'') s) = [Some a, Some b, Some c, Some d]"
    and n: "n = ((a * 256 + b) * 256 + c) * 256 + d"
    by (auto simp: v4_parse_def split: list.splits option.splits)
  have "a < 256" "b < 256" "c < 256" "d < 256"
    using os parse_octet_bound by (auto simp: map_eq_Cons_conv)
  with n show ?thesis by simp
qed

lemma v4_prefix_nat_str [simp]: "p \<le> 32 \<Longrightarrow> v4_prefix (nat_str p) = Some p"
  by (simp add: v4_prefix_def prefix_from_digits_def)

lemma v4_prefix_bound: "v4_prefix s = Some p \<Longrightarrow> p \<le> 32"
  by (auto simp: v4_prefix_def prefix_from_digits_def prefix_from_int_def Let_def
      split: if_splits option.splits)

lemma clear_host_less: "n < k \<Longrightarrow> clear_host h n < k"
  by (simp add: clear_host_def) (meson div_times_less_eq_dividend le_less_trans)

lemma clear_host_idem [simp]: "clear_host h (clear_host h n) = clear_host h n"
  by (simp add: clear_host_def)

lemma clear_host_eq_iff: "clear_host h m = clear_host h n \<longleftrightarrow> m div 2 ^ h = n div 2 ^ h"
  by (simp add: clear_host_def)

lemma clear_host_0 [simp]: "clear_host 0 n = n"
  by (simp add: clear_host_def)

lemma split_cidr_str: "CHR ''/'' \<notin> set a \<Longrightarrow> split_on (CHR ''/'') (cidr_str a p) = [a, nat_str p]"
  by (simp add: cidr_str_def split_on_append split_on_none)

lemma cidr_str_inj:
  assumes "CHR ''/'' \<notin> set a" "CHR ''/'' \<notin> set b"
  shows "cidr_str a p = cidr_str b q \<longleftrightarrow> a = b \<and> p = q"
  by (metis assms list.inject nat_str_inj split_cidr_str)

lemma ipv4_network_cidr:
  assumes "n < 4294967296" "p \<le> 32"
  shows "ipv4_network (cidr_str (v4_str n) p) = Some (cidr_str (v4_str (clear_host (32 - p) n)) p)"
  using assms by (simp add: ipv4_network_def split_cidr_str)

lemma ipv4_networkE:
  assumes "ipv4_network s = Some t"
  obtains n p where "n < 4294967296" "p \<le> 32" "t = cidr_str (v4_str (clear_host (32 - p) n)) p"
proof -
  from assms consider
      (host) a n where "v4_parse a = Some n" "t = cidr_str (v4_str n) 32"
    | (net) a m n p where "v4_parse a = Some n" "v4_prefix m = Some p"
        "t = cidr_str (v4_str (clear_host (32 - p) n)) p"
    by (auto simp: ipv4_network_def split: list.splits option.splits)
  then show thesis
  proof cases
    case host
    then show ?thesis using that [of n 32] by (simp add: v4_parse_bound)
  next
    case net
    then show ?thesis using that [of n p] by (simp add: v4_parse_bound v4_prefix_bound)
  qed
qed

lemma ipv4_network_idem: "ipv4_network s = Some t \<Longrightarrow> ipv4_network t = Some t"
  by (elim ipv4_networkE) (simp add: ipv4_network_cidr clear_host_less)

lemma ip_network_v4: "ipv4_network s = Some t \<Longrightarrow> ip_network s = Some t"
  by (simp add: ip_network_def)

end
