(* ===== verification/PyJson.thy ===== *)
theory PyJson
  imports Py
begin

text \<open>
  The standard library's \<open>json.dumps\<close> (default arguments) and \<open>json.loads\<close>, and the round trip
  between them, on which the saved state files of the scripts rest. The parser takes fuel; twice
  the length of the document is enough, since two nested calls consume at least one character.
\<close>

section \<open>Printing\<close>

abbreviation quote :: char where "quote \<equiv> CHR 0x22"
abbreviation backslash :: char where "backslash \<equiv> CHR 0x5C"

definition esc_char :: "char \<Rightarrow> string" where
  "esc_char c = (let n = code_point c in
     if c = quote \<or> c = backslash then [backslash, c]
     else if n = 8 then [backslash, CHR ''b'']
     else if n = 12 then [backslash, CHR ''f'']
     else if n = 10 then [backslash, CHR ''n'']
     else if n = 13 then [backslash, CHR ''r'']
     else if n = 9 then [backslash, CHR ''t'']
     else if n < 32 \<or> 127 \<le> n then backslash # ''u00'' @ hex2 n
     else [c])"

definition esc_char_unicode :: "char \<Rightarrow> string" where
  \<comment> \<open>with \<open>ensure_ascii=False\<close>\<close>
  "esc_char_unicode c = (if 127 \<le> code_point c then [c] else esc_char c)"

definition dumps_str_by :: "(char \<Rightarrow> string) \<Rightarrow> string \<Rightarrow> string" where
  "dumps_str_by esc s = [quote] @ concat (map esc s) @ [quote]"

fun dumps_by :: "(char \<Rightarrow> string) \<Rightarrow> json \<Rightarrow> string"
  and dumps_list :: "(char \<Rightarrow> string) \<Rightarrow> json list \<Rightarrow> string list"
  and dumps_items :: "(char \<Rightarrow> string) \<Rightarrow> dict \<Rightarrow> string list" where
  "dumps_by esc JNull = ''null''"
| "dumps_by esc (JBool b) = (if b then ''true'' else ''false'')"
| "dumps_by esc (JInt i) = int_str i"
| "dumps_by esc (JFloat t) = (if t = ''nan'' then ''NaN'' else if t = ''inf'' then ''Infinity''
     else if t = ''-inf'' then ''-Infinity'' else t)"
| "dumps_by esc (JStr s) = dumps_str_by esc s"
| "dumps_by esc (JList xs) = ''['' @ join '', '' (dumps_list esc xs) @ '']''"
| "dumps_by esc (JObj kvs) = ''{'' @ join '', '' (dumps_items esc kvs) @ ''}''"
| "dumps_list esc [] = []"
| "dumps_list esc (x # xs) = dumps_by esc x # dumps_list esc xs"
| "dumps_items esc [] = []"
| "dumps_items esc ((k, v) # kvs) = (dumps_str_by esc k @ '': '' @ dumps_by esc v) # dumps_items esc kvs"

abbreviation dumps_str :: "string \<Rightarrow> string" where
  "dumps_str \<equiv> dumps_str_by esc_char"

abbreviation dumps :: "json \<Rightarrow> string" where
  "dumps \<equiv> dumps_by esc_char"

abbreviation dumps_unicode :: "json \<Rightarrow> string" where
  "dumps_unicode \<equiv> dumps_by esc_char_unicode"

section \<open>Parsing\<close>

definition is_json_ws :: "char \<Rightarrow> bool" where
  "is_json_ws c \<longleftrightarrow> code_point c \<in> {9, 10, 13, 32}"

definition skip_ws :: "string \<Rightarrow> string" where
  "skip_ws s = dropWhile is_json_ws s"

definition hex4 :: "char \<Rightarrow> char \<Rightarrow> char \<Rightarrow> char \<Rightarrow> nat option" where
  "hex4 a b c d =
     (case (hex_val a, hex_val b, hex_val c, hex_val d) of
        (Some w, Some x, Some y, Some z) \<Rightarrow> Some (4096 * w + 256 * x + 16 * y + z)
      | _ \<Rightarrow> None)"

definition unescape :: "char \<Rightarrow> char option" where
  "unescape e =
     (if e = quote \<or> e = backslash \<or> e = CHR ''/'' then Some e
      else if e = CHR ''b'' then Some (char_of (8::nat))
      else if e = CHR ''f'' then Some (char_of (12::nat))
      else if e = CHR ''n'' then Some (char_of (10::nat))
      else if e = CHR ''r'' then Some (char_of (13::nat))
      else if e = CHR ''t'' then Some (char_of (9::nat)) else None)"

definition push_char :: "char \<Rightarrow> (string \<times> string) option \<Rightarrow> (string \<times> string) option" where
  "push_char c r = map_option (\<lambda>(s, t). (c # s, t)) r"

text \<open>
  The body of a string literal, after its opening quote. Escapes beyond the code points of the
  model are refused.
\<close>

fun lex_string :: "string \<Rightarrow> (string \<times> string) option" where
  "lex_string [] = None"
| "lex_string (c # cs) =
     (if c = quote then Some ([], cs)
      else if c = backslash then
        (case cs of
           [] \<Rightarrow> None
         | e # es \<Rightarrow>
             if e = CHR ''u'' then
               (case es of
                  w # x # y # z # rest \<Rightarrow>
                    (case hex4 w x y z of
                       None \<Rightarrow> None
                     | Some n \<Rightarrow> if n < 256 then push_char (char_of n) (lex_string rest) else None)
                | _ \<Rightarrow> None)
             else (case unescape e of None \<Rightarrow> None | Some d \<Rightarrow> push_char d (lex_string es)))
      else if code_point c < 32 then None
      else push_char c (lex_string cs))"

definition lex_exp :: "string \<Rightarrow> (string \<times> string) option" where
  "lex_exp s =
     (case s of
        e # t \<Rightarrow>
          if e = CHR ''e'' \<or> e = CHR ''E'' then
            (let (sg, u) = (if t \<noteq> [] \<and> (hd t = CHR ''+'' \<or> hd t = CHR ''-'')
                            then ([hd t], tl t) else ([], t));
                 ds = takeWhile is_digit u
             in if ds = [] then None else Some (e # sg @ ds, dropWhile is_digit u))
          else None
      | [] \<Rightarrow> None)"

definition lex_frac :: "string \<Rightarrow> (string \<times> string) option" where
  "lex_frac s =
     (case s of
        d # t \<Rightarrow>
          if d = CHR ''.'' \<and> takeWhile is_digit t \<noteq> []
          then Some (d # takeWhile is_digit t, dropWhile is_digit t) else None
      | [] \<Rightarrow> None)"

definition lex_num :: "string \<Rightarrow> (json \<times> string) option" where
  "lex_num s =
     (let (sg, t) = (if s \<noteq> [] \<and> hd s = CHR ''-'' then (''-'', tl s) else ([], s));
          ds = takeWhile is_digit t; r = dropWhile is_digit t
      in if ds = [] then None
         else
           (let (ip, r1) = (if hd ds = CHR ''0'' then ([CHR ''0''], tl ds @ r) else (ds, r));
                (fr, r2) = (case lex_frac r1 of None \<Rightarrow> ([], r1) | Some p \<Rightarrow> p);
                (ex, r3) = (case lex_exp r2 of None \<Rightarrow> ([], r2) | Some p \<Rightarrow> p)
            in if fr = [] \<and> ex = []
               then Some (JInt (if sg = [] then int (digits_val ip) else - int (digits_val ip)), r3)
               else Some (JFloat (sg @ ip @ fr @ ex), r3)))"

definition lex_word :: "string \<Rightarrow> json \<Rightarrow> string \<Rightarrow> (json \<times> string) option" where
  "lex_word w j s = (if startswith s w then Some (j, drop (length w) s) else None)"

definition dict_of :: "dict \<Rightarrow> dict" where
  \<comment> \<open>a repeated key keeps its first position and its last value\<close>
  "dict_of kvs = foldl (\<lambda>d (k, v). AList.update k v d) [] kvs"

fun pval :: "nat \<Rightarrow> string \<Rightarrow> (json \<times> string) option"
  and parr :: "nat \<Rightarrow> string \<Rightarrow> (json list \<times> string) option"
  and pobj :: "nat \<Rightarrow> string \<Rightarrow> (dict \<times> string) option" where
  "pval 0 s = None"
| "pval (Suc n) s =
     (case skip_ws s of
        [] \<Rightarrow> None
      | c # cs \<Rightarrow>
          if c = quote then map_option (\<lambda>(t, r). (JStr t, r)) (lex_string cs)
          else if c = CHR ''['' then
            (case skip_ws cs of
               [] \<Rightarrow> None
             | d # ds \<Rightarrow> if d = CHR '']'' then Some (JList [], ds)
                         else map_option (\<lambda>(xs, r). (JList xs, r)) (parr n cs))
          else if c = CHR ''{'' then
            (case skip_ws cs of
               [] \<Rightarrow> None
             | d # ds \<Rightarrow> if d = CHR ''}'' then Some (JObj [], ds)
                         else map_option (\<lambda>(kvs, r). (JObj (dict_of kvs), r)) (pobj n cs))
          else if c = CHR ''n'' then lex_word ''null'' JNull (c # cs)
          else if c = CHR ''t'' then lex_word ''true'' (JBool True) (c # cs)
          else if c = CHR ''f'' then lex_word ''false'' (JBool False) (c # cs)
          else if c = CHR ''N'' then lex_word ''NaN'' (JFloat ''nan'') (c # cs)
          else if c = CHR ''I'' then lex_word ''Infinity'' (JFloat ''inf'') (c # cs)
          else (case lex_num (c # cs) of
                  Some r \<Rightarrow> Some r
                | None \<Rightarrow> lex_word ''-Infinity'' (JFloat ''-inf'') (c # cs)))"
| "parr 0 s = None"
| "parr (Suc n) s =
     (case pval n s of
        None \<Rightarrow> None
      | Some (v, r) \<Rightarrow>
          (case skip_ws r of
             [] \<Rightarrow> None
           | c # cs \<Rightarrow>
               if c = CHR '','' then map_option (\<lambda>(vs, t). (v # vs, t)) (parr n cs)
               else if c = CHR '']'' then Some ([v], cs) else None))"
| "pobj 0 s = None"
| "pobj (Suc n) s =
     (case skip_ws s of
        [] \<Rightarrow> None
      | q # qs \<Rightarrow>
          if q \<noteq> quote then None
          else
            (case lex_string qs of
               None \<Rightarrow> None
             | Some (k, r) \<Rightarrow>
                 (case skip_ws r of
                    [] \<Rightarrow> None
                  | c # cs \<Rightarrow>
                      if c \<noteq> CHR '':'' then None
                      else
                        (case pval n cs of
                           None \<Rightarrow> None
                         | Some (v, r2) \<Rightarrow>
                             (case skip_ws r2 of
                                [] \<Rightarrow> None
                              | d # ds \<Rightarrow>
                                  if d = CHR '','' then map_option (\<lambda>(kvs, t). ((k, v) # kvs, t)) (pobj n ds)
                                  else if d = CHR ''}'' then Some ([(k, v)], ds) else None)))))"

definition loads :: "string \<Rightarrow> json option" where
  \<comment> \<open>\<open>None\<close> is the \<open>ValueError\<close> of a malformed document\<close>
  "loads s =
     (case pval (2 * length s + 2) s of
        None \<Rightarrow> None
      | Some (j, r) \<Rightarrow> if skip_ws r = [] then Some j else None)"

text \<open>The text of a decoding error is a fixed one.\<close>

definition json_error :: exn where
  "json_error = ValueError ''Expecting value''"

definition json_loads :: "string \<Rightarrow> json res" where
  "json_loads s = (case loads s of None \<Rightarrow> Inl json_error | Some j \<Rightarrow> Inr j)"

definition second :: "json \<Rightarrow> json res" where
  \<comment> \<open>\<open>x[1]\<close>\<close>
  "second j =
     (case j of
        JList (_ # y # _) \<Rightarrow> Inr y
      | JStr (_ # d # _) \<Rightarrow> Inr (JStr [d])
      | JObj _ \<Rightarrow> Inl (KeyError ''1'')
      | _ \<Rightarrow> Inl (TypeError ''index''))"

section \<open>Round trip\<close>

subsection \<open>String literals\<close>

lemma hex_val_hex_digit [simp]: "n < 16 \<Longrightarrow> hex_val (hex_digit n) = Some n"
  by (auto simp: hex_val_def hex_digit_def Let_def)

lemma hex_val_zero: "hex_val (CHR ''0'') = Some 0"
  by (simp add: hex_val_def code_point_def)

lemma hex4_hex2: "n < 256 \<Longrightarrow> hex4 (CHR ''0'') (CHR ''0'')
    (hex_digit (n div 16 mod 16)) (hex_digit (n mod 16)) = Some n"
  by (simp add: hex4_def hex_val_zero)

lemma push_char_Some [simp]: "push_char c (Some (s, t)) = Some (c # s, t)"
  by (simp add: push_char_def)

lemma unescape_letters:
  "unescape (CHR ''b'') = Some (char_of (8::nat))" "unescape (CHR ''f'') = Some (char_of (12::nat))"
  "unescape (CHR ''n'') = Some (char_of (10::nat))" "unescape (CHR ''r'') = Some (char_of (13::nat))"
  "unescape (CHR ''t'') = Some (char_of (9::nat))"
  by (simp_all add: unescape_def)

lemma lex_esc_char:
  "lex_string (esc_char c @ rest) = push_char c (lex_string rest)"
proof -
  have n: "char_of (code_point c) = c" by simp
  consider "c = quote" | "c = backslash" | "code_point c = 8" | "code_point c = 12"
    | "code_point c = 10" | "code_point c = 13" | "code_point c = 9"
    | "c \<noteq> quote" "c \<noteq> backslash" "code_point c \<notin> {8, 9, 10, 12, 13}"
      "code_point c < 32 \<or> 127 \<le> code_point c"
    | "c \<noteq> quote" "c \<noteq> backslash" "32 \<le> code_point c" "code_point c < 127"
    by fastforce
  then show ?thesis
  proof cases
    case 8
    then have "esc_char c = backslash # ''u00'' @ hex2 (code_point c)"
      by (auto simp: esc_char_def Let_def)
    then show ?thesis using hex4_hex2 [OF code_point_less, of c] by (simp add: hex2_def)
  qed (use n in \<open>auto simp: esc_char_def Let_def unescape_letters unescape_def [of quote]
        unescape_def [of backslash] code_point_def\<close>)
qed

lemma lex_esc_unicode:
  "lex_string (esc_char_unicode c @ rest) = push_char c (lex_string rest)"
proof (cases "127 \<le> code_point c")
  case True
  then have "c \<noteq> quote" "c \<noteq> backslash" by (auto simp: code_point_def)
  with True show ?thesis by (simp add: esc_char_unicode_def)
qed (simp add: esc_char_unicode_def lex_esc_char)

subsection \<open>Numbers\<close>

text \<open>What may follow a number without being read as a part of it.\<close>

definition num_end :: "string \<Rightarrow> bool" where
  "num_end r \<longleftrightarrow> r = [] \<or> hd r \<in> {CHR '','', CHR '']'', CHR ''}''}"

lemma num_end_digits:
  assumes "num_end r"
  shows "takeWhile is_digit r = []" "dropWhile is_digit r = r" "lex_frac r = None" "lex_exp r = None"
  using assms
  by (cases r; auto simp: num_end_def is_digit_def code_point_def lex_frac_def lex_exp_def)+

lemma nat_str_span:
  assumes "num_end r"
  shows "takeWhile is_digit (nat_str n @ r) = nat_str n" "dropWhile is_digit (nat_str n @ r) = r"
  using num_end_digits [OF assms] nat_str_digits
  by (simp_all add: takeWhile_append2 dropWhile_append2)

lemma nat_str_leading_zero: "hd (nat_str n) = CHR ''0'' \<Longrightarrow> n = 0"
  using nat_str_head [of n] by (cases "nat_str n") auto

lemma hd_nat_str_not_minus: "hd (nat_str n) \<noteq> CHR ''-''"
  using nat_str_digits [OF hd_in_set [OF nat_str_nonempty]] minus_not_digit by simp

lemma nat_str_0: "nat_str 0 = ''0''"
  by (simp add: nat_str_small digit_chars)

lemma is_digit_0: "is_digit (CHR ''0'')"
  by (simp add: is_digit_def code_point_def)

lemma lex_num_nat_str:
  assumes "num_end r"
  shows "lex_num (nat_str n @ r) = Some (JInt (int n), r)"
    and "lex_num (CHR ''-'' # nat_str n @ r) = Some (JInt (- int n), r)"
proof -
  note facts = nat_str_span [OF assms] num_end_digits [OF assms] hd_nat_str_not_minus is_digit_0
  show "lex_num (nat_str n @ r) = Some (JInt (int n), r)"
    using nat_str_leading_zero [of n]
    by (cases "n = 0") (auto simp: lex_num_def Let_def facts nat_str_0
      digits_val_nat_str [of 0, unfolded nat_str_0])
  show "lex_num (CHR ''-'' # nat_str n @ r) = Some (JInt (- int n), r)"
    using nat_str_leading_zero [of n]
    by (cases "n = 0") (auto simp: lex_num_def Let_def facts nat_str_0
      digits_val_nat_str [of 0, unfolded nat_str_0])
qed

lemma lex_num_int_str: "num_end r \<Longrightarrow> lex_num (int_str i @ r) = Some (JInt i, r)"
  using lex_num_nat_str [of r "nat i"] lex_num_nat_str [of r "nat (- i)"] by (simp add: int_str_def)

subsection \<open>Documents\<close>

text \<open>The values a script saves: no float, and the distinct keys of a dictionary.\<close>

fun savable :: "json \<Rightarrow> bool" where
  "savable (JFloat t) \<longleftrightarrow> False"
| "savable (JList xs) \<longleftrightarrow> (\<forall>x \<in> set xs. savable x)"
| "savable (JObj kvs) \<longleftrightarrow> distinct (map fst kvs) \<and> (\<forall>kv \<in> set kvs. savable (snd kv))"
| "savable j \<longleftrightarrow> True"

lemma update_fresh: "k \<notin> fst ` set d \<Longrightarrow> AList.update k v d = d @ [(k, v)]"
  by (induction d) auto

lemma dict_of_append:
  "distinct (map fst (d @ kvs)) \<Longrightarrow> foldl (\<lambda>d (k, v). AList.update k v d) d kvs = d @ kvs"
proof (induction kvs arbitrary: d)
  case (Cons kv kvs)
  then show ?case by (cases kv) (auto simp: update_fresh)
qed simp

lemma dict_of_distinct [simp]: "distinct (map fst kvs) \<Longrightarrow> dict_of kvs = kvs"
  using dict_of_append [of "[]" kvs] by (simp add: dict_of_def)

lemma skip_ws_append [simp]: "(\<And>c. c \<in> set ws \<Longrightarrow> is_json_ws c) \<Longrightarrow> skip_ws (ws @ s) = skip_ws s"
  by (simp add: skip_ws_def dropWhile_append2)

lemma skip_ws_Cons [simp]: "\<not> is_json_ws c \<Longrightarrow> skip_ws (c # s) = c # s"
  by (simp add: skip_ws_def)

lemma json_punct [simp]:
  "\<not> is_json_ws quote" "\<not> is_json_ws (CHR ''['')" "\<not> is_json_ws (CHR '']'')"
  "\<not> is_json_ws (CHR ''{'')" "\<not> is_json_ws (CHR ''}'')" "\<not> is_json_ws (CHR '','')"
  "\<not> is_json_ws (CHR '':'')" "is_json_ws (CHR '' '')"
  by (simp_all add: is_json_ws_def code_point_def)

lemma num_end_punct [simp]:
  "num_end []" "num_end (CHR '','' # r)" "num_end (CHR '']'' # r)" "num_end (CHR ''}'' # r)"
  by (simp_all add: num_end_def)

text \<open>The first character of a printed value: what decides the branch of \<^const>\<open>pval\<close>.\<close>

definition num_start :: "char \<Rightarrow> bool" where
  "num_start c \<longleftrightarrow> c = CHR ''-'' \<or> is_digit c"

lemma num_startD:
  assumes "num_start c"
  shows "\<not> is_json_ws c" "c \<noteq> quote" "c \<noteq> CHR ''[''" "c \<noteq> CHR '']''" "c \<noteq> CHR ''{''" "c \<noteq> CHR ''}''"
    "c \<noteq> CHR ''n''" "c \<noteq> CHR ''t''" "c \<noteq> CHR ''f''" "c \<noteq> CHR ''N''" "c \<noteq> CHR ''I''"
  using assms by (auto simp: num_start_def is_digit_def is_json_ws_def code_point_def)

lemma int_str_Cons: obtains c cs where "int_str i = c # cs" "num_start c"
proof (cases "i < 0")
  case True
  then show ?thesis using that by (simp add: int_str_def num_start_def)
next
  case False
  obtain c cs where c: "nat_str (nat i) = c # cs" by (cases "nat_str (nat i)") auto
  then have "is_digit c" using nat_str_digits [of c "nat i"] by simp
  with c False that show ?thesis by (simp add: int_str_def num_start_def)
qed

lemma pval_list_step:
  assumes "parr n cs = Some (xs, r)" "skip_ws cs = d # ds" "d \<noteq> CHR '']''"
    "\<And>c. c \<in> set ws \<Longrightarrow> is_json_ws c"
  shows "pval (Suc n) (ws @ CHR ''['' # cs) = Some (JList xs, r)"
  using assms by simp

lemma pval_obj_step:
  assumes "pobj n cs = Some (kvs, r)" "skip_ws cs = d # ds" "d \<noteq> CHR ''}''"
    "\<And>c. c \<in> set ws \<Longrightarrow> is_json_ws c"
  shows "pval (Suc n) (ws @ CHR ''{'' # cs) = Some (JObj (dict_of kvs), r)"
  using assms by simp

lemma pval_words:
  assumes "0 < n" "\<forall>c \<in> set ws. is_json_ws c"
  shows "pval n (ws @ ''null'' @ r) = Some (JNull, r)"
    and "pval n (ws @ ''true'' @ r) = Some (JBool True, r)"
    and "pval n (ws @ ''false'' @ r) = Some (JBool False, r)"
proof -
  obtain m where n: "n = Suc m" using assms(1) by (cases n) auto
  have "\<not> is_json_ws (CHR ''n'')" "\<not> is_json_ws (CHR ''t'')" "\<not> is_json_ws (CHR ''f'')"
    by (simp_all add: is_json_ws_def code_point_def)
  then show "pval n (ws @ ''null'' @ r) = Some (JNull, r)"
    "pval n (ws @ ''true'' @ r) = Some (JBool True, r)"
    "pval n (ws @ ''false'' @ r) = Some (JBool False, r)"
    using assms(2) by (simp_all add: n lex_word_def startswith_def)
qed

definition parses :: "(char \<Rightarrow> string) \<Rightarrow> json \<Rightarrow> bool" where
  "parses esc j \<longleftrightarrow> (\<forall>n ws r. 2 * length (dumps_by esc j) \<le> n \<longrightarrow> (\<forall>c \<in> set ws. is_json_ws c) \<longrightarrow> num_end r \<longrightarrow>
     pval n (ws @ dumps_by esc j @ r) = Some (j, r))"

text \<open>A way to escape the characters of a string which the parser undoes.\<close>

locale escaping =
  fixes esc :: "char \<Rightarrow> string"
  assumes lex_string_esc: "lex_string (esc c @ rest) = push_char c (lex_string rest)"
begin

lemma lex_string_body: "lex_string (concat (map esc s) @ quote # rest) = Some (s, rest)"
  by (induction s) (simp_all add: lex_string_esc)

lemma dumps_Cons:
  assumes "savable j"
  obtains c cs where "dumps_by esc j = c # cs" "\<not> is_json_ws c" "c \<noteq> CHR '']''"
proof (cases j)
  case (JInt i)
  then show ?thesis using that int_str_Cons [of i] num_startD by (metis dumps_by.simps(3))
next
  case (JBool b)
  then show ?thesis using that by (cases b) (auto simp: is_json_ws_def code_point_def)
qed (use assms that in \<open>auto simp: dumps_str_by_def is_json_ws_def code_point_def\<close>)

lemma parsesD:
  assumes "parses esc j" "2 * length (dumps_by esc j) \<le> n" "\<And>c. c \<in> set ws \<Longrightarrow> is_json_ws c" "num_end r"
  shows "pval n (ws @ dumps_by esc j @ r) = Some (j, r)"
  using assms unfolding parses_def by blast

lemma parr_dumps:
  assumes "xs \<noteq> []" "\<And>x. x \<in> set xs \<Longrightarrow> parses esc x"
    "2 * length (join '', '' (dumps_list esc xs)) + 1 \<le> n" "\<And>c. c \<in> set ws \<Longrightarrow> is_json_ws c"
  shows "parr n (ws @ join '', '' (dumps_list esc xs) @ CHR '']'' # r) = Some (xs, r)"
  using assms
proof (induction xs arbitrary: n ws)
  case (Cons x xs)
  then obtain m where n: "n = Suc m" by (cases n) auto
  show ?case
  proof (cases xs)
    case Nil
    with Cons.prems n have "pval m (ws @ dumps_by esc x @ CHR '']'' # r) = Some (x, CHR '']'' # r)"
      by (intro parsesD) auto
    with Nil n show ?thesis by simp
  next
    case (Cons y ys)
    let ?t = "join '', '' (dumps_list esc xs) @ CHR '']'' # r"
    have "pval m (ws @ dumps_by esc x @ CHR '','' # '' '' @ ?t) = Some (x, CHR '','' # '' '' @ ?t)"
      using Cons.prems n Cons by (intro parsesD) auto
    moreover have "parr m ('' '' @ ?t) = Some (xs, r)"
      using Cons.prems n Cons by (intro Cons.IH) auto
    ultimately show ?thesis using n Cons by simp
  qed
qed simp

lemma pobj_member:
  assumes "pval n ('' '' @ dumps_by esc v @ d # ds) = Some (v, d # ds)" "\<not> is_json_ws d"
    "\<And>c. c \<in> set ws \<Longrightarrow> is_json_ws c"
  shows "pobj (Suc n) (ws @ dumps_str_by esc k @ '': '' @ dumps_by esc v @ d # ds) =
     (if d = CHR '','' then map_option (\<lambda>(kvs, t). ((k, v) # kvs, t)) (pobj n ds)
      else if d = CHR ''}'' then Some ([(k, v)], ds) else None)"
  using assms lex_string_body [of k "'': '' @ dumps_by esc v @ d # ds"]
  by (simp add: dumps_str_by_def)

lemma pobj_dumps:
  assumes "kvs \<noteq> []" "\<And>kv. kv \<in> set kvs \<Longrightarrow> parses esc (snd kv)"
    "2 * length (join '', '' (dumps_items esc kvs)) + 1 \<le> n" "\<And>c. c \<in> set ws \<Longrightarrow> is_json_ws c"
  shows "pobj n (ws @ join '', '' (dumps_items esc kvs) @ CHR ''}'' # r) = Some (kvs, r)"
  using assms
proof (induction kvs arbitrary: n ws)
  case (Cons kv kvs)
  obtain k v where kv: "kv = (k, v)" by (cases kv)
  have v: "parses esc v" using Cons.prems(2) [of kv] kv by simp
  from Cons.prems obtain m where n: "n = Suc m" by (cases n) auto
  show ?case
  proof (cases kvs)
    case Nil
    have "pval m ('' '' @ dumps_by esc v @ CHR ''}'' # r) = Some (v, CHR ''}'' # r)"
      using Cons.prems n Nil kv v by (intro parsesD) auto
    from pobj_member [where ws = ws and k = k, OF this _ Cons.prems(4)] Nil n kv show ?thesis by simp
  next
    case (Cons y ys)
    let ?t = "'' '' @ join '', '' (dumps_items esc kvs) @ CHR ''}'' # r"
    obtain z zs where items: "dumps_items esc kvs = z # zs" using Cons by (cases y) auto
    have "pval m ('' '' @ dumps_by esc v @ CHR '','' # ?t) = Some (v, CHR '','' # ?t)"
      using Cons.prems(3) n kv v items by (intro parsesD) auto
    from pobj_member [where ws = ws and k = k, OF this _ Cons.prems(4)]
    have "pobj n (ws @ dumps_str_by esc k @ '': '' @ dumps_by esc v @ CHR '','' # ?t) =
        map_option (\<lambda>(kvs, t). ((k, v) # kvs, t)) (pobj m ?t)"
      using n by simp
    moreover have "pobj m ?t = Some (kvs, r)"
      using Cons.prems n Cons kv items by (intro Cons.IH) auto
    ultimately show ?thesis using kv items by simp
  qed
qed simp

lemma savable_parses: "savable j \<Longrightarrow> parses esc j"
proof (induction j)
  case (JInt i)
  show ?case
    unfolding parses_def
  proof (intro allI impI)
    fix n ws r assume *: "2 * length (dumps_by esc (JInt i)) \<le> n" "\<forall>c \<in> set ws. is_json_ws c" "num_end r"
    obtain c cs where c: "int_str i = c # cs" "num_start c" by (rule int_str_Cons)
    moreover from * c obtain m where "n = Suc m" by (cases n) auto
    ultimately show "pval n (ws @ dumps_by esc (JInt i) @ r) = Some (JInt i, r)"
      using * lex_num_int_str [OF *(3), of i] num_startD [OF c(2)] by simp
  qed
next
  case (JStr s)
  show ?case
    unfolding parses_def
  proof (intro allI impI)
    fix n ws r assume *: "2 * length (dumps_by esc (JStr s)) \<le> n" "\<forall>c \<in> set ws. is_json_ws c" "num_end r"
    then obtain m where "n = Suc m" by (cases n) (auto simp: dumps_str_by_def)
    with * show "pval n (ws @ dumps_by esc (JStr s) @ r) = Some (JStr s, r)"
      using lex_string_body [of s r] by (simp add: dumps_str_by_def)
  qed
next
  case (JList xs)
  show ?case
    unfolding parses_def
  proof (intro allI impI)
    fix n ws r assume *: "2 * length (dumps_by esc (JList xs)) \<le> n" "\<forall>c \<in> set ws. is_json_ws c" "num_end r"
    then obtain m where n: "n = Suc m" by (cases n) auto
    show "pval n (ws @ dumps_by esc (JList xs) @ r) = Some (JList xs, r)"
    proof (cases xs)
      case Nil
      with * n show ?thesis by simp
    next
      case (Cons y ys)
      let ?t = "join '', '' (dumps_list esc xs) @ CHR '']'' # r"
      from JList.prems Cons obtain c cs where c: "dumps_by esc y = c # cs" "\<not> is_json_ws c" "c \<noteq> CHR '']''"
        by (auto intro: dumps_Cons [of y])
      then obtain ds where "?t = c # ds" using Cons by (cases ys) auto
      moreover have "parr m ?t = Some (xs, r)"
        using parr_dumps [of xs m "[]" r] * n Cons JList by auto
      ultimately have "pval n (ws @ CHR ''['' # ?t) = Some (JList xs, r)"
        using c * n by (auto intro!: pval_list_step)
      then show ?thesis by simp
    qed
  qed
next
  case (JObj kvs)
  show ?case
    unfolding parses_def
  proof (intro allI impI)
    fix n ws r assume *: "2 * length (dumps_by esc (JObj kvs)) \<le> n" "\<forall>c \<in> set ws. is_json_ws c" "num_end r"
    then obtain m where n: "n = Suc m" by (cases n) auto
    show "pval n (ws @ dumps_by esc (JObj kvs) @ r) = Some (JObj kvs, r)"
    proof (cases kvs)
      case Nil
      with * n show ?thesis by simp
    next
      case (Cons y ys)
      let ?t = "join '', '' (dumps_items esc kvs) @ CHR ''}'' # r"
      obtain ds where "?t = quote # ds" using Cons by (cases y; cases ys) (auto simp: dumps_str_by_def)
      moreover have "parses esc (snd kv)" if "kv \<in> set kvs" for kv
        using JObj that by (cases kv) (auto intro: JObj.IH)
      then have "pobj m ?t = Some (kvs, r)"
        using pobj_dumps [of kvs m "[]" r] * n Cons by auto
      ultimately have "pval n (ws @ CHR ''{'' # ?t) = Some (JObj (dict_of kvs), r)"
        using * n by (auto intro!: pval_obj_step)
      then show ?thesis using JObj.prems by simp
    qed
  qed
next
  case (JBool b)
  show ?case using pval_words(2,3) by (cases b) (auto simp: parses_def)
next
  case JNull
  show ?case using pval_words(1) by (auto simp: parses_def)
qed simp

lemma loads_by: "savable j \<Longrightarrow> loads (dumps_by esc j) = Some j"
  using parsesD [OF savable_parses, of j "2 * length (dumps_by esc j) + 2" "[]" "[]"]
  by (simp add: loads_def skip_ws_def)

end

interpretation ascii: escaping esc_char
  by unfold_locales (rule lex_esc_char)

interpretation unicode: escaping esc_char_unicode
  by unfold_locales (rule lex_esc_unicode)

theorem loads_dumps: "savable j \<Longrightarrow> loads (dumps j) = Some j"
  by (rule ascii.loads_by)

end
