(* ===== verification/McpHttp.thy ===== *)
theory McpHttp
  imports PyJson
begin

text \<open>
  The MCP client of \<open>mcp_http.py\<close>: JSON-RPC over HTTP with plain or event-stream answers, the
  session handshake and the unwrapping of tool results.

  The network is a parameter: a function from the request to what \<open>urlopen\<close> does with it. The
  requests of one client carry consecutive ids, so a function of the request is as general as a
  server with state.
\<close>

section \<open>Transport\<close>

record http_request =
  rq_url :: string
  rq_headers :: "(string \<times> string) list"
  rq_body :: string

datatype http_result =
    HttpOk "string option" "string option" string
      \<comment> \<open>the headers \<open>Mcp-Session-Id\<close> and \<open>Content-Type\<close>, and the decoded body\<close>
  | HttpFail nat string
      \<comment> \<open>an \<open>HTTPError\<close>: status and decoded body\<close>
  | NetFail "string option" string
      \<comment> \<open>any other exception: the session header, if it was read before, and the text\<close>
  | BadUrl string
      \<comment> \<open>the \<open>ValueError\<close> of building a request for such a URL\<close>

type_synonym transport = "http_request \<Rightarrow> http_result"

record client =
  cl_name :: string
  cl_url :: string
  cl_session :: "string option"
  cl_id :: nat

type_synonym 'a mcp = "('a, client) stm"

section \<open>Client\<close>

definition MCPClient :: "string \<Rightarrow> string \<Rightarrow> client" where
  "MCPClient name url = \<lparr>cl_name = name, cl_url = url, cl_session = None, cl_id = 0\<rparr>"

definition set_session :: "string option \<Rightarrow> client \<Rightarrow> client" where
  "set_session sid c =
     (case sid of
        None \<Rightarrow> c
      | Some s \<Rightarrow> if s = [] then c else c\<lparr>cl_session := Some s\<rparr>)"

definition post_headers :: "client \<Rightarrow> (string \<times> string) list" where
  "post_headers c =
     [(''Content-Type'', ''application/json''),
      (''Accept'', ''application/json, text/event-stream''),
      (''MCP-Protocol-Version'', ''2025-06-18'')]
     @ (case cl_session c of None \<Rightarrow> [] | Some s \<Rightarrow> [(''Mcp-Session-Id'', s)])"

definition post :: "transport \<Rightarrow> dict \<Rightarrow> (string \<times> string) mcp" where
  "post net payload c =
     (case net \<lparr>rq_url = cl_url c, rq_headers = post_headers c, rq_body = dumps (JObj payload)\<rparr> of
        HttpOk sid ctype raw \<Rightarrow>
          (Inr (lower (case ctype of None \<Rightarrow> [] | Some t \<Rightarrow> t), raw), set_session sid c)
      | HttpFail code body \<Rightarrow>
          (Inl (MCPError (cl_name c @ '': HTTP '' @ nat_str code @ '' '' @ take 300 body)), c)
      | NetFail sid m \<Rightarrow>
          (Inl (MCPError (cl_name c @ '': transport error: '' @ m)), set_session sid c)
      | BadUrl m \<Rightarrow> (Inl (ValueError m), c))"

fun sse_last :: "json option \<Rightarrow> string list \<Rightarrow> json option" where
  "sse_last acc [] = acc"
| "sse_last acc (l # ls) =
     (let line = strip l in
      if startswith line ''data:'' then
        (let chunk = strip (drop 5 line) in
         if chunk = [] then sse_last acc ls
         else (case loads chunk of None \<Rightarrow> sse_last acc ls | Some j \<Rightarrow> sse_last (Some j) ls))
      else sse_last acc ls)"

definition parse_body :: "string \<Rightarrow> string \<Rightarrow> json res" where
  \<comment> \<open>\<open>MCPClient._parse\<close>; Python's \<open>None\<close> and a JSON \<open>null\<close> are both \<open>JNull\<close>\<close>
  "parse_body ctype raw =
     (if strip raw = [] then Inr JNull
      else if contains ctype ''text/event-stream''
      then Inr (case sse_last None (splitlines raw) of None \<Rightarrow> JNull | Some j \<Rightarrow> j)
      else json_loads raw)"

definition rpc_result :: "string \<Rightarrow> string \<Rightarrow> json \<Rightarrow> json res" where
  "rpc_result name method msg =
     (case msg of
        JNull \<Rightarrow> Inl (MCPError (name @ '': empty response to '' @ method))
      | JObj m \<Rightarrow>
          if truthy (get m ''error'')
          then Inl (MCPError (name @ '': '' @ method @ '' -> '' @ py_str (get m ''error'')))
          else Inr (get m ''result'')
      | _ \<Rightarrow> Inr JNull)"

definition rpc_payload :: "nat \<Rightarrow> string \<Rightarrow> json option \<Rightarrow> dict" where
  "rpc_payload i method params =
     [(''jsonrpc'', JStr ''2.0''), (''id'', JInt (int i)), (''method'', JStr method)]
     @ (case params of None \<Rightarrow> [] | Some p \<Rightarrow> [(''params'', p)])"

definition rpc :: "transport \<Rightarrow> string \<Rightarrow> json option \<Rightarrow> json mcp" where
  "rpc net method params c =
     (let c1 = c\<lparr>cl_id := cl_id c + 1\<rparr> in
      mbind (post net (rpc_payload (cl_id c1) method params))
        (\<lambda>(ctype, raw). mlift (rbind (parse_body ctype raw) (rpc_result (cl_name c) method))) c1)"

definition initialize_params :: json where
  "initialize_params = JObj
     [(''protocolVersion'', JStr ''2025-06-18''), (''capabilities'', JObj []),
      (''clientInfo'', JObj [(''name'', JStr ''netbox-sync''), (''version'', JStr ''1'')])]"

definition connect :: "transport \<Rightarrow> unit mcp" where
  "connect net =
     mbind (rpc net ''initialize'' (Some initialize_params)) (\<lambda>_.
     mbind (post net [(''jsonrpc'', JStr ''2.0''), (''method'', JStr ''notifications/initialized'')])
       (\<lambda>_. mlift (Inr ())))"

section \<open>Tool results\<close>

fun resource_text :: "json list \<Rightarrow> json option res" where
  "resource_text [] = Inr None"
| "resource_text (JObj b # bs) =
     (if get b ''type'' = JStr ''resource'' then
        (let r = get b ''resource'' in
         rbind (if truthy r then as_dict r else Inr []) (\<lambda>d.
           case get d ''text'' of JStr t \<Rightarrow> Inr (Some (JStr t)) | _ \<Rightarrow> resource_text bs))
      else resource_text bs)"
| "resource_text (_ # bs) = resource_text bs"

fun block_text :: "json list \<Rightarrow> json" where
  "block_text [] = JNull"
| "block_text (JObj b # bs) =
     (if get b ''type'' = JStr ''text'' then get b ''text'' else block_text bs)"
| "block_text (_ # bs) = block_text bs"

definition first_text :: "dict \<Rightarrow> json res" where
  "first_text result =
     (let content = get result ''content'' in
      rbind (if truthy content then iterate content else Inr []) (\<lambda>blocks.
      rbind (resource_text blocks) (\<lambda>t.
        Inr (case t of Some j \<Rightarrow> j | None \<Rightarrow> block_text blocks))))"

definition tool_payload :: "string \<Rightarrow> string \<Rightarrow> dict \<Rightarrow> json \<Rightarrow> json res" where
  "tool_payload name tool result text =
     (case text of
        JNull \<Rightarrow>
          (if get result ''structuredContent'' \<noteq> JNull then Inr (get result ''structuredContent'')
           else Inl (MCPError (name @ '': tool '' @ tool @ '' returned no text content'')))
      | JStr s \<Rightarrow>
          (let t = strip s in
           if t = [] then Inr JNull
           else Inr (case loads t of Some j \<Rightarrow> j | None \<Rightarrow> JStr t))
      | _ \<Rightarrow> Inl (attr_error text ''strip''))"

definition tool_result :: "string \<Rightarrow> string \<Rightarrow> json \<Rightarrow> json res" where
  "tool_result name tool result =
     (case result of
        JObj d \<Rightarrow>
          if truthy (get d ''isError'')
          then rbind (first_text d) (\<lambda>t. Inl (MCPError
                 (name @ '': tool '' @ tool @ '' reported isError: '' @ py_str t)))
          else rbind (first_text d) (tool_payload name tool d)
      | _ \<Rightarrow> Inl (MCPError (name @ '': tool '' @ tool @ '' returned no result'')))"

definition call :: "transport \<Rightarrow> string \<Rightarrow> dict \<Rightarrow> json mcp" where
  "call net tool arguments c =
     mbind (rpc net ''tools/call'' (Some (JObj [(''name'', JStr tool), (''arguments'', JObj arguments)])))
       (\<lambda>result. mlift (tool_result (cl_name c) tool result)) c"

section \<open>Client state\<close>

lemma set_session_simps [simp]:
  "cl_name (set_session sid c) = cl_name c" "cl_url (set_session sid c) = cl_url c"
  "cl_id (set_session sid c) = cl_id c"
  by (simp_all add: set_session_def split: option.splits)

text \<open>What every step of the client keeps: its label, its endpoint, and an id that only grows.\<close>

definition same_client :: "client \<Rightarrow> client \<Rightarrow> bool" where
  "same_client c c' \<longleftrightarrow> cl_name c' = cl_name c \<and> cl_url c' = cl_url c \<and> cl_id c \<le> cl_id c'"

lemma same_client_trans: "same_client a b \<Longrightarrow> same_client b c \<Longrightarrow> same_client a c"
  by (simp add: same_client_def)

lemma post_state:
  "cl_name (snd (post net p c)) = cl_name c" "cl_url (snd (post net p c)) = cl_url c"
  "cl_id (snd (post net p c)) = cl_id c"
  by (simp_all add: post_def split: http_result.splits)

lemma rpc_state:
  "cl_name (snd (rpc net m p c)) = cl_name c" "cl_url (snd (rpc net m p c)) = cl_url c"
  "cl_id (snd (rpc net m p c)) = Suc (cl_id c)"
proof -
  have "snd (rpc net m p c) = snd (post net (rpc_payload (Suc (cl_id c)) m p) (c\<lparr>cl_id := Suc (cl_id c)\<rparr>))"
    by (simp add: rpc_def Let_def mbind_def split: prod.splits sum.splits)
  then show "cl_name (snd (rpc net m p c)) = cl_name c" "cl_url (snd (rpc net m p c)) = cl_url c"
    "cl_id (snd (rpc net m p c)) = Suc (cl_id c)"
    by (simp_all add: post_state)
qed

lemma call_state:
  "cl_name (snd (call net t a c)) = cl_name c" "cl_url (snd (call net t a c)) = cl_url c"
  "cl_id (snd (call net t a c)) = Suc (cl_id c)"
  unfolding call_def snd_mbind_mlift by (simp_all add: rpc_state)

section \<open>The client against a server that answers\<close>

text \<open>The printed form of a value has no white space at its ends.\<close>

lemma dumps_str_ends: "hd (dumps_str s) = quote" "last (dumps_str s) = quote" "dumps_str s \<noteq> []"
  by (simp_all add: dumps_str_by_def)

lemma not_space_chars [simp]:
  "\<not> is_space quote" "\<not> is_space (CHR ''['')" "\<not> is_space (CHR '']'')" "\<not> is_space (CHR ''{'')"
  "\<not> is_space (CHR ''}'')" "\<not> is_space (CHR ''-'')"
  by (simp_all add: is_space_def code_point_def)

lemma int_str_ends: "\<not> is_space (hd (int_str i))" "\<not> is_space (last (int_str i))" "int_str i \<noteq> []"
  using is_digit_not_space [OF nat_str_digits [OF last_in_set [OF nat_str_nonempty]]]
    is_digit_not_space [OF nat_str_digits [OF hd_in_set [OF nat_str_nonempty]]]
  by (auto simp: int_str_def)

lemma strip_dumps: "savable j \<Longrightarrow> strip (dumps j) = dumps j"
proof (rule strip_no_space, cases j)
  case (JBool b)
  then show "dumps j = [] \<or> \<not> is_space (hd (dumps j)) \<and> \<not> is_space (last (dumps j))"
    by (cases b) (simp_all add: is_space_def code_point_def)
next
  case JNull
  then show "dumps j = [] \<or> \<not> is_space (hd (dumps j)) \<and> \<not> is_space (last (dumps j))"
    by (simp add: is_space_def code_point_def)
qed (use int_str_ends dumps_str_ends in auto)

lemma dumps_nonempty: "savable j \<Longrightarrow> dumps j \<noteq> []"
  using ascii.dumps_Cons by (metis list.distinct(1))

lemma parse_body_dumps:
  assumes "savable j" "\<not> contains ctype ''text/event-stream''"
  shows "parse_body ctype (dumps j) = Inr j"
  using assms by (simp add: parse_body_def strip_dumps dumps_nonempty json_loads_def loads_dumps)

definition answer :: "nat \<Rightarrow> json \<Rightarrow> json" where
  \<comment> \<open>the JSON-RPC envelope of a tool result\<close>
  "answer i result = JObj [(''jsonrpc'', JStr ''2.0''), (''id'', JInt (int i)), (''result'', result)]"

lemma call_answer:
  assumes net: "net \<lparr>rq_url = cl_url c, rq_headers = post_headers c,
      rq_body = dumps (JObj (rpc_payload (Suc (cl_id c)) ''tools/call''
        (Some (JObj [(''name'', JStr tool), (''arguments'', JObj args)]))))\<rparr>
      = HttpOk sid ctype (dumps (answer i result))"
    and ctype: "\<not> contains (lower (case ctype of None \<Rightarrow> [] | Some t \<Rightarrow> t)) ''text/event-stream''"
    and "savable result"
  shows "fst (call net tool args c) = tool_result (cl_name c) tool result"
proof -
  have h: "post_headers (c\<lparr>cl_id := k\<rparr>) = post_headers c" for k
    by (simp add: post_headers_def)
  have sav: "savable (answer i result)" using assms(3) by (simp add: answer_def)
  show ?thesis
    using net
    by (simp add: call_def rpc_def Let_def mbind_def post_def h parse_body_dumps [OF sav ctype])
      (simp add: rpc_result_def answer_def)
qed

end
