(* ===== verification/NetboxSync.thy ===== *)
theory NetboxSync
  imports PyHash PyNet McpHttp
begin

text \<open>
  The detector of \<open>netbox_sync.py\<close>, up to its comparators: the shape helpers, the fingerprint, the
  collectors for Omada and NetBox with their pagination, and the comparators of phase 1.

  A value taken from a payload without conversion stays a JSON value, with \<open>JNull\<close> for \<open>None\<close>;
  a converted one is an option. The row dictionaries of the collectors are records.
\<close>

section \<open>Helpers\<close>

definition norm_cidr :: "string option \<Rightarrow> string option" where
  "norm_cidr cidr =
     (case cidr of
        None \<Rightarrow> None
      | Some s \<Rightarrow>
          if s = [] then Some s
          else (case ip_network s of Some n \<Rightarrow> Some n | None \<Rightarrow> Some s))"

lemma size_map_of: "map_of d k = Some v \<Longrightarrow> size v < size (JObj d)"
proof (induction d)
  case (Cons kv d)
  then show ?case by (cases kv) (auto split: if_splits)
qed simp

definition list_keys :: "string list" where
  "list_keys = [''results'', ''data'', ''result'', ''list'', ''items'']"

function (sequential) as_list :: "string list \<Rightarrow> json \<Rightarrow> json list"
  and as_list_in :: "string list \<Rightarrow> dict \<Rightarrow> string list \<Rightarrow> json list" where
  "as_list keys (JList xs) = xs"
| "as_list keys (JObj d) = as_list_in keys d (keys @ list_keys)"
| "as_list keys _ = []"
| "as_list_in keys d [] = []"
| "as_list_in keys d (k # ks) =
     (case map_of d k of
        Some (JList v) \<Rightarrow> v
      | Some (JObj e) \<Rightarrow>
          (let nested = as_list keys (JObj e) in
           if nested \<noteq> [] then nested else as_list_in keys d ks)
      | _ \<Rightarrow> as_list_in keys d ks)"
  by pat_completeness auto
termination
  by (relation "measures
      [\<lambda>a. case a of Inl (_, j) \<Rightarrow> 2 * size j + 1 | Inr (_, d, _) \<Rightarrow> 2 * size (JObj d),
       \<lambda>a. case a of Inl _ \<Rightarrow> 0 | Inr (_, _, ks) \<Rightarrow> length ks]")
    (auto dest: size_map_of)

fun pick :: "json \<Rightarrow> string list \<Rightarrow> json" where
  "pick d [] = JNull"
| "pick d (k # ks) =
     (case d of
        JObj kvs \<Rightarrow> if get kvs k \<notin> {JNull, JStr []} then get kvs k else pick d ks
      | _ \<Rightarrow> pick d ks)"

definition fp :: "string \<Rightarrow> string \<Rightarrow> string" where
  "fp category key = take 12 (sha1_hex (encode (category @ ''|'' @ key)))"

record drift =
  fingerprint :: string
  category :: string
  key :: string
  reality :: string
  recorded :: string
  proposal :: string
  target :: "dict option"

definition Drift :: "string \<Rightarrow> string \<Rightarrow> string \<Rightarrow> string \<Rightarrow> string \<Rightarrow> dict option \<Rightarrow> drift" where
  "Drift cat k real rec prop tgt =
     \<lparr>fingerprint = fp cat k, category = cat, key = k, reality = real, recorded = rec,
      proposal = prop, target = tgt\<rparr>"

definition to_int :: "json \<Rightarrow> int option res" where
  \<comment> \<open>\<open>_int\<close>: \<open>TypeError\<close> and \<open>ValueError\<close> give \<open>None\<close>, an \<open>OverflowError\<close> escapes\<close>
  "to_int v =
     (case v of
        JInt i \<Rightarrow> Inr (Some i)
      | JBool b \<Rightarrow> Inr (Some (if b then 1 else 0))
      | JStr s \<Rightarrow> Inr (parse_int s)
      | JFloat t \<Rightarrow>
          (case float_int t of
             Inr i \<Rightarrow> Inr (Some i)
           | Inl (OverflowError m) \<Rightarrow> Inl (OverflowError m)
           | Inl _ \<Rightarrow> Inr None)
      | _ \<Rightarrow> Inr None)"

definition norm_mac :: "json \<Rightarrow> string option" where
  "norm_mac m = (if truthy m then Some (filter is_hex_lower (lower (py_str m))) else None)"

definition norm_subnet :: "json \<Rightarrow> string option" where
  "norm_subnet s = (if truthy s then Some (lower (strip (py_str s))) else None)"

definition bare_ip :: "json \<Rightarrow> string option" where
  "bare_ip a = (if truthy a then Some (lower (strip (before (CHR ''/'') (py_str a)))) else None)"

definition norm_name :: "json \<Rightarrow> string option" where
  "norm_name n = (if truthy n then Some (lower (strip (py_str n))) else None)"

definition opt_str :: "string option \<Rightarrow> string" where
  \<comment> \<open>\<open>'%s'\<close> of a string or \<open>None\<close>\<close>
  "opt_str s = (case s of None \<Rightarrow> ''None'' | Some t \<Rightarrow> t)"

definition opt_int_str :: "int option \<Rightarrow> string" where
  "opt_int_str i = (case i of None \<Rightarrow> ''None'' | Some j \<Rightarrow> int_str j)"

section \<open>Collectors\<close>

record omada_net =
  on_vid :: "int option"
  on_name :: json
  on_subnet :: "string option"

record omada_device =
  od_name :: json
  od_mac :: "string option"
  od_type :: json

record nb_vlan =
  nv_vid :: "int option"
  nv_name :: json

record nb_prefix =
  np_prefix :: "string option"
  np_vid :: "int option"
  np_description :: json

record nb_device =
  nd_name :: json

record nb_ip =
  ni_address :: json
  ni_dns_name :: json
  ni_description :: json

definition omada_row :: "json \<Rightarrow> omada_net option res" where
  "omada_row n =
     (let vid = pick n [''vlan'', ''vlanId'', ''vid''];
          name = pick n [''name'', ''networkName''];
          subnet = pick n [''subnet'', ''gatewaySubnet'', ''ipSubnet'', ''gateway'']
      in if vid = JNull \<and> name = JNull then Inr None
         else rbind (to_int vid) (\<lambda>i.
           Inr (Some \<lparr>on_vid = i, on_name = name, on_subnet = norm_subnet subnet\<rparr>)))"

definition collect_omada_networks :: "transport \<Rightarrow> omada_net list mcp" where
  "collect_omada_networks net =
     mbind (call net ''getLanNetworkListV2'' []) (\<lambda>data.
       mlift (rbind (rmap omada_row (as_list [''networkList''] data)) (\<lambda>rows.
         Inr (List.map_filter id rows))))"

definition omada_device_row :: "json \<Rightarrow> omada_device" where
  "omada_device_row d =
     \<lparr>od_name = pick d [''name'', ''showName''],
      od_mac = norm_mac (pick d [''mac'', ''macAddress'']),
      od_type = pick d [''type'', ''deviceType'']\<rparr>"

definition collect_omada_devices :: "transport \<Rightarrow> omada_device list mcp" where
  "collect_omada_devices net =
     mbind (call net ''getAllDeviceBySite'' []) (\<lambda>data.
       mlift (Inr (map omada_device_row (as_list [''deviceList''] data))))"

text \<open>
  Pagination. The loop ends when a page is empty or the answer has no \<open>next\<close>; a server may keep
  it running, so the result is an option, with \<open>None\<close> for a loop that does not end.
\<close>

definition page_args :: "string \<Rightarrow> json list \<Rightarrow> nat \<Rightarrow> dict" where
  "page_args object_type flds offset =
     [(''object_type'', JStr object_type), (''filters'', JObj []), (''limit'', JInt 100),
      (''offset'', JInt (int offset))]
     @ (if flds = [] then [] else [(''fields'', JList flds)])"

definition page_next :: "json \<Rightarrow> json" where
  "page_next data = (case data of JObj d \<Rightarrow> get d ''next'' | _ \<Rightarrow> JNull)"

partial_function (option) get_all_loop ::
  "transport \<Rightarrow> string \<Rightarrow> json list \<Rightarrow> json list \<Rightarrow> nat \<Rightarrow> client
    \<Rightarrow> (json list res \<times> client) option" where
  "get_all_loop net ty flds out offset c =
     (case call net ''netbox_get_objects'' (page_args ty flds offset) c of
        (Inl e, c') \<Rightarrow> Some (Inl e, c')
      | (Inr data, c') \<Rightarrow>
          (let page = as_list [] data in
           if \<not> truthy (page_next data) \<or> page = [] then Some (Inr (out @ page), c')
           else get_all_loop net ty flds (out @ page) (offset + 100) c'))"

definition netbox_get_all ::
  "transport \<Rightarrow> string \<Rightarrow> json list \<Rightarrow> client \<Rightarrow> (json list res \<times> client) option" where
  "netbox_get_all net ty flds c = get_all_loop net ty flds [] 0 c"

definition collect_rows ::
  "(json \<Rightarrow> 'a res) \<Rightarrow> string \<Rightarrow> transport \<Rightarrow> client \<Rightarrow> ('a list res \<times> client) option" where
  \<comment> \<open>the loop of a NetBox collector: one row per object\<close>
  "collect_rows row ty net c =
     map_option (\<lambda>(r, c'). (rbind r (rmap row), c')) (netbox_get_all net ty [] c)"

definition vlan_row :: "json \<Rightarrow> nb_vlan res" where
  "vlan_row v = rbind (to_int (pick v [''vid''])) (\<lambda>i.
     Inr \<lparr>nv_vid = i, nv_name = pick v [''name'']\<rparr>)"

definition prefix_row :: "json \<Rightarrow> nb_prefix res" where
  "prefix_row p =
     (let vlan = (case p of JObj d \<Rightarrow> get d ''vlan'' | _ \<Rightarrow> JNull) in
      rbind (if is_dict vlan then to_int (pick vlan [''vid'']) else Inr None) (\<lambda>vid.
        Inr \<lparr>np_prefix = norm_subnet (pick p [''prefix'']), np_vid = vid,
             np_description = pick p [''description'']\<rparr>))"

definition device_row :: "json \<Rightarrow> nb_device res" where
  "device_row d = Inr \<lparr>nd_name = pick d [''name'']\<rparr>"

definition ip_row :: "json \<Rightarrow> nb_ip res" where
  "ip_row p = Inr \<lparr>ni_address = pick p [''address''], ni_dns_name = pick p [''dns_name''],
     ni_description = pick p [''description'']\<rparr>"

definition collect_netbox_vlans where
  "collect_netbox_vlans = collect_rows vlan_row ''ipam.vlan''"

definition collect_netbox_prefixes where
  "collect_netbox_prefixes = collect_rows prefix_row ''ipam.prefix''"

definition collect_netbox_devices where
  "collect_netbox_devices = collect_rows device_row ''dcim.device''"

definition collect_netbox_ips where
  "collect_netbox_ips = collect_rows ip_row ''ipam.ipaddress''"

section \<open>Comparators\<close>

definition vlans_by_vid :: "nb_vlan list \<Rightarrow> int \<Rightarrow> nb_vlan option" where
  \<comment> \<open>the dictionary comprehension: the last VLAN with an id wins\<close>
  "vlans_by_vid vs vid =
     foldl (\<lambda>acc v. if nv_vid v = Some vid then Some v else acc) None vs"

definition vlan_drift :: "nb_vlan list \<Rightarrow> omada_net \<Rightarrow> drift list" where
  "vlan_drift nb_vlans n =
     (case on_vid n of
        None \<Rightarrow> []
      | Some vid \<Rightarrow>
          (let v = int_str vid; name = py_str (on_name n) in
           case vlans_by_vid nb_vlans vid of
             None \<Rightarrow>
               [Drift ''vlan-missing-in-netbox'' (''vid='' @ v)
                  (''VLAN '' @ v @ '' '' @ sq name @ '' is live in Omada'')
                  (''no VLAN with vid='' @ v @ '' in NetBox'')
                  (''HUMAN-ONLY: add VLAN vid='' @ v @ '' name='' @ sq name @ '' to NetBox'') None]
           | Some nb \<Rightarrow>
               if norm_name (nv_name nb) \<noteq> norm_name (on_name n)
               then [Drift ''vlan-name-mismatch'' (''vid='' @ v)
                  (''Omada names VLAN '' @ v @ '' '' @ sq name)
                  (''NetBox names it '' @ sq (py_str (nv_name nb)))
                  (''HUMAN-ONLY: rename NetBox VLAN vid='' @ v @ '' to '' @ sq name
                   @ '' (or correct Omada if NetBox is right)'') None]
               else []))"

definition compare_vlans :: "omada_net list \<Rightarrow> nb_vlan list \<Rightarrow> drift list" where
  "compare_vlans omada_nets nb_vlans = concat (map (vlan_drift nb_vlans) omada_nets)"

definition nonempty :: "string option \<Rightarrow> bool" where
  "nonempty s \<longleftrightarrow> (case s of None \<Rightarrow> False | Some t \<Rightarrow> t \<noteq> [])"

definition prefix_drift :: "nb_prefix list \<Rightarrow> omada_net \<Rightarrow> drift list" where
  "prefix_drift nb_prefixes n =
     (let sub = on_subnet n; v = opt_int_str (on_vid n); s = opt_str sub;
          nb_subnets = map (norm_cidr \<circ> np_prefix) (filter (nonempty \<circ> np_prefix) nb_prefixes);
          byvid = (if on_vid n = None then [] else filter (\<lambda>p. np_vid p = on_vid n) nb_prefixes)
      in if \<not> nonempty sub \<or> norm_cidr sub \<in> set nb_subnets then []
         else if byvid \<noteq> [] \<and> \<not> list_ex (\<lambda>p. norm_cidr (np_prefix p) = norm_cidr sub) byvid
         then [Drift ''prefix-mismatch'' (''vid='' @ v)
                (''Omada VLAN '' @ v @ '' subnet '' @ s)
                (''NetBox prefix(es) for vid='' @ v @ '': ''
                 @ join '', '' (map (opt_str \<circ> np_prefix) (filter (nonempty \<circ> np_prefix) byvid)))
                (''HUMAN-ONLY: reconcile NetBox prefix for vid='' @ v @ '' to '' @ s) None]
         else if byvid = []
         then [Drift ''prefix-missing-in-netbox'' (''subnet='' @ s)
                (''Omada VLAN '' @ v @ '' uses subnet '' @ s)
                ''no matching prefix in NetBox''
                (''HUMAN-ONLY: add prefix '' @ s @ '' (vlan vid='' @ v @ '') to NetBox'') None]
         else [])"

definition compare_prefixes :: "omada_net list \<Rightarrow> nb_prefix list \<Rightarrow> drift list" where
  "compare_prefixes omada_nets nb_prefixes = concat (map (prefix_drift nb_prefixes) omada_nets)"

definition device_drift :: "nb_device list \<Rightarrow> omada_device \<Rightarrow> drift list" where
  "device_drift nb_devices d =
     (let nm = norm_name (od_name d); name = py_str (od_name d);
          nb_names = map (norm_name \<circ> nd_name) (filter (truthy \<circ> nd_name) nb_devices)
      in if nonempty nm \<and> nm \<notin> set nb_names
         then [Drift ''device-missing-in-netbox'' (''name='' @ opt_str nm)
                (''Omada manages device '' @ sq name @ '' ('' @ py_str (od_type d) @ '', mac ''
                 @ opt_str (od_mac d) @ '')'')
                (''no device named '' @ sq name @ '' in NetBox'')
                (''HUMAN-ONLY: add device '' @ sq name @ '' to NetBox DCIM'') None]
         else [])"

definition compare_devices :: "omada_device list \<Rightarrow> nb_device list \<Rightarrow> drift list" where
  "compare_devices omada_devices nb_devices = concat (map (device_drift nb_devices) omada_devices)"

section \<open>Normal forms\<close>

text \<open>
  The contract of a normaliser: an optional text whose normal form is its own normal form. Keys
  built from normal forms are stable under a second pass.
\<close>

locale normaliser =
  fixes norm :: "json \<Rightarrow> string option"
  assumes norm_stable: "norm j = Some s \<Longrightarrow> s \<noteq> [] \<Longrightarrow> norm (JStr s) = Some s"
    and norm_falsy: "\<not> truthy j \<Longrightarrow> norm j = None"
begin

lemma norm_eq_iff_same_key:
  assumes "norm i = Some s" "norm j = Some t" "s \<noteq> []" "t \<noteq> []"
  shows "norm (JStr s) = norm (JStr t) \<longleftrightarrow> norm i = norm j"
  using assms norm_stable by simp

lemma norm_SomeD: "norm j = Some s \<Longrightarrow> truthy j"
  using norm_falsy by force

end

lemma lower_strip_idem: "lower (strip (lower (strip s))) = lower (strip s)"
  by (simp add: strip_lower)

interpretation subnet_norm: normaliser norm_subnet
  by unfold_locales (auto simp: norm_subnet_def lower_strip_idem split: if_splits)

interpretation name_norm: normaliser norm_name
  by unfold_locales (auto simp: norm_name_def lower_strip_idem split: if_splits)

lemma slash_to_lower: "to_lower c = CHR ''/'' \<longleftrightarrow> c = CHR ''/''"
proof
  assume "to_lower c = CHR ''/''"
  then have "code_point (to_lower c) = 47" by (simp add: code_point_def)
  then have "code_point c = 47" by (auto simp: to_lower_def Let_def split: if_splits)
  then have "code_point c = code_point (CHR ''/'')" by (simp add: code_point_def)
  then show "c = CHR ''/''" by (simp only: code_point_inj)
qed (simp add: to_lower_def code_point_def)

lemma set_strip: "set (strip s) \<subseteq> set s"
  by (auto simp: strip_def lstrip_def rstrip_def dest!: set_dropWhileD)

lemma bare_ip_no_slash: "bare_ip j = Some s \<Longrightarrow> CHR ''/'' \<notin> set s"
  using subsetD [OF set_strip, of "CHR ''/''" "before (CHR ''/'') (py_str j)"]
  by (auto simp: bare_ip_def lower_def image_iff slash_to_lower
      eq_commute [of "CHR ''/''" "to_lower c" for c] split: if_splits)

interpretation bare_norm: normaliser bare_ip
proof
  fix j s assume *: "bare_ip j = Some s" "s \<noteq> []"
  then have "before (CHR ''/'') s = s" by (simp add: bare_ip_no_slash)
  moreover from * have "lower (strip s) = s"
    by (auto simp: bare_ip_def lower_strip_idem split: if_splits)
  ultimately show "bare_ip (JStr s) = Some s" using *(2) by (simp add: bare_ip_def)
qed (simp add: bare_ip_def)

lemma norm_mac_hex: "norm_mac j = Some m \<Longrightarrow> list_all is_hex_lower m"
  by (auto simp: norm_mac_def list_all_iff split: if_splits)

section \<open>Fingerprints\<close>

lemma Drift_simps [simp]:
  "fingerprint (Drift c k r n p t) = fp c k" "category (Drift c k r n p t) = c"
  "key (Drift c k r n p t) = k" "reality (Drift c k r n p t) = r" "recorded (Drift c k r n p t) = n"
  "proposal (Drift c k r n p t) = p" "target (Drift c k r n p t) = t"
  by (simp_all add: Drift_def)

text \<open>
  A fingerprint is always twelve lower-case hexadecimal characters, whatever the
  category and the key hold: it never contains a comment sign or white space, so a line of the
  acknowledgement file can spell it.
\<close>

theorem fp_shape: "length (fp cat k) = 12 \<and> list_all is_hex_lower (fp cat k)"
proof -
  have "list_all is_hex_lower (sha1_hex bs)" for bs
    by (auto simp: list_all_iff intro: sha1_hex_chars)
  then show ?thesis
    by (auto simp: fp_def list_all_iff dest!: in_set_takeD)
qed

lemma sha1_block_gateway:
  "sha1_block sha1_init
     [0x6E657462, 0x6F782D64, 0x6E732D6E, 0x616D652D, 0x7374616C, 0x657C6970, 0x3D313932,
      0x2E313638, 0x2E312E31, 0x80000000, 0, 0, 0, 0, 0, 288] =
   (0x5D54A222, 0x61BB45C5, 0xC5B042EA, 0x58F32BF1, 0x5167BBDB)"
  by (simp add: sha1_block_eval)

lemma fp_gateway: "fp ''netbox-dns-name-stale'' ''ip=192.168.1.1'' = ''5d54a22261bb''"
proof -
  have "be_words (pad (encode ''netbox-dns-name-stale|ip=192.168.1.1'')) =
     [0x6E657462, 0x6F782D64, 0x6E732D6E, 0x616D652D, 0x7374616C, 0x657C6970, 0x3D313932,
      0x2E313638, 0x2E312E31, 0x80000000, 0, 0, 0, 0, 0, 288]"
    by (simp add: sha1_input_eval)
  from sha1_hex_one_block [OF this _ sha1_block_gateway] show ?thesis
    by (simp add: fp_def hex_word_def hex_digit_def char_of_eq_iff)
qed

section \<open>Contract of a comparator\<close>

text \<open>
  What every drift promises, whichever comparator made it: it carries the fingerprint of its own
  category and key, leaves the fix to a human, and has a writable target only in the two
  categories that the gated write path knows.
\<close>

definition target_categories :: "string set" where
  "target_categories = {''netbox-dns-name-stale'', ''lb-ip-missing-in-netbox''}"

definition drift_ok :: "drift \<Rightarrow> bool" where
  "drift_ok d \<longleftrightarrow> fingerprint d = fp (category d) (key d)
     \<and> startswith (proposal d) ''HUMAN-ONLY: ''
     \<and> (target d \<noteq> None \<longrightarrow> category d \<in> target_categories)"

text \<open>
  A comparator reads a list of live items against a record, item by item. Some of them raise on a
  malformed item, which makes the whole comparison raise.
\<close>

locale fallible_comparator =
  fixes item_drifts :: "'rec \<Rightarrow> 'live \<Rightarrow> drift list res"
    and compare :: "'live list \<Rightarrow> 'rec \<Rightarrow> drift list res"
    and categories :: "string set"
  assumes itemwise: "compare ls r = rbind (rmap (item_drifts r) ls) (\<lambda>dss. Inr (concat dss))"
    and item_ok: "item_drifts r l = Inr ds \<Longrightarrow> d \<in> set ds \<Longrightarrow> drift_ok d"
    and item_category: "item_drifts r l = Inr ds \<Longrightarrow> d \<in> set ds \<Longrightarrow> category d \<in> categories"
begin

lemma compare_member:
  assumes "compare ls r = Inr ds" "d \<in> set ds"
  shows "\<exists>l \<in> set ls. \<exists>es. item_drifts r l = Inr es \<and> d \<in> set es"
proof -
  from assms(1) obtain dss where "rmap (item_drifts r) ls = Inr dss" "ds = concat dss"
    by (auto simp: itemwise rbind_Inr_iff)
  then show ?thesis
    using assms(2) by (induction ls arbitrary: dss ds) (fastforce simp: rbind_Inr_iff)+
qed

lemma compare_ok: "compare ls r = Inr ds \<Longrightarrow> d \<in> set ds \<Longrightarrow> drift_ok d"
  using compare_member item_ok by blast

lemma compare_category: "compare ls r = Inr ds \<Longrightarrow> d \<in> set ds \<Longrightarrow> category d \<in> categories"
  using compare_member item_category by blast

lemma compare_Nil: "compare [] r = Inr []"
  by (simp add: itemwise)

lemma compare_item_error:
  "(\<And>k. k \<in> set ks \<Longrightarrow> \<exists>ds. item_drifts r k = Inr ds) \<Longrightarrow> item_drifts r l = Inl e
    \<Longrightarrow> compare (ks @ l # ls) r = Inl e"
  by (induction ks) (force simp: itemwise rbind_def split: sum.splits)+

end

locale comparator =
  fixes item_drifts :: "'rec \<Rightarrow> 'live \<Rightarrow> drift list"
    and compare :: "'live list \<Rightarrow> 'rec \<Rightarrow> drift list"
    and categories :: "string set"
  assumes itemwise: "compare ls r = concat (map (item_drifts r) ls)"
    and item_ok: "d \<in> set (item_drifts r l) \<Longrightarrow> drift_ok d"
    and item_category: "d \<in> set (item_drifts r l) \<Longrightarrow> category d \<in> categories"
begin

lemma in_compare_iff: "d \<in> set (compare ls r) \<longleftrightarrow> (\<exists>l \<in> set ls. d \<in> set (item_drifts r l))"
  by (simp add: itemwise)

lemma rmap_total: "rmap (\<lambda>l. Inr (f l)) ls = Inr (map f ls)"
  by (induction ls) simp_all

end

text \<open>A comparator that never raises is one that may.\<close>

sublocale comparator \<subseteq> total: fallible_comparator
    "\<lambda>r l. Inr (item_drifts r l)" "\<lambda>ls r. Inr (compare ls r)" categories
  by unfold_locales (auto simp: itemwise rmap_total item_ok item_category)

lemma human_only_text [simp]: "startswith (''HUMAN-ONLY: '' @ s) ''HUMAN-ONLY: ''"
  by (rule startswith_append)

lemma human_only_chars [simp]:
  "startswith (CHR ''H'' # CHR ''U'' # CHR ''M'' # CHR ''A'' # CHR ''N'' # CHR ''-'' # CHR ''O'' #
     CHR ''N'' # CHR ''L'' # CHR ''Y'' # CHR '':'' # CHR '' '' # s) ''HUMAN-ONLY: ''"
  using human_only_text [of s] by simp

lemma Drift_ok [simp]:
  "drift_ok (Drift c k r n p t) \<longleftrightarrow>
     startswith p ''HUMAN-ONLY: '' \<and> (t \<noteq> None \<longrightarrow> c \<in> target_categories)"
  by (simp add: drift_ok_def)

interpretation vlan_cmp: comparator vlan_drift compare_vlans
    "{''vlan-missing-in-netbox'', ''vlan-name-mismatch''}"
  by unfold_locales
    (auto simp: compare_vlans_def vlan_drift_def Let_def split: option.splits if_splits)

interpretation prefix_cmp: comparator prefix_drift compare_prefixes
    "{''prefix-mismatch'', ''prefix-missing-in-netbox''}"
  by unfold_locales
    (auto simp: compare_prefixes_def prefix_drift_def Let_def split: if_splits)

interpretation device_cmp: comparator device_drift compare_devices "{''device-missing-in-netbox''}"
  by unfold_locales
    (auto simp: compare_devices_def device_drift_def Let_def split: if_splits)

section \<open>VLANs\<close>

lemma vlans_by_vid_None: "vlans_by_vid vs i = None \<longleftrightarrow> Some i \<notin> nv_vid ` set vs"
  by (induction vs rule: rev_induct) (auto simp: vlans_by_vid_def)

lemma vlans_by_vid_Some: "vlans_by_vid vs i = Some v \<Longrightarrow> v \<in> set vs \<and> nv_vid v = Some i"
  by (induction vs rule: rev_induct) (auto simp: vlans_by_vid_def split: if_splits)

lemma vlan_drift_silent:
  "vlan_drift vs n = [] \<longleftrightarrow> (case on_vid n of None \<Rightarrow> True | Some i \<Rightarrow>
     (case vlans_by_vid vs i of None \<Rightarrow> False
      | Some v \<Rightarrow> norm_name (nv_name v) = norm_name (on_name n)))"
  by (simp add: vlan_drift_def Let_def split: option.splits)

lemma vlan_missing_iff:
  "d \<in> set (vlan_drift vs n) \<and> category d = ''vlan-missing-in-netbox'' \<and> key d = ''vid='' @ int_str i
    \<Longrightarrow> on_vid n = Some i \<and> vlans_by_vid vs i = None"
  by (cases "on_vid n"; cases "vlans_by_vid vs (the (on_vid n))")
    (auto simp: vlan_drift_def Let_def split: if_splits)

text \<open>
  The VLAN comparator reports a VLAN id as missing exactly when Omada serves it and
  NetBox has no VLAN with that id.
\<close>

theorem compare_vlans_missing_exact:
  "(''vlan-missing-in-netbox'', ''vid='' @ int_str i)
     \<in> (\<lambda>d. (category d, key d)) ` set (compare_vlans omada nb)
   \<longleftrightarrow> Some i \<in> on_vid ` set omada \<and> Some i \<notin> nv_vid ` set nb"
  (is "?L \<longleftrightarrow> ?R")
proof
  assume ?L
  then obtain n d where "n \<in> set omada" "d \<in> set (vlan_drift nb n)"
    "category d = ''vlan-missing-in-netbox''" "key d = ''vid='' @ int_str i"
    by (auto simp: vlan_cmp.in_compare_iff)
  then show ?R using vlan_missing_iff [of d nb n i] vlans_by_vid_None by force
next
  assume R: ?R
  then obtain n where n: "n \<in> set omada" "on_vid n = Some i" by force
  from R have "vlans_by_vid nb i = None" by (simp add: vlans_by_vid_None)
  with n(2) obtain d where "d \<in> set (vlan_drift nb n)"
    "category d = ''vlan-missing-in-netbox''" "key d = ''vid='' @ int_str i"
    by (simp add: vlan_drift_def Let_def)
  with n(1) show ?L by (force simp: vlan_cmp.in_compare_iff)
qed

text \<open>
  Against a NetBox record with one VLAN per id, the VLAN comparator is silent exactly
  when every VLAN of Omada is recorded under a name that is the same up to case and outer white
  space.
\<close>

theorem compare_vlans_silent_iff:
  assumes "distinct (map nv_vid nb)"
  shows "compare_vlans omada nb = [] \<longleftrightarrow>
     (\<forall>n \<in> set omada. on_vid n \<noteq> None \<longrightarrow>
        (\<exists>v \<in> set nb. nv_vid v = on_vid n \<and> norm_name (nv_name v) = norm_name (on_name n)))"
proof -
  have look: "vlans_by_vid nb i = Some v" if "v \<in> set nb" "nv_vid v = Some i" for v i
  proof (cases "vlans_by_vid nb i")
    case None
    with that show ?thesis by (force simp: vlans_by_vid_None)
  next
    case (Some w)
    with vlans_by_vid_Some [OF this] that assms show ?thesis
      by (metis (mono_tags) distinct_map inj_onD)
  qed
  have "vlan_drift nb n = [] \<longleftrightarrow> (on_vid n \<noteq> None \<longrightarrow>
      (\<exists>v \<in> set nb. nv_vid v = on_vid n \<and> norm_name (nv_name v) = norm_name (on_name n)))" for n
  proof (cases "on_vid n")
    case (Some i)
    show ?thesis
    proof (cases "vlans_by_vid nb i")
      case None
      then have "Some i \<notin> nv_vid ` set nb" by (simp add: vlans_by_vid_None)
      with Some None show ?thesis by (force simp: vlan_drift_silent)
    next
      case v: (Some v)
      with vlans_by_vid_Some [OF v] look Some show ?thesis
        by (fastforce simp: vlan_drift_silent)
    qed
  qed (simp add: vlan_drift_silent)
  then show ?thesis by (simp add: vlan_cmp.itemwise)
qed

theorem compare_vlans_silent_iff_witness:
  "compare_vlans [\<lparr>on_vid = Some 30, on_name = JStr ''IoT'', on_subnet = None\<rparr>]
     [\<lparr>nv_vid = Some 30, nv_name = JStr '' iot''\<rparr>] = []"
  by (subst compare_vlans_silent_iff)
    (simp_all add: norm_name_def str_eval)

section \<open>Prefixes\<close>

lemma cidr_str_nonempty [simp]: "cidr_str a p \<noteq> []"
  by (simp add: cidr_str_def)

lemma v6_net_cidr: "v6_net a pf = Some t \<Longrightarrow> \<exists>b p. t = cidr_str b p"
  by (auto simp: v6_net_def Let_def split: option.splits prod.splits)

lemma ip_network_nonempty:
  assumes "ip_network s = Some t"
  shows "t \<noteq> []"
proof (cases "ipv4_network s")
  case None
  with assms obtain a pf where "v6_net a pf = Some t"
    by (auto simp: ip_network_def ipv6_network_def split: list.splits)
  then show ?thesis using v6_net_cidr by (metis cidr_str_nonempty)
next
  case (Some n)
  with assms show ?thesis by (simp add: ip_network_def) (metis ipv4_networkE cidr_str_nonempty)
qed

lemma nonempty_norm_cidr [simp]: "nonempty (norm_cidr s) \<longleftrightarrow> nonempty s"
  by (auto simp: nonempty_def norm_cidr_def ip_network_nonempty split: option.splits)

lemma prefix_drift_silent:
  "prefix_drift ps n = [] \<longleftrightarrow> \<not> nonempty (on_subnet n)
     \<or> norm_cidr (on_subnet n) \<in> (norm_cidr \<circ> np_prefix) ` {p \<in> set ps. nonempty (np_prefix p)}"
proof (cases "nonempty (on_subnet n) \<and>
    norm_cidr (on_subnet n) \<notin> (norm_cidr \<circ> np_prefix) ` {p \<in> set ps. nonempty (np_prefix p)}")
  case True
  then have "norm_cidr (np_prefix p) \<noteq> norm_cidr (on_subnet n)" if "p \<in> set ps" for p
    using that nonempty_norm_cidr [of "np_prefix p"] nonempty_norm_cidr [of "on_subnet n"] by force
  then show ?thesis
    using True by (auto simp: prefix_drift_def Let_def list_ex_iff)
qed (auto simp: prefix_drift_def)

lemma norm_cidr_v4:
  assumes "n < 4294967296" "p \<le> 32"
  shows "norm_cidr (Some (cidr_str (v4_str n) p)) = Some (cidr_str (v4_str (clear_host (32 - p) n)) p)"
  using ipv4_network_cidr [OF assms] by (simp add: norm_cidr_def ip_network_def)

lemma same_network_iff:
  assumes "a < 4294967296" "b < 4294967296" "p \<le> 32" "q \<le> 32"
  shows "norm_cidr (Some (cidr_str (v4_str a) p)) = norm_cidr (Some (cidr_str (v4_str b) q))
    \<longleftrightarrow> p = q \<and> a div 2 ^ (32 - p) = b div 2 ^ (32 - p)"
  using assms by (auto simp: norm_cidr_v4 clear_host_less cidr_str_inj v4_str_inj clear_host_eq_iff)

text \<open>
  Host bits do not matter to the prefix comparator: for an Omada subnet written as
  the IPv4 address \<open>a\<close> with prefix length \<open>p\<close>, against a NetBox record of IPv4 prefixes, it is
  silent exactly when some recorded prefix has the same length and agrees with \<open>a\<close> on the network
  bits.
\<close>

theorem compare_prefixes_host_bits:
  assumes "on_subnet n = Some (cidr_str (v4_str a) p)" "a < 4294967296" "p \<le> 32"
    and "map np_prefix nb = map (\<lambda>(b, q). Some (cidr_str (v4_str b) q)) nets"
    and "\<forall>(b, q) \<in> set nets. b < 4294967296 \<and> q \<le> 32"
  shows "compare_prefixes [n] nb = [] \<longleftrightarrow> (\<exists>b. (b, p) \<in> set nets \<and> b div 2 ^ (32 - p) = a div 2 ^ (32 - p))"
proof -
  let ?cidr = "\<lambda>(b, q). Some (cidr_str (v4_str b) q)"
  have pref: "np_prefix ` set nb = ?cidr ` set nets"
    using arg_cong [OF assms(4), of set] by simp
  then have "nonempty (np_prefix x)" if "x \<in> set nb" for x
    using that by (auto simp: nonempty_def dest!: equalityD1 subsetD [where c = "np_prefix x"])
  then have "(norm_cidr \<circ> np_prefix) ` {x \<in> set nb. nonempty (np_prefix x)} = norm_cidr ` ?cidr ` set nets"
    unfolding pref [symmetric] by (auto simp: image_iff)
  then have "compare_prefixes [n] nb = [] \<longleftrightarrow> norm_cidr (?cidr (a, p)) \<in> norm_cidr ` ?cidr ` set nets"
    using assms(1) by (simp add: prefix_cmp.itemwise prefix_drift_silent nonempty_def)
  also have "\<dots> \<longleftrightarrow> (\<exists>(b, q) \<in> set nets. norm_cidr (?cidr (a, p)) = norm_cidr (?cidr (b, q)))"
    by (force simp: image_iff)
  also have "\<dots> \<longleftrightarrow> (\<exists>(b, q) \<in> set nets. p = q \<and> a div 2 ^ (32 - p) = b div 2 ^ (32 - p))"
    using assms(2,3,5) by (intro bex_cong) (auto simp: same_network_iff)
  also have "\<dots> \<longleftrightarrow> (\<exists>b. (b, p) \<in> set nets \<and> b div 2 ^ (32 - p) = a div 2 ^ (32 - p))"
    by (auto simp: Bex_def split_paired_Ex)
  finally show ?thesis .
qed

text \<open>The subnet of the source's own example, with host bits, is not drift.\<close>

theorem compare_prefixes_host_bits_witness:
  "compare_prefixes [\<lparr>on_vid = Some 1, on_name = JStr ''LAN'', on_subnet = Some ''192.168.1.3/16''\<rparr>]
     [\<lparr>np_prefix = Some ''192.168.0.0/16'', np_vid = Some 1, np_description = JNull\<rparr>] = []"
proof -
  have "cidr_str (v4_str 3232235779) 16 = ''192.168.1.3/16''"
    "cidr_str (v4_str 3232235520) 16 = ''192.168.0.0/16''"
    by (simp_all add: cidr_str_def v4_str_def py_simps)
  with compare_prefixes_host_bits [where a = 3232235779 and p = 16 and nets = "[(3232235520, 16)]"]
  show ?thesis by simp
qed

text \<open>
  Normalising an IPv4 network is idempotent, and two IPv4 CIDRs have the same normal
  form exactly when they denote the same network.
\<close>

theorem norm_cidr_normal_form:
  assumes "a < 4294967296" "b < 4294967296" "p \<le> 32" "q \<le> 32"
  shows "norm_cidr (norm_cidr (Some (cidr_str (v4_str a) p))) = norm_cidr (Some (cidr_str (v4_str a) p))
    \<and> (norm_cidr (Some (cidr_str (v4_str a) p)) = norm_cidr (Some (cidr_str (v4_str b) q))
        \<longleftrightarrow> p = q \<and> a div 2 ^ (32 - p) = b div 2 ^ (32 - p))"
  using assms by (simp add: same_network_iff) (simp add: norm_cidr_v4 clear_host_less)

theorem norm_cidr_normal_form_witness:
  "norm_cidr (Some (cidr_str (v4_str 170721281) 24)) = norm_cidr (Some (cidr_str (v4_str 170721280) 24))"
  using norm_cidr_normal_form [of 170721281 170721280 24 24] by simp

section \<open>Pagination\<close>

text \<open>
  What the documentation of the \<open>netbox_get_objects\<close> tool promises of a collection \<open>objs\<close>: at an
  offset the next hundred objects, and a \<open>next\<close> link exactly when more follow.
\<close>

definition serves_pages :: "transport \<Rightarrow> string \<Rightarrow> string \<Rightarrow> json list \<Rightarrow> bool" where
  "serves_pages net url ty objs \<longleftrightarrow>
     (\<forall>c offset. cl_url c = url \<longrightarrow>
        (\<exists>data. fst (call net ''netbox_get_objects'' (page_args ty [] offset) c) = Inr data
           \<and> as_list [] data = take 100 (drop offset objs)
           \<and> (truthy (page_next data) \<longleftrightarrow> offset + 100 < length objs)))"

lemma get_all_loop_page:
  assumes "call net ''netbox_get_objects'' (page_args ty flds offset) c = (Inr data, c')"
  shows "get_all_loop net ty flds out offset c =
     (if \<not> truthy (page_next data) \<or> as_list [] data = [] then Some (Inr (out @ as_list [] data), c')
      else get_all_loop net ty flds (out @ as_list [] data) (offset + 100) c')"
  by (subst get_all_loop.simps) (simp add: assms Let_def)

lemma get_all_loop_serves:
  assumes "serves_pages net url ty objs" "cl_url c = url" "offset \<le> length objs"
  shows "\<exists>c'. get_all_loop net ty [] out offset c = Some (Inr (out @ drop offset objs), c')
    \<and> cl_url c' = url"
  using assms(2,3)
proof (induction "length objs - offset" arbitrary: c out offset rule: less_induct)
  case less
  obtain data where data: "fst (call net ''netbox_get_objects'' (page_args ty [] offset) c) = Inr data"
    "as_list [] data = take 100 (drop offset objs)"
    "truthy (page_next data) \<longleftrightarrow> offset + 100 < length objs"
    using assms(1) less.prems(1) unfolding serves_pages_def by blast
  obtain c' where c': "call net ''netbox_get_objects'' (page_args ty [] offset) c = (Inr data, c')"
    using data(1) by (metis prod.collapse)
  have url: "cl_url c' = url" using call_state(2) [of net _ _ c] less.prems(1) c' by (metis snd_conv)
  show ?case
  proof (cases "offset + 100 < length objs")
    case True
    then have ne: "take 100 (drop offset objs) \<noteq> []" by auto
    have split: "drop offset objs = take 100 (drop offset objs) @ drop (offset + 100) objs"
      by (metis add.commute append_take_drop_id drop_drop)
    from True have "length objs - (offset + 100) < length objs - offset" by simp
    from less.hyps [OF this url, of "out @ take 100 (drop offset objs)"] True
    show ?thesis using data(2,3) ne split by (simp add: get_all_loop_page [OF c'])
  next
    case False
    then have "take 100 (drop offset objs) = drop offset objs" by simp
    with False data(2,3) url show ?thesis by (simp add: get_all_loop_page [OF c'])
  qed
qed

text \<open>
  Property C25. Against a server that pages as documented, the pagination loop ends and returns
  every object of the type, in order and without repetition, whatever their number.
\<close>

theorem netbox_get_all_complete:
  assumes "serves_pages net (cl_url c) ty objs"
  shows "\<exists>c'. netbox_get_all net ty [] c = Some (Inr objs, c')"
  using get_all_loop_serves [OF assms refl, of 0 "[]"] by (auto simp: netbox_get_all_def)

text \<open>A server that pages as documented: it reads the offset off the request.\<close>

definition page_doc :: "json list \<Rightarrow> nat \<Rightarrow> json" where
  "page_doc objs offset = JObj
     [(''count'', JInt (int (length objs))),
      (''next'', if offset + 100 < length objs then JStr ''next'' else JNull),
      (''results'', JList (take 100 (drop offset objs)))]"

definition text_result :: "json \<Rightarrow> json" where
  "text_result v = JObj [(''content'', JList [JObj [(''type'', JStr ''text''), (''text'', JStr (dumps v))]])]"

definition request_args :: "http_request \<Rightarrow> dict" where
  "request_args rq =
     (case loads (rq_body rq) of
        Some (JObj m) \<Rightarrow>
          (case get m ''params'' of
             JObj p \<Rightarrow> (case get p ''arguments'' of JObj a \<Rightarrow> a | _ \<Rightarrow> [])
           | _ \<Rightarrow> [])
      | _ \<Rightarrow> [])"

definition page_server :: "json list \<Rightarrow> transport" where
  "page_server objs rq =
     (case get (request_args rq) ''offset'' of
        JInt i \<Rightarrow> HttpOk None (Some ''application/json'')
          (dumps (answer 1 (text_result (page_doc objs (nat i)))))
      | _ \<Rightarrow> HttpFail 400 [])"

lemma tool_result_text: "savable v \<Longrightarrow> tool_result name tool (text_result v) = Inr v"
  by (simp add: tool_result_def text_result_def first_text_def tool_payload_def strip_dumps
      dumps_nonempty loads_dumps)

lemma request_args_call:
  assumes "savable (JObj args)"
  shows "request_args \<lparr>rq_url = u, rq_headers = h,
      rq_body = dumps (JObj (rpc_payload i ''tools/call''
        (Some (JObj [(''name'', JStr tool), (''arguments'', JObj args)]))))\<rparr> = args"
proof -
  let ?p = "JObj (rpc_payload i ''tools/call''
    (Some (JObj [(''name'', JStr tool), (''arguments'', JObj args)])))"
  have "loads (dumps ?p) = Some ?p"
    by (rule loads_dumps) (use assms in \<open>simp add: rpc_payload_def\<close>)
  then show ?thesis by (simp add: request_args_def del: dumps_by.simps) (simp add: rpc_payload_def)
qed

lemma page_server_serves:
  assumes "\<forall>j \<in> set objs. savable j"
  shows "serves_pages (page_server objs) url ty objs"
  unfolding serves_pages_def
proof (intro allI impI)
  fix c :: client and offset :: nat
  let ?doc = "page_doc objs offset"
  have doc: "savable ?doc"
    using assms by (auto simp: page_doc_def dest: in_set_takeD in_set_dropD)
  have args: "savable (JObj (page_args ty [] offset))" by (simp add: page_args_def)
  have "fst (call (page_server objs) ''netbox_get_objects'' (page_args ty [] offset) c) =
      tool_result (cl_name c) ''netbox_get_objects'' (text_result ?doc)"
  proof (rule call_answer [where i = 1])
    show "page_server objs \<lparr>rq_url = cl_url c, rq_headers = post_headers c,
        rq_body = dumps (JObj (rpc_payload (Suc (cl_id c)) ''tools/call''
          (Some (JObj [(''name'', JStr ''netbox_get_objects''),
             (''arguments'', JObj (page_args ty [] offset))]))))\<rparr>
        = HttpOk None (Some ''application/json'') (dumps (answer 1 (text_result ?doc)))"
      by (simp only: page_server_def request_args_call [OF args]) (simp add: page_args_def)
  qed (simp_all add: text_result_def lower_def to_lower_def code_point_def startswith_def)
  then show "\<exists>data. fst (call (page_server objs) ''netbox_get_objects'' (page_args ty [] offset) c) = Inr data
      \<and> as_list [] data = take 100 (drop offset objs)
      \<and> (truthy (page_next data) \<longleftrightarrow> offset + 100 < length objs)"
    by (simp add: tool_result_text doc) (simp add: page_doc_def page_next_def list_keys_def get_def)
qed

text \<open>Two hundred and fifty VLANs, on three pages.\<close>

theorem netbox_get_all_complete_witness:
  "\<exists>c'. netbox_get_all (page_server (map (\<lambda>i. JInt (int i)) [0..<250])) ''ipam.vlan'' []
     (MCPClient ''netbox'' ''http://netbox-mcp'') = Some (Inr (map (\<lambda>i. JInt (int i)) [0..<250]), c')"
  by (rule netbox_get_all_complete, rule page_server_serves) auto

text \<open>The answers of the successive calls, and the client before each of them.\<close>

primrec page_client :: "transport \<Rightarrow> string \<Rightarrow> client \<Rightarrow> nat \<Rightarrow> client" where
  "page_client net ty c 0 = c"
| "page_client net ty c (Suc k) =
     snd (call net ''netbox_get_objects'' (page_args ty [] (100 * k)) (page_client net ty c k))"

definition page :: "transport \<Rightarrow> string \<Rightarrow> client \<Rightarrow> nat \<Rightarrow> json res" where
  "page net ty c k =
     fst (call net ''netbox_get_objects'' (page_args ty [] (100 * k)) (page_client net ty c k))"

definition page_more :: "json res \<Rightarrow> bool" where
  "page_more r \<longleftrightarrow>
     (case r of Inl _ \<Rightarrow> False | Inr data \<Rightarrow> truthy (page_next data) \<and> as_list [] data \<noteq> [])"

definition page_objs :: "json res \<Rightarrow> json list" where
  "page_objs r = (case r of Inl _ \<Rightarrow> [] | Inr data \<Rightarrow> as_list [] data)"

definition pages_result :: "(nat \<Rightarrow> json res) \<Rightarrow> nat \<Rightarrow> json list res" where
  "pages_result pg n = (case pg n of Inl e \<Rightarrow> Inl e | Inr _ \<Rightarrow> Inr (concat (map (\<lambda>k. page_objs (pg k)) [0..<Suc n])))"

lemma page_call:
  "call net ''netbox_get_objects'' (page_args ty [] (100 * k)) (page_client net ty c k) =
     (page net ty c k, page_client net ty c (Suc k))"
  by (simp add: page_def)

lemma get_all_loop_step:
  "get_all_loop net ty [] out (100 * k) (page_client net ty c k) =
     (if page_more (page net ty c k)
      then get_all_loop net ty [] (out @ page_objs (page net ty c k)) (100 * Suc k) (page_client net ty c (Suc k))
      else Some (case page net ty c k of Inl e \<Rightarrow> Inl e
        | Inr data \<Rightarrow> Inr (out @ page_objs (page net ty c k)), page_client net ty c (Suc k)))"
  by (subst get_all_loop.simps, unfold page_call)
    (auto simp: page_more_def page_objs_def Let_def add.commute split: sum.splits)

lemma get_all_loop_steps:
  assumes "\<forall>j < k. page_more (page net ty c j)"
  shows "get_all_loop net ty [] [] 0 c =
    get_all_loop net ty [] (concat (map (\<lambda>j. page_objs (page net ty c j)) [0..<k])) (100 * k) (page_client net ty c k)"
  using assms
proof (induction k)
  case (Suc k)
  then show ?case
    using get_all_loop_step [of net ty "concat (map (\<lambda>j. page_objs (page net ty c j)) [0..<k])" k c] by simp
qed simp

lemma get_all_loop_returns:
  assumes "get_all_loop net ty flds out offset d = Some r"
  shows "flds = [] \<Longrightarrow> offset = 100 * k \<Longrightarrow> d = page_client net ty c k
    \<Longrightarrow> \<exists>n. \<not> page_more (page net ty c n)"
  using assms
proof (induction net ty flds out offset d r arbitrary: k rule: get_all_loop.raw_induct [rotated, consumes 1, case_names step])
  case (step loop net ty flds out offset d r)
  have call: "call net ''netbox_get_objects'' (page_args ty flds offset) d =
      (page net ty c k, page_client net ty c (Suc k))"
    using step.prems page_call by simp
  show ?case
  proof (rule ccontr)
    assume *: "\<not> ?thesis"
    then have "page_more (page net ty c k)" by blast
    then obtain data where data: "page net ty c k = Inr data" "truthy (page_next data)" "as_list [] data \<noteq> []"
      by (auto simp: page_more_def split: sum.splits)
    with step.hyps have "loop net ty flds (out @ as_list [] data) (offset + 100) (page_client net ty c (Suc k)) = Some r"
      by (simp add: call Let_def del: page_client.simps)
    from step.IH [OF this step.prems(1), of "Suc k"] step.prems(2) * show False by simp
  qed
qed

text \<open>
  Property C3. The exact meaning of the pagination loop, for any server: it returns if and only if
  some call fails, or answers an empty page or no \<open>next\<close>; the first such call ends it. If that
  call failed, its exception is the result, and the objects read before it are not taken for the
  complete list; otherwise the result is every object of every page, in order.
\<close>

theorem netbox_get_all_spec:
  "netbox_get_all net ty [] c =
     (if \<exists>n. \<not> page_more (page net ty c n)
      then (let n = LEAST n. \<not> page_more (page net ty c n) in
        Some (pages_result (page net ty c) n, page_client net ty c (Suc n)))
      else None)"
proof (cases "\<exists>n. \<not> page_more (page net ty c n)")
  case True
  define n where "n = (LEAST n. \<not> page_more (page net ty c n))"
  have n: "\<not> page_more (page net ty c n)" "\<forall>j < n. page_more (page net ty c j)"
    using LeastI_ex [OF True] not_less_Least n_def by auto
  have "netbox_get_all net ty [] c = get_all_loop net ty []
      (concat (map (\<lambda>j. page_objs (page net ty c j)) [0..<n])) (100 * n) (page_client net ty c n)"
    using get_all_loop_steps [OF n(2)] by (simp add: netbox_get_all_def)
  also have "\<dots> = Some (pages_result (page net ty c) n, page_client net ty c (Suc n))"
    using n(1) by (simp add: get_all_loop_step pages_result_def del: page_client.simps split: sum.split)
  finally show ?thesis using True n_def by (simp add: Let_def)
next
  case False
  then show ?thesis
    using get_all_loop_returns [of net ty "[]" "[]" 0 c _ 0 c]
    by (cases "netbox_get_all net ty [] c") (auto simp: netbox_get_all_def)
qed

end
