(* ===== verification/PyRe.thy ===== *)
theory PyRe
  imports Py
begin

text \<open>
  The regular expressions of \<open>re\<close> that the scripts use, with the matcher of Python: all ways to
  match from a position, in the order in which backtracking tries them. A position is the text
  before it, reversed, the text after it, and the groups captured so far.
\<close>

section \<open>Expressions and matches\<close>

datatype re =
    Cls "char \<Rightarrow> bool"
  | Eps
  | Cat re re
  | Alt re re
  | Star re
  | LazyStar re
  | Grp nat re
  | Bol
  | Eol
  | EndZ
  | WordB
  | NotAfter "char \<Rightarrow> bool"

type_synonym caps = "(nat \<times> string) list"
type_synonym pos = "string \<times> string \<times> caps"

abbreviation pos_rest :: "pos \<Rightarrow> string" where
  "pos_rest m \<equiv> fst (snd m)"

function star :: "(pos \<Rightarrow> pos list) \<Rightarrow> pos \<Rightarrow> pos list" where
  "star f m = concat (map (\<lambda>m'. if length (pos_rest m') < length (pos_rest m) then star f m' else []) (f m)) @ [m]"
  by pat_completeness auto
termination
  by (relation "measure (\<lambda>(f, m). length (pos_rest m))") auto

function lazy_star :: "(pos \<Rightarrow> pos list) \<Rightarrow> pos \<Rightarrow> pos list" where
  "lazy_star f m = m # concat (map (\<lambda>m'. if length (pos_rest m') < length (pos_rest m) then lazy_star f m' else []) (f m))"
  by pat_completeness auto
termination
  by (relation "measure (\<lambda>(f, m). length (pos_rest m))") auto

declare star.simps [simp del] lazy_star.simps [simp del]

definition is_alnum :: "char \<Rightarrow> bool" where
  "is_alnum c \<longleftrightarrow> (let n = code_point c in
     48 \<le> n \<and> n \<le> 57 \<or> 65 \<le> n \<and> n \<le> 90 \<or> 97 \<le> n \<and> n \<le> 122
     \<or> n \<in> {170, 178, 179, 181, 185, 186, 188, 189, 190} \<or> 192 \<le> n \<and> n \<noteq> 215 \<and> n \<noteq> 247)"

definition is_word :: "char \<Rightarrow> bool" where
  "is_word c \<longleftrightarrow> is_alnum c \<or> c = CHR ''_''"

definition starts_word :: "string \<Rightarrow> bool" where
  "starts_word s \<longleftrightarrow> s \<noteq> [] \<and> is_word (hd s)"

primrec matches :: "re \<Rightarrow> pos \<Rightarrow> pos list" where
  "matches (Cls P) m = (case m of (p, s, c) \<Rightarrow> (case s of [] \<Rightarrow> [] | x # xs \<Rightarrow> if P x then [(x # p, xs, c)] else []))"
| "matches Eps m = [m]"
| "matches (Cat a b) m = concat (map (matches b) (matches a m))"
| "matches (Alt a b) m = matches a m @ matches b m"
| "matches (Star a) m = star (matches a) m"
| "matches (LazyStar a) m = lazy_star (matches a) m"
| "matches (Grp n a) m =
     map (\<lambda>(p, s, c). (p, s, AList.update n (take (length (pos_rest m) - length s) (pos_rest m)) c)) (matches a m)"
| "matches Bol m = (case m of (p, s, c) \<Rightarrow> if p = [] \<or> hd p = newline then [m] else [])"
| "matches Eol m = (case m of (p, s, c) \<Rightarrow> if s = [] \<or> hd s = newline then [m] else [])"
| "matches EndZ m = (case m of (p, s, c) \<Rightarrow> if s = [] \<or> s = [newline] then [m] else [])"
| "matches WordB m = (case m of (p, s, c) \<Rightarrow> if starts_word p \<noteq> starts_word s then [m] else [])"
| "matches (NotAfter P) m = (case m of (p, s, c) \<Rightarrow> if p \<noteq> [] \<and> P (hd p) then [] else [m])"

section \<open>Building blocks\<close>

abbreviation Chr :: "char \<Rightarrow> re" where
  "Chr x \<equiv> Cls (\<lambda>c. c = x)"

fun Str :: "string \<Rightarrow> re" where
  "Str [] = Eps"
| "Str [c] = Chr c"
| "Str (c # cs) = Cat (Chr c) (Str cs)"

fun StrI :: "string \<Rightarrow> re" where
  \<comment> \<open>a literal under the flag \<open>i\<close>\<close>
  "StrI [] = Eps"
| "StrI (c # cs) = Cat (Cls (\<lambda>x. to_lower x = to_lower c)) (StrI cs)"

fun seqs :: "re list \<Rightarrow> re" where
  "seqs [] = Eps"
| "seqs [r] = r"
| "seqs (r # rs) = Cat r (seqs rs)"

fun alts :: "re list \<Rightarrow> re" where
  "alts [] = Cls (\<lambda>_. False)"
| "alts [r] = r"
| "alts (r # rs) = Alt r (alts rs)"

abbreviation Plus :: "re \<Rightarrow> re" where
  "Plus r \<equiv> Cat r (Star r)"

abbreviation Opt :: "re \<Rightarrow> re" where
  "Opt r \<equiv> Alt r Eps"

abbreviation Dot :: re where
  "Dot \<equiv> Cls (\<lambda>c. c \<noteq> newline)"

abbreviation Any :: re where
  \<comment> \<open>the dot under \<open>DOTALL\<close>\<close>
  "Any \<equiv> Cls (\<lambda>_. True)"

abbreviation Space :: re where
  "Space \<equiv> Cls is_space"

abbreviation NonSpace :: re where
  "NonSpace \<equiv> Cls (\<lambda>c. \<not> is_space c)"

abbreviation Digit :: re where
  "Digit \<equiv> Cls is_digit"

section \<open>The operations of the module\<close>

definition first_match :: "re \<Rightarrow> string \<Rightarrow> string \<Rightarrow> pos option" where
  "first_match r p s = (case matches r (p, s, []) of [] \<Rightarrow> None | m # _ \<Rightarrow> Some m)"

definition re_match :: "re \<Rightarrow> string \<Rightarrow> pos option" where
  "re_match r s = first_match r [] s"

fun re_search_from :: "re \<Rightarrow> string \<Rightarrow> string \<Rightarrow> (nat \<times> pos) option" where
  \<comment> \<open>the start and the end of the leftmost match\<close>
  "re_search_from r p s =
     (case first_match r p s of
        Some m \<Rightarrow> Some (length p, m)
      | None \<Rightarrow> (case s of [] \<Rightarrow> None | x # xs \<Rightarrow> re_search_from r (x # p) xs))"

declare re_search_from.simps [simp del]

definition re_search :: "re \<Rightarrow> string \<Rightarrow> (nat \<times> pos) option" where
  "re_search r s = re_search_from r [] s"

definition group :: "nat \<Rightarrow> pos \<Rightarrow> string" where
  \<comment> \<open>the text of a group that took part in the match\<close>
  "group n m = (case map_of (snd (snd m)) n of Some t \<Rightarrow> t | None \<Rightarrow> [])"

definition matched :: "pos \<Rightarrow> nat \<Rightarrow> string" where
  \<comment> \<open>\<open>m.group(0)\<close> of a match that began at the given index\<close>
  "matched m start = drop start (rev (fst m))"

text \<open>\<open>re.findall\<close> of an expression with one group that never matches the empty string.\<close>

function findall1 :: "re \<Rightarrow> string \<Rightarrow> string \<Rightarrow> string list" where
  "findall1 r p s =
     (case re_search_from r p s of
        None \<Rightarrow> []
      | Some (i, m) \<Rightarrow>
          if length (pos_rest m) < length s then group 1 m # findall1 r (fst m) (pos_rest m) else [])"
  by pat_completeness auto
termination
  by (relation "measure (\<lambda>(r, p, s). length s)") auto

declare findall1.simps [simp del]

definition sub1 :: "re \<Rightarrow> string \<Rightarrow> string" where
  \<comment> \<open>\<open>re.sub(r, "", s, count=1)\<close>\<close>
  "sub1 r s = (case re_search r s of None \<Rightarrow> s | Some (i, m) \<Rightarrow> take i s @ pos_rest m)"

text \<open>An equation that evaluates the class of a character from its bits.\<close>

lemma is_alnum_code [code]:
  "is_alnum (Char b0 b1 b2 b3 b4 b5 b6 b7) \<longleftrightarrow>
     (if b6 then (if b7 then \<not> (b0 \<and> b1 \<and> b2 \<and> \<not> b3 \<and> b4)
        else (b0 \<or> b1 \<or> b2 \<or> b3 \<or> b4) \<and> \<not> (b4 \<and> b3 \<and> (b2 \<or> b1 \<and> b0)))
      else if b7 then b5 \<and> (if b4 then (if b3 then b0 \<noteq> (b1 \<or> b2) \<or> \<not> b1 \<and> b2 else b1 \<and> \<not> b2 \<or> b0 \<and> \<not> b1 \<and> b2)
                            else \<not> b0 \<and> b1 \<and> \<not> b2 \<and> b3)
      else b5 \<and> b4 \<and> (\<not> b3 \<or> \<not> b1 \<and> \<not> b2))"
  by (cases b0; cases b1; cases b2; cases b3; cases b4; cases b5; cases b6; cases b7)
    (simp_all add: is_alnum_def code_point_def)

section \<open>What a match is\<close>

definition consumed :: "pos \<Rightarrow> pos \<Rightarrow> string \<Rightarrow> bool" where
  "consumed m m' t \<longleftrightarrow> pos_rest m = t @ pos_rest m' \<and> fst m' = rev t @ fst m"

lemma consumed_refl [simp]: "consumed m m []"
  by (simp add: consumed_def)

lemma consumed_trans: "consumed m m' t \<Longrightarrow> consumed m' m'' u \<Longrightarrow> consumed m m'' (t @ u)"
  by (simp add: consumed_def)

lemma star_consumed:
  assumes "\<And>m m'. m' \<in> set (f m) \<Longrightarrow> \<exists>t. consumed m m' t" "m' \<in> set (star f m)"
  shows "\<exists>t. consumed m m' t"
  using assms
proof (induction f m rule: star.induct)
  case (1 f m)
  from "1.prems"(2) consider "m' = m" | m1 where "m1 \<in> set (f m)" "length (pos_rest m1) < length (pos_rest m)" "m' \<in> set (star f m1)"
    by (subst (asm) star.simps) (auto split: if_splits)
  then show ?case
  proof cases
    case 2
    with "1.IH" [OF 2(1,2) "1.prems"(1)] "1.prems"(1) consumed_trans show ?thesis by blast
  qed (auto intro: exI [of _ "[]"])
qed

lemma lazy_star_consumed:
  assumes "\<And>m m'. m' \<in> set (f m) \<Longrightarrow> \<exists>t. consumed m m' t" "m' \<in> set (lazy_star f m)"
  shows "\<exists>t. consumed m m' t"
  using assms
proof (induction f m rule: lazy_star.induct)
  case (1 f m)
  from "1.prems"(2) consider "m' = m" | m1 where "m1 \<in> set (f m)" "length (pos_rest m1) < length (pos_rest m)" "m' \<in> set (lazy_star f m1)"
    by (subst (asm) lazy_star.simps) (auto split: if_splits)
  then show ?case
  proof cases
    case 2
    with "1.IH" [OF 2(1,2) "1.prems"(1)] "1.prems"(1) consumed_trans show ?thesis by blast
  qed (auto intro: exI [of _ "[]"])
qed

lemma matches_consumed: "m' \<in> set (matches r m) \<Longrightarrow> \<exists>t. consumed m m' t"
proof (induction r arbitrary: m m')
  case (Cls P)
  then show ?case by (auto simp: consumed_def split: list.splits if_splits prod.splits intro: exI [of _ "[hd (pos_rest m)]"])
next
  case (Cat a b)
  then obtain m1 where "m1 \<in> set (matches a m)" "m' \<in> set (matches b m1)" by auto
  with Cat.IH consumed_trans show ?case by blast
next
  case (Star a)
  then show ?case using star_consumed [of "matches a"] by auto
next
  case (LazyStar a)
  then show ?case using lazy_star_consumed [of "matches a"] by auto
next
  case (Grp n a)
  then obtain p s c where "(p, s, c) \<in> set (matches a m)" "fst m' = p" "pos_rest m' = s" by auto
  with Grp.IH [of "(p, s, c)" m] show ?case by (auto simp: consumed_def)
qed (auto intro: exI [of _ "[]"] split: prod.splits if_splits)

text \<open>Runs of one class of characters.\<close>

lemma star_class:
  "m' \<in> set (matches (Star (Cls P)) (p, s, c)) \<longleftrightarrow>
     (\<exists>t u. s = t @ u \<and> (\<forall>x\<in>set t. P x) \<and> m' = (rev t @ p, u, c))"
proof (induction s arbitrary: p)
  case Nil
  then show ?case by (simp add: star.simps)
next
  case (Cons x xs)
  have "m' \<in> set (matches (Star (Cls P)) (p, x # xs, c)) \<longleftrightarrow>
      P x \<and> m' \<in> set (matches (Star (Cls P)) (x # p, xs, c)) \<or> m' = (p, x # xs, c)"
    by (subst matches.simps, subst star.simps) auto
  also have "\<dots> \<longleftrightarrow> (\<exists>t u. x # xs = t @ u \<and> (\<forall>x\<in>set t. P x) \<and> m' = (rev t @ p, u, c))"
    by (subst Cons) (auto simp: Cons_eq_append_conv)
  finally show ?case .
qed

lemma star_class_Nil [simp]: "star (matches (Cls P)) (p, [], c) = [(p, [], c)]"
  by (subst star.simps) simp

lemma plus_class:
  "m' \<in> set (matches (Plus (Cls P)) (p, s, c)) \<longleftrightarrow>
     (\<exists>t u. s = t @ u \<and> t \<noteq> [] \<and> (\<forall>x\<in>set t. P x) \<and> m' = (rev t @ p, u, c))"
proof (cases s)
  case (Cons x xs)
  have "m' \<in> set (matches (Plus (Cls P)) (p, s, c)) \<longleftrightarrow> P x \<and> m' \<in> set (matches (Star (Cls P)) (x # p, xs, c))"
    by (simp add: Cons)
  also have "\<dots> \<longleftrightarrow> (\<exists>t u. s = t @ u \<and> t \<noteq> [] \<and> (\<forall>x\<in>set t. P x) \<and> m' = (rev t @ p, u, c))"
    by (subst star_class) (auto simp: Cons Cons_eq_append_conv)
  finally show ?thesis .
qed simp

lemma re_match_iff: "re_match r s \<noteq> None \<longleftrightarrow> (\<exists>m. m \<in> set (matches r ([], s, [])))"
  by (auto simp: re_match_def first_match_def split: list.splits)

lemma re_matchD: "re_match r s = Some m \<Longrightarrow> m \<in> set (matches r ([], s, []))"
  by (auto simp: re_match_def first_match_def split: list.splits)

subsection \<open>Searching\<close>

lemma re_search_from_Some:
  "re_search_from r p s = Some (i, m) \<Longrightarrow>
     \<exists>t u. s = t @ u \<and> i = length p + length t \<and> m \<in> set (matches r (rev t @ p, u, []))"
proof (induction r p s rule: re_search_from.induct)
  case (1 r p s)
  show ?case
  proof (cases "first_match r p s")
    case (Some m')
    with "1.prems" have "i = length p" "m = m'" by (auto simp: re_search_from.simps)
    with Some show ?thesis by (intro exI [of _ "[]"] exI [of _ s]) (auto simp: first_match_def split: list.splits)
  next
    case None
    with "1.prems" obtain x xs where s: "s = x # xs" "re_search_from r (x # p) xs = Some (i, m)"
      by (subst (asm) re_search_from.simps) (auto split: list.splits)
    from "1.IH" [OF None s] obtain t u where "xs = t @ u" "i = length (x # p) + length t" "m \<in> set (matches r (rev t @ x # p, u, []))"
      by blast
    with s show ?thesis by (intro exI [of _ "x # t"] exI [of _ u]) simp
  qed
qed

lemma re_search_from_None:
  "re_search_from r p s = None \<Longrightarrow> s = t @ u \<Longrightarrow> matches r (rev t @ p, u, []) = []"
proof (induction r p s arbitrary: t rule: re_search_from.induct)
  case (1 r p s)
  from "1.prems"(1) have none: "first_match r p s = None"
    by (subst (asm) re_search_from.simps) (auto split: option.splits)
  show ?case
  proof (cases t)
    case Nil
    with none "1.prems"(2) show ?thesis by (auto simp: first_match_def split: list.splits)
  next
    case (Cons x t')
    with "1.prems" none have s: "s = x # t' @ u" "re_search_from r (x # p) (t' @ u) = None"
      by (auto simp: re_search_from.simps [of r p])
    from "1.IH" [OF none s(1) s(2) refl] Cons show ?thesis by simp
  qed
qed

lemma re_searchE:
  assumes "re_search r s = Some (i, m)"
  obtains t u where "s = t @ u" "i = length t" "m \<in> set (matches r (rev t, u, []))"
  using re_search_from_Some [of r "[]" s i m] assms unfolding re_search_def by auto

lemma re_search_from_earliest:
  "re_search_from r p s = Some (i, m) \<Longrightarrow> s = t @ u \<Longrightarrow> matches r (rev t @ p, u, []) \<noteq> [] \<Longrightarrow> i \<le> length p + length t"
proof (induction r p s arbitrary: t rule: re_search_from.induct)
  case (1 r p s)
  show ?case
  proof (cases "first_match r p s")
    case None
    with "1.prems" obtain x t' where t: "t = x # t'"
      by (cases t) (auto simp: first_match_def split: list.splits)
    with None "1.prems" have s: "s = x # t' @ u" "re_search_from r (x # p) (t' @ u) = Some (i, m)"
      by (auto simp: re_search_from.simps [of r p])
    from "1.IH" [OF None s(1) s(2) refl] "1.prems"(3) t show ?thesis by simp
  qed (use "1.prems" in \<open>auto simp: re_search_from.simps\<close>)
qed

lemma re_search_earliest:
  assumes "re_search r s = Some (i, m)" "s = t @ u" "matches r (rev t, u, []) \<noteq> []"
  shows "i \<le> length t"
  using re_search_from_earliest [of r "[]" s i m t u] assms by (simp add: re_search_def)

subsection \<open>Matching in front of more text\<close>

fun open_end :: "re \<Rightarrow> bool" where
  \<comment> \<open>no anchor at an end of a line or of the text\<close>
  "open_end (Cat a b) \<longleftrightarrow> open_end a \<and> open_end b"
| "open_end (Alt a b) \<longleftrightarrow> open_end a \<and> open_end b"
| "open_end (Star a) \<longleftrightarrow> open_end a"
| "open_end (LazyStar a) \<longleftrightarrow> open_end a"
| "open_end (Grp n a) \<longleftrightarrow> open_end a"
| "open_end Eol \<longleftrightarrow> False"
| "open_end EndZ \<longleftrightarrow> False"
| "open_end _ \<longleftrightarrow> True"

definition extend :: "string \<Rightarrow> pos \<Rightarrow> pos" where
  "extend u m = (fst m, pos_rest m @ u, snd (snd m))"

lemma extend_simps [simp]: "extend u (p, s, c) = (p, s @ u, c)" "pos_rest (extend u m) = pos_rest m @ u"
  by (simp_all add: extend_def)

lemma star_extend:
  assumes "\<And>m m'. m' \<in> set (f m) \<Longrightarrow> extend u m' \<in> set (f (extend u m))" "m' \<in> set (star f m)"
  shows "extend u m' \<in> set (star f (extend u m))"
  using assms
proof (induction f m rule: star.induct)
  case (1 f m)
  from "1.prems"(2) consider "m' = m" | m1 where "m1 \<in> set (f m)" "length (pos_rest m1) < length (pos_rest m)" "m' \<in> set (star f m1)"
    by (subst (asm) star.simps) (auto split: if_splits)
  then show ?case
  proof cases
    case 2
    from "1.IH" [OF 2(1,2) "1.prems"(1) 2(3)] "1.prems"(1) [OF 2(1)] 2(2) show ?thesis
      by (subst star.simps) force
  qed (subst star.simps, simp)
qed

lemma lazy_star_extend:
  assumes "\<And>m m'. m' \<in> set (f m) \<Longrightarrow> extend u m' \<in> set (f (extend u m))" "m' \<in> set (lazy_star f m)"
  shows "extend u m' \<in> set (lazy_star f (extend u m))"
  using assms
proof (induction f m rule: lazy_star.induct)
  case (1 f m)
  from "1.prems"(2) consider "m' = m" | m1 where "m1 \<in> set (f m)" "length (pos_rest m1) < length (pos_rest m)" "m' \<in> set (lazy_star f m1)"
    by (subst (asm) lazy_star.simps) (auto split: if_splits)
  then show ?case
  proof cases
    case 2
    from "1.IH" [OF 2(1,2) "1.prems"(1) 2(3)] "1.prems"(1) [OF 2(1)] 2(2) show ?thesis
      by (subst lazy_star.simps) force
  qed (subst lazy_star.simps, simp)
qed

lemma matches_extend:
  assumes "open_end r" "\<not> starts_word u" "m' \<in> set (matches r m)"
  shows "extend u m' \<in> set (matches r (extend u m))"
  using assms(1,3)
proof (induction r arbitrary: m m')
  case (Cls P)
  then show ?case by (cases m) (auto split: list.splits if_splits)
next
  case (Cat a b)
  then obtain m1 where "m1 \<in> set (matches a m)" "m' \<in> set (matches b m1)" by auto
  with Cat have "extend u m1 \<in> set (matches a (extend u m))" "extend u m' \<in> set (matches b (extend u m1))" by auto
  then show ?case by auto
next
  case (Star a)
  then show ?case using star_extend [of "matches a" u m' m] by simp
next
  case (LazyStar a)
  then show ?case using lazy_star_extend [of "matches a" u m' m] by simp
next
  case (Grp n a)
  then obtain p s c where a: "(p, s, c) \<in> set (matches a m)"
      "m' = (p, s, AList.update n (take (length (pos_rest m) - length s) (pos_rest m)) c)" by auto
  from Grp.IH [OF _ a(1)] Grp.prems(1) have "(p, s @ u, c) \<in> set (matches a (extend u m))" by simp
  with a(2) show ?case by (auto simp: image_iff intro!: bexI)
next
  case WordB
  then show ?case using assms(2) by (cases m) (auto simp: starts_word_def hd_append split: if_splits)
next
  case (NotAfter P)
  obtain p s c where m: "m = (p, s, c)" by (cases m)
  with NotAfter show ?case by (cases "p \<noteq> [] \<and> P (hd p)") (simp_all add: extend_def)
qed (auto split: prod.splits if_splits)

end
