(* ===== verification/PyCodec.thy ===== *)
theory PyCodec
  imports PyHash PyRe
begin

text \<open>
  The encodings of the standard library: base64 in both directions and UTF-8 decoding with
  replacement, and the proof that each decoder inverts its encoder.
\<close>

section \<open>Base64\<close>

definition b64_digit :: "nat \<Rightarrow> char" where
  "b64_digit n =
     (if n < 26 then char_of (65 + n) else if n < 52 then char_of (71 + n)
      else if n < 62 then char_of (n - 4) else if n = 62 then CHR ''+'' else CHR ''/'')"

fun b64encode :: "nat list \<Rightarrow> string" where
  "b64encode [] = []"
| "b64encode [a] = [b64_digit (a div 4), b64_digit (a mod 4 * 16), CHR ''='', CHR ''='']"
| "b64encode [a, b] = [b64_digit (a div 4), b64_digit (a mod 4 * 16 + b div 16), b64_digit (b mod 16 * 4), CHR ''='']"
| "b64encode (a # b # c # bs) =
     [b64_digit (a div 4), b64_digit (a mod 4 * 16 + b div 16), b64_digit (b mod 16 * 4 + c div 64), b64_digit (c mod 64)]
     @ b64encode bs"

text \<open>
  \<open>base64.b64decode\<close> in its lenient mode: characters outside the alphabet are skipped, a complete
  padding ends the input. The state is the position in the current group of four, its pending
  bits, and the number of padding signs.
\<close>

definition b64_val :: "char \<Rightarrow> nat option" where
  "b64_val c = (let n = code_point c in
     if 65 \<le> n \<and> n \<le> 90 then Some (n - 65)
     else if 97 \<le> n \<and> n \<le> 122 then Some (n - 71)
     else if 48 \<le> n \<and> n \<le> 57 then Some (n + 4)
     else if n = 43 then Some 62 else if n = 47 then Some 63 else None)"

fun b64_loop :: "nat \<Rightarrow> nat \<Rightarrow> nat \<Rightarrow> string \<Rightarrow> nat list res" where
  "b64_loop quad rest pads [] =
     (if quad = 0 then Inr []
      else if quad = 1 then Inl (ValueError ''Invalid base64-encoded string'')
      else Inl (ValueError ''Incorrect padding''))"
| "b64_loop quad rest pads (c # cs) =
     (if c = CHR ''='' then
        (if 2 \<le> quad \<and> 4 \<le> quad + pads + 1 then Inr []
         else b64_loop quad rest (if 2 \<le> quad then pads + 1 else pads) cs)
      else
        (case b64_val c of
           None \<Rightarrow> b64_loop quad rest pads cs
         | Some v \<Rightarrow>
             if quad = 0 then b64_loop 1 v 0 cs
             else if quad = 1 then
               rbind (b64_loop 2 (v mod 16) 0 cs) (\<lambda>bs. Inr ((rest * 4 + v div 16) # bs))
             else if quad = 2 then
               rbind (b64_loop 3 (v mod 4) 0 cs) (\<lambda>bs. Inr ((rest * 16 + v div 4) # bs))
             else rbind (b64_loop 0 0 0 cs) (\<lambda>bs. Inr ((rest * 64 + v) # bs))))"

definition b64decode :: "string \<Rightarrow> nat list res" where
  "b64decode s =
     (if list_ex (\<lambda>c. 127 < code_point c) s
      then Inl (ValueError ''string argument should contain only ASCII characters'')
      else b64_loop 0 0 0 s)"

fun utf8_decode :: "nat list \<Rightarrow> string" where
  \<comment> \<open>characters beyond the model and the replacement character stand at one control code\<close>
  "utf8_decode [] = []"
| "utf8_decode (a # bs) =
     (if a < 128 then char_of a # utf8_decode bs
      else (case bs of
          b # rest \<Rightarrow>
            if (a = 194 \<or> a = 195) \<and> 128 \<le> b \<and> b < 192
            then char_of ((a - 192) * 64 + (b - 128)) # utf8_decode rest
            else CHR 0x9D # utf8_decode bs
        | [] \<Rightarrow> [CHR 0x9D]))"

section \<open>Percent encoding\<close>

definition url_safe :: "char \<Rightarrow> bool" where
  "url_safe c \<longleftrightarrow> code_point c < 128 \<and> is_alnum c \<or> c \<in> set ''_.-~''"

definition hex_upper :: "nat \<Rightarrow> char" where
  "hex_upper n = (if n < 10 then char_of (48 + n) else char_of (55 + n))"

definition percent :: "char \<Rightarrow> string" where
  "percent c = concat (map (\<lambda>b. [CHR 0x25, hex_upper (b div 16), hex_upper (b mod 16)]) (utf8_char c))"

definition quote_plus :: "string \<Rightarrow> string" where
  \<comment> \<open>\<open>urllib.parse.quote_plus\<close>, which \<open>urlencode\<close> applies to a value\<close>
  "quote_plus s = concat (map (\<lambda>c. if url_safe c then [c] else if c = CHR '' '' then ''+'' else percent c) s)"

definition quote_url :: "string \<Rightarrow> string" where
  \<comment> \<open>\<open>urllib.parse.quote\<close>, for which the slash is safe\<close>
  "quote_url s = concat (map (\<lambda>c. if url_safe c \<or> c = CHR ''/'' then [c] else percent c) s)"

section \<open>Round trips\<close>

lemma b64_val_digit [simp]: "n < 64 \<Longrightarrow> b64_val (b64_digit n) = Some n"
  by (auto simp: b64_val_def b64_digit_def Let_def code_point_def)

lemma b64_digit_not_pad [simp]: "n < 64 \<Longrightarrow> b64_digit n \<noteq> CHR ''=''"
  using b64_val_digit [of n] by (auto simp: b64_val_def Let_def code_point_def)

lemma b64_digit_ascii [simp]: "n < 64 \<Longrightarrow> code_point (b64_digit n) \<le> 127"
  by (auto simp: b64_digit_def code_point_def)

lemma byte_digits:
  assumes "(a :: nat) < 256" "b < 256" "c < 256"
  shows "a div 4 < 64" "a mod 4 * 16 + b div 16 < 64" "b mod 16 * 4 + c div 64 < 64" "c mod 64 < 64"
    "a mod 4 * 16 < 64" "b mod 16 * 4 < 64"
proof -
  have "a mod 4 < 4" "b mod 16 < 16" "b div 16 < 16" "c div 64 < 4"
    using assms by (auto simp: less_mult_imp_div_less)
  then show "a mod 4 * 16 + b div 16 < 64" "b mod 16 * 4 + c div 64 < 64" "a mod 4 * 16 < 64" "b mod 16 * 4 < 64"
    by linarith+
qed (use assms in \<open>auto simp: less_mult_imp_div_less\<close>)

lemma b64_loop_encode: "\<forall>b\<in>set bs. b < 256 \<Longrightarrow> b64_loop 0 0 pads (b64encode bs) = Inr bs"
proof (induction bs arbitrary: pads rule: b64encode.induct)
  case (2 a)
  then show ?case using byte_digits [of a 0 0] by simp
next
  case (3 a b)
  have "(a mod 4 * 16 + b div 16) mod 16 = b div 16" using 3 by (simp add: less_mult_imp_div_less)
  with 3 show ?case using byte_digits [of a b 0] by (simp add: less_mult_imp_div_less)
next
  case (4 a b c bs)
  have "(a mod 4 * 16 + b div 16) mod 16 = b div 16" "(b mod 16 * 4 + c div 64) mod 4 = c div 64"
    using 4 by (simp_all add: less_mult_imp_div_less)
  with 4 show ?case using byte_digits [of a b c] by (simp add: less_mult_imp_div_less)
qed simp

lemma b64encode_ascii: "\<forall>b\<in>set bs. b < 256 \<Longrightarrow> c \<in> set (b64encode bs) \<Longrightarrow> code_point c \<le> 127"
proof (induction bs rule: b64encode.induct)
  case (2 a)
  then show ?case using byte_digits [of a 0 0] by (auto simp: code_point_def [of "CHR ''=''"])
next
  case (3 a b)
  then show ?case using byte_digits [of a b 0] by (auto simp: code_point_def [of "CHR ''=''"])
next
  case (4 a b c bs)
  then show ?case using byte_digits [of a b c] by auto
qed auto

theorem b64decode_encode: "\<forall>b\<in>set bs. b < 256 \<Longrightarrow> b64decode (b64encode bs) = Inr bs"
  using b64_loop_encode b64encode_ascii by (force simp: b64decode_def list_ex_iff)

lemma code_point_lead: "code_point c div 64 < 4"
  using code_point_less [of c] by (simp add: less_mult_imp_div_less)

lemma encode_bytes: "b \<in> set (encode s) \<Longrightarrow> b < 256"
proof -
  have "192 + code_point c div 64 < 256" for c using code_point_lead [of c] by linarith
  then show "b \<in> set (encode s) \<Longrightarrow> b < 256"
    by (auto simp: encode_def utf8_char_def Let_def split: if_splits)
qed

lemma utf8_decode_encode [simp]: "utf8_decode (encode s) = s"
proof (induction s)
  case (Cons c s)
  have *: "encode (c # s) = utf8_char c @ encode s" by (simp add: encode_def)
  show ?case
  proof (cases "code_point c < 128")
    case True
    with Cons * show ?thesis by (simp add: utf8_char_def)
  next
    case False
    define h l where "h = code_point c div 64" and "l = code_point c mod 64"
    have "char_of (h * 64 + l) = c" by (simp add: h_def l_def)
    moreover have "h = 2 \<or> h = 3"
    proof -
      have "2 \<le> h" using False div_le_mono [of 128 "code_point c" 64] by (simp add: h_def)
      with code_point_lead [of c] show ?thesis by (auto simp: h_def)
    qed
    moreover have "l < 64" by (simp add: l_def)
    moreover have "utf8_char c = [192 + h, 128 + l]" using False by (simp add: utf8_char_def h_def l_def Let_def)
    ultimately show ?thesis using Cons * by (elim disjE) simp_all
  qed
qed (simp add: encode_def)

end
