(* ===== verification/GhSources.thy ===== *)
theory GhSources
  imports NetboxSync PyCodec
begin

text \<open>
  The collectors of \<open>gh_sources.py\<close>: the DHCP server's configuration and the DNS zones, read from
  the configuration repository through the github MCP service, parsed and compared with the
  addresses and prefixes of NetBox.

  The regular expressions of the source are deterministic scanners here: in each of them a greedy
  class is followed by characters outside the class, so that backtracking finds nothing else.
\<close>

section \<open>Scanners\<close>

definition lit :: "string \<Rightarrow> string \<Rightarrow> string option" where
  "lit p s = (if startswith s p then Some (drop (length p) s) else None)"

definition spaces1 :: "string \<Rightarrow> string option" where
  "spaces1 s = (if s \<noteq> [] \<and> is_space (hd s) then Some (lstrip s) else None)"

definition span1 :: "(char \<Rightarrow> bool) \<Rightarrow> string \<Rightarrow> (string \<times> string) option" where
  "span1 P s = (let t = takeWhile P s in if t = [] then None else Some (t, dropWhile P s))"

definition is_ip_char :: "char \<Rightarrow> bool" where
  "is_ip_char c \<longleftrightarrow> is_digit c \<or> c = CHR ''.''"

definition is_mac_char :: "char \<Rightarrow> bool" where
  "is_mac_char c \<longleftrightarrow> hex_val c \<noteq> None \<or> c = CHR '':''"

definition word_then :: "string \<Rightarrow> string \<Rightarrow> string option" where
  \<comment> \<open>a literal followed by white space\<close>
  "word_then w s = Option.bind (lit w s) spaces1"

definition host_re :: "string \<Rightarrow> string option" where
  "host_re line = Option.bind (word_then ''host'' (lstrip line)) (\<lambda>r.
     map_option fst (span1 (\<lambda>c. \<not> is_space c \<and> c \<noteq> CHR ''{'') r))"

fun search :: "(string \<Rightarrow> 'a option) \<Rightarrow> string \<Rightarrow> 'a option" where
  "search m [] = m []"
| "search m (c # cs) = (case m (c # cs) of Some x \<Rightarrow> Some x | None \<Rightarrow> search m cs)"

definition fixed_re :: "string \<Rightarrow> string option" where
  "fixed_re line = search (\<lambda>s. Option.bind (word_then ''fixed-address'' s) (\<lambda>r.
     map_option fst (span1 is_ip_char r))) line"

definition mac_re :: "string \<Rightarrow> string option" where
  "mac_re line = search (\<lambda>s. Option.bind (word_then ''hardware'' s) (\<lambda>r.
     Option.bind (word_then ''ethernet'' r) (\<lambda>u. map_option fst (span1 is_mac_char u)))) line"

definition subnet_re :: "string \<Rightarrow> (string \<times> string) option" where
  "subnet_re line = Option.bind (word_then ''subnet'' (lstrip line)) (\<lambda>r.
     Option.bind (span1 is_ip_char r) (\<lambda>(net, r1).
     Option.bind (spaces1 r1) (\<lambda>r2.
     Option.bind (word_then ''netmask'' r2) (\<lambda>r3.
     map_option (\<lambda>(msk, _). (net, msk)) (span1 is_ip_char r3)))))"

definition optional :: "(string \<Rightarrow> string option) \<Rightarrow> string \<Rightarrow> string" where
  "optional m s = (case m s of Some r \<Rightarrow> r | None \<Rightarrow> s)"

definition word_then_nocase :: "string \<Rightarrow> string \<Rightarrow> string option" where
  "word_then_nocase w s =
     (if lower (take (length w) s) = lower w then spaces1 (drop (length w) s) else None)"

definition a_re :: "string \<Rightarrow> (string \<times> string) option" where
  "a_re line = Option.bind (span1 (\<lambda>c. \<not> is_space c) line) (\<lambda>(name, r).
     Option.bind (spaces1 r) (\<lambda>r1.
     let r2 = optional (\<lambda>s. Option.bind (span1 is_digit s) (\<lambda>(_, u). spaces1 u)) r1;
         r3 = optional (word_then_nocase ''IN'') r2
     in Option.bind (word_then_nocase ''A'' r3) (\<lambda>r4.
     Option.bind (span1 is_ip_char r4) (\<lambda>(ip, r5).
     if lstrip r5 = [] then Some (name, ip) else None))))"

section \<open>File contents\<close>

fun first_str :: "dict \<Rightarrow> string list \<Rightarrow> string" where
  "first_str d [] = []"
| "first_str d (k # ks) = (case get d k of JStr s \<Rightarrow> s | _ \<Rightarrow> first_str d ks)"

fun decode :: "json \<Rightarrow> string res"
  and decode_list :: "json list \<Rightarrow> string list res" where
  "decode (JStr s) = Inr s"
| "decode (JList xs) = rbind (decode_list xs) (\<lambda>ts. Inr (join [newline] ts))"
| "decode (JObj d) =
     (if get d ''encoding'' = JStr ''base64'' \<and> truthy (get d ''content'') then
        (case get d ''content'' of
           JStr s \<Rightarrow> rbind (b64decode s) (\<lambda>bs. Inr (utf8_decode bs))
         | j \<Rightarrow> Inl (TypeError (''argument should be a bytes-like object or ASCII string, not ''
                 @ repr_str (type_name j))))
      else Inr (first_str d [''content'', ''text'', ''decoded'', ''data'']))"
| "decode _ = Inr []"
| "decode_list [] = Inr []"
| "decode_list (x # xs) = rbind (decode x) (\<lambda>t. rbind (decode_list xs) (\<lambda>ts. Inr (t # ts)))"

record gh_config =
  gh_owner :: string
  gh_repo :: string
  dhcpd_path :: string
  zone_paths :: "string list"
  dns_domain :: string

definition fetch_text :: "gh_config \<Rightarrow> transport \<Rightarrow> string \<Rightarrow> string mcp" where
  "fetch_text cfg net path =
     mbind (call net ''get_file_contents''
         [(''owner'', JStr (gh_owner cfg)), (''repo'', JStr (gh_repo cfg)), (''path'', JStr path)])
       (\<lambda>res. mlift (decode res))"

section \<open>DHCP server configuration\<close>

definition strip_comment :: "string \<Rightarrow> string" where
  "strip_comment line = before (CHR ''#'') line"

record dhcp_host =
  dh_name :: string
  dh_mac :: "string option"
  dh_ip :: "string option"

definition host_line :: "dhcp_host \<Rightarrow> string \<Rightarrow> dhcp_host" where
  "host_line cur line =
     (let cur1 = (case fixed_re line of Some ip \<Rightarrow> cur\<lparr>dh_ip := Some ip\<rparr> | None \<Rightarrow> cur)
      in case mac_re line of Some m \<Rightarrow> cur1\<lparr>dh_mac := norm_mac (JStr m)\<rparr> | None \<Rightarrow> cur1)"

definition dhcpd_step :: "dhcp_host list \<times> dhcp_host option \<Rightarrow> string \<Rightarrow> dhcp_host list \<times> dhcp_host option" where
  "dhcpd_step st raw =
     (let (hosts, cur) = st; line = strip_comment raw in
      case host_re line of
        Some name \<Rightarrow> (hosts, Some \<lparr>dh_name = rstrip_chars ''.'' name, dh_mac = None, dh_ip = None\<rparr>)
      | None \<Rightarrow>
          (case cur of
             None \<Rightarrow> (hosts, None)
           | Some h \<Rightarrow>
               (let h1 = host_line h line in
                if contains line ''}''
                then (if nonempty (dh_ip h1) then hosts @ [h1] else hosts, None)
                else (hosts, Some h1))))"

definition parse_dhcpd_hosts :: "string \<Rightarrow> dhcp_host list" where
  "parse_dhcpd_hosts text = fst (foldl dhcpd_step ([], None) (splitlines text))"

fun popcount :: "nat \<Rightarrow> nat" where
  "popcount n = (if n = 0 then 0 else n mod 2 + popcount (n div 2))"

declare popcount.simps [simp del]

definition to_cidr :: "string \<Rightarrow> string \<Rightarrow> string option" where
  \<comment> \<open>a part that is not a number is the \<open>ValueError\<close>; the masks matched have no sign\<close>
  "to_cidr net msk =
     (let os = map parse_int (split_on (CHR ''.'') msk) in
      if None \<in> set os then None
      else norm_subnet (JStr (net @ ''/''
             @ nat_str (sum_list (map (\<lambda>i. popcount (nat \<bar>the i\<bar>)) os)))))"

definition parse_dhcpd_subnets :: "string \<Rightarrow> string list" where
  "parse_dhcpd_subnets text = List.map_filter (\<lambda>raw.
     Option.bind (subnet_re (strip_comment raw)) (\<lambda>(net, msk).
       case to_cidr net msk of Some c \<Rightarrow> if c = [] then None else Some c | None \<Rightarrow> None))
     (splitlines text)"

section \<open>Zones\<close>

record a_record =
  ar_fqdn :: string
  ar_ip :: string

definition zone_fqdn :: "string \<Rightarrow> string \<Rightarrow> string" where
  "zone_fqdn domain name =
     lower (if name = ''@'' \<or> name = [] then domain
            else if endswith name ''.'' then rstrip_chars ''.'' name
            else name @ ''.'' @ domain)"

definition parse_zone_a_records :: "string \<Rightarrow> string \<Rightarrow> a_record list" where
  "parse_zone_a_records domain text = List.map_filter (\<lambda>raw.
     map_option (\<lambda>(name, ip). \<lparr>ar_fqdn = zone_fqdn domain name, ar_ip = ip\<rparr>)
       (a_re (rstrip (before (CHR '';'') raw)))) (splitlines text)"

section \<open>Comparators\<close>

definition nb_ip_set :: "nb_ip list \<Rightarrow> string option list" where
  "nb_ip_set nb_ips = map (bare_ip \<circ> ni_address) (filter (truthy \<circ> ni_address) nb_ips)"

definition dhcpd_host_drift :: "nb_ip list \<Rightarrow> dhcp_host \<Rightarrow> drift list" where
  "dhcpd_host_drift nb_ips h =
     (let ip = opt_str (dh_ip h); name = dh_name h in
      if bare_ip (JStr ip) \<in> set (nb_ip_set nb_ips) then []
      else [Drift ''dhcpd-reservation-missing-in-netbox'' (''ip='' @ ip)
             (''brain dhcpd reserves '' @ ip @ '' for '' @ sq name @ '' (mac '' @ opt_str (dh_mac h) @ '')'')
             (''no ip-address '' @ ip @ '' in NetBox'')
             (''HUMAN-ONLY: add ip-address '' @ ip @ '' (dns_name '' @ sq name @ '') to NetBox'') None])"

definition compare_dhcpd_hosts :: "dhcp_host list \<Rightarrow> nb_ip list \<Rightarrow> drift list" where
  "compare_dhcpd_hosts hosts nb_ips = concat (map (dhcpd_host_drift nb_ips) hosts)"

definition dhcpd_subnet_drift :: "nb_prefix list \<Rightarrow> string \<Rightarrow> drift list" where
  "dhcpd_subnet_drift nb_prefixes cidr =
     (if Some cidr \<in> set (filter nonempty (map np_prefix nb_prefixes)) then []
      else [Drift ''dhcpd-subnet-missing-in-netbox'' (''subnet='' @ cidr)
             (''brain dhcpd declares subnet '' @ cidr)
             ''no matching prefix in NetBox''
             (''HUMAN-ONLY: add prefix '' @ cidr @ '' to NetBox'') None])"

definition compare_dhcpd_subnets :: "string list \<Rightarrow> nb_prefix list \<Rightarrow> drift list" where
  "compare_dhcpd_subnets subs nb_prefixes = concat (map (dhcpd_subnet_drift nb_prefixes) subs)"

definition nb_by_ip :: "nb_ip list \<Rightarrow> string option \<Rightarrow> nb_ip option" where
  \<comment> \<open>the dictionary built by \<open>setdefault\<close>: the first address wins\<close>
  "nb_by_ip nb_ips ip = find (\<lambda>p. truthy (ni_address p) \<and> bare_ip (ni_address p) = ip) nb_ips"

definition have_name :: "nb_ip \<Rightarrow> string res" where
  \<comment> \<open>\<open>(p.get("dns_name") or "").strip().lower()\<close>\<close>
  "have_name p =
     (if truthy (ni_dns_name p)
      then (case ni_dns_name p of
              JStr s \<Rightarrow> Inr (lower (strip s))
            | j \<Rightarrow> Inl (attr_error j ''strip''))
      else Inr [])"

definition dns_target :: "nb_ip \<Rightarrow> string \<Rightarrow> dict" where
  "dns_target p want =
     [(''kind'', JStr ''ip''), (''address'', ni_address p), (''dns_name'', JStr want)]"

definition dns_drift :: "nb_ip list \<Rightarrow> a_record \<Rightarrow> drift list res" where
  "dns_drift nb_ips r =
     (case nb_by_ip nb_ips (bare_ip (JStr (ar_ip r))) of
        None \<Rightarrow> Inr []
      | Some p \<Rightarrow>
          rbind (have_name p) (\<lambda>have.
            let ip = ar_ip r; want = ar_fqdn r in
            if have = want then Inr []
            else Inr [Drift ''netbox-dns-name-stale'' (''ip='' @ ip)
              (''DNS zone maps '' @ ip @ '' -> '' @ sq want)
              (''NetBox dns_name for '' @ ip @ '' is '' @ sq (if have = [] then ''(empty)'' else have))
              (''HUMAN-ONLY: set NetBox dns_name of '' @ ip @ '' to '' @ sq want)
              (Some (dns_target p want))]))"

definition compare_dns_names :: "a_record list \<Rightarrow> nb_ip list \<Rightarrow> drift list res" where
  "compare_dns_names recs nb_ips = rbind (rmap (dns_drift nb_ips) recs) (\<lambda>dss. Inr (concat dss))"

section \<open>The run\<close>

type_synonym finding = "string \<times> string"

definition dhcpd_source :: "gh_config \<Rightarrow> nb_ip list \<Rightarrow> nb_prefix list \<Rightarrow> transport \<Rightarrow> drift list mcp" where
  "dhcpd_source cfg nb_ips nb_prefixes net =
     mbind (fetch_text cfg net (dhcpd_path cfg)) (\<lambda>text.
       mlift (if strip text = [] then Inl (MCPError ''empty dhcpd.conf'')
              else Inr (compare_dhcpd_hosts (parse_dhcpd_hosts text) nb_ips
                        @ compare_dhcpd_subnets (parse_dhcpd_subnets text) nb_prefixes)))"

definition zone_source :: "gh_config \<Rightarrow> nb_ip list \<Rightarrow> transport \<Rightarrow> string \<Rightarrow> drift list mcp" where
  "zone_source cfg nb_ips net zp =
     mbind (fetch_text cfg net zp) (\<lambda>text.
       mlift (if strip text = [] then Inl (MCPError (''empty zone '' @ zp))
              else compare_dns_names (parse_zone_a_records (dns_domain cfg) text) nb_ips))"

definition note_source :: "string \<Rightarrow> drift list res \<Rightarrow> drift list \<times> finding list" where
  \<comment> \<open>a \<open>try\<close> block of a source: its drifts, or one finding\<close>
  "note_source name r = (case r of Inr ds \<Rightarrow> (ds, []) | Inl e \<Rightarrow> ([], [(name, exn_str e)]))"

fun zone_sources ::
  "gh_config \<Rightarrow> nb_ip list \<Rightarrow> transport \<Rightarrow> string list \<Rightarrow> client \<Rightarrow> drift list \<times> finding list" where
  "zone_sources cfg nb_ips net [] c = ([], [])"
| "zone_sources cfg nb_ips net (zp # zps) c =
     (let (r, c1) = zone_source cfg nb_ips net zp c;
          (ds, fs) = note_source (''dns:'' @ zp) r;
          (ds', fs') = zone_sources cfg nb_ips net zps c1
      in (ds @ ds', fs @ fs'))"

definition gh_run ::
  "gh_config \<Rightarrow> transport \<Rightarrow> dict \<Rightarrow> nb_ip list \<Rightarrow> nb_prefix list \<Rightarrow> drift list \<times> finding list" where
  "gh_run cfg net endpoints nb_ips nb_prefixes =
     (let url = get endpoints ''github'' in
      if \<not> truthy url then ([], [(''github'', ''no github endpoint in mcp.json'')])
      else (case connect net (MCPClient ''github'' (py_str url)) of
          (Inl e, _) \<Rightarrow> ([], [(''github'', exn_str e)])
        | (Inr _, gh) \<Rightarrow>
            (let (r, gh1) = dhcpd_source cfg nb_ips nb_prefixes net gh;
                 (ds, fs) = note_source ''dhcpd'' r;
                 (ds', fs') = zone_sources cfg nb_ips net (zone_paths cfg) gh1
             in (ds @ ds', fs @ fs'))))"

section \<open>The comparators keep their contract\<close>

interpretation dhcpd_host_cmp: comparator dhcpd_host_drift compare_dhcpd_hosts
    "{''dhcpd-reservation-missing-in-netbox''}"
  by unfold_locales
    (auto simp: compare_dhcpd_hosts_def dhcpd_host_drift_def Let_def split: if_splits)

interpretation dhcpd_subnet_cmp: comparator dhcpd_subnet_drift compare_dhcpd_subnets
    "{''dhcpd-subnet-missing-in-netbox''}"
  by unfold_locales
    (auto simp: compare_dhcpd_subnets_def dhcpd_subnet_drift_def split: if_splits)

lemma dns_drift_cases:
  assumes "dns_drift nb_ips r = Inr ds" "d \<in> set ds"
  obtains p have' where "nb_by_ip nb_ips (bare_ip (JStr (ar_ip r))) = Some p"
    "have_name p = Inr have'" "have' \<noteq> ar_fqdn r" "category d = ''netbox-dns-name-stale''"
    "key d = ''ip='' @ ar_ip r" "target d = Some (dns_target p (ar_fqdn r))" "drift_ok d"
  using assms
  by (auto simp: dns_drift_def Let_def rbind_Inr_iff target_categories_def split: option.splits if_splits)

interpretation dns_cmp: fallible_comparator dns_drift compare_dns_names "{''netbox-dns-name-stale''}"
  by unfold_locales (auto simp: compare_dns_names_def elim: dns_drift_cases)

section \<open>DHCP parsing\<close>

lemma lit_append [simp]: "lit p (p @ s) = Some s"
  by (simp add: lit_def)

lemma startswith_set: "startswith s p \<Longrightarrow> set p \<subseteq> set s"
  by (auto simp: startswith_iff)

lemma search_none:
  assumes "c \<in> set p" "c \<notin> set s"
  shows "search (\<lambda>u. Option.bind (word_then p u) g) s = None"
  using assms(2)
proof (induction s)
  case (Cons x xs)
  have "\<not> startswith (x # xs) p" using startswith_set [of "x # xs" p] assms(1) Cons.prems by auto
  with Cons show ?case by (simp add: word_then_def lit_def)
next
  case Nil
  have "\<not> startswith [] p" using startswith_set [of "[]" p] assms(1) by auto
  then show ?case by (simp add: word_then_def lit_def)
qed

lemma span1_append:
  assumes "t \<noteq> []" "\<And>c. c \<in> set t \<Longrightarrow> P c" "\<not> P d"
  shows "span1 P (t @ d # r) = Some (t, d # r)"
  using assms by (simp add: span1_def takeWhile_append2 dropWhile_append2)

lemma splitlines_line:
  assumes "\<And>c. c \<in> set l \<Longrightarrow> \<not> is_linebreak c"
  shows "splitlines (l @ newline # rest) = l # splitlines rest"
  using assms by (induction l) (auto simp: is_linebreak_def code_point_def)

text \<open>The lines of a host declaration, as the configuration file has them.\<close>

definition render_host :: "dhcp_host \<Rightarrow> string list" where
  "render_host h =
     [''host '' @ dh_name h @ '' {'',
      ''  hardware ethernet '' @ the (dh_mac h) @ '';'',
      ''  fixed-address '' @ the (dh_ip h) @ '';'', ''}'']"

definition render_hosts :: "dhcp_host list \<Rightarrow> string" where
  "render_hosts hs = concat (map (\<lambda>l. l @ [newline]) (concat (map render_host hs)))"

definition name_char :: "char \<Rightarrow> bool" where
  "name_char c \<longleftrightarrow> \<not> is_space c \<and> \<not> is_linebreak c \<and> c \<noteq> CHR ''{'' \<and> c \<noteq> CHR ''#''"

definition renderable :: "dhcp_host \<Rightarrow> bool" where
  "renderable h \<longleftrightarrow> dh_name h \<noteq> [] \<and> list_all name_char (dh_name h) \<and> last (dh_name h) \<noteq> CHR ''.''
     \<and> (\<exists>m. dh_mac h = Some m \<and> m \<noteq> [] \<and> list_all is_mac_char m)
     \<and> (\<exists>i. dh_ip h = Some i \<and> i \<noteq> [] \<and> list_all is_ip_char i)"

definition normal_host :: "dhcp_host \<Rightarrow> dhcp_host" where
  "normal_host h = h\<lparr>dh_mac := norm_mac (JStr (the (dh_mac h)))\<rparr>"

lemma mac_char_facts:
  assumes "is_mac_char c"
  shows "c \<noteq> CHR '';''" "c \<noteq> CHR ''#''" "c \<noteq> CHR ''x''" "\<not> is_linebreak c" "c \<noteq> CHR ''}''" "\<not> is_space c"
  using assms by (auto simp: is_mac_char_def hex_val_def Let_def code_point_def is_linebreak_def is_space_def split: if_splits)

lemma ip_char_facts:
  assumes "is_ip_char c"
  shows "c \<noteq> CHR '';''" "c \<noteq> CHR ''#''" "c \<noteq> CHR ''w''" "\<not> is_linebreak c" "c \<noteq> CHR ''}''" "\<not> is_space c"
  using assms by (auto simp: is_ip_char_def is_digit_def code_point_def is_linebreak_def is_space_def)

lemma strip_comment_none: "CHR ''#'' \<notin> set l \<Longrightarrow> strip_comment l = l"
  by (simp add: strip_comment_def)

lemma char_space [simp]: "is_space (CHR '' '')" "\<not> is_space (CHR ''h'')" "\<not> is_space (CHR ''f'')" "\<not> is_space (CHR ''}'')"
  "\<not> is_space (CHR ''e'')"
  by (simp_all add: is_space_def code_point_def)

lemma contains_iff: "contains s [c] \<longleftrightarrow> c \<in> set s"
  by (induction s) (auto simp: startswith_def)

lemma host_re_line:
  assumes "name \<noteq> []" "list_all name_char name"
  shows "host_re (''host '' @ name @ '' {'') = Some name"
proof -
  have hd: "\<not> is_space (hd name)" using assms by (cases name) (auto simp: name_char_def)
  have "span1 (\<lambda>c. \<not> is_space c \<and> c \<noteq> CHR ''{'') (name @ CHR '' '' # ''{'') = Some (name, CHR '' '' # ''{'')"
    using assms by (intro span1_append) (auto simp: list_all_iff name_char_def)
  moreover have "lstrip (CHR '' '' # name @ '' {'') = name @ '' {''"
    using assms hd by (cases name) (auto simp: lstrip_def)
  ultimately show ?thesis
    by (simp add: host_re_def lstrip_def [of "CHR ''h'' # _"] word_then_def lit_def startswith_def spaces1_def)
qed

lemma mac_re_line:
  assumes "m \<noteq> []" "list_all is_mac_char m"
  shows "mac_re (''  hardware ethernet '' @ m @ '';'') = Some m"
proof -
  have hd: "\<not> is_space (hd m)" using assms by (cases m) (auto dest: mac_char_facts(6))
  have "span1 is_mac_char (m @ CHR '';'' # []) = Some (m, '';'')"
    using assms mac_char_facts(1) by (intro span1_append) (auto simp: list_all_iff)
  moreover have "lstrip (CHR '' '' # m @ '';'') = m @ '';''"
    using assms hd by (cases m) (auto simp: lstrip_def)
  ultimately show ?thesis
    by (simp add: mac_re_def word_then_def lit_def startswith_def spaces1_def lstrip_def [of "CHR '' '' # CHR ''e'' # _"])
qed

lemma fixed_re_line:
  assumes "i \<noteq> []" "list_all is_ip_char i"
  shows "fixed_re (''  fixed-address '' @ i @ '';'') = Some i"
proof -
  have hd: "\<not> is_space (hd i)" using assms by (cases i) (auto dest: ip_char_facts(6))
  have "span1 is_ip_char (i @ CHR '';'' # []) = Some (i, '';'')"
    using assms ip_char_facts(1) by (intro span1_append) (auto simp: list_all_iff)
  moreover have "lstrip (CHR '' '' # i @ '';'') = i @ '';''"
    using assms hd by (cases i) (auto simp: lstrip_def)
  ultimately show ?thesis
    by (simp add: fixed_re_def word_then_def lit_def startswith_def spaces1_def)
qed

lemma fixed_re_none: "CHR ''x'' \<notin> set l \<Longrightarrow> fixed_re l = None"
  unfolding fixed_re_def by (rule search_none [of "CHR ''x''"]) simp_all

lemma mac_re_none: "CHR ''w'' \<notin> set l \<Longrightarrow> mac_re l = None"
  unfolding mac_re_def by (rule search_none [of "CHR ''w''"]) simp_all

lemma rstrip_dot_none: "name \<noteq> [] \<Longrightarrow> last name \<noteq> CHR ''.'' \<Longrightarrow> rstrip_chars ''.'' name = name"
  by (cases "rev name") (auto simp: rstrip_chars_def simp flip: hd_rev)

lemma host_re_other:
  "host_re (''  hardware ethernet '' @ m @ '';'') = None" "host_re (''  fixed-address '' @ i @ '';'') = None"
  "host_re ''}'' = None"
  by (simp_all add: host_re_def lstrip_def word_then_def lit_def startswith_def)

lemma dhcpd_block:
  assumes "renderable h"
  shows "foldl dhcpd_step (hosts, cur) (render_host h) = (hosts @ [normal_host h], None)"
proof -
  obtain m i where m: "dh_mac h = Some m" "m \<noteq> []" "list_all is_mac_char m"
    and i: "dh_ip h = Some i" "i \<noteq> []" "list_all is_ip_char i" and n: "dh_name h \<noteq> []" "list_all name_char (dh_name h)"
    "last (dh_name h) \<noteq> CHR ''.''"
    using assms by (auto simp: renderable_def)
  have chars: "c \<in> set m \<Longrightarrow> is_mac_char c" "c \<in> set i \<Longrightarrow> is_ip_char c"
    "c \<in> set (dh_name h) \<Longrightarrow> name_char c" for c
    using m(3) i(3) n(2) by (simp_all add: list_all_iff)
  have sc: "CHR ''#'' \<notin> set (dh_name h)" "CHR ''#'' \<notin> set m" "CHR ''#'' \<notin> set i"
    using chars(3) [of "CHR ''#''"] mac_char_facts(2) [OF chars(1)] ip_char_facts(2) [OF chars(2)]
    by (auto simp: name_char_def)
  have braces: "CHR ''}'' \<notin> set m" "CHR ''}'' \<notin> set i" "CHR ''x'' \<notin> set m" "CHR ''w'' \<notin> set i"
    using mac_char_facts(3,5) [OF chars(1)] ip_char_facts(3,5) [OF chars(2)] by blast+
  have none: "fixed_re (''  hardware ethernet '' @ m @ '';'') = None" "mac_re (''  fixed-address '' @ i @ '';'') = None"
    "fixed_re ''}'' = None" "mac_re ''}'' = None"
    using braces by (auto intro!: fixed_re_none mac_re_none simp del: search.simps)
  have 1: "dhcpd_step (hosts, cur) (''host '' @ dh_name h @ '' {'') =
      (hosts, Some \<lparr>dh_name = dh_name h, dh_mac = None, dh_ip = None\<rparr>)" for cur
    using sc host_re_line [OF n(1,2)] rstrip_dot_none [OF n(1,3)]
    by (simp add: dhcpd_step_def strip_comment_none)
  have 2: "dhcpd_step (hosts, Some g) (''  hardware ethernet '' @ m @ '';'') = (hosts, Some (g\<lparr>dh_mac := norm_mac (JStr m)\<rparr>))" for g
    using sc braces none host_re_other mac_re_line [OF m(2,3)]
    by (simp add: dhcpd_step_def strip_comment_none host_line_def contains_iff)
  have 3: "dhcpd_step (hosts, Some g) (''  fixed-address '' @ i @ '';'') = (hosts, Some (g\<lparr>dh_ip := Some i\<rparr>))" for g
    using sc braces none host_re_other fixed_re_line [OF i(2,3)]
    by (simp add: dhcpd_step_def strip_comment_none host_line_def contains_iff)
  have 4: "dhcpd_step (hosts, Some g) ''}'' = (if nonempty (dh_ip g) then hosts @ [g] else hosts, None)" for g
    using none host_re_other by (simp add: dhcpd_step_def strip_comment_none host_line_def contains_iff)
  have "foldl dhcpd_step (hosts, cur) (render_host h) =
      (hosts @ [\<lparr>dh_name = dh_name h, dh_mac = norm_mac (JStr m), dh_ip = Some i\<rparr>], None)"
    unfolding render_host_def m(1) i(1) option.sel foldl.simps 1 2 3 4 using i(2) by (simp add: nonempty_def)
  then show ?thesis using m(1) i(1) by (simp add: normal_host_def)
qed

lemma splitlines_lines:
  assumes "\<And>l c. l \<in> set ls \<Longrightarrow> c \<in> set l \<Longrightarrow> \<not> is_linebreak c"
  shows "splitlines (concat (map (\<lambda>l. l @ [newline]) ls)) = ls"
  using assms
proof (induction ls)
  case (Cons l ls)
  then have "\<And>c. c \<in> set l \<Longrightarrow> \<not> is_linebreak c" "splitlines (concat (map (\<lambda>l. l @ [newline]) ls)) = ls"
    by auto
  then show ?case using splitlines_line [of l] by simp
qed simp

lemma render_host_lines:
  assumes "renderable h" "l \<in> set (render_host h)" "c \<in> set l"
  shows "\<not> is_linebreak c"
proof -
  have lit: "\<not> is_linebreak c" if "c \<in> set ''host  {  hardware ethernet ;  fixed-address ;}''"
    using that by (auto simp: is_linebreak_def code_point_def)
  show ?thesis
    using assms mac_char_facts(4) ip_char_facts(4) lit
    by (auto simp: render_host_def renderable_def name_char_def list_all_iff)
qed

text \<open>
  Property C29. Reading back a configuration of host declarations, one statement per line, gives
  exactly the declared hosts in order: name and address as written, the hardware address in the
  normal form that the comparison uses.
\<close>

theorem parse_dhcpd_hosts_roundtrip:
  assumes "list_all renderable hs"
  shows "parse_dhcpd_hosts (render_hosts hs) = map normal_host hs"
proof -
  have fold: "foldl dhcpd_step (hosts, None) (concat (map render_host gs)) = (hosts @ map normal_host gs, None)"
    if "list_all renderable gs" for hosts gs
    using that by (induction gs arbitrary: hosts) (simp_all add: dhcpd_block)
  have "splitlines (render_hosts hs) = concat (map render_host hs)"
    unfolding render_hosts_def using assms render_host_lines
    by (intro splitlines_lines) (auto simp: list_all_iff)
  then show ?thesis using fold [OF assms, of "[]"] by (simp add: parse_dhcpd_hosts_def)
qed

theorem parse_dhcpd_hosts_roundtrip_witness:
  "parse_dhcpd_hosts (render_hosts [\<lparr>dh_name = ''nas'', dh_mac = Some ''AA:bb:0c'', dh_ip = Some ''192.168.1.9''\<rparr>]) =
     [\<lparr>dh_name = ''nas'', dh_mac = Some ''aabb0c'', dh_ip = Some ''192.168.1.9''\<rparr>]"
proof -
  have "list_all renderable [\<lparr>dh_name = ''nas'', dh_mac = Some ''AA:bb:0c'', dh_ip = Some ''192.168.1.9''\<rparr>]"
    by (simp add: renderable_def name_char_def is_space_def is_linebreak_def is_mac_char_def hex_val_def
        is_ip_char_def is_digit_def code_point_def)
  from parse_dhcpd_hosts_roundtrip [OF this] show ?thesis
    by (simp add: normal_host_def norm_mac_def is_hex_lower_def is_digit_def str_eval)
qed

text \<open>
  A declaration written on one line is lost: the address on the line that opens the
  host is never read, and the host absorbs the lines after it until the next closing brace.
\<close>

theorem one_line_host_is_lost:
  "parse_dhcpd_hosts (''host printer { fixed-address 192.168.1.7; }'' @ [newline]) = []
   \<and> parse_dhcpd_hosts (''host printer { fixed-address 192.168.1.7; }'' @ [newline] @ ''fixed-address 10.0.0.1; }'') =
       [\<lparr>dh_name = ''printer'', dh_mac = None, dh_ip = Some ''10.0.0.1''\<rparr>]"
proof -
  have lines: "splitlines (''host printer { fixed-address 192.168.1.7; }'' @ [newline]) = [''host printer { fixed-address 192.168.1.7; }'']"
    "splitlines (''host printer { fixed-address 192.168.1.7; }'' @ [newline] @ ''fixed-address 10.0.0.1; }'') =
       [''host printer { fixed-address 192.168.1.7; }'', ''fixed-address 10.0.0.1; }'']"
    by (simp_all add: is_linebreak_def code_point_def)
  have one: "dhcpd_step ([], None) ''host printer { fixed-address 192.168.1.7; }'' =
      ([], Some \<lparr>dh_name = ''printer'', dh_mac = None, dh_ip = None\<rparr>)"
    by (simp add: dhcpd_step_def strip_comment_def before_def host_re_def word_then_def lit_def startswith_def
        spaces1_def lstrip_def span1_def is_space_def code_point_def rstrip_chars_def)
  have two: "dhcpd_step ([], Some \<lparr>dh_name = ''printer'', dh_mac = None, dh_ip = None\<rparr>) ''fixed-address 10.0.0.1; }'' =
      ([\<lparr>dh_name = ''printer'', dh_mac = None, dh_ip = Some ''10.0.0.1''\<rparr>], None)"
    by (simp add: dhcpd_step_def strip_comment_def before_def host_re_def word_then_def lit_def startswith_def
        spaces1_def lstrip_def span1_def is_space_def code_point_def host_line_def fixed_re_def mac_re_def
        is_ip_char_def is_digit_def nonempty_def)
  show ?thesis
    by (simp only: parse_dhcpd_hosts_def lines foldl.simps one two fst_conv simp_thms)
qed

end
