(* ===== verification/K8sApi.thy ===== *)
theory K8sApi
  imports GhSources
begin

text \<open>
  The collectors of \<open>k8s_api.py\<close>: nodes, load balancer addresses and Cilium pools read from the
  Kubernetes API with the pod's token, and their comparators.

  The API server is a parameter: what \<open>urlopen\<close> and \<open>read\<close> give for a URL and an authorization
  header, a decoded body or an exception; so is the token file.
\<close>

record kube =
  kube_host :: string
  kube_port :: string
  kube_token :: "string res"
  kube_open :: "string \<Rightarrow> string \<Rightarrow> string res"

definition k8s_norm_cidr :: "string option \<Rightarrow> string option" where
  "k8s_norm_cidr cidr =
     (if \<not> nonempty cidr then cidr
      else (case ip_network (the cidr) of Some n \<Rightarrow> Some n | None \<Rightarrow> cidr))"

definition k8s_get :: "kube \<Rightarrow> string \<Rightarrow> json res" where
  "k8s_get k path =
     rbind (kube_token k) (\<lambda>token.
     rbind (kube_open k (''https://'' @ kube_host k @ '':'' @ kube_port k @ path) (''Bearer '' @ strip token))
       json_loads)"

section \<open>Collectors\<close>

record k8s_node =
  kn_name :: json
  kn_ips :: "json list"

fun address_ips :: "json list \<Rightarrow> json list res" where
  "address_ips [] = Inr []"
| "address_ips (a # as) =
     rbind (field a ''type'' JNull) (\<lambda>ty.
     rbind (if ty = JStr ''InternalIP'' then rbind (field a ''address'' JNull) (\<lambda>x. Inr [x]) else Inr [])
       (\<lambda>xs. rbind (address_ips as) (\<lambda>ys. Inr (xs @ ys))))"

definition node_row :: "json \<Rightarrow> k8s_node res" where
  "node_row item =
     rbind (field item ''metadata'' (JObj [])) (\<lambda>meta.
     rbind (field meta ''name'' JNull) (\<lambda>name.
     rbind (field item ''status'' (JObj [])) (\<lambda>status.
     rbind (field status ''addresses'' (JList [])) (\<lambda>addrs.
     rbind (iterate addrs) (\<lambda>as.
     rbind (address_ips as) (\<lambda>ips.
       Inr \<lparr>kn_name = name, kn_ips = filter truthy ips\<rparr>))))))"

definition items_of :: "kube \<Rightarrow> string \<Rightarrow> json list res" where
  "items_of k path = rbind (k8s_get k path) (\<lambda>data.
     rbind (field data ''items'' (JList [])) iterate)"

definition collect_nodes :: "kube \<Rightarrow> k8s_node list res" where
  "collect_nodes k = rbind (items_of k ''/api/v1/nodes'') (rmap node_row)"

record lb_ip =
  li_ip :: json
  li_svc :: string

fun ingress_rows :: "json \<Rightarrow> json list \<Rightarrow> lb_ip list res" where
  "ingress_rows meta [] = Inr []"
| "ingress_rows meta (ing # ings) =
     rbind (field ing ''ip'' JNull) (\<lambda>ip.
     rbind (if truthy ip
            then rbind (field meta ''namespace'' JNull) (\<lambda>ns.
                 rbind (field meta ''name'' JNull) (\<lambda>name.
                   Inr [\<lparr>li_ip = ip, li_svc = py_str ns @ ''/'' @ py_str name\<rparr>]))
            else Inr [])
       (\<lambda>xs. rbind (ingress_rows meta ings) (\<lambda>ys. Inr (xs @ ys))))"

definition service_rows :: "json \<Rightarrow> lb_ip list res" where
  "service_rows svc =
     rbind (field svc ''spec'' (JObj [])) (\<lambda>spec.
     rbind (field spec ''type'' JNull) (\<lambda>ty.
     if ty \<noteq> JStr ''LoadBalancer'' then Inr []
     else
       rbind (field svc ''metadata'' (JObj [])) (\<lambda>meta.
       rbind (field svc ''status'' (JObj [])) (\<lambda>status.
       rbind (field status ''loadBalancer'' (JObj [])) (\<lambda>lb.
       rbind (field lb ''ingress'' (JList [])) (\<lambda>ings.
       rbind (iterate ings) (ingress_rows meta)))))))"

definition collect_lb_service_ips :: "kube \<Rightarrow> lb_ip list res" where
  "collect_lb_service_ips k =
     rbind (items_of k ''/api/v1/services'') (\<lambda>items.
     rbind (rmap service_rows items) (\<lambda>rows. Inr (concat rows)))"

record lb_pool =
  lp_pool :: json
  lp_cidr :: "string option"

fun block_rows :: "json \<Rightarrow> json list \<Rightarrow> lb_pool list res" where
  "block_rows name [] = Inr []"
| "block_rows name (b # bs) =
     rbind (field b ''cidr'' JNull) (\<lambda>cidr.
     rbind (block_rows name bs) (\<lambda>ys.
       Inr ((if truthy cidr then [\<lparr>lp_pool = name, lp_cidr = norm_subnet cidr\<rparr>] else []) @ ys)))"

definition pool_rows :: "json \<Rightarrow> lb_pool list res" where
  "pool_rows item =
     rbind (field item ''metadata'' (JObj [])) (\<lambda>meta.
     rbind (field meta ''name'' JNull) (\<lambda>name.
     rbind (field item ''spec'' (JObj [])) (\<lambda>spec.
     rbind (field spec ''blocks'' (JList [])) (\<lambda>blocks.
     rbind (if truthy blocks then iterate blocks else Inr []) (block_rows name)))))"

definition collect_lb_pools :: "kube \<Rightarrow> lb_pool list res" where
  "collect_lb_pools k =
     rbind (items_of k ''/apis/cilium.io/v2/ciliumloadbalancerippools'') (\<lambda>items.
     rbind (rmap pool_rows items) (\<lambda>rows. Inr (concat rows)))"

section \<open>Comparators\<close>

fun join_strs :: "json list \<Rightarrow> nat \<Rightarrow> string list res" where
  \<comment> \<open>the items of \<open>", ".join(...)\<close>, all of which must be strings\<close>
  "join_strs [] i = Inr []"
| "join_strs (JStr s # js) i = rbind (join_strs js (Suc i)) (\<lambda>ts. Inr (s # ts))"
| "join_strs (j # js) i = Inl (TypeError (''sequence item '' @ nat_str i
     @ '': expected str instance, '' @ type_name j @ '' found''))"

definition node_drift :: "nb_ip list \<Rightarrow> nb_device list \<Rightarrow> k8s_node \<Rightarrow> drift list res" where
  "node_drift nb_ips nb_devices n =
     (let nm = norm_name (kn_name n);
          nb_names = map (norm_name \<circ> nd_name) (filter (truthy \<circ> nd_name) nb_devices);
          ip_known = list_ex (\<lambda>ip. bare_ip ip \<in> set (nb_ip_set nb_ips)) (kn_ips n)
      in if nm \<notin> set nb_names \<and> \<not> ip_known
         then rbind (join_strs (kn_ips n) 0) (\<lambda>ips.
           Inr [Drift ''k8s-node-missing-in-netbox'' (''node='' @ opt_str nm)
             (''k8s node '' @ sq (py_str (kn_name n)) @ '' ('' @ join '', '' ips @ '') is live'')
             ''no matching device/IP in NetBox''
             (''HUMAN-ONLY: add node '' @ sq (py_str (kn_name n)) @ '' (device+interface+IP) to NetBox'')
             None])
         else Inr [])"

definition compare_nodes :: "k8s_node list \<Rightarrow> nb_ip list \<Rightarrow> nb_device list \<Rightarrow> drift list res" where
  "compare_nodes nodes nb_ips nb_devices =
     rbind (rmap (node_drift nb_ips nb_devices) nodes) (\<lambda>dss. Inr (concat dss))"

definition lb_target :: "lb_ip \<Rightarrow> dict" where
  "lb_target lb =
     [(''kind'', JStr ''ip''), (''address'', li_ip lb), (''description'', JStr (''LB svc '' @ li_svc lb))]"

definition lb_ip_drift :: "nb_ip list \<Rightarrow> lb_ip \<Rightarrow> drift list" where
  "lb_ip_drift nb_ips lb =
     (let ip = py_str (li_ip lb) in
      if bare_ip (li_ip lb) \<in> set (nb_ip_set nb_ips) then []
      else [Drift ''lb-ip-missing-in-netbox'' (''ip='' @ ip)
             (''LoadBalancer IP '' @ ip @ '' is assigned to '' @ li_svc lb)
             (''no ip-address '' @ ip @ '' in NetBox'')
             (''HUMAN-ONLY: add ip-address '' @ ip @ '' (svc '' @ li_svc lb @ '') to NetBox'')
             (Some (lb_target lb))])"

definition compare_lb_ips :: "lb_ip list \<Rightarrow> nb_ip list \<Rightarrow> drift list" where
  "compare_lb_ips lb_ips nb_ips = concat (map (lb_ip_drift nb_ips) lb_ips)"

definition lb_pool_drift :: "nb_prefix list \<Rightarrow> lb_pool \<Rightarrow> drift list" where
  "lb_pool_drift nb_prefixes p =
     (let cidr = opt_str (lp_cidr p); pool = sq (py_str (lp_pool p));
          nb_subnets = map (k8s_norm_cidr \<circ> np_prefix) (filter (nonempty \<circ> np_prefix) nb_prefixes)
      in if nonempty (lp_cidr p) \<and> k8s_norm_cidr (lp_cidr p) \<notin> set nb_subnets
         then [Drift ''lb-pool-missing-in-netbox'' (''cidr='' @ cidr)
                (''Cilium LB pool '' @ pool @ '' advertises '' @ cidr)
                ''no matching prefix in NetBox''
                (''HUMAN-ONLY: add prefix '' @ cidr @ '' (LB pool '' @ pool @ '') to NetBox'') None]
         else [])"

definition compare_lb_pools :: "lb_pool list \<Rightarrow> nb_prefix list \<Rightarrow> drift list" where
  "compare_lb_pools pools nb_prefixes = concat (map (lb_pool_drift nb_prefixes) pools)"

definition k8s_run ::
  "kube \<Rightarrow> nb_ip list \<Rightarrow> nb_prefix list \<Rightarrow> nb_device list \<Rightarrow> drift list \<times> finding list" where
  "k8s_run k nb_ips nb_prefixes nb_devices =
     (let (d1, f1) = note_source ''k8s-nodes''
            (rbind (collect_nodes k) (\<lambda>nodes. compare_nodes nodes nb_ips nb_devices));
          (d2, f2) = note_source ''k8s-lb-services''
            (rbind (collect_lb_service_ips k) (\<lambda>lb_ips. Inr (compare_lb_ips lb_ips nb_ips)));
          (d3, f3) = note_source ''cilium-lb-pools''
            (rbind (collect_lb_pools k) (\<lambda>pools. Inr (compare_lb_pools pools nb_prefixes)))
      in (d1 @ d2 @ d3, f1 @ f2 @ f3))"

section \<open>The comparators keep their contract\<close>

lemma k8s_norm_cidr_eq: "k8s_norm_cidr = norm_cidr"
  by (rule ext) (auto simp: k8s_norm_cidr_def norm_cidr_def nonempty_def split: option.splits)

interpretation node_cmp: fallible_comparator "\<lambda>(ips, devs). node_drift ips devs"
    "\<lambda>nodes (ips, devs). compare_nodes nodes ips devs" "{''k8s-node-missing-in-netbox''}"
  by unfold_locales
    (auto simp: compare_nodes_def node_drift_def Let_def rbind_Inr_iff split: if_splits prod.splits)

interpretation lb_ip_cmp: comparator lb_ip_drift compare_lb_ips "{''lb-ip-missing-in-netbox''}"
  by unfold_locales
    (auto simp: compare_lb_ips_def lb_ip_drift_def Let_def target_categories_def split: if_splits)

interpretation lb_pool_cmp: comparator lb_pool_drift compare_lb_pools "{''lb-pool-missing-in-netbox''}"
  by unfold_locales
    (auto simp: compare_lb_pools_def lb_pool_drift_def Let_def split: if_splits)

end
