(* ===== verification/Sweep.thy ===== *)
theory Sweep
  imports K8sApi
begin

text \<open>
  The sweep of \<open>netbox_sync.py\<close>: the collection over all sources, the acknowledgement list and the
  baseline of known fingerprints, the digest, and \<open>main\<close>.

  The files are values: \<open>None\<close> is a missing file. The notification service is a parameter that
  accepts a mail or raises. Log lines are not modelled; the final \<open>NETBOX_SYNC_RESULT\<close> is.
\<close>

section \<open>Configuration and collection\<close>

record config =
  cfg_compare_devices :: bool
  cfg_enable_github :: bool
  cfg_enable_k8s :: bool
  cfg_digest_cap :: int
  cfg_agent :: string
  cfg_gh :: gh_config

record world =
  w_net :: transport
  w_kube :: kube

definition endpoint_url :: "string \<times> json \<Rightarrow> dict res" where
  \<comment> \<open>one item of the dictionary comprehension: \<open>v["url"]\<close> if \<open>"url" in v\<close>\<close>
  "endpoint_url kv =
     (case snd kv of
        JObj d \<Rightarrow> Inr (case map_of d ''url'' of None \<Rightarrow> [] | Some u \<Rightarrow> [(fst kv, u)])
      | JStr s \<Rightarrow> if contains s ''url'' then Inl (TypeError ''string indices must be integers'') else Inr []
      | JList xs \<Rightarrow> if JStr ''url'' \<in> set xs then Inl (TypeError ''list indices must be integers'') else Inr []
      | j \<Rightarrow> Inl (TypeError (''argument of type '' @ repr_str (type_name j) @ '' is not iterable'')))"

definition endpoints :: "string option \<Rightarrow> dict res" where
  "endpoints mcp_config =
     rbind (case mcp_config of None \<Rightarrow> Inl (OSError ''No such file or directory'') | Some t \<Rightarrow> json_loads t)
     (\<lambda>cfg. rbind (field cfg ''mcpServers'' (JObj [])) (\<lambda>servers.
       case servers of
         JObj kvs \<Rightarrow> rbind (rmap endpoint_url kvs) (\<lambda>us. Inr (concat us))
       | j \<Rightarrow> Inl (attr_error j ''items'')))"

definition open_client :: "transport \<Rightarrow> dict \<Rightarrow> string \<Rightarrow> client res" where
  \<comment> \<open>\<open>MCPClient(name, eps[name]).connect()\<close>\<close>
  "open_client net eps name =
     (case map_of eps name of
        None \<Rightarrow> Inl (key_error name)
      | Some u \<Rightarrow>
          (case connect net (MCPClient name (py_str u)) of
             (Inl e, _) \<Rightarrow> Inl e
           | (Inr _, c) \<Rightarrow> Inr c))"

record omada_data =
  om_nets :: "omada_net list"
  om_devices :: "omada_device list"

definition read_omada :: "transport \<Rightarrow> dict \<Rightarrow> omada_data res" where
  "read_omada net eps =
     rbind (open_client net eps ''omada'') (\<lambda>c.
       fst (mbind (collect_omada_networks net) (\<lambda>nets.
            mbind (collect_omada_devices net) (\<lambda>devices.
            mlift (Inr \<lparr>om_nets = nets, om_devices = devices\<rparr>))) c))"

record netbox_data =
  nx_vlans :: "nb_vlan list"
  nx_prefixes :: "nb_prefix list"
  nx_devices :: "nb_device list"
  nx_ips :: "nb_ip list"

definition obind :: "('a res \<times> client) option \<Rightarrow> ('a \<Rightarrow> client \<Rightarrow> 'b res option) \<Rightarrow> 'b res option" where
  \<comment> \<open>sequencing of reads that may raise or not return\<close>
  "obind m f =
     (case m of None \<Rightarrow> None | Some (Inl e, _) \<Rightarrow> Some (Inl e) | Some (Inr a, c) \<Rightarrow> f a c)"

definition read_netbox :: "config \<Rightarrow> transport \<Rightarrow> dict \<Rightarrow> netbox_data res option" where
  "read_netbox cfg net eps =
     (case open_client net eps ''netbox'' of
        Inl e \<Rightarrow> Some (Inl e)
      | Inr c \<Rightarrow>
          obind (collect_netbox_vlans net c) (\<lambda>vlans c1.
          obind (collect_netbox_prefixes net c1) (\<lambda>prefixes c2.
          obind (collect_netbox_devices net c2) (\<lambda>devices c3.
          obind (if cfg_enable_github cfg \<or> cfg_enable_k8s cfg
                 then collect_netbox_ips net c3 else Some (Inr [], c3)) (\<lambda>ips _.
            Some (Inr \<lparr>nx_vlans = vlans, nx_prefixes = prefixes, nx_devices = devices, nx_ips = ips\<rparr>))))))"

definition source_drift :: "finding \<Rightarrow> drift" where
  "source_drift f =
     Drift ''source-unreadable'' (''source='' @ fst f)
       (''live read of '' @ sq (fst f) @ '' failed'') ''n/a''
       (''HUMAN-ONLY: check the '' @ fst f @ '' read path (MCP service / backend / RBAC); detail: ''
        @ take 160 (snd f)) None"

definition note_read :: "string \<Rightarrow> 'a res \<Rightarrow> finding list" where
  "note_read name r = (case r of Inl e \<Rightarrow> [(name, exn_str e)] | Inr _ \<Rightarrow> [])"

definition phase1_drifts :: "config \<Rightarrow> omada_data res \<Rightarrow> netbox_data res \<Rightarrow> drift list" where
  "phase1_drifts cfg om nx =
     (case (om, nx) of
        (Inr m, Inr n) \<Rightarrow>
          compare_vlans (om_nets m) (nx_vlans n) @ compare_prefixes (om_nets m) (nx_prefixes n)
          @ (if cfg_compare_devices cfg then compare_devices (om_devices m) (nx_devices n) else [])
      | _ \<Rightarrow> [])"

definition phase2 :: "config \<Rightarrow> world \<Rightarrow> dict \<Rightarrow> netbox_data res \<Rightarrow> drift list \<times> finding list" where
  "phase2 cfg w eps nx =
     (case nx of
        Inl _ \<Rightarrow> ([], [])
      | Inr n \<Rightarrow>
          (let (d1, f1) = (if cfg_enable_github cfg
                 then gh_run (cfg_gh cfg) (w_net w) eps (nx_ips n) (nx_prefixes n) else ([], []));
               (d2, f2) = (if cfg_enable_k8s cfg
                 then k8s_run (w_kube w) (nx_ips n) (nx_prefixes n) (nx_devices n) else ([], []))
           in (d1 @ d2, f1 @ f2)))"

definition compute_drifts :: "config \<Rightarrow> world \<Rightarrow> dict \<Rightarrow> (drift list \<times> finding list) option" where
  "compute_drifts cfg w eps =
     (let om = read_omada (w_net w) eps in
      map_option (\<lambda>nx.
        let (d2, f2) = phase2 cfg w eps nx;
            findings = note_read ''omada'' om @ note_read ''netbox'' nx @ f2
        in (phase1_drifts cfg om nx @ d2 @ map source_drift findings, findings))
      (read_netbox cfg (w_net w) eps))"

section \<open>Acknowledgements and baseline\<close>

definition file_lines :: "string \<Rightarrow> string list" where
  \<comment> \<open>the lines of a text file, without their terminators\<close>
  "file_lines s = split_on newline (universal_newlines s)"

definition load_acked :: "string option \<Rightarrow> string list" where
  "load_acked file =
     (case file of
        None \<Rightarrow> []
      | Some text \<Rightarrow> filter (\<lambda>l. l \<noteq> []) (map (\<lambda>l. strip (before (CHR ''#'') l)) (file_lines text)))"

definition py_set :: "json list \<Rightarrow> json list res" where
  \<comment> \<open>\<open>set(...)\<close>: distinct elements, which must be hashable\<close>
  "py_set xs =
     (case find (\<lambda>j. \<not> hashable j) xs of
        Some j \<Rightarrow> Inl (TypeError (''unhashable type: '' @ repr_str (type_name j)))
      | None \<Rightarrow> Inr (remdups xs))"

definition load_seen :: "string option \<Rightarrow> json list res" where
  "load_seen file =
     (case file of
        None \<Rightarrow> Inr []
      | Some text \<Rightarrow>
          (case loads text of None \<Rightarrow> Inr [] | Some j \<Rightarrow> rbind (iterate j) py_set))"

definition save_seen :: "string list \<Rightarrow> string option" where
  \<comment> \<open>the new content of \<open>seen.json\<close>, replaced in one step\<close>
  "save_seen fingerprints = Some (dumps (JList (map JStr (sort fingerprints))))"

section \<open>Digest\<close>

definition digest_item :: "drift \<Rightarrow> string list" where
  "digest_item d =
     (let tick = [CHR 0x60] in
      [''- **'' @ category d @ ''** '' @ tick @ key d @ tick @ '' ('' @ tick @ fingerprint d @ tick @ '')'',
       ''  - reality: '' @ reality d, ''  - record: '' @ recorded d, ''  - '' @ proposal d])"

definition by_category_key :: "drift list \<Rightarrow> drift list" where
  "by_category_key ds = sort_key (\<lambda>d. (category d, key d)) ds"

definition build_digest :: "config \<Rightarrow> string \<Rightarrow> drift list \<Rightarrow> nat \<Rightarrow> string" where
  "build_digest cfg day new_drifts active_total =
     (let tick = [CHR 0x60];
          shown = slice_to (cfg_digest_cap cfg) (by_category_key new_drifts);
          more = int (length new_drifts) - int (length shown);
          lines =
            [''FYI: NetBox-freshness sweep found NEW network drift ('' @ day
              @ ''). NetBox mirrors live reality; every fix below is **human-only** ''
              @ ''(this sweep writes nothing).'', [],
             ''## New drift ('' @ nat_str (length new_drifts) @ '')'']
            @ concat (map digest_item shown)
            @ (if 0 < more
               then [''- _'' @ [ellipsis] @ ''and '' @ int_str more @ '' more (full list in the job logs)._'']
               else [])
            @ [[], ''_'' @ nat_str active_total
               @ '' drift item(s) currently active. To silence a known/planned item, add its ''
               @ tick @ ''fingerprint'' @ tick @ '' to '' @ tick @ ''acked.txt'' @ tick
               @ '' in the network-drift app._'']
      in take 3500 (join [newline] lines))"

section \<open>Main\<close>

definition WRITE_ENABLED :: bool where
  "WRITE_ENABLED = False"

record state =
  st_mcp_config :: "string option"
  st_acked :: "string option"
  st_seen :: "string option"

record result =
  rs_emailed :: bool
  rs_new :: nat
  rs_resolved :: nat
  rs_active :: nat
  rs_sources_failed :: nat

datatype exit =
    Exit int result
  | Crash exn

record outcome =
  out_exit :: exit
  out_mail :: "mail option"
  out_seen :: "string option"

definition gate :: "string list \<Rightarrow> json list \<Rightarrow> drift list \<Rightarrow> drift list \<times> drift list \<times> json list" where
  \<comment> \<open>the active drifts, the new ones among them, and the resolved fingerprints\<close>
  "gate acked seen drifts =
     (let active = filter (\<lambda>d. fingerprint d \<notin> set acked) drifts in
      (active,
       filter (\<lambda>d. JStr (fingerprint d) \<notin> set seen) active,
       filter (\<lambda>j. j \<notin> set (map (JStr \<circ> fingerprint) active)) seen))"

definition emit :: "config \<Rightarrow> (mail \<Rightarrow> unit res) \<Rightarrow> string \<Rightarrow> state \<Rightarrow> drift list \<Rightarrow> finding list \<Rightarrow> json list \<Rightarrow> outcome" where
  \<comment> \<open>the mail, if there is new drift, and then the new baseline\<close>
  "emit cfg notify day st drifts findings seen =
     (let (active, new_drifts, resolved) = gate (load_acked (st_acked st)) seen drifts;
          res = \<lparr>rs_emailed = new_drifts \<noteq> [], rs_new = length new_drifts,
                 rs_resolved = length resolved, rs_active = length active,
                 rs_sources_failed = length findings\<rparr>;
          m = \<lparr>ml_subject = ''network drift '' @ [em_dash] @ '' '' @ day,
               ml_body = build_digest cfg day new_drifts (length active), ml_agent = cfg_agent cfg\<rparr>;
          saved = save_seen (remdups (map fingerprint active))
      in if new_drifts \<noteq> []
         then (case notify m of
             Inl e \<Rightarrow> \<lparr>out_exit = Crash e, out_mail = None, out_seen = st_seen st\<rparr>
           | Inr _ \<Rightarrow> \<lparr>out_exit = Exit 0 res, out_mail = Some m, out_seen = saved\<rparr>)
         else \<lparr>out_exit = Exit 0 res, out_mail = None, out_seen = saved\<rparr>)"

definition stop :: "state \<Rightarrow> exit \<Rightarrow> outcome" where
  \<comment> \<open>the run ends here: no mail, and the baseline file as it was\<close>
  "stop st ex = \<lparr>out_exit = ex, out_mail = None, out_seen = st_seen st\<rparr>"

definition conclude :: "config \<Rightarrow> (mail \<Rightarrow> unit res) \<Rightarrow> string \<Rightarrow> state \<Rightarrow> drift list \<Rightarrow> finding list \<Rightarrow> outcome" where
  \<comment> \<open>\<open>main\<close> after the collection\<close>
  "conclude cfg notify day st drifts findings =
     (case load_seen (st_seen st) of
        Inl e \<Rightarrow> stop st (Crash e)
      | Inr seen \<Rightarrow> emit cfg notify day st drifts findings seen)"

definition initial_result :: result where
  "initial_result = \<lparr>rs_emailed = False, rs_new = 0, rs_resolved = 0, rs_active = 0, rs_sources_failed = 0\<rparr>"

definition main :: "config \<Rightarrow> world \<Rightarrow> (mail \<Rightarrow> unit res) \<Rightarrow> string \<Rightarrow> state \<Rightarrow> outcome option" where
  "main cfg w notify day st =
     (if WRITE_ENABLED then Some (stop st (Exit 2 initial_result))
      else (case endpoints (st_mcp_config st) of
          Inl e \<Rightarrow> Some (stop st (Crash e))
        | Inr eps \<Rightarrow>
            map_option (\<lambda>(drifts, findings). conclude cfg notify day st drifts findings)
              (compute_drifts cfg w eps)))"

section \<open>The baseline store\<close>

text \<open>
  What the gate relies on: a set of fingerprints that is saved is the set that the next run
  loads, whatever the file held before.
\<close>

locale baseline_store =
  fixes load :: "string option \<Rightarrow> json list res"
    and save :: "string list \<Rightarrow> string option"
  assumes load_save: "\<exists>js. load (save fps) = Inr js \<and> set js = JStr ` set fps"
begin

definition known :: "string option \<Rightarrow> string \<Rightarrow> bool" where
  "known file f \<longleftrightarrow> (case load file of Inl _ \<Rightarrow> False | Inr js \<Rightarrow> JStr f \<in> set js)"

lemma known_save [simp]: "known (save fps) f \<longleftrightarrow> f \<in> set fps"
  using load_save [of fps] by (auto simp: known_def)

lemma load_save_total: "\<exists>js. load (save fps) = Inr js"
  using load_save by blast

lemma save_forgets: "set fps = set fps' \<Longrightarrow> known (save fps) = known (save fps')"
  by auto

end

lemma savable_strs: "savable (JList (map JStr fps))"
  by auto

lemma py_set_strs: "py_set (map JStr fps) = Inr (remdups (map JStr fps))"
proof -
  have "find (\<lambda>j. \<not> hashable j) (map JStr fps) = None"
    by (auto simp: find_None_iff)
  then show ?thesis by (simp add: py_set_def)
qed

lemma load_seen_save_seen: "load_seen (save_seen fps) = Inr (remdups (map JStr (sort fps)))"
  using loads_dumps [OF savable_strs, of "sort fps"]
  by (simp add: load_seen_def save_seen_def py_set_strs del: dumps_by.simps)

interpretation seen: baseline_store load_seen save_seen
  by unfold_locales (simp add: load_seen_save_seen)

section \<open>The gate\<close>

lemma gate_filter_acked:
  "gate acked seen (filter (\<lambda>d. fingerprint d \<notin> set acked) ds) = gate acked seen ds"
  by (simp add: gate_def)

abbreviation unacked :: "state \<Rightarrow> drift \<Rightarrow> bool" where
  "unacked st d \<equiv> fingerprint d \<notin> set (load_acked (st_acked st))"

lemma emit_cases:
  assumes "out = emit cfg notify day st ds fs seen"
  obtains (silent) "\<forall>d \<in> set ds. unacked st d \<longrightarrow> JStr (fingerprint d) \<in> set seen" "out_mail out = None"
      "\<exists>r. out_exit out = Exit 0 r" "out_seen out = save_seen (remdups (map fingerprint (filter (unacked st) ds)))"
    | (mailed) d m where "d \<in> set ds" "unacked st d" "JStr (fingerprint d) \<notin> set seen"
      "notify m = Inr ()" "out_mail out = Some m" "\<exists>r. out_exit out = Exit 0 r"
      "out_seen out = save_seen (remdups (map fingerprint (filter (unacked st) ds)))"
    | (failed) d m e where "d \<in> set ds" "unacked st d" "JStr (fingerprint d) \<notin> set seen"
      "notify m = Inl e" "out = stop st (Crash e)"
proof (cases "\<forall>d \<in> set ds. unacked st d \<longrightarrow> JStr (fingerprint d) \<in> set seen")
  case True
  with assms show ?thesis
    by (intro silent) (auto simp: emit_def gate_def Let_def filter_empty_conv)
next
  case False
  then obtain d where d: "d \<in> set ds" "unacked st d" "JStr (fingerprint d) \<notin> set seen" by blast
  let ?act = "filter (unacked st) ds"
  let ?new = "filter (\<lambda>d. JStr (fingerprint d) \<notin> set seen) ?act"
  let ?m = "\<lparr>ml_subject = ''network drift '' @ [em_dash] @ '' '' @ day,
     ml_body = build_digest cfg day ?new (length ?act), ml_agent = cfg_agent cfg\<rparr>"
  have new: "?new \<noteq> []" using d by (auto simp: filter_empty_conv)
  show ?thesis
  proof (cases "notify ?m")
    case (Inl e)
    with assms d new show ?thesis
      by (intro failed [of d ?m e]) (auto simp: emit_def gate_def Let_def stop_def)
  next
    case (Inr u)
    with assms d new show ?thesis
      by (intro mailed [of d ?m]) (auto simp: emit_def gate_def Let_def)
  qed
qed

lemma conclude_saved:
  assumes "out = conclude cfg notify day st ds fs" "out_exit out = Exit 0 r"
  shows "out_seen out = save_seen (remdups (map fingerprint (filter (unacked st) ds)))"
proof (cases "load_seen (st_seen st)")
  case (Inr seen)
  with assms(1) have "out = emit cfg notify day st ds fs seen" by (simp add: conclude_def)
  from this assms(2) show ?thesis by (cases rule: emit_cases) (simp_all add: stop_def)
qed (use assms in \<open>simp add: conclude_def stop_def\<close>)

lemma conclude_mails_iff:
  assumes "\<forall>m. notify m = Inr ()" "load_seen (st_seen st) = Inr js"
  shows "out_mail (conclude cfg notify day st ds fs) \<noteq> None \<longleftrightarrow>
    (\<exists>d \<in> set ds. unacked st d \<and> \<not> seen.known (st_seen st) (fingerprint d))"
proof -
  define out where "out = emit cfg notify day st ds fs js"
  then have "conclude cfg notify day st ds fs = out" using assms(2) by (simp add: conclude_def)
  from out_def this show ?thesis
    using assms by (cases rule: emit_cases) (auto simp: seen.known_def)
qed

text \<open>
  Property C2. Between two sweeps that could read all their sources, the mail goes out exactly on a state
  change: after a run that ended normally, the next run sends a mail if and only if it has a drift that is
  not acknowledged and whose fingerprint was not among the unacknowledged drifts of the run before. Known
  drift stays silent, new drift is never lost. What a run with unreadable sources in between does to this
  is shown below.
\<close>

theorem sweep_mails_exactly_new_drift:
  assumes "out = conclude cfg notify day st ds []" "out_exit out = Exit 0 r"
    and "\<forall>m. notify' m = Inr ()"
  shows "out_mail (conclude cfg notify' day' (st\<lparr>st_seen := out_seen out\<rparr>) ds' []) \<noteq> None \<longleftrightarrow>
    (\<exists>d \<in> set ds'. unacked st d \<and> fingerprint d \<notin> fingerprint ` {d \<in> set ds. unacked st d})"
proof -
  let ?st = "st\<lparr>st_seen := out_seen out\<rparr>"
  have saved: "out_seen out = save_seen (remdups (map fingerprint (filter (unacked st) ds)))"
    by (rule conclude_saved [OF assms(1,2)])
  then obtain js where js: "load_seen (st_seen ?st) = Inr js" using seen.load_save_total by fastforce
  have "seen.known (st_seen ?st) f \<longleftrightarrow> f \<in> fingerprint ` {d \<in> set ds. unacked st d}" for f
    by (simp add: saved)
  then show ?thesis
    using conclude_mails_iff [OF assms(3) js, of cfg day' ds' "[]"] by simp
qed

text \<open>A configuration, a world in which nothing answers, and an empty state, for the witnesses.\<close>

definition demo_config :: config where
  "demo_config = \<lparr>cfg_compare_devices = True, cfg_enable_github = False, cfg_enable_k8s = False,
     cfg_digest_cap = 30, cfg_agent = ''network-operator'',
     cfg_gh = \<lparr>gh_owner = ''rwlove'', gh_repo = ''lovenet-network-configuration'',
       dhcpd_path = ''dhcpd/dhcpd.conf'', zone_paths = [''named/named.thesteamedcrab''],
       dns_domain = ''thesteamedcrab.com''\<rparr>\<rparr>"

definition dead_world :: world where
  "dead_world = \<lparr>w_net = \<lambda>_. NetFail None ''timed out'',
     w_kube = \<lparr>kube_host = ''kubernetes.default.svc'', kube_port = ''443'',
       kube_token = Inl (OSError ''no token''), kube_open = \<lambda>_ _. Inl (OSError ''timed out'')\<rparr>\<rparr>"

definition fresh_state :: state where
  "fresh_state = \<lparr>st_mcp_config = Some ''{}'', st_acked = None, st_seen = None\<rparr>"

text \<open>A drift that persists is mailed once: the second run over the same picture is silent.\<close>

theorem sweep_mails_exactly_new_drift_witness:
  "let d = Drift ''vlan-missing-in-netbox'' ''vid=30'' [] [] [] None;
       out = conclude demo_config (\<lambda>m. Inr ()) ''2026-01-01'' fresh_state [d] []
   in out_mail out \<noteq> None
    \<and> out_mail (conclude demo_config (\<lambda>m. Inr ()) ''2026-01-02''
        (fresh_state\<lparr>st_seen := out_seen out\<rparr>) [d] []) = None"
proof -
  define d where "d = Drift ''vlan-missing-in-netbox'' ''vid=30'' [] [] [] None"
  define out where "out = conclude demo_config (\<lambda>m. Inr ()) ''2026-01-01'' fresh_state [d] []"
  have "\<exists>r. out_exit out = Exit 0 r" "out_mail out \<noteq> None"
    by (simp_all add: out_def conclude_def load_seen_def fresh_state_def emit_def gate_def
        load_acked_def Let_def)
  then show ?thesis
    using sweep_mails_exactly_new_drift [OF out_def, where notify' = "\<lambda>m. Inr ()" and ds' = "[d]"]
    unfolding Let_def d_def [symmetric] out_def [symmetric] by fastforce
qed

text \<open>
  An acknowledged drift has no influence on a run: removing every drift whose
  fingerprint is in the acknowledgement file leaves the mail, its text, the baseline and the
  reported counts the same.
\<close>

theorem acked_drift_is_invisible:
  "conclude cfg notify day st ds fs = conclude cfg notify day st (filter (unacked st) ds) fs"
  by (simp add: conclude_def emit_def gate_filter_acked [symmetric, of _ _ ds] split: sum.split)

text \<open>
  A crash never advances the baseline: when the run ends with an exception, from an
  unreadable configuration, a malformed state file or a notification that failed, the file of known
  fingerprints is the one it found, and no mail counts as sent.
\<close>

theorem crash_keeps_baseline:
  assumes "main cfg w notify day st = Some out" "out_exit out = Crash e"
  shows "out_seen out = st_seen st \<and> out_mail out = None"
proof (cases "endpoints (st_mcp_config st)")
  case (Inr eps)
  with assms(1) obtain ds fs where out: "out = conclude cfg notify day st ds fs"
    by (auto simp: main_def WRITE_ENABLED_def)
  show ?thesis
  proof (cases "load_seen (st_seen st)")
    case (Inl e')
    with out show ?thesis by (simp add: conclude_def stop_def)
  next
    case (Inr js)
    with out have "out = emit cfg notify day st ds fs js" by (simp add: conclude_def)
    from this assms(2) show ?thesis by (cases rule: emit_cases) (auto simp: stop_def)
  qed
qed (use assms in \<open>auto simp: main_def WRITE_ENABLED_def stop_def\<close>)

lemma endpoints_empty: "endpoints (Some ''{}'') = Inr []"
proof -
  have "loads ''{}'' = Some (JObj [])" using loads_dumps [of "JObj []"] by simp
  then show ?thesis by (simp add: endpoints_def json_loads_def field_def get_or_def)
qed

lemma compute_drifts_no_endpoints:
  "compute_drifts cfg w [] =
     Some (map source_drift [(''omada'', repr_str ''omada''), (''netbox'', repr_str ''netbox'')],
       [(''omada'', repr_str ''omada''), (''netbox'', repr_str ''netbox'')])"
  by (simp add: compute_drifts_def read_omada_def read_netbox_def open_client_def key_error_def
      note_read_def phase1_drifts_def phase2_def)

theorem crash_keeps_baseline_witness:
  "out_seen (the (main demo_config dead_world (\<lambda>m. Inl (OSError ''mail is down'')) ''2026-01-01''
     fresh_state)) = None"
proof -
  have "\<exists>out e. main demo_config dead_world (\<lambda>m. Inl (OSError ''mail is down'')) ''2026-01-01'' fresh_state
      = Some out \<and> out_exit out = Crash e"
    by (simp add: main_def WRITE_ENABLED_def fresh_state_def endpoints_empty compute_drifts_no_endpoints
        conclude_def load_seen_def emit_def gate_def load_acked_def Let_def)
  then obtain out e where out: "main demo_config dead_world (\<lambda>m. Inl (OSError ''mail is down''))
      ''2026-01-01'' fresh_state = Some out" "out_exit out = Crash e" by blast
  from crash_keeps_baseline [OF out] out(1) show ?thesis by (simp add: fresh_state_def)
qed

section \<open>The collection\<close>

text \<open>The categories of the comparators between Omada and NetBox.\<close>

definition phase1_categories :: "string set" where
  "phase1_categories = {''vlan-missing-in-netbox'', ''vlan-name-mismatch'', ''prefix-mismatch'',
     ''prefix-missing-in-netbox'', ''device-missing-in-netbox''}"

text \<open>
  A half-read sweep has no phantom drift. If NetBox cannot be read, the collection
  reports nothing but its unreadable sources; and it reports them: every finding is a drift of
  category \<open>source-unreadable\<close> under the name of the source.
\<close>

theorem netbox_outage_reports_only_sources:
  assumes "read_netbox cfg (w_net w) eps = Some (Inl e)"
  shows "\<exists>fs. compute_drifts cfg w eps = Some (map source_drift fs, fs)
    \<and> (''netbox'', exn_str e) \<in> set fs \<and> fst ` set fs \<subseteq> {''omada'', ''netbox''}"
  using assms
  by (auto simp: compute_drifts_def phase1_drifts_def phase2_def note_read_def Let_def split: sum.splits)

theorem netbox_outage_reports_only_sources_witness:
  "\<exists>fs. compute_drifts demo_config dead_world [(''netbox'', JStr ''http://netbox-mcp'')] = Some (map source_drift fs, fs)
    \<and> ''netbox'' \<in> fst ` set fs"
proof -
  have "\<exists>e. read_netbox demo_config (w_net dead_world) [(''netbox'', JStr ''http://netbox-mcp'')] = Some (Inl e)"
    by (simp add: read_netbox_def open_client_def connect_def rpc_def Let_def mbind_def post_def dead_world_def)
  then obtain e where "read_netbox demo_config (w_net dead_world) [(''netbox'', JStr ''http://netbox-mcp'')] = Some (Inl e)"
    by blast
  from netbox_outage_reports_only_sources [OF this] show ?thesis by force
qed

text \<open>The drifts of a phase-2 source, by source.\<close>

definition phase2_categories :: "string set" where
  "phase2_categories = {''dhcpd-reservation-missing-in-netbox'', ''dhcpd-subnet-missing-in-netbox'',
     ''netbox-dns-name-stale'', ''k8s-node-missing-in-netbox'', ''lb-ip-missing-in-netbox'',
     ''lb-pool-missing-in-netbox''}"

definition phase2_ok :: "drift \<Rightarrow> bool" where
  "phase2_ok d \<longleftrightarrow> drift_ok d \<and> category d \<in> phase2_categories"

lemma note_source_ok:
  "(\<And>ds. r = Inr ds \<Longrightarrow> d \<in> set ds \<Longrightarrow> phase2_ok d) \<Longrightarrow> d \<in> set (fst (note_source name r)) \<Longrightarrow> phase2_ok d"
  by (auto simp: note_source_def split: sum.splits)

lemma dhcpd_source_ok: "fst (dhcpd_source cfg ips ps net c) = Inr ds \<Longrightarrow> d \<in> set ds \<Longrightarrow> phase2_ok d"
  using dhcpd_host_cmp.item_ok dhcpd_host_cmp.item_category dhcpd_subnet_cmp.item_ok
    dhcpd_subnet_cmp.item_category
  by (fastforce simp: dhcpd_source_def mbind_def phase2_ok_def phase2_categories_def
      dhcpd_host_cmp.in_compare_iff dhcpd_subnet_cmp.in_compare_iff split: prod.splits sum.splits if_splits)

lemma zone_source_ok: "fst (zone_source cfg ips net zp c) = Inr ds \<Longrightarrow> d \<in> set ds \<Longrightarrow> phase2_ok d"
  using dns_cmp.compare_ok dns_cmp.compare_category
  by (fastforce simp: zone_source_def mbind_def phase2_ok_def phase2_categories_def
      split: prod.splits sum.splits if_splits)

lemma zone_sources_ok: "d \<in> set (fst (zone_sources cfg ips net zps c)) \<Longrightarrow> phase2_ok d"
proof (induction zps arbitrary: c)
  case (Cons zp zps)
  obtain r c1 where r: "zone_source cfg ips net zp c = (r, c1)" by fastforce
  with Cons.prems consider "d \<in> set (fst (note_source (''dns:'' @ zp) r))"
    | "d \<in> set (fst (zone_sources cfg ips net zps c1))"
    by (auto simp: Let_def split: prod.splits)
  then show ?case
  proof cases
    case 1
    then show ?thesis by (rule note_source_ok [rotated]) (use zone_source_ok r in \<open>metis fst_conv\<close>)
  qed (rule Cons.IH)
qed simp

lemma gh_run_ok:
  assumes "d \<in> set (fst (gh_run cfg net eps ips ps))"
  shows "phase2_ok d"
proof -
  from assms obtain gh r gh1 where r: "dhcpd_source cfg ips ps net gh = (r, gh1)"
    and d: "d \<in> set (fst (note_source ''dhcpd'' r)) \<or> d \<in> set (fst (zone_sources cfg ips net (zone_paths cfg) gh1))"
    by (auto simp: gh_run_def Let_def split: if_splits prod.splits sum.splits)
  from d show ?thesis
  proof
    assume "d \<in> set (fst (note_source ''dhcpd'' r))"
    then show ?thesis by (rule note_source_ok [rotated]) (use dhcpd_source_ok r in \<open>metis fst_conv\<close>)
  qed (rule zone_sources_ok)
qed

lemma k8s_run_ok:
  assumes "d \<in> set (fst (k8s_run k ips ps devs))"
  shows "phase2_ok d"
proof -
  let ?n = "rbind (collect_nodes k) (\<lambda>nodes. compare_nodes nodes ips devs)"
  let ?s = "rbind (collect_lb_service_ips k) (\<lambda>lb_ips. Inr (compare_lb_ips lb_ips ips))"
  let ?p = "rbind (collect_lb_pools k) (\<lambda>pools. Inr (compare_lb_pools pools ps))"
  have n: "phase2_ok d" if "?n = Inr ds" "d \<in> set ds" for ds
    using that node_cmp.compare_ok [of _ "(ips, devs)"] node_cmp.compare_category [of _ "(ips, devs)"]
    by (fastforce simp: rbind_Inr_iff phase2_ok_def phase2_categories_def)
  have s: "phase2_ok d" if "?s = Inr ds" "d \<in> set ds" for ds
    using that lb_ip_cmp.item_ok lb_ip_cmp.item_category
    by (fastforce simp: rbind_Inr_iff phase2_ok_def phase2_categories_def lb_ip_cmp.in_compare_iff)
  have p: "phase2_ok d" if "?p = Inr ds" "d \<in> set ds" for ds
    using that lb_pool_cmp.item_ok lb_pool_cmp.item_category
    by (fastforce simp: rbind_Inr_iff phase2_ok_def phase2_categories_def lb_pool_cmp.in_compare_iff)
  from assms have "d \<in> set (fst (note_source ''k8s-nodes'' ?n)) \<or>
      d \<in> set (fst (note_source ''k8s-lb-services'' ?s)) \<or> d \<in> set (fst (note_source ''cilium-lb-pools'' ?p))"
    by (auto simp: k8s_run_def Let_def split: prod.splits)
  then show ?thesis by (elim disjE) (erule note_source_ok [rotated], erule (1) n s p)+
qed

lemma phase2_drifts_ok: "d \<in> set (fst (phase2 cfg w eps nx)) \<Longrightarrow> phase2_ok d"
  by (cases nx) (auto simp: phase2_def Let_def case_prod_beta dest: gh_run_ok k8s_run_ok split: if_splits)

lemma phase1_drifts_ok: "d \<in> set (phase1_drifts cfg om nx) \<Longrightarrow> drift_ok d \<and> category d \<in> phase1_categories"
  using vlan_cmp.item_ok vlan_cmp.item_category prefix_cmp.item_ok prefix_cmp.item_category
    device_cmp.item_ok device_cmp.item_category
  by (fastforce simp: phase1_drifts_def phase1_categories_def vlan_cmp.in_compare_iff
      prefix_cmp.in_compare_iff device_cmp.in_compare_iff split: sum.splits if_splits)

lemma source_drift_ok: "drift_ok (source_drift f)" "category (source_drift f) = ''source-unreadable''"
  by (simp_all add: source_drift_def)

lemma compute_drifts_parts:
  assumes "compute_drifts cfg w eps = Some (ds, fs)"
  obtains nx where "read_netbox cfg (w_net w) eps = Some nx"
    "ds = phase1_drifts cfg (read_omada (w_net w) eps) nx @ fst (phase2 cfg w eps nx) @ map source_drift fs"
    "fs = note_read ''omada'' (read_omada (w_net w) eps) @ note_read ''netbox'' nx @ snd (phase2 cfg w eps nx)"
  using assms by (auto simp: compute_drifts_def Let_def case_prod_beta)

lemma compute_drifts_member:
  assumes "compute_drifts cfg w eps = Some (ds, fs)" "d \<in> set ds"
  obtains (phase1) nx where "d \<in> set (phase1_drifts cfg (read_omada (w_net w) eps) nx)"
    | (phase2) nx where "d \<in> set (fst (phase2 cfg w eps nx))"
    | (source) f where "f \<in> set fs" "d = source_drift f"
proof -
  obtain nx where "ds = phase1_drifts cfg (read_omada (w_net w) eps) nx @ fst (phase2 cfg w eps nx)
      @ map source_drift fs"
    using compute_drifts_parts [OF assms(1)] by metis
  with assms(2) that show thesis by auto
qed

text \<open>
  Property C15. Every drift of a sweep carries the fingerprint of its own category and key, leaves
  the fix to a human, and has a writable target only in the two categories that the gated write
  path accepts.
\<close>

theorem compute_drifts_well_formed:
  assumes "compute_drifts cfg w eps = Some (ds, fs)" "d \<in> set ds"
  shows "fingerprint d = fp (category d) (key d) \<and> startswith (proposal d) ''HUMAN-ONLY: ''
    \<and> (target d \<noteq> None \<longrightarrow> category d \<in> target_categories)"
proof -
  from assms have "drift_ok d"
    by (cases rule: compute_drifts_member)
      (auto dest: phase1_drifts_ok phase2_drifts_ok simp: phase2_ok_def source_drift_ok)
  then show ?thesis by (simp add: drift_ok_def)
qed

theorem compute_drifts_well_formed_witness:
  "fingerprint (source_drift (''netbox'', repr_str ''netbox'')) = fp ''source-unreadable'' ''source=netbox''"
  using compute_drifts_well_formed [OF compute_drifts_no_endpoints [of demo_config dead_world],
      of "source_drift (''netbox'', repr_str ''netbox'')"]
  by (simp add: source_drift_def)

text \<open>
  Property C24. If Omada cannot be read, the sweep has no drift of the Omada comparators, and it
  reports the unreadable source.
\<close>

theorem omada_outage_no_phantom_drift:
  assumes "compute_drifts cfg w eps = Some (ds, fs)" "read_omada (w_net w) eps = Inl e"
  shows "category ` set ds \<inter> phase1_categories = {} \<and> source_drift (''omada'', exn_str e) \<in> set ds"
proof
  have "category d \<notin> phase1_categories" if "d \<in> set ds" for d
    using assms(1) that
  proof (cases rule: compute_drifts_member)
    case (phase1 nx)
    then show ?thesis by (simp add: assms(2) phase1_drifts_def)
  next
    case (phase2 nx)
    from phase2_drifts_ok [OF this] show ?thesis
      by (auto simp: phase2_ok_def phase2_categories_def phase1_categories_def)
  next
    case (source f)
    then show ?thesis by (simp add: source_drift_ok phase1_categories_def)
  qed
  then show "category ` set ds \<inter> phase1_categories = {}" by blast
  show "source_drift (''omada'', exn_str e) \<in> set ds"
    using assms by (elim compute_drifts_parts) (simp add: note_read_def)
qed

theorem omada_outage_no_phantom_drift_witness:
  "\<exists>ds fs. compute_drifts demo_config dead_world [] = Some (ds, fs) \<and> category ` set ds \<inter> phase1_categories = {}"
proof -
  have "read_omada (w_net dead_world) [] = Inl (key_error ''omada'')"
    by (simp add: read_omada_def open_client_def)
  from omada_outage_no_phantom_drift [OF compute_drifts_no_endpoints this] compute_drifts_no_endpoints
  show ?thesis by blast
qed

section \<open>An outage and the baseline\<close>

text \<open>
  The comment before \<open>save_seen\<close> promises that a sweep with unreadable sources keeps
  the old baseline; the code overwrites it. A drift that is known and persists is mailed again as
  new after a run in which NetBox could not be read: three runs, the drift present in the first
  and the third, nothing but an unreadable source in the second.
\<close>

theorem outage_forgets_known_drift:
  assumes "d \<in> set ds" "unacked st d" "\<forall>f \<in> set fs. fingerprint d \<noteq> fingerprint (source_drift f)"
    and ok: "\<forall>m. notify m = Inr ()"
    and out1: "out1 = conclude cfg notify day1 st ds []" "out_exit out1 = Exit 0 r1"
    and out2: "out2 = conclude cfg notify day2 (st\<lparr>st_seen := out_seen out1\<rparr>) (map source_drift fs) fs"
  shows "out_mail (conclude cfg notify day3 (st\<lparr>st_seen := out_seen out2\<rparr>) ds []) \<noteq> None"
proof -
  let ?st1 = "st\<lparr>st_seen := out_seen out1\<rparr>"
  obtain js where js: "load_seen (st_seen ?st1) = Inr js"
    using conclude_saved [OF out1] seen.load_save_total by fastforce
  have "\<exists>r. out_exit out2 = Exit 0 r"
  proof -
    have "out2 = emit cfg notify day2 ?st1 (map source_drift fs) fs js" using out2 js by (simp add: conclude_def)
    then show ?thesis using ok by (cases rule: emit_cases) auto
  qed
  then obtain r2 where "out_exit out2 = Exit 0 r2" by blast
  from conclude_saved [OF out2 this]
  have saved: "out_seen out2 = save_seen (remdups (map fingerprint (filter (unacked ?st1) (map source_drift fs))))" .
  then obtain js2 where "load_seen (st_seen (st\<lparr>st_seen := out_seen out2\<rparr>)) = Inr js2"
    using seen.load_save_total by fastforce
  from conclude_mails_iff [OF ok this, of cfg day3 ds "[]"] show ?thesis
    using assms(1-3) by (auto simp: saved)
qed

lemma sha1_block_vlan30:
  "sha1_block sha1_init
     [0x766C616E, 0x2D6D6973, 0x73696E67, 0x2D696E2D, 0x6E657462, 0x6F787C76, 0x69643D33,
      0x30800000, 0, 0, 0, 0, 0, 0, 0, 0xE8] =
   (0xFC175FE7, 0x90E757EA, 0x61E3EDCD, 0x1FA863ED, 0x051172A0)"
  by (simp add: sha1_block_eval)

lemma fp_vlan30: "fp ''vlan-missing-in-netbox'' ''vid=30'' = ''fc175fe790e7''"
proof -
  have "be_words (pad (encode ''vlan-missing-in-netbox|vid=30'')) =
     [0x766C616E, 0x2D6D6973, 0x73696E67, 0x2D696E2D, 0x6E657462, 0x6F787C76, 0x69643D33,
      0x30800000, 0, 0, 0, 0, 0, 0, 0, 0xE8]"
    by (simp add: sha1_input_eval)
  from sha1_hex_one_block [OF this _ sha1_block_vlan30] show ?thesis
    by (simp add: fp_def hex_word_def hex_digit_def char_of_eq_iff)
qed

lemma sha1_block_source_netbox:
  "sha1_block sha1_init
     [0x736F7572, 0x63652D75, 0x6E726561, 0x6461626C, 0x657C736F, 0x75726365, 0x3D6E6574,
      0x626F7880, 0, 0, 0, 0, 0, 0, 0, 0xF8] =
   (0xFABED475, 0x36ACAD9A, 0x4DE8AF75, 0x40DC371D, 0x7EE4D408)"
  by (simp add: sha1_block_eval)

lemma fp_source_netbox: "fp ''source-unreadable'' ''source=netbox'' = ''fabed47536ac''"
proof -
  have "be_words (pad (encode ''source-unreadable|source=netbox'')) =
     [0x736F7572, 0x63652D75, 0x6E726561, 0x6461626C, 0x657C736F, 0x75726365, 0x3D6E6574,
      0x626F7880, 0, 0, 0, 0, 0, 0, 0, 0xF8]"
    by (simp add: sha1_input_eval)
  from sha1_hex_one_block [OF this _ sha1_block_source_netbox] show ?thesis
    by (simp add: fp_def hex_word_def hex_digit_def char_of_eq_iff)
qed

theorem outage_forgets_known_drift_witness:
  "let d = Drift ''vlan-missing-in-netbox'' ''vid=30'' [] [] [] None; ok = (\<lambda>m. Inr ());
       f = (''netbox'', ''netbox: transport error: timed out'');
       out1 = conclude demo_config ok ''2026-01-01'' fresh_state [d] [];
       out2 = conclude demo_config ok ''2026-01-02'' (fresh_state\<lparr>st_seen := out_seen out1\<rparr>) [source_drift f] [f]
   in out_mail out1 \<noteq> None
    \<and> out_mail (conclude demo_config ok ''2026-01-03'' (fresh_state\<lparr>st_seen := out_seen out2\<rparr>) [d] []) \<noteq> None"
proof -
  define d where "d = Drift ''vlan-missing-in-netbox'' ''vid=30'' [] [] [] None"
  define f where "f = (''netbox'', ''netbox: transport error: timed out'')"
  define out1 where "out1 = conclude demo_config (\<lambda>m. Inr ()) ''2026-01-01'' fresh_state [d] []"
  have run1: "\<exists>r. out_exit out1 = Exit 0 r" "out_mail out1 \<noteq> None"
    by (simp_all add: out1_def conclude_def load_seen_def fresh_state_def emit_def gate_def
        load_acked_def Let_def)
  have fps: "fingerprint d \<noteq> fingerprint (source_drift f)" "unacked fresh_state d"
    by (simp_all add: d_def f_def source_drift_def fp_vlan30 fp_source_netbox load_acked_def fresh_state_def)
  from run1(1) obtain r1 where "out_exit out1 = Exit 0 r1" by blast
  from outage_forgets_known_drift [OF _ fps(2) _ _ out1_def this refl, where fs = "[f]"] fps(1) run1(2)
  show ?thesis
    unfolding Let_def d_def [symmetric] f_def [symmetric] out1_def [symmetric] by simp
qed

end
