(* ===== verification/Writeback.thy ===== *)
theory Writeback
  imports Sweep
begin

text \<open>
  The write-back library of \<open>netbox_writeback.py\<close>: the REST client, the owned tag, and the
  create-or-update operations on addresses, prefixes and VLANs.

  NetBox is a parameter: a function from a request and the server's state to its answer and the
  next state. A connection records the requests sent, so that what is written can be stated.
\<close>

section \<open>Requests\<close>

record rest_request =
  rr_method :: string
  rr_url :: string
  rr_headers :: "(string \<times> string) list"
  rr_body :: "string option"

datatype rest_reply =
    Reply string
  | ReplyHttp nat string
  | ReplyFail string
  | ReplyBadUrl string

type_synonym 's rest = "rest_request \<Rightarrow> 's \<Rightarrow> rest_reply \<times> 's"

record 's conn =
  cn_server :: 's
  cn_trace :: "rest_request list"

record netbox =
  nb_base :: string
  nb_token :: string
  nb_tag_ok :: "bool option"

definition OWNED_TAG :: string where
  "OWNED_TAG = ''netbox-sync''"

definition NetBox :: "string \<Rightarrow> string \<Rightarrow> netbox res" where
  \<comment> \<open>from the environment's \<open>NETBOX_URL\<close> and \<open>NETBOX_TOKEN\<close>\<close>
  "NetBox url token =
     (let base = rstrip_chars ''/'' url in
      if base = [] then Inl (WritebackError ''NETBOX_URL is required'')
      else Inr \<lparr>nb_base = base, nb_token = token, nb_tag_ok = None\<rparr>)"

definition rest_req :: "netbox \<Rightarrow> string \<Rightarrow> string \<Rightarrow> json option \<Rightarrow> rest_request" where
  "rest_req nb method path body =
     \<lparr>rr_method = method, rr_url = nb_base nb @ path,
      rr_headers = [(''Accept'', ''application/json'')]
        @ (if body \<noteq> None then [(''Content-Type'', ''application/json'')] else [])
        @ (if nb_token nb \<noteq> [] then [(''Authorization'', ''Token '' @ nb_token nb)] else []),
      rr_body = map_option dumps body\<rparr>"

definition wb_error :: "string \<Rightarrow> string \<Rightarrow> string \<Rightarrow> exn" where
  "wb_error method path m = WritebackError (method @ '' '' @ path @ '' -> '' @ m)"

definition req :: "'s rest \<Rightarrow> netbox \<Rightarrow> string \<Rightarrow> string \<Rightarrow> json option \<Rightarrow> (json, 's conn) stm" where
  "req rest nb method path body c =
     (let rq = rest_req nb method path body;
          (reply, s) = rest rq (cn_server c);
          c' = \<lparr>cn_server = s, cn_trace = cn_trace c @ [rq]\<rparr>
      in (case reply of
            Reply raw \<Rightarrow>
              if strip raw = [] then Inr (JObj [])
              else (case loads raw of
                  Some j \<Rightarrow> Inr j
                | None \<Rightarrow> Inl (wb_error method path (exn_str json_error)))
          | ReplyHttp code detail \<Rightarrow>
              Inl (wb_error method path (''HTTP '' @ nat_str code @ '' '' @ take 400 detail))
          | ReplyFail m \<Rightarrow> Inl (wb_error method path m)
          | ReplyBadUrl m \<Rightarrow> Inl (ValueError m), c'))"

definition hex_digit_upper :: "nat \<Rightarrow> char" where
  "hex_digit_upper n = (if n < 10 then char_of (48 + n) else char_of (55 + n))"

definition unreserved :: "nat \<Rightarrow> bool" where
  "unreserved n \<longleftrightarrow> 48 \<le> n \<and> n \<le> 57 \<or> 65 \<le> n \<and> n \<le> 90 \<or> 97 \<le> n \<and> n \<le> 122 \<or> n \<in> {45, 46, 95, 126}"

definition quote_strict :: "string \<Rightarrow> string" where
  \<comment> \<open>\<open>urllib.request.quote(s, safe="")\<close>\<close>
  "quote_strict s = concat (map (\<lambda>b. if unreserved b then [char_of b]
     else [CHR ''%'', hex_digit_upper (b div 16), hex_digit_upper (b mod 16)]) (encode s))"

definition first_result :: "json \<Rightarrow> json res" where
  \<comment> \<open>\<open>results = res.get("results") or []\<close>, then \<open>results[0] if results else None\<close>\<close>
  "first_result res =
     rbind (as_dict res) (\<lambda>d.
       let results = get d ''results'' in
       if \<not> truthy results then Inr JNull
       else (case results of
           JList (x # _) \<Rightarrow> Inr x
         | JStr (c # _) \<Rightarrow> Inr (JStr [c])
         | JObj _ \<Rightarrow> Inl (KeyError ''0'')
         | j \<Rightarrow> Inl (TypeError (repr_str (type_name j) @ '' object is not subscriptable''))))"

definition get_first :: "'s rest \<Rightarrow> netbox \<Rightarrow> string \<Rightarrow> (string \<times> json) list \<Rightarrow> (json, 's conn) stm" where
  "get_first rest nb path query =
     mbind (req rest nb ''GET'' (path @ ''?''
         @ join ''&'' (map (\<lambda>(k, v). k @ ''='' @ quote_strict (py_str v)) query)) None)
       (\<lambda>res. mlift (first_result res))"

section \<open>The owned tag\<close>

definition tag_path :: string where
  "tag_path = ''/api/extras/tags/''"

definition tag_body :: json where
  "tag_body = JObj [(''name'', JStr OWNED_TAG), (''slug'', JStr OWNED_TAG), (''color'', JStr ''00bcd4''),
     (''description'', JStr ''Applied by network-drift Phase 4 auto-write'')]"

fun is_writeback :: "exn \<Rightarrow> bool" where
  "is_writeback (WritebackError _) \<longleftrightarrow> True"
| "is_writeback _ \<longleftrightarrow> False"

definition ensure_tag :: "'s rest \<Rightarrow> netbox \<Rightarrow> (string \<times> netbox, 's conn) stm" where
  "ensure_tag rest nb c =
     (let usable = nb\<lparr>nb_tag_ok := Some True\<rparr>; unusable = nb\<lparr>nb_tag_ok := Some False\<rparr>;
          tag = ''tag '' @ sq OWNED_TAG in
      case get_first rest nb tag_path [(''slug'', JStr OWNED_TAG)] c of
        (Inr found, c1) \<Rightarrow>
          if found \<noteq> JNull then (Inr (tag @ '' present'', usable), c1)
          else (case req rest nb ''POST'' tag_path (Some tag_body) c1 of
              (Inr _, c2) \<Rightarrow> (Inr (tag @ '' created'', usable), c2)
            | (Inl e, c2) \<Rightarrow>
                if is_writeback e
                then (Inr (tag @ '' absent and not creatable by this token ('' @ exn_str e
                        @ '') -> writing UNTAGGED'', unusable), c2)
                else (Inl e, c2))
      | (Inl e, c1) \<Rightarrow>
          if is_writeback e
          then (Inr (tag @ '' not viewable by this token ('' @ exn_str e @ '') -> writing UNTAGGED'', unusable), c1)
          else (Inl e, c1))"

definition tags :: "netbox \<Rightarrow> bool \<Rightarrow> json option" where
  "tags nb use_tag =
     (if use_tag \<and> nb_tag_ok nb \<noteq> Some False
      then Some (JList [JObj [(''slug'', JStr OWNED_TAG)]]) else None)"

definition with_tags :: "netbox \<Rightarrow> bool \<Rightarrow> dict \<Rightarrow> dict" where
  \<comment> \<open>\<open>tags = nb._tags(use_tag)\<close>; \<open>if tags: payload["tags"] = tags\<close>\<close>
  "with_tags nb use_tag payload =
     (case tags nb use_tag of None \<Rightarrow> payload | Some t \<Rightarrow> AList.update ''tags'' t payload)"

definition merge :: "dict \<Rightarrow> bool \<Rightarrow> netbox \<Rightarrow> dict" where
  "merge desired use_tag nb = with_tags nb use_tag (filter (\<lambda>(k, v). v \<noteq> JNull) desired)"

definition current :: "string \<Rightarrow> json \<Rightarrow> json" where
  \<comment> \<open>a VLAN reference is compared by its id\<close>
  "current k cur = (case cur of JObj d \<Rightarrow> if k = ''vlan'' then get d ''id'' else cur | _ \<Rightarrow> cur)"

definition field_differs :: "json \<Rightarrow> json \<Rightarrow> bool" where
  "field_differs cur v \<longleftrightarrow> (if truthy cur then py_str cur else []) \<noteq> py_str v"

definition changed :: "json \<Rightarrow> dict \<Rightarrow> dict res" where
  "changed existing desired =
     (if list_all (\<lambda>(k, v). v = JNull) desired then Inr []
      else rbind (as_dict existing) (\<lambda>ex.
        Inr (filter (\<lambda>(k, v). v \<noteq> JNull \<and> field_differs (current k (get ex k)) v) desired)))"

definition format_d :: "json \<Rightarrow> string res" where
  \<comment> \<open>\<open>'%d'\<close>\<close>
  "format_d j =
     (case j of
        JInt i \<Rightarrow> Inr (int_str i)
      | JBool b \<Rightarrow> Inr (if b then ''1'' else ''0'')
      | JFloat t \<Rightarrow> rbind (float_int t) (\<lambda>i. Inr (int_str i))
      | _ \<Rightarrow> Inl (TypeError (''%d format: a real number is required, not '' @ type_name j)))"

definition object_id :: "json \<Rightarrow> string res" where
  \<comment> \<open>\<open>'%d' % existing["id"]\<close>\<close>
  "object_id existing =
     (case existing of
        JObj d \<Rightarrow> (case map_of d ''id'' of None \<Rightarrow> Inl (key_error ''id'') | Some j \<Rightarrow> format_d j)
      | j \<Rightarrow> Inl (TypeError (repr_str (type_name j) @ '' indices must be integers'')))"

section \<open>Create or update\<close>

definition update_object ::
  "'s rest \<Rightarrow> netbox \<Rightarrow> string \<Rightarrow> string \<Rightarrow> json \<Rightarrow> dict \<Rightarrow> bool \<Rightarrow> bool \<Rightarrow> (string, 's conn) stm" where
  \<comment> \<open>the branch of an existing object, common to the three operations\<close>
  "update_object rest nb path what existing desired apply use_tag =
     mbind (mlift (changed existing desired)) (\<lambda>diff.
       if diff = [] then mlift (Inr (''no-op '' @ what @ '' (already matches)''))
       else
         (let action = ''update '' @ what @ '': '' @ py_repr (JObj diff) in
          if apply
          then mbind (mlift (object_id existing)) (\<lambda>i.
               mbind (req rest nb ''PATCH'' (path @ i @ ''/'') (Some (JObj (with_tags nb use_tag diff))))
                 (\<lambda>_. mlift (Inr action)))
          else mlift (Inr action)))"

definition create_object ::
  "'s rest \<Rightarrow> netbox \<Rightarrow> string \<Rightarrow> string \<Rightarrow> dict \<Rightarrow> bool \<Rightarrow> (string, 's conn) stm" where
  "create_object rest nb path action body apply =
     (if apply
      then mbind (req rest nb ''POST'' path (Some (JObj body))) (\<lambda>_. mlift (Inr action))
      else mlift (Inr action))"

definition ip_path :: string where
  "ip_path = ''/api/ipam/ip-addresses/''"

definition prefix_path :: string where
  "prefix_path = ''/api/ipam/prefixes/''"

definition vlan_path :: string where
  "vlan_path = ''/api/ipam/vlans/''"

definition update_all :: "dict \<Rightarrow> dict \<Rightarrow> dict" where
  \<comment> \<open>\<open>body.update(other)\<close>\<close>
  "update_all body other = foldl (\<lambda>b (k, v). AList.update k v b) body other"

definition upsert_ip ::
  "'s rest \<Rightarrow> netbox \<Rightarrow> json \<Rightarrow> json \<Rightarrow> json \<Rightarrow> bool \<Rightarrow> bool \<Rightarrow> (string, 's conn) stm" where
  "upsert_ip rest nb address dns_name description apply use_tag =
     (let desired = [(''dns_name'', dns_name), (''description'', description)] in
      mbind (get_first rest nb ip_path [(''address'', address)]) (\<lambda>existing.
        if existing = JNull
        then create_object rest nb ip_path
               (''create ip-address '' @ py_str address
                @ (if truthy dns_name then '' dns_name='' @ py_str dns_name else []))
               (update_all [(''address'', address)] (merge desired use_tag nb)) apply
        else update_object rest nb ip_path (''ip-address '' @ py_str address) existing desired apply use_tag))"

definition delete_ip :: "'s rest \<Rightarrow> netbox \<Rightarrow> json \<Rightarrow> bool \<Rightarrow> (string, 's conn) stm" where
  "delete_ip rest nb address apply =
     mbind (get_first rest nb ip_path [(''address'', address)]) (\<lambda>existing.
       if existing = JNull then mlift (Inr (''no-op delete ip-address '' @ py_str address @ '' (absent)''))
       else mbind (mlift (object_id existing)) (\<lambda>i.
         let action = ''delete ip-address '' @ py_str address @ '' (id='' @ i @ '')'' in
         if apply
         then mbind (req rest nb ''DELETE'' (ip_path @ i @ ''/'') None) (\<lambda>_. mlift (Inr action))
         else mlift (Inr action)))"

definition upsert_prefix ::
  "'s rest \<Rightarrow> netbox \<Rightarrow> json \<Rightarrow> json \<Rightarrow> bool \<Rightarrow> bool \<Rightarrow> (string, 's conn) stm" where
  "upsert_prefix rest nb prefix description apply use_tag =
     (let desired = [(''description'', description)] in
      mbind (get_first rest nb prefix_path [(''prefix'', prefix)]) (\<lambda>existing.
        if existing = JNull
        then create_object rest nb prefix_path (''create prefix '' @ py_str prefix)
               (update_all [(''prefix'', prefix)] (merge desired use_tag nb)) apply
        else update_object rest nb prefix_path (''prefix '' @ py_str prefix) existing desired apply use_tag))"

definition upsert_vlan ::
  "'s rest \<Rightarrow> netbox \<Rightarrow> int \<Rightarrow> json \<Rightarrow> bool \<Rightarrow> bool \<Rightarrow> (string, 's conn) stm" where
  "upsert_vlan rest nb vid name apply use_tag =
     (let desired = [(''name'', name)] in
      mbind (get_first rest nb vlan_path [(''vid'', JInt vid)]) (\<lambda>existing.
        if existing = JNull
        then create_object rest nb vlan_path
               (''create vlan vid='' @ int_str vid @ '' name='' @ py_str name)
               (with_tags nb use_tag [(''vid'', JInt vid), (''name'', name)]) apply
        else update_object rest nb vlan_path (''vlan vid='' @ int_str vid) existing desired apply use_tag))"

definition verify_ip :: "'s rest \<Rightarrow> netbox \<Rightarrow> json \<Rightarrow> (json, 's conn) stm" where
  "verify_ip rest nb address = get_first rest nb ip_path [(''address'', address)]"

section \<open>What is sent\<close>

text \<open>The requests of a computation: what it appends to the trace of its connection.\<close>

abbreviation sends :: "(rest_request list \<Rightarrow> bool) \<Rightarrow> ('a, 's conn) stm \<Rightarrow> bool" where
  "sends \<equiv> traces cn_trace"

lemma sends_req: "sends (\<lambda>n. n = [rest_req nb method path body]) (req rest nb method path body)"
  by (auto simp: traces_def req_def Let_def split: prod.splits)

lemma sends_req_lift: "P [rest_req nb method path body]
    \<Longrightarrow> sends P (mbind (req rest nb method path body) (\<lambda>a. mlift (f a)))"
  by (rule traces_bind [OF sends_req, of "\<lambda>_ n. n = []"]) (auto intro: traces_lift)

lemma rest_req_simps [simp]:
  "rr_method (rest_req nb method path body) = method"
  "rr_url (rest_req nb method path body) = nb_base nb @ path"
  "rr_body (rest_req nb method path body) = map_option dumps body"
  by (simp_all add: rest_req_def)

definition one_get :: "netbox \<Rightarrow> string \<Rightarrow> rest_request list \<Rightarrow> bool" where
  "one_get nb path n \<longleftrightarrow> (\<exists>q. n = [rest_req nb ''GET'' (path @ ''?'' @ q) None])"

lemma sends_get_first: "sends (one_get nb path) (get_first rest nb path query)"
  unfolding get_first_def by (rule sends_req_lift) (auto simp: one_get_def)

text \<open>
  The contract of a write-back operation on a collection of NetBox: one read, and then, only when
  applied, at most one write, with one of its methods and under the URL of the collection.
\<close>

definition read_then_write :: "netbox \<Rightarrow> string \<Rightarrow> string set \<Rightarrow> bool \<Rightarrow> rest_request list \<Rightarrow> bool" where
  "read_then_write nb path methods apply n \<longleftrightarrow>
     (\<exists>q w. n = rest_req nb ''GET'' (path @ ''?'' @ q) None # w \<and> length w \<le> 1
        \<and> (\<forall>r \<in> set w. apply \<and> rr_method r \<in> methods \<and> startswith (rr_url r) (nb_base nb @ path)))"

locale write_operation =
  fixes op :: "bool \<Rightarrow> (string, 's conn) stm"
    and nb :: netbox
    and path :: string
    and methods :: "string set"
  assumes op_sends: "sends (read_then_write nb path methods apply) (op apply)"
begin

lemma dry_run_sends_one_get: "sends (one_get nb path) (op False)"
  by (rule traces_mono [OF op_sends [of False]]) (auto simp: read_then_write_def one_get_def)

lemma writes_in_collection:
  "sends (\<lambda>n. \<forall>r \<in> set n. rr_method r = ''GET'' \<or> rr_method r \<in> methods \<and> startswith (rr_url r) (nb_base nb @ path))
     (op apply)"
  by (rule traces_mono [OF op_sends]) (auto simp: read_then_write_def)

lemma at_most_one_write: "sends (\<lambda>n. length (filter (\<lambda>r. rr_method r \<noteq> ''GET'') n) \<le> 1) (op apply)"
  by (rule traces_mono [OF op_sends])
    (auto simp: read_then_write_def intro: order_trans [OF length_filter_le])

end

definition maybe_write :: "netbox \<Rightarrow> string \<Rightarrow> string set \<Rightarrow> bool \<Rightarrow> rest_request list \<Rightarrow> bool" where
  "maybe_write nb path methods apply w \<longleftrightarrow> length w \<le> 1
     \<and> (\<forall>r \<in> set w. apply \<and> rr_method r \<in> methods \<and> startswith (rr_url r) (nb_base nb @ path))"

lemma sends_read_then_write:
  assumes "\<And>a. sends (maybe_write nb path methods apply) (f a)"
  shows "sends (read_then_write nb path methods apply) (mbind (get_first rest nb path query) f)"
  by (rule traces_bind [OF sends_get_first, of "\<lambda>_. maybe_write nb path methods apply"])
    (auto simp: assms one_get_def maybe_write_def read_then_write_def)

lemma sends_update_object:
  "''PATCH'' \<in> methods \<Longrightarrow> sends (maybe_write nb path methods apply)
     (update_object rest nb path what existing desired apply use_tag)"
  unfolding update_object_def Let_def
  by (intro traces_bind_lift) (auto intro!: traces_bind_lift sends_req_lift traces_lift simp: maybe_write_def startswith_def)

lemma sends_create_object:
  "''POST'' \<in> methods \<Longrightarrow> sends (maybe_write nb path methods apply)
     (create_object rest nb path action body apply)"
  unfolding create_object_def
  by (auto intro!: sends_req_lift traces_lift simp: maybe_write_def startswith_def)

interpretation ip_upsert: write_operation
    "\<lambda>apply. upsert_ip rest nb address dns_name description apply use_tag" nb ip_path "{''POST'', ''PATCH''}"
    for rest nb address dns_name description use_tag
  by unfold_locales
    (auto simp: upsert_ip_def Let_def intro!: sends_read_then_write sends_create_object sends_update_object)

interpretation prefix_upsert: write_operation
    "\<lambda>apply. upsert_prefix rest nb prefix description apply use_tag" nb prefix_path "{''POST'', ''PATCH''}"
    for rest nb prefix description use_tag
  by unfold_locales
    (auto simp: upsert_prefix_def Let_def intro!: sends_read_then_write sends_create_object sends_update_object)

interpretation vlan_upsert: write_operation
    "\<lambda>apply. upsert_vlan rest nb vid name apply use_tag" nb vlan_path "{''POST'', ''PATCH''}"
    for rest nb vid name use_tag
  by unfold_locales
    (auto simp: upsert_vlan_def Let_def intro!: sends_read_then_write sends_create_object sends_update_object)

interpretation ip_delete: write_operation "\<lambda>apply. delete_ip rest nb address apply" nb ip_path "{''DELETE''}"
    for rest nb address
  by unfold_locales
    (auto simp: delete_ip_def Let_def maybe_write_def startswith_def
      intro!: sends_read_then_write traces_bind_lift sends_req_lift traces_lift)

text \<open>
  Without \<open>apply\<close> nothing is written: each of the four operations sends one read and
  nothing else, whatever the server answers.
\<close>

theorem dry_run_never_writes:
  fixes rest :: "'s rest"
  shows "sends (one_get nb ip_path) (upsert_ip rest nb address dns_name description False use_tag)
    \<and> sends (one_get nb ip_path) (delete_ip rest nb address False)
    \<and> sends (one_get nb prefix_path) (upsert_prefix rest nb prefix description False use_tag)
    \<and> sends (one_get nb vlan_path) (upsert_vlan rest nb vid name False use_tag)"
  by (intro conjI ip_upsert.dry_run_sends_one_get ip_delete.dry_run_sends_one_get
      prefix_upsert.dry_run_sends_one_get vlan_upsert.dry_run_sends_one_get)

text \<open>
  An upsert never deletes and never leaves its collection: all it may send besides its
  read is one POST or PATCH under the path of the object type.
\<close>

theorem upserts_stay_in_collection:
  fixes rest :: "'s rest"
  shows "sends (read_then_write nb ip_path {''POST'', ''PATCH''} apply)
      (upsert_ip rest nb address dns_name description apply use_tag)
    \<and> sends (read_then_write nb prefix_path {''POST'', ''PATCH''} apply)
      (upsert_prefix rest nb prefix description apply use_tag)
    \<and> sends (read_then_write nb vlan_path {''POST'', ''PATCH''} apply)
      (upsert_vlan rest nb vid name apply use_tag)"
  by (intro conjI ip_upsert.op_sends prefix_upsert.op_sends vlan_upsert.op_sends)

section \<open>The owned tag\<close>

text \<open>
  A tag problem does not surface as a write-back failure: no answer of the server
  makes \<open>ensure_tag\<close> raise a \<open>WritebackError\<close>, and when it returns, the tag is marked usable or
  unusable, never unchecked.
\<close>

theorem ensure_tag_decides:
  "(case fst (ensure_tag rest nb c) of
      Inl e \<Rightarrow> \<not> is_writeback e
    | Inr (msg, nb') \<Rightarrow> nb_tag_ok nb' \<noteq> None \<and> nb_base nb' = nb_base nb \<and> nb_token nb' = nb_token nb)"
  by (auto simp: ensure_tag_def Let_def split: prod.splits sum.splits if_splits)

text \<open>
  The docstring of \<open>ensure_tag\<close> says that it never raises; it catches only
  \<open>WritebackError\<close>. An answer that is JSON but not an object makes it raise.
\<close>

theorem ensure_tag_raises:
  "fst (ensure_tag (\<lambda>rq s. (Reply ''[]'', s)) nb c) = Inl (attr_error (JList []) ''get'')"
proof -
  have "loads ''[]'' = Some (JList [])" using loads_dumps [of "JList []"] by simp
  then show ?thesis
    by (simp add: ensure_tag_def get_first_def mbind_def req_def first_result_def attr_error_def Let_def
        strip_def lstrip_def rstrip_def)
qed

section \<open>Idempotence\<close>

text \<open>
  What the NetBox documentation promises of the two fields that the operations write: a read
  changes nothing that a read shows; after a successful PATCH the object has the fields of the body
  and keeps the others; after a successful POST the object is there with the fields of the body.
\<close>

definition ip_of :: "'s rest \<Rightarrow> netbox \<Rightarrow> json \<Rightarrow> 's conn \<Rightarrow> json res" where
  "ip_of rest nb a c = fst (get_first rest nb ip_path [(''address'', a)] c)"

definition ip_fields :: "string set" where
  "ip_fields = {''dns_name'', ''description''}"

definition holds_fields :: "dict \<Rightarrow> dict \<Rightarrow> bool" where
  "holds_fields ex body \<longleftrightarrow> (\<forall>k \<in> ip_fields. \<forall>v. map_of body k = Some v \<longrightarrow> get ex k = v)"

definition read_law :: "'s rest \<Rightarrow> netbox \<Rightarrow> json \<Rightarrow> bool" where
  "read_law rest nb a \<longleftrightarrow>
     (\<forall>c. ip_of rest nb a (snd (get_first rest nb ip_path [(''address'', a)] c)) = ip_of rest nb a c)"

definition patch_law :: "'s rest \<Rightarrow> netbox \<Rightarrow> json \<Rightarrow> bool" where
  "patch_law rest nb a \<longleftrightarrow>
     (\<forall>c c' ex i body r. ip_of rest nb a c = Inr (JObj ex) \<longrightarrow> object_id (JObj ex) = Inr i \<longrightarrow>
        savable (JObj body) \<longrightarrow> req rest nb ''PATCH'' (ip_path @ i @ ''/'') (Some (JObj body)) c = (Inr r, c') \<longrightarrow>
        (\<exists>ex'. ip_of rest nb a c' = Inr (JObj ex') \<and> holds_fields ex' body
           \<and> (\<forall>k \<in> ip_fields. map_of body k = None \<longrightarrow> get ex' k = get ex k)))"

definition post_law :: "'s rest \<Rightarrow> netbox \<Rightarrow> json \<Rightarrow> bool" where
  "post_law rest nb a \<longleftrightarrow>
     (\<forall>c c' body r. ip_of rest nb a c = Inr JNull \<longrightarrow> get body ''address'' = a \<longrightarrow>
        savable (JObj body) \<longrightarrow> req rest nb ''POST'' ip_path (Some (JObj body)) c = (Inr r, c') \<longrightarrow>
        (\<exists>ex'. ip_of rest nb a c' = Inr (JObj ex') \<and> holds_fields ex' body))"

definition text_or_none :: "json \<Rightarrow> bool" where
  "text_or_none j \<longleftrightarrow> (case j of JNull \<Rightarrow> True | JStr _ \<Rightarrow> True | _ \<Rightarrow> False)"

abbreviation wanted :: "json \<Rightarrow> json \<Rightarrow> dict" where
  "wanted dns_name description \<equiv> [(''dns_name'', dns_name), (''description'', description)]"

definition agrees :: "json \<Rightarrow> json \<Rightarrow> dict \<Rightarrow> bool" where
  \<comment> \<open>the object has every field that is asked for\<close>
  "agrees dns_name description ex \<longleftrightarrow>
     (\<forall>(k, v) \<in> set (wanted dns_name description). v \<noteq> JNull \<longrightarrow> \<not> field_differs (get ex k) v)"

lemma field_same: "text_or_none v \<Longrightarrow> v \<noteq> JNull \<Longrightarrow> \<not> field_differs v v"
  by (cases v) (auto simp: text_or_none_def field_differs_def)

lemma current_ip_field [simp]: "current ''dns_name'' j = j" "current ''description'' j = j"
  by (cases j; simp add: current_def)+

lemma changed_matches:
  "changed (JObj ex) (wanted dn de) = Inr [] \<longleftrightarrow> agrees dn de ex"
  by (auto simp: changed_def agrees_def)

lemma changed_ip:
  "changed (JObj ex) (wanted dn de) =
     Inr ((if dn \<noteq> JNull \<and> field_differs (get ex ''dns_name'') dn then [(''dns_name'', dn)] else [])
        @ (if de \<noteq> JNull \<and> field_differs (get ex ''description'') de then [(''description'', de)] else []))"
  by (auto simp: changed_def)

lemma upsert_ip_matching:
  assumes "get_first rest nb ip_path [(''address'', a)] c = (Inr (JObj ex), c')" "agrees dn de ex"
  shows "upsert_ip rest nb a dn de apply tag c =
    (Inr (''no-op ip-address '' @ py_str a @ '' (already matches)''), c')"
  using assms(1) assms(2) [folded changed_matches]
  by (simp add: upsert_ip_def Let_def update_object_def mbind_def)

lemma tags_update_fields: "k \<in> ip_fields \<Longrightarrow> map_of (with_tags nb tag b) k = map_of b k"
  by (auto simp: with_tags_def ip_fields_def update_conv split: option.splits)

lemma create_body_fields:
  "map_of (update_all [(''address'', a)] (merge (wanted dn de) tag nb)) ''dns_name'' = (if dn = JNull then None else Some dn)"
  "map_of (update_all [(''address'', a)] (merge (wanted dn de) tag nb)) ''description'' = (if de = JNull then None else Some de)"
  "get (update_all [(''address'', a)] (merge (wanted dn de) tag nb)) ''address'' = a"
  by (auto simp: update_all_def merge_def with_tags_def get_def split: option.splits)

lemma set_update_subset: "set (AList.update k v d) \<subseteq> insert (k, v) (set d)"
  by (induction d) auto

lemma savable_bodies:
  assumes "savable a" "text_or_none dn" "text_or_none de"
  shows "savable (JObj (update_all [(''address'', a)] (merge (wanted dn de) tag nb)))"
    and "set b \<subseteq> set (wanted dn de) \<Longrightarrow> distinct (map fst b) \<Longrightarrow> savable (JObj (with_tags nb tag b))"
proof -
  have t: "savable dn" "savable de" using assms(2,3) by (auto simp: text_or_none_def split: json.splits)
  show "savable (JObj (update_all [(''address'', a)] (merge (wanted dn de) tag nb)))"
    using t assms(1) by (auto simp: update_all_def merge_def with_tags_def tags_def)
  show "set b \<subseteq> set (wanted dn de) \<Longrightarrow> distinct (map fst b) \<Longrightarrow> savable (JObj (with_tags nb tag b))"
    using t by (auto simp: with_tags_def tags_def distinct_update dest!: subsetD [OF set_update_subset])
qed

lemma upsert_ip_establishes:
  assumes laws: "read_law rest nb a" "patch_law rest nb a" "post_law rest nb a"
    and strs: "savable a" "text_or_none dn" "text_or_none de"
    and start: "ip_of rest nb a c = Inr JNull \<or> (\<exists>ex. ip_of rest nb a c = Inr (JObj ex))"
    and run: "upsert_ip rest nb a dn de True tag c = (Inr act, c')"
  shows "\<exists>ex. ip_of rest nb a c' = Inr (JObj ex) \<and> agrees dn de ex"
proof -
  obtain c1 where c1: "get_first rest nb ip_path [(''address'', a)] c = (ip_of rest nb a c, c1)"
    by (metis ip_of_def prod.collapse)
  have same: "ip_of rest nb a c1 = ip_of rest nb a c"
    using laws(1) c1 unfolding read_law_def by (metis snd_conv)
  from start show ?thesis
  proof
    assume new: "ip_of rest nb a c = Inr JNull"
    let ?body = "update_all [(''address'', a)] (merge (wanted dn de) tag nb)"
    from run c1 new obtain r where "req rest nb ''POST'' ip_path (Some (JObj ?body)) c1 = (Inr r, c')"
      by (auto simp: upsert_ip_def Let_def mbind_def create_object_def split: prod.splits sum.splits)
    with laws(3) new same create_body_fields(3) savable_bodies(1) [OF strs]
    obtain ex where ex: "ip_of rest nb a c' = Inr (JObj ex)" "holds_fields ex ?body"
      unfolding post_law_def by metis
    then have "agrees dn de ex"
      using field_same [OF strs(2)] field_same [OF strs(3)] create_body_fields(1,2) [of a dn de tag nb]
      by (auto simp: agrees_def holds_fields_def ip_fields_def split: if_splits)
    with ex show ?thesis by blast
  next
    assume "\<exists>ex. ip_of rest nb a c = Inr (JObj ex)"
    then obtain ex where ex: "ip_of rest nb a c = Inr (JObj ex)" by blast
    show ?thesis
    proof (cases "agrees dn de ex")
      case True
      with upsert_ip_matching c1 ex run have "c' = c1" by (metis prod.inject)
      with same ex True show ?thesis by auto
    next
      case False
      define diff where "diff =
        (if dn \<noteq> JNull \<and> field_differs (get ex ''dns_name'') dn then [(''dns_name'', dn)] else [])
        @ (if de \<noteq> JNull \<and> field_differs (get ex ''description'') de then [(''description'', de)] else [])"
      have sav: "savable (JObj (with_tags nb tag diff))"
        by (rule savable_bodies(2) [OF strs]) (auto simp: diff_def)
      have diff: "changed (JObj ex) (wanted dn de) = Inr diff" "diff \<noteq> []"
        using False changed_matches [of ex dn de] by (auto simp: changed_ip diff_def)
      from run c1 ex diff obtain i r where i: "object_id (JObj ex) = Inr i"
        and "req rest nb ''PATCH'' (ip_path @ i @ ''/'') (Some (JObj (with_tags nb tag diff))) c1 = (Inr r, c')"
        by (auto simp: upsert_ip_def Let_def mbind_def update_object_def split: prod.splits sum.splits)
      with laws(2) ex same sav obtain ex' where ex': "ip_of rest nb a c' = Inr (JObj ex')"
        "holds_fields ex' (with_tags nb tag diff)"
        "\<forall>k \<in> ip_fields. map_of (with_tags nb tag diff) k = None \<longrightarrow> get ex' k = get ex k"
        unfolding patch_law_def by metis
      have "agrees dn de ex'"
        using ex'(2,3) field_same [OF strs(2)] field_same [OF strs(3)]
        unfolding agrees_def holds_fields_def
        by (auto simp: tags_update_fields diff_def ip_fields_def split: if_splits)
      with ex' show ?thesis by blast
    qed
  qed
qed

text \<open>
  Property C26. Writing an address back is idempotent against a server that stores what it accepts:
  after an applied upsert that succeeded, a second one reports that the record already matches and
  sends nothing but its read.
\<close>

theorem upsert_ip_idempotent:
  assumes "read_law rest nb a" "patch_law rest nb a" "post_law rest nb a"
    and "savable a" "text_or_none dn" "text_or_none de"
    and "ip_of rest nb a c = Inr JNull \<or> (\<exists>ex. ip_of rest nb a c = Inr (JObj ex))"
    and "upsert_ip rest nb a dn de True tag c = (Inr act, c')"
  shows "\<exists>q c''. upsert_ip rest nb a dn de True tag c' =
      (Inr (''no-op ip-address '' @ py_str a @ '' (already matches)''), c'')
    \<and> cn_trace c'' = cn_trace c' @ [rest_req nb ''GET'' (ip_path @ ''?'' @ q) None]"
proof -
  obtain ex where ex: "ip_of rest nb a c' = Inr (JObj ex)" "agrees dn de ex"
    using upsert_ip_establishes [OF assms] by blast
  then obtain c'' where c'': "get_first rest nb ip_path [(''address'', a)] c' = (Inr (JObj ex), c'')"
    by (metis ip_of_def prod.collapse)
  moreover have "\<exists>q. cn_trace c'' = cn_trace c' @ [rest_req nb ''GET'' (ip_path @ ''?'' @ q) None]"
    using sends_get_first [of nb ip_path rest "[(''address'', a)]"] c''
    unfolding traces_def one_get_def by (metis snd_conv)
  ultimately show ?thesis using upsert_ip_matching [OF c'' ex(2)] by blast
qed

text \<open>A server with one address that keeps the two fields.\<close>

definition ip_doc :: "(string \<times> string) option \<Rightarrow> json" where
  "ip_doc s = JObj [(''results'', JList (case s of None \<Rightarrow> [] | Some (n, e) \<Rightarrow>
     [JObj [(''id'', JInt 1), (''dns_name'', JStr n), (''description'', JStr e)]]))]"

definition body_field :: "rest_request \<Rightarrow> string \<Rightarrow> string \<Rightarrow> string option" where
  "body_field rq k dflt =
     (case Option.bind (rr_body rq) loads of
        Some (JObj d) \<Rightarrow> (case map_of d k of None \<Rightarrow> Some dflt | Some (JStr t) \<Rightarrow> Some t | Some _ \<Rightarrow> None)
      | _ \<Rightarrow> None)"

definition one_ip_server :: "(string \<times> string) option rest" where
  "one_ip_server rq s =
     (if rr_method rq = ''GET'' then (Reply (dumps (ip_doc s)), s)
      else (let (n, e) = (case s of None \<Rightarrow> ([], []) | Some p \<Rightarrow> p) in
        case (body_field rq ''dns_name'' n, body_field rq ''description'' e) of
          (Some n', Some e') \<Rightarrow> (Reply [], Some (n', e'))
        | _ \<Rightarrow> (ReplyHttp 400 [], s)))"

lemma savable_ip_doc: "savable (ip_doc s)"
  by (auto simp: ip_doc_def split: option.splits)

lemma one_ip_get:
  "get_first one_ip_server nb path q c =
     (Inr (case cn_server c of None \<Rightarrow> JNull | Some (n, e) \<Rightarrow>
        JObj [(''id'', JInt 1), (''dns_name'', JStr n), (''description'', JStr e)]),
      \<lparr>cn_server = cn_server c, cn_trace = cn_trace c @ [rest_req nb ''GET'' (path @ ''?''
         @ join ''&'' (map (\<lambda>(k, v). k @ ''='' @ quote_strict (py_str v)) q)) None]\<rparr>)"
proof -
  have "strip (dumps (ip_doc s)) \<noteq> []" "loads (dumps (ip_doc s)) = Some (ip_doc s)" for s
    using savable_ip_doc strip_dumps dumps_nonempty loads_dumps by metis+
  then show ?thesis
    by (simp add: get_first_def mbind_def req_def one_ip_server_def Let_def)
      (auto simp: first_result_def ip_doc_def Let_def split: option.splits)
qed

lemma ip_of_one_ip:
  "ip_of one_ip_server nb a c = Inr (case cn_server c of None \<Rightarrow> JNull | Some (n, e) \<Rightarrow>
     JObj [(''id'', JInt 1), (''dns_name'', JStr n), (''description'', JStr e)])"
  by (simp add: ip_of_def one_ip_get)

lemma body_field_req:
  assumes "savable (JObj b)"
  shows "body_field (rest_req nb m p (Some (JObj b))) k dflt =
    (case map_of b k of None \<Rightarrow> Some dflt | Some (JStr t) \<Rightarrow> Some t | Some _ \<Rightarrow> None)"
  using loads_dumps [OF assms] by (simp add: body_field_def del: dumps_by.simps)

lemma one_ip_write:
  assumes "req one_ip_server nb m p (Some (JObj b)) c = (Inr r, c')" "m \<noteq> ''GET''" "savable (JObj b)"
  shows "\<exists>n e. cn_server c' = Some (n, e)
    \<and> (case map_of b ''dns_name'' of None \<Rightarrow> n = (case cn_server c of None \<Rightarrow> [] | Some q \<Rightarrow> fst q) | Some v \<Rightarrow> v = JStr n)
    \<and> (case map_of b ''description'' of None \<Rightarrow> e = (case cn_server c of None \<Rightarrow> [] | Some q \<Rightarrow> snd q) | Some v \<Rightarrow> v = JStr e)"
  using assms(1,2)
  by (auto simp: req_def one_ip_server_def body_field_req [OF assms(3)] Let_def
      split: option.splits json.splits if_splits prod.splits)

lemma one_ip_laws:
  "read_law one_ip_server nb a" "patch_law one_ip_server nb a" "post_law one_ip_server nb a"
proof -
  show "read_law one_ip_server nb a" by (simp add: read_law_def ip_of_one_ip one_ip_get)
  show "patch_law one_ip_server nb a"
    unfolding patch_law_def ip_of_one_ip holds_fields_def ip_fields_def
    by (auto dest!: one_ip_write split: option.splits)
  show "post_law one_ip_server nb a"
    unfolding post_law_def ip_of_one_ip holds_fields_def ip_fields_def
    by (auto dest!: one_ip_write split: option.splits)
qed

theorem upsert_ip_idempotent_witness:
  "\<exists>act c' c''. upsert_ip one_ip_server \<lparr>nb_base = ''http://netbox'', nb_token = ''t'', nb_tag_ok = None\<rparr>
      (JStr ''10.10.30.9/24'') (JStr ''foo.thesteamedcrab.com'') JNull True True
      \<lparr>cn_server = None, cn_trace = []\<rparr> = (Inr act, c')
    \<and> upsert_ip one_ip_server \<lparr>nb_base = ''http://netbox'', nb_token = ''t'', nb_tag_ok = None\<rparr>
      (JStr ''10.10.30.9/24'') (JStr ''foo.thesteamedcrab.com'') JNull True True c'
      = (Inr ''no-op ip-address 10.10.30.9/24 (already matches)'', c'')"
proof -
  define nb where "nb = \<lparr>nb_base = ''http://netbox'', nb_token = ''t'', nb_tag_ok = None\<rparr>"
  let ?a = "JStr ''10.10.30.9/24''" and ?dn = "JStr ''foo.thesteamedcrab.com''"
  define c :: "(string \<times> string) option conn" where "c = \<lparr>cn_server = None, cn_trace = []\<rparr>"
  have sav: "savable (JObj (update_all [(''address'', ?a)] (merge (wanted ?dn JNull) True nb)))"
    by (rule savable_bodies(1)) (simp_all add: text_or_none_def)
  have "\<exists>act c'. upsert_ip one_ip_server nb ?a ?dn JNull True True c = (Inr act, c')"
    using create_body_fields(1,2) [of ?a ?dn JNull True nb]
    by (simp add: upsert_ip_def Let_def mbind_def one_ip_get c_def create_object_def)
      (simp add: req_def one_ip_server_def body_field_req [OF sav] Let_def strip_def lstrip_def rstrip_def)
  then obtain act c' where run: "upsert_ip one_ip_server nb ?a ?dn JNull True True c = (Inr act, c')" by blast
  have "\<exists>q c''. upsert_ip one_ip_server nb ?a ?dn JNull True True c' =
      (Inr (''no-op ip-address '' @ py_str ?a @ '' (already matches)''), c'')
    \<and> cn_trace c'' = cn_trace c' @ [rest_req nb ''GET'' (ip_path @ ''?'' @ q) None]"
    by (rule upsert_ip_idempotent [OF one_ip_laws _ _ _ _ run])
      (simp_all add: text_or_none_def ip_of_one_ip c_def)
  with run show ?thesis unfolding nb_def c_def by auto
qed

end
