(* ===== verification/Autowrite.thy ===== *)
theory Autowrite
  imports Writeback
begin

text \<open>
  The gated write path of \<open>autowrite.py\<close>: the selection of the safe drifts, the recovery-path floor,
  one upsert per drift with its verification, and the summary mail.
\<close>

section \<open>Selection\<close>

record aw_config =
  aw_sweep :: config
  aw_apply :: bool
  aw_backend :: string
  aw_diode_target :: string
  aw_netbox_url :: string
  aw_token :: string

definition SAFE_CATEGORIES :: "string list" where
  "SAFE_CATEGORIES = [''netbox-dns-name-stale'', ''lb-ip-missing-in-netbox'']"

definition EXCLUDED_PREFIXES :: "string list" where
  "EXCLUDED_PREFIXES = [''192.168.'', ''10.42.'', ''10.43.'', ''10.45.'']"

definition excluded :: "json \<Rightarrow> bool" where
  "excluded address =
     (let bare = (case bare_ip address of None \<Rightarrow> [] | Some s \<Rightarrow> s) in
      list_ex (startswith bare) EXCLUDED_PREFIXES)"

definition target_or_empty :: "drift \<Rightarrow> dict" where
  "target_or_empty d = (case target d of None \<Rightarrow> [] | Some t \<Rightarrow> t)"

definition safe_eligible :: "string list \<Rightarrow> drift list \<Rightarrow> drift list" where
  "safe_eligible acked drifts = filter (\<lambda>d. category d \<in> set SAFE_CATEGORIES
     \<and> target_or_empty d \<noteq> [] \<and> fingerprint d \<notin> set acked) drifts"

definition or_empty_str :: "json \<Rightarrow> json" where
  "or_empty_str j = (if truthy j then j else JStr [])"

definition select_safe :: "string list \<Rightarrow> drift list \<Rightarrow> drift list" where
  "select_safe acked drifts =
     filter (\<lambda>d. \<not> excluded (or_empty_str (get (target_or_empty d) ''address''))) (safe_eligible acked drifts)"

definition select_residual :: "string list \<Rightarrow> drift list \<Rightarrow> drift list" where
  "select_residual acked drifts = filter (\<lambda>d. category d \<notin> set SAFE_CATEGORIES
     \<and> category d \<noteq> ''source-unreadable'' \<and> fingerprint d \<notin> set acked) drifts"

section \<open>One drift\<close>

definition apply_one :: "'s rest \<Rightarrow> netbox \<Rightarrow> drift \<Rightarrow> bool \<Rightarrow> (string, 's conn) stm" where
  "apply_one rest nb d do_write =
     (let t = target_or_empty d; addr = get t ''address'' in
      if get t ''kind'' \<noteq> JStr ''ip'' \<or> \<not> truthy addr
      then mlift (Inr (''skip '' @ fingerprint d @ '' (no writable ip target)''))
      else if excluded addr
      then mlift (Inr (''SKIP '' @ category d @ '' '' @ py_str addr
             @ '' (recovery-path floor: protected range)''))
      else
        mbind (if truthy (get t ''dns_name'')
               then upsert_ip rest nb addr (get t ''dns_name'') JNull do_write True
               else upsert_ip rest nb addr JNull (get t ''description'') do_write True) (\<lambda>action.
        if do_write
        then mbind (verify_ip rest nb addr) (\<lambda>got.
               mlift (Inr (action @ (if got \<noteq> JNull then '' [verified]'' else '' [VERIFY FAILED]''))))
        else mlift (Inr action)))"

fun apply_all :: "'s rest \<Rightarrow> netbox \<Rightarrow> bool \<Rightarrow> drift list \<Rightarrow> (string list, 's conn) stm" where
  "apply_all rest nb do_write [] c = (Inr [], c)"
| "apply_all rest nb do_write (d # ds) c =
     (case apply_one rest nb d do_write c of
        (Inl e, c1) \<Rightarrow>
          if is_writeback e
          then mbind (apply_all rest nb do_write ds) (\<lambda>acts.
                 mlift (Inr ((''FAILED '' @ fingerprint d @ '': '' @ exn_str e) # acts))) c1
          else (Inl e, c1)
      | (Inr act, c1) \<Rightarrow>
          mbind (apply_all rest nb do_write ds) (\<lambda>acts. mlift (Inr (act # acts))) c1)"

definition run_upserts :: "aw_config \<Rightarrow> 's rest \<Rightarrow> bool \<Rightarrow> drift list \<Rightarrow> (string list, 's conn) stm" where
  "run_upserts cfg rest do_write safe =
     (if safe = [] then mlift (Inr [])
      else mbind (mlift (NetBox (aw_netbox_url cfg) (aw_token cfg))) (\<lambda>nb.
        mbind (if do_write then ensure_tag rest nb else mlift (Inr ([], nb))) (\<lambda>(_, nb').
          apply_all rest nb' do_write (by_category_key safe))))"

section \<open>Summary and main\<close>

definition summary_body :: "aw_config \<Rightarrow> string \<Rightarrow> bool \<Rightarrow> nat \<Rightarrow> string list \<Rightarrow> nat \<Rightarrow> string" where
  "summary_body cfg day do_write n_safe actions n_residual =
     (let cap = cfg_digest_cap (aw_sweep cfg); tick = [CHR 0x60];
          head = (if do_write then ''APPLIED''
                  else ''DRY-RUN (no change; set AUTOWRITE_APPLY=true to enable)'');
          lines =
            [''FYI: NetBox-freshness **auto-write** '' @ [em_dash] @ '' '' @ head @ '' ('' @ day @ '').'', [],
             ''Safe residual upserts ('' @ nat_str n_safe @ ''):'']
            @ map (\<lambda>a. ''- '' @ tick @ a @ tick) (slice_to cap actions)
            @ (if cap < int (length actions)
               then [''- _'' @ [ellipsis] @ ''and '' @ int_str (int (length actions) - cap) @ '' more (job logs)._'']
               else [])
            @ (if n_residual \<noteq> 0
               then [[], ''_'' @ nat_str n_residual @ '' non-safe item(s) left for human/Loop-A review._'']
               else [])
      in take 3500 (join [newline] lines))"

record 's aw_outcome =
  awo_exit :: "int res"
  awo_mail :: "mail option"
  awo_conn :: "'s conn"

definition write_gate :: "aw_config \<Rightarrow> bool" where
  "write_gate cfg \<longleftrightarrow> aw_apply cfg \<and> aw_token cfg \<noteq> []"

definition aw_finish :: "aw_config \<Rightarrow> (mail \<Rightarrow> unit res) \<Rightarrow> string \<Rightarrow> drift list \<Rightarrow> drift list
    \<Rightarrow> string list res \<times> 's conn \<Rightarrow> 's aw_outcome" where
  "aw_finish cfg notify day safe residual rc =
     (case rc of
        (Inl e, c) \<Rightarrow> \<lparr>awo_exit = Inl e, awo_mail = None, awo_conn = c\<rparr>
      | (Inr actions, c) \<Rightarrow>
          (let m = \<lparr>ml_subject = ''netbox-sync auto-write '' @ [em_dash] @ '' '' @ day,
                 ml_body = summary_body cfg day (write_gate cfg) (length safe) actions (length residual),
                 ml_agent = cfg_agent (aw_sweep cfg)\<rparr>
           in if safe = [] then \<lparr>awo_exit = Inr 0, awo_mail = None, awo_conn = c\<rparr>
              else (case notify m of
                  Inl e \<Rightarrow> \<lparr>awo_exit = Inl e, awo_mail = None, awo_conn = c\<rparr>
                | Inr _ \<Rightarrow> \<lparr>awo_exit = Inr 0, awo_mail = Some m, awo_conn = c\<rparr>)))"

definition aw_main :: "aw_config \<Rightarrow> world \<Rightarrow> 's rest \<Rightarrow> (mail \<Rightarrow> unit res) \<Rightarrow> string \<Rightarrow> state
    \<Rightarrow> 's conn \<Rightarrow> 's aw_outcome option" where
  "aw_main cfg w rest notify day st c =
     (let quit = (\<lambda>r. Some \<lparr>awo_exit = r, awo_mail = None, awo_conn = c\<rparr>) in
      if aw_backend cfg = ''diode'' \<and> aw_diode_target cfg = [] then quit (Inr 0)
      else if aw_backend cfg \<notin> {''writeback'', ''diode''} then quit (Inr 0)
      else (case endpoints (st_mcp_config st) of
          Inl e \<Rightarrow> quit (Inl e)
        | Inr eps \<Rightarrow>
            map_option (\<lambda>(drifts, _).
              let acked = load_acked (st_acked st); safe = select_safe acked drifts;
                  residual = select_residual acked drifts
              in aw_finish cfg notify day safe residual (run_upserts cfg rest (write_gate cfg) safe c))
            (compute_drifts (aw_sweep cfg) w eps)))"

section \<open>What the write path can send\<close>

text \<open>
  The server after a list of requests, and computations of which it is known what they send, what they
  return and that nothing else reached the server, given the state in which they find it.
\<close>

definition state_after :: "'s rest \<Rightarrow> 's \<Rightarrow> rest_request list \<Rightarrow> 's" where
  "state_after rest s n = foldl (\<lambda>s r. snd (rest r s)) s n"

lemma state_after_simps [simp]:
  "state_after rest s [] = s" "state_after rest s (r # n) = state_after rest (snd (rest r s)) n"
  "state_after rest s (m @ n) = state_after rest (state_after rest s m) n"
  by (simp_all add: state_after_def)

definition exchanges :: "'s rest \<Rightarrow> ('s \<Rightarrow> 'a res \<Rightarrow> rest_request list \<Rightarrow> bool) \<Rightarrow> ('a, 's conn) stm \<Rightarrow> bool" where
  "exchanges rest P m \<longleftrightarrow>
     (\<forall>c. \<exists>n. cn_trace (snd (m c)) = cn_trace c @ n \<and> cn_server (snd (m c)) = state_after rest (cn_server c) n
        \<and> P (cn_server c) (fst (m c)) n)"

lemma exchanges_mono: "exchanges rest P m \<Longrightarrow> (\<And>s r n. P s r n \<Longrightarrow> Q s r n) \<Longrightarrow> exchanges rest Q m"
  unfolding exchanges_def by metis

lemma exchanges_step:
  assumes "exchanges rest P m" "m c = (r, c')"
  obtains n where "cn_trace c' = cn_trace c @ n" "cn_server c' = state_after rest (cn_server c) n" "P (cn_server c) r n"
  using assms unfolding exchanges_def by (metis fst_conv snd_conv)

lemma exchanges_lift: "(\<And>s. P s r []) \<Longrightarrow> exchanges rest P (mlift r)"
  by (auto simp: exchanges_def intro!: exI [of _ "[]"])

lemma exchanges_bind:
  assumes m: "exchanges rest P m" and f: "\<And>a. exchanges rest (Q a) (f a)"
    and "\<And>s e n. P s (Inl e) n \<Longrightarrow> R s (Inl e) n"
    and "\<And>s a n r n'. P s (Inr a) n \<Longrightarrow> Q a (state_after rest s n) r n' \<Longrightarrow> R s r (n @ n')"
  shows "exchanges rest R (mbind m f)"
  unfolding exchanges_def
proof
  fix c
  obtain r c1 where r: "m c = (r, c1)" by fastforce
  from m r obtain n where n: "cn_trace c1 = cn_trace c @ n" "cn_server c1 = state_after rest (cn_server c) n" "P (cn_server c) r n"
    by (rule exchanges_step)
  show "\<exists>n. cn_trace (snd (mbind m f c)) = cn_trace c @ n \<and> cn_server (snd (mbind m f c)) = state_after rest (cn_server c) n
      \<and> R (cn_server c) (fst (mbind m f c)) n"
  proof (cases r)
    case (Inl e)
    with r n assms(3) show ?thesis by (auto simp: mbind_def)
  next
    case (Inr a)
    obtain r' c2 where r': "f a c1 = (r', c2)" by fastforce
    from f [of a] r' obtain n' where n': "cn_trace c2 = cn_trace c1 @ n'" "cn_server c2 = state_after rest (cn_server c1) n'"
        "Q a (cn_server c1) r' n'"
      by (rule exchanges_step)
    from n n' Inr assms(4) [of "cn_server c" a n r' n'] have "R (cn_server c) r' (n @ n')" by simp
    with r r' Inr n n' show ?thesis by (intro exI [of _ "n @ n'"]) (simp add: mbind_def)
  qed
qed

lemma exchanges_bind_lift:
  "(\<And>a. r = Inr a \<Longrightarrow> exchanges rest R (f a)) \<Longrightarrow> (\<And>s e. r = Inl e \<Longrightarrow> R s (Inl e) []) \<Longrightarrow> exchanges rest R (mbind (mlift r) f)"
  by (cases r) (auto simp: exchanges_def mbind_def intro!: exI [of _ "[]"])

lemma exchanges_then_lift:
  assumes "exchanges rest P m" "\<And>s e n. P s (Inl e) n \<Longrightarrow> R s (Inl e) n" "\<And>s a n. P s (Inr a) n \<Longrightarrow> R s (g a) n"
  shows "exchanges rest R (mbind m (\<lambda>a. mlift (g a)))"
  by (rule exchanges_bind [OF assms(1), of "\<lambda>a s r n. r = g a \<and> n = []"]) (use assms(2,3) in \<open>auto intro: exchanges_lift\<close>)

definition reply_json :: "rest_reply \<Rightarrow> json option" where
  \<comment> \<open>the value of an answer that has one\<close>
  "reply_json reply = (case reply of Reply raw \<Rightarrow> if strip raw = [] then Some (JObj []) else loads raw | _ \<Rightarrow> None)"

lemma exchanges_req:
  "exchanges rest (\<lambda>s r n. n = [rest_req nb method path body] \<and> (\<forall>j. r = Inr j \<longrightarrow> reply_json (fst (rest (rest_req nb method path body) s)) = Some j))
     (req rest nb method path body)"
  by (auto simp: exchanges_def req_def reply_json_def Let_def split: prod.splits rest_reply.splits option.splits)

section \<open>The requests for one drift\<close>

definition ip_get :: "netbox \<Rightarrow> json \<Rightarrow> rest_request" where
  "ip_get nb a = rest_req nb ''GET'' (ip_path @ ''?address='' @ quote_strict (py_str a)) None"

definition first_record :: "'s rest \<Rightarrow> 's \<Rightarrow> netbox \<Rightarrow> json \<Rightarrow> json option" where
  \<comment> \<open>the record that NetBox, in that state, names first when it is asked for the address\<close>
  "first_record rest s nb a =
     (case reply_json (fst (rest (ip_get nb a) s)) of
        Some (JObj d) \<Rightarrow> (case get d ''results'' of JList (x # _) \<Rightarrow> Some x | _ \<Rightarrow> None)
      | _ \<Rightarrow> None)"

definition owned_tag :: json where
  "owned_tag = JList [JObj [(''slug'', JStr OWNED_TAG)]]"

definition own_values :: "dict \<Rightarrow> dict \<Rightarrow> bool" where
  \<comment> \<open>nothing but the DNS name and the description of the target, and the tag\<close>
  "own_values t body \<longleftrightarrow>
     (\<forall>(k, v) \<in> set body. k = ''tags'' \<and> v = owned_tag \<or> k \<in> {''dns_name'', ''description''} \<and> v = get t k)"

definition besides_address :: "dict \<Rightarrow> dict" where
  "besides_address = filter (\<lambda>(k, v). k \<noteq> ''address'')"

definition ip_write :: "'s rest \<Rightarrow> 's \<Rightarrow> netbox \<Rightarrow> dict \<Rightarrow> rest_request \<Rightarrow> bool" where
  \<comment> \<open>the creation of the address of the target, for which there is no record, or a change of its record\<close>
  "ip_write rest s nb t r \<longleftrightarrow>
     (let a = get t ''address'' in
        (\<exists>body. r = rest_req nb ''POST'' ip_path (Some (JObj body)) \<and> get body ''address'' = a \<and> own_values t (besides_address body)
           \<and> first_record rest s nb a \<in> {None, Some JNull})
      \<or> (\<exists>body d j i. r = rest_req nb ''PATCH'' (ip_path @ i @ ''/'') (Some (JObj body)) \<and> own_values t body
           \<and> first_record rest s nb a = Some (JObj d) \<and> map_of d ''id'' = Some j \<and> format_d j = Inr i))"

definition protected :: "json \<Rightarrow> bool" where
  "protected a \<longleftrightarrow> (\<exists>p \<in> {''192.168.'', ''10.42.'', ''10.43.'', ''10.45.''}. \<exists>r. bare_ip a = Some (p @ r))"

lemma excluded_iff: "excluded a \<longleftrightarrow> protected a"
  by (auto simp: excluded_def protected_def EXCLUDED_PREFIXES_def startswith_iff Let_def split: option.split)

definition drift_requests :: "'s rest \<Rightarrow> netbox \<Rightarrow> bool \<Rightarrow> drift \<Rightarrow> 's \<Rightarrow> rest_request list \<Rightarrow> bool" where
  "drift_requests rest nb w d s n \<longleftrightarrow>
     (let t = target_or_empty d; a = get t ''address'' in
      if get t ''kind'' \<noteq> JStr ''ip'' \<or> \<not> truthy a \<or> protected a then n = []
      else \<exists>ws vs. n = ip_get nb a # ws @ vs \<and> length ws \<le> 1 \<and> (\<forall>r \<in> set ws. w \<and> ip_write rest s nb t r)
             \<and> length vs \<le> 1 \<and> set vs \<subseteq> {ip_get nb a} \<and> (vs \<noteq> [] \<longrightarrow> w))"

lemma exchanges_ip_get:
  "exchanges rest (\<lambda>s r n. n = [ip_get nb a] \<and> (r = Inr JNull \<longrightarrow> first_record rest s nb a \<in> {None, Some JNull})
      \<and> (\<forall>d. r = Inr (JObj d) \<longrightarrow> first_record rest s nb a = Some (JObj d)))
     (get_first rest nb ip_path [(''address'', a)])"
proof -
  have first: "(first_result j = Inr JNull \<longrightarrow> first_record rest s nb a \<in> {None, Some JNull})
      \<and> (\<forall>d. first_result j = Inr (JObj d) \<longrightarrow> first_record rest s nb a = Some (JObj d))"
    if "reply_json (fst (rest (ip_get nb a) s)) = Some j" for s j
    using that
    by (cases j) (auto simp: first_record_def first_result_def Let_def split: json.splits list.splits if_splits)
  show ?thesis
    unfolding get_first_def
    by (rule exchanges_then_lift [OF exchanges_req]) (use first in \<open>auto simp: ip_get_def\<close>)
qed

lemma changed_subset: "changed existing desired = Inr diff \<Longrightarrow> set diff \<subseteq> {(k, v) \<in> set desired. v \<noteq> JNull}"
  by (auto simp: changed_def rbind_Inr_iff split: if_splits)

lemma with_tags_set: "set (with_tags nb tag b) \<subseteq> insert (''tags'', owned_tag) (set b)"
proof (cases "tags nb tag")
  case (Some x)
  then have "x = owned_tag" by (auto simp: tags_def owned_tag_def split: if_splits)
  with Some set_update_subset show ?thesis by (simp add: with_tags_def)
qed (auto simp: with_tags_def)

lemma own_values_sub: "own_values t b \<Longrightarrow> set b' \<subseteq> insert (''tags'', owned_tag) (set b) \<Longrightarrow> own_values t b'"
  unfolding own_values_def by blast

lemma wanted_values:
  assumes "dn = JNull \<or> dn = get t ''dns_name''" "de = JNull \<or> de = get t ''description''" "set b \<subseteq> {(k, v) \<in> set (wanted dn de). v \<noteq> JNull}"
  shows "own_values t b"
  using assms by (auto simp: own_values_def)

lemma set_update_all: "set (update_all b c) \<subseteq> set b \<union> set c"
proof -
  have "set (foldl (\<lambda>b (k, v). AList.update k v b) b c) \<subseteq> set b \<union> set c"
  proof (induction c arbitrary: b)
    case (Cons x c)
    obtain k v where x: "x = (k, v)" by (cases x)
    from Cons.IH [of "AList.update k v b"] set_update_subset [of k v b] x show ?case by auto
  qed simp
  then show ?thesis by (simp add: update_all_def)
qed

lemma created_values:
  assumes "dn = JNull \<or> dn = get t ''dns_name''" "de = JNull \<or> de = get t ''description''"
  shows "own_values t (besides_address (update_all [(''address'', a)] (merge (wanted dn de) tag nb)))"
proof -
  define b where "b = filter (\<lambda>(k, v). v \<noteq> JNull) (wanted dn de)"
  define m where "m = with_tags nb tag b"
  have "own_values t b" unfolding b_def by (rule wanted_values [OF assms]) auto
  moreover have "set m \<subseteq> insert (''tags'', owned_tag) (set b)" unfolding m_def by (rule with_tags_set)
  moreover have "set (besides_address (update_all [(''address'', a)] m)) \<subseteq> set m"
    using set_update_all [of "[(''address'', a)]" m] unfolding besides_address_def by auto
  ultimately have "own_values t (besides_address (update_all [(''address'', a)] m))"
    by (blast intro: own_values_sub)
  then show ?thesis by (simp only: m_def b_def merge_def)
qed

definition write_sent :: "'s rest \<Rightarrow> 's \<Rightarrow> netbox \<Rightarrow> bool \<Rightarrow> dict \<Rightarrow> rest_request list \<Rightarrow> bool" where
  "write_sent rest s nb w t ws \<longleftrightarrow> length ws \<le> 1 \<and> (\<forall>r \<in> set ws. w \<and> ip_write rest s nb t r)"

lemma exchanges_update:
  assumes "dn = JNull \<or> dn = get t ''dns_name''" "de = JNull \<or> de = get t ''description''"
    "\<And>d. existing = JObj d \<Longrightarrow> first_record rest s0 nb (get t ''address'') = Some (JObj d)"
  shows "exchanges rest (\<lambda>s r ws. write_sent rest s0 nb w t ws) (update_object rest nb ip_path what existing (wanted dn de) w use_tag)"
proof -
  have "write_sent rest s0 nb True t [rest_req nb ''PATCH'' (ip_path @ i @ ''/'') (Some (JObj (with_tags nb use_tag diff)))]"
    if diff: "changed existing (wanted dn de) = Inr diff" and i: "object_id existing = Inr i" for diff i
  proof -
    from i obtain d j where d: "existing = JObj d" "map_of d ''id'' = Some j" "format_d j = Inr i"
      by (auto simp: object_id_def split: json.splits option.splits)
    have "own_values t (with_tags nb use_tag diff)"
      using own_values_sub [OF wanted_values [OF assms(1,2) changed_subset [OF diff]] with_tags_set] .
    with d assms(3) [OF d(1)] show ?thesis by (auto simp: write_sent_def ip_write_def Let_def)
  qed
  then show ?thesis
    unfolding update_object_def Let_def
    by (intro exchanges_bind_lift)
      (auto intro!: exchanges_bind_lift exchanges_lift exchanges_then_lift [OF exchanges_req] simp: write_sent_def)
qed

lemma exchanges_upsert:
  assumes "dn = JNull \<or> dn = get t ''dns_name''" "de = JNull \<or> de = get t ''description''" "a = get t ''address''"
  shows "exchanges rest (\<lambda>s r n. \<exists>ws. n = ip_get nb a # ws \<and> write_sent rest s nb w t ws)
    (upsert_ip rest nb a dn de w use_tag)"
proof -
  have "\<exists>n. cn_trace (snd (upsert_ip rest nb a dn de w use_tag c)) = cn_trace c @ n
      \<and> cn_server (snd (upsert_ip rest nb a dn de w use_tag c)) = state_after rest (cn_server c) n
      \<and> (\<exists>ws. n = ip_get nb a # ws \<and> write_sent rest (cn_server c) nb w t ws)" for c
  proof -
    obtain r c1 where r: "get_first rest nb ip_path [(''address'', a)] c = (r, c1)" by fastforce
    from exchanges_ip_get [of rest nb a] r have g: "cn_trace c1 = cn_trace c @ [ip_get nb a]"
        "cn_server c1 = state_after rest (cn_server c) [ip_get nb a]"
        "r = Inr JNull \<Longrightarrow> first_record rest (cn_server c) nb a \<in> {None, Some JNull}"
        "\<And>d. r = Inr (JObj d) \<Longrightarrow> first_record rest (cn_server c) nb a = Some (JObj d)"
      by (blast elim: exchanges_step)+
    show ?thesis
    proof (cases r)
      case (Inl e)
      with r g(1,2) show ?thesis
        by (intro exI [of _ "[ip_get nb a]"]) (simp add: upsert_ip_def Let_def mbind_def write_sent_def)
    next
      case (Inr existing)
      let ?body = "update_all [(''address'', a)] (merge (wanted dn de) use_tag nb)"
      define m where "m = (if existing = JNull
          then create_object rest nb ip_path (''create ip-address '' @ py_str a @ (if truthy dn then '' dns_name='' @ py_str dn else [])) ?body w
          else update_object rest nb ip_path (''ip-address '' @ py_str a) existing (wanted dn de) w use_tag)"
      have run: "upsert_ip rest nb a dn de w use_tag c = m c1"
        using r Inr by (simp add: upsert_ip_def Let_def mbind_def m_def)
      have post: "write_sent rest (cn_server c) nb True t [rest_req nb ''POST'' ip_path (Some (JObj ?body))]" if "existing = JNull"
        using created_values [OF assms(1,2), of a use_tag nb] create_body_fields(3) [of a dn de use_tag nb] g(3) Inr that assms(3)
        unfolding write_sent_def ip_write_def Let_def by auto
      have "exchanges rest (\<lambda>s r ws. write_sent rest (cn_server c) nb w t ws) m"
      proof (cases "existing = JNull")
        case True
        with post show ?thesis unfolding m_def create_object_def
          by (auto intro!: exchanges_lift exchanges_then_lift [OF exchanges_req] simp: write_sent_def)
      next
        case False
        have "first_record rest (cn_server c) nb (get t ''address'') = Some (JObj d)" if "existing = JObj d" for d
          using g(4) Inr that assms(3) by simp
        then have "exchanges rest (\<lambda>s r ws. write_sent rest (cn_server c) nb w t ws)
            (update_object rest nb ip_path (''ip-address '' @ py_str a) existing (wanted dn de) w use_tag)"
          by (rule exchanges_update [OF assms(1,2)])
        then show ?thesis unfolding m_def if_not_P [OF False] .
      qed
      moreover obtain r' c2 where "m c1 = (r', c2)" by fastforce
      ultimately obtain ws where "cn_trace c2 = cn_trace c1 @ ws" "cn_server c2 = state_after rest (cn_server c1) ws"
          "write_sent rest (cn_server c) nb w t ws"
        by (rule exchanges_step)
      with g(1,2) run \<open>m c1 = (r', c2)\<close> show ?thesis by (intro exI [of _ "ip_get nb a # ws"]) simp
    qed
  qed
  then show ?thesis unfolding exchanges_def by blast
qed

lemma drift_requestsI:
  assumes "get (target_or_empty d) ''address'' = a" "get (target_or_empty d) ''kind'' = JStr ''ip''" "truthy a" "\<not> excluded a"
    "write_sent rest s nb w (target_or_empty d) ws" "length vs \<le> 1" "set vs \<subseteq> {ip_get nb a}" "vs \<noteq> [] \<longrightarrow> w"
  shows "drift_requests rest nb w d s (ip_get nb a # ws @ vs)"
  using assms unfolding drift_requests_def write_sent_def Let_def excluded_iff by auto

lemma exchanges_apply_one: "exchanges rest (\<lambda>s r n. drift_requests rest nb w d s n) (apply_one rest nb d w)"
proof -
  define t where "t = target_or_empty d"
  define a where "a = get t ''address''"
  have body: "exchanges rest (\<lambda>s r n. drift_requests rest nb w d s n)
      (mbind (upsert_ip rest nb a dn de w True) (\<lambda>action.
        if w then mbind (verify_ip rest nb a) (\<lambda>got. mlift (Inr (f action got))) else mlift (Inr action)))"
    if "get t ''kind'' = JStr ''ip''" "truthy a" "\<not> excluded a" "dn = JNull \<or> dn = get t ''dns_name''" "de = JNull \<or> de = get t ''description''"
    for dn de f
  proof (rule exchanges_bind [OF exchanges_upsert [OF that(4,5) a_def]])
    show "exchanges rest (\<lambda>s r n. length n \<le> 1 \<and> set n \<subseteq> {ip_get nb a} \<and> (n \<noteq> [] \<longrightarrow> w)) (if w
        then mbind (verify_ip rest nb a) (\<lambda>got. mlift (Inr (f action got))) else mlift (Inr action))" for action
      unfolding verify_ip_def by (auto intro!: exchanges_lift exchanges_then_lift [OF exchanges_ip_get])
    note I = drift_requestsI [of d a, OF _ _ that(2,3), folded t_def, OF a_def [symmetric] that(1)]
    show "\<exists>ws. n = ip_get nb a # ws \<and> write_sent rest s nb w t ws \<Longrightarrow> drift_requests rest nb w d s n" for s n
      by (elim exE conjE) (simp add: I [where vs = "[]", simplified])
    show "\<exists>ws. n = ip_get nb a # ws \<and> write_sent rest s nb w t ws
        \<Longrightarrow> length n' \<le> 1 \<and> set n' \<subseteq> {ip_get nb a} \<and> (n' \<noteq> [] \<longrightarrow> w) \<Longrightarrow> drift_requests rest nb w d s (n @ n')" for s n n'
      by (elim exE conjE) (simp add: I)
  qed
  have skip: "drift_requests rest nb w d s []" if "get t ''kind'' \<noteq> JStr ''ip'' \<or> \<not> truthy a \<or> excluded a" for s
    using that by (simp add: drift_requests_def excluded_iff t_def a_def Let_def)
  show ?thesis
    unfolding apply_one_def Let_def t_def [symmetric] a_def [symmetric]
    by (auto intro!: body exchanges_lift skip)
qed

fun drift_batches :: "'s rest \<Rightarrow> netbox \<Rightarrow> bool \<Rightarrow> drift list \<Rightarrow> 's \<Rightarrow> rest_request list \<Rightarrow> bool" where
  \<comment> \<open>one batch for each drift, in their order, each sent to NetBox as the earlier ones left it\<close>
  "drift_batches rest nb w [] s n \<longleftrightarrow> n = []"
| "drift_batches rest nb w (d # ds) s n \<longleftrightarrow>
     (\<exists>p q. n = p @ q \<and> drift_requests rest nb w d s p \<and> drift_batches rest nb w ds (state_after rest s p) q)"

definition first_batches :: "'s rest \<Rightarrow> netbox \<Rightarrow> bool \<Rightarrow> drift list \<Rightarrow> 's \<Rightarrow> 'a res \<Rightarrow> rest_request list \<Rightarrow> bool" where
  \<comment> \<open>the batches of all the drifts, or those of the first ones if an error ended the run\<close>
  "first_batches rest nb w ds s r n \<longleftrightarrow>
     (\<exists>k \<le> length ds. drift_batches rest nb w (take k ds) s n \<and> (k = length ds \<or> isl r))"

lemma first_batches_Cons:
  "drift_requests rest nb w d s p \<Longrightarrow> first_batches rest nb w ds (state_after rest s p) r q \<Longrightarrow> isl r \<or> \<not> isl r'
    \<Longrightarrow> isl r \<longrightarrow> isl r' \<Longrightarrow> first_batches rest nb w (d # ds) s r' (p @ q)"
  unfolding first_batches_def by clarify (rule_tac x = "Suc k" in exI, auto)

lemma exchanges_apply_all: "exchanges rest (first_batches rest nb w ds) (apply_all rest nb w ds)"
proof (induction ds)
  case Nil
  show ?case by (simp add: exchanges_def first_batches_def)
next
  case (Cons d ds)
  have go: "exchanges rest (first_batches rest nb w ds) (mbind (apply_all rest nb w ds) (\<lambda>acts. mlift (Inr (f acts))))"
    for f :: "string list \<Rightarrow> string list"
    by (rule exchanges_then_lift [OF Cons.IH]) (auto simp: first_batches_def)
  have "\<exists>n. cn_trace (snd (apply_all rest nb w (d # ds) c)) = cn_trace c @ n
      \<and> cn_server (snd (apply_all rest nb w (d # ds) c)) = state_after rest (cn_server c) n
      \<and> first_batches rest nb w (d # ds) (cn_server c) (fst (apply_all rest nb w (d # ds) c)) n" for c
  proof -
    obtain r c1 where one: "apply_one rest nb d w c = (r, c1)" by fastforce
    from exchanges_apply_one one obtain p where p: "cn_trace c1 = cn_trace c @ p" "cn_server c1 = state_after rest (cn_server c) p"
        "drift_requests rest nb w d (cn_server c) p"
      by (rule exchanges_step)
    have rest: "\<exists>n. cn_trace (snd (m c1)) = cn_trace c @ n \<and> cn_server (snd (m c1)) = state_after rest (cn_server c) n
        \<and> first_batches rest nb w (d # ds) (cn_server c) (fst (m c1)) n"
      if m: "exchanges rest (first_batches rest nb w ds) m" for m :: "(string list, 'a conn) stm"
    proof -
      obtain r2 c2 where r2: "m c1 = (r2, c2)" by fastforce
      from m r2 obtain q where q: "cn_trace c2 = cn_trace c1 @ q" "cn_server c2 = state_after rest (cn_server c1) q"
          "first_batches rest nb w ds (cn_server c1) r2 q"
        by (rule exchanges_step)
      with p have "first_batches rest nb w (d # ds) (cn_server c) r2 (p @ q)"
        by (intro first_batches_Cons [of rest nb w d "cn_server c" p ds r2 q r2]) auto
      with p q r2 show ?thesis by (intro exI [of _ "p @ q"]) simp
    qed
    have stop: "first_batches rest nb w (d # ds) (cn_server c) (Inl e) p" for e
      unfolding first_batches_def using p(3) by (intro exI [of _ 1]) auto
    show ?thesis
    proof (cases r)
      case (Inl e)
      show ?thesis
      proof (cases "is_writeback e")
        case True
        with rest [OF go [of "\<lambda>acts. (''FAILED '' @ fingerprint d @ '': '' @ exn_str e) # acts"]] one Inl show ?thesis by simp
      next
        case False
        with p stop one Inl show ?thesis by auto
      qed
    next
      case (Inr act)
      with rest [OF go [of "\<lambda>acts. act # acts"]] one show ?thesis by simp
    qed
  qed
  then show ?case unfolding exchanges_def by blast
qed

section \<open>The requests of a run\<close>

definition tag_get :: "netbox \<Rightarrow> rest_request" where
  "tag_get nb = rest_req nb ''GET'' (tag_path @ ''?slug='' @ quote_strict OWNED_TAG) None"

definition tag_post :: "netbox \<Rightarrow> rest_request" where
  "tag_post nb = rest_req nb ''POST'' tag_path (Some tag_body)"

lemma tag_requests_cong:
  "nb_base nb' = nb_base nb \<Longrightarrow> nb_token nb' = nb_token nb \<Longrightarrow> tag_get nb' = tag_get nb \<and> tag_post nb' = tag_post nb"
  by (simp add: tag_get_def tag_post_def rest_req_def)

lemma exchanges_ensure_tag:
  "exchanges rest (\<lambda>s r n. set n \<subseteq> {tag_get nb, tag_post nb}
      \<and> (\<forall>msg nb'. r = Inr (msg, nb') \<longrightarrow> nb_base nb' = nb_base nb \<and> nb_token nb' = nb_token nb)) (ensure_tag rest nb)"
proof -
  have get: "exchanges rest (\<lambda>s r n. n = [tag_get nb]) (get_first rest nb tag_path [(''slug'', JStr OWNED_TAG)])"
    unfolding get_first_def
    by (rule exchanges_then_lift [OF exchanges_req]) (simp_all add: tag_get_def)
  have "\<exists>n. cn_trace (snd (ensure_tag rest nb c)) = cn_trace c @ n
      \<and> cn_server (snd (ensure_tag rest nb c)) = state_after rest (cn_server c) n \<and> set n \<subseteq> {tag_get nb, tag_post nb}" for c
  proof -
    obtain r c1 where g: "get_first rest nb tag_path [(''slug'', JStr OWNED_TAG)] c = (r, c1)" by fastforce
    from get g have c1: "cn_trace c1 = cn_trace c @ [tag_get nb]" "cn_server c1 = state_after rest (cn_server c) [tag_get nb]"
      by (blast elim: exchanges_step)+
    obtain r2 c2 where p: "req rest nb ''POST'' tag_path (Some tag_body) c1 = (r2, c2)" by fastforce
    from exchanges_req p obtain n where "cn_trace c2 = cn_trace c1 @ n" "cn_server c2 = state_after rest (cn_server c1) n"
        "n = [rest_req nb ''POST'' tag_path (Some tag_body)] \<and> (\<forall>j. r2 = Inr j
          \<longrightarrow> reply_json (fst (rest (rest_req nb ''POST'' tag_path (Some tag_body)) (cn_server c1))) = Some j)"
      by (rule exchanges_step)
    then have c2: "cn_trace c2 = cn_trace c1 @ [tag_post nb]" "cn_server c2 = state_after rest (cn_server c1) [tag_post nb]"
      by (simp_all only: tag_post_def)
    have "snd (ensure_tag rest nb c) \<in> {c1, c2}"
      unfolding ensure_tag_def Let_def g using p by (cases r; cases r2) (simp_all del: append_Cons append_Nil)
    then show ?thesis
    proof
      assume "snd (ensure_tag rest nb c) = c1"
      with c1 show ?thesis by (intro exI [of _ "[tag_get nb]"]) simp
    next
      assume "snd (ensure_tag rest nb c) \<in> {c2}"
      with c1 c2 show ?thesis by (intro exI [of _ "[tag_get nb, tag_post nb]"]) simp
    qed
  qed
  moreover have "fst (ensure_tag rest nb c) = Inr (msg, nb') \<Longrightarrow> nb_base nb' = nb_base nb \<and> nb_token nb' = nb_token nb"
    for c msg nb'
    by (auto simp: ensure_tag_def Let_def split: if_splits prod.splits sum.splits)
  ultimately show ?thesis unfolding exchanges_def by blast
qed

definition plan_requests :: "aw_config \<Rightarrow> bool \<Rightarrow> 's rest \<Rightarrow> drift list \<Rightarrow> 's \<Rightarrow> 'a res \<Rightarrow> rest_request list \<Rightarrow> bool" where
  "plan_requests cfg w rest ds s r n \<longleftrightarrow>
     (\<exists>nb ts bs. n = ts @ bs \<and> nb_base nb = rstrip_chars ''/'' (aw_netbox_url cfg) \<and> nb_token nb = aw_token cfg
        \<and> (if w then set ts \<subseteq> {tag_get nb, tag_post nb} else ts = [])
        \<and> first_batches rest nb w ds (state_after rest s ts) r bs)"

lemma first_batches_Nil: "isl r \<or> ds = [] \<Longrightarrow> first_batches rest nb w ds s r []"
  unfolding first_batches_def by (rule exI [of _ 0]) auto

lemma plan_requests_Nil: "isl r \<or> ds = [] \<Longrightarrow> plan_requests cfg w rest ds s r []"
  unfolding plan_requests_def
  by (rule exI [of _ "\<lparr>nb_base = rstrip_chars ''/'' (aw_netbox_url cfg), nb_token = aw_token cfg, nb_tag_ok = None\<rparr>"])
    (simp add: first_batches_Nil)

lemma exchanges_tag_then_all:
  assumes nb: "nb_base nb = rstrip_chars ''/'' (aw_netbox_url cfg)" "nb_token nb = aw_token cfg"
  shows "exchanges rest (plan_requests cfg w rest ds) (mbind (if w then ensure_tag rest nb else mlift (Inr ([], nb)))
      (\<lambda>(_, nb'). apply_all rest nb' w ds))"
proof (rule exchanges_bind)
  show "exchanges rest (\<lambda>s r n. (if w then set n \<subseteq> {tag_get nb, tag_post nb} else n = [])
      \<and> (\<forall>msg nb'. r = Inr (msg, nb') \<longrightarrow> nb_base nb' = nb_base nb \<and> nb_token nb' = nb_token nb))
     (if w then ensure_tag rest nb else mlift (Inr ([], nb)))"
    by (auto intro!: exchanges_lift exchanges_mono [OF exchanges_ensure_tag])
  show "exchanges rest (first_batches rest (snd p) w ds) (case p of (_, nb') \<Rightarrow> apply_all rest nb' w ds)" for p :: "string \<times> netbox"
    by (simp add: exchanges_apply_all split: prod.split)
  show "plan_requests cfg w rest ds s (Inl e) n"
    if "(if w then set n \<subseteq> {tag_get nb, tag_post nb} else n = [])
      \<and> (\<forall>msg nb'. Inl e = (Inr (msg, nb') :: (string \<times> netbox) res) \<longrightarrow> nb_base nb' = nb_base nb \<and> nb_token nb' = nb_token nb)" for s e n
    unfolding plan_requests_def using that nb first_batches_Nil [of "Inl e" ds rest nb w] by (intro exI [of _ nb] exI [of _ n] exI [of _ "[]"]) auto
  show "plan_requests cfg w rest ds s r (n @ n')"
    if "(if w then set n \<subseteq> {tag_get nb, tag_post nb} else n = [])
      \<and> (\<forall>msg nb'. Inr p = (Inr (msg, nb') :: (string \<times> netbox) res) \<longrightarrow> nb_base nb' = nb_base nb \<and> nb_token nb' = nb_token nb)"
      "first_batches rest (snd p) w ds (state_after rest s n) r n'" for s p n r n'
    unfolding plan_requests_def using that nb tag_requests_cong [of "snd p" nb]
    by (intro exI [of _ "snd p"] exI [of _ n] exI [of _ n']) (cases p; auto)
qed

lemma by_category_key_Nil [simp]: "by_category_key [] = []"
  by (simp add: by_category_key_def)

lemma exchanges_run_upserts:
  "exchanges rest (plan_requests cfg w rest (by_category_key safe)) (run_upserts cfg rest w safe)"
proof -
  have "NetBox (aw_netbox_url cfg) (aw_token cfg) = Inr nb \<Longrightarrow>
      nb_base nb = rstrip_chars ''/'' (aw_netbox_url cfg) \<and> nb_token nb = aw_token cfg" for nb
    by (auto simp: NetBox_def Let_def split: if_splits)
  then show ?thesis
    unfolding run_upserts_def
    by (auto intro!: exchanges_lift exchanges_bind_lift exchanges_tag_then_all plan_requests_Nil)
qed

lemma aw_finish_conn: "awo_conn (aw_finish cfg notify day safe residual rc) = snd rc"
  by (auto simp: aw_finish_def Let_def split: prod.splits sum.splits)

lemma aw_finish_exit: "isl (fst rc) \<Longrightarrow> isl (awo_exit (aw_finish cfg notify day safe residual rc))"
  by (auto simp: aw_finish_def Let_def split: prod.splits sum.splits)

lemma select_safe_eq:
  "select_safe acked drifts =
     filter (\<lambda>d. category d \<in> {''netbox-dns-name-stale'', ''lb-ip-missing-in-netbox''} \<and> fingerprint d \<notin> set acked
       \<and> target_or_empty d \<noteq> [] \<and> \<not> protected (get (target_or_empty d) ''address'')) drifts"
proof -
  have "excluded (or_empty_str j) = protected j" for j
  proof (cases "truthy j")
    case False
    then have "\<not> protected j" unfolding protected_def bare_ip_def by (cases j) (auto simp: before_def)
    moreover have "\<not> excluded (JStr [])" by code_simp
    ultimately show ?thesis using False by (simp add: or_empty_str_def)
  qed (simp add: or_empty_str_def excluded_iff)
  then show ?thesis
    unfolding select_safe_def safe_eligible_def filter_filter
    by (intro filter_cong) (auto simp: SAFE_CATEGORIES_def)
qed

text \<open>
  Property C1. The unattended write path, whatever the network, NetBox and the notification service
  do. A run sends nothing, or it sends, to the configured NetBox and with the configured token, first
  the handling of the tag (only when writing is enabled and a token is present), then one batch of
  requests for each drift of a list, in its order, stopping early only if the run ends in an error.
  The list is that of the computed drifts which are in one of the two safe categories, not
  acknowledged, have a target, and whose address is outside the protected ranges, by category and key.
  The batch of a drift starts with the read of its own address; it holds, only when writing is
  enabled, at most one write, which is the creation of that very address if NetBox answered the read with
  no record, or a change of the very record which NetBox answered, and sets nothing but the DNS name and the
  description of the drift and the tag; and it ends with at most one read of the address, the
  verification. Nothing is ever deleted.
\<close>

theorem autowrite_respects_floor:
  assumes "aw_main cfg w rest notify day st c = Some out"
  shows "cn_trace (awo_conn out) = cn_trace c \<or>
    (\<exists>eps drifts fs ds k nb ts bs. endpoints (st_mcp_config st) = Inr eps \<and> compute_drifts (aw_sweep cfg) w eps = Some (drifts, fs)
      \<and> ds = by_category_key (filter (\<lambda>d. category d \<in> {''netbox-dns-name-stale'', ''lb-ip-missing-in-netbox''}
            \<and> fingerprint d \<notin> set (load_acked (st_acked st)) \<and> target_or_empty d \<noteq> []
            \<and> \<not> protected (get (target_or_empty d) ''address'')) drifts)
      \<and> k \<le> length ds \<and> (k = length ds \<or> isl (awo_exit out))
      \<and> cn_trace (awo_conn out) = cn_trace c @ ts @ bs
      \<and> nb_base nb = rstrip_chars ''/'' (aw_netbox_url cfg) \<and> nb_token nb = aw_token cfg
      \<and> (if write_gate cfg then set ts \<subseteq> {tag_get nb, tag_post nb} else ts = [])
      \<and> drift_batches rest nb (write_gate cfg) (take k ds) (state_after rest (cn_server c) ts) bs)"
proof (cases "awo_conn out = c")
  case False
  with assms obtain eps drifts fs where run: "endpoints (st_mcp_config st) = Inr eps" "compute_drifts (aw_sweep cfg) w eps = Some (drifts, fs)"
      "out = aw_finish cfg notify day (select_safe (load_acked (st_acked st)) drifts) (select_residual (load_acked (st_acked st)) drifts)
        (run_upserts cfg rest (write_gate cfg) (select_safe (load_acked (st_acked st)) drifts) c)"
    by (auto simp: aw_main_def Let_def split: if_splits sum.splits)
  let ?safe = "select_safe (load_acked (st_acked st)) drifts"
  obtain r c1 where r: "run_upserts cfg rest (write_gate cfg) ?safe c = (r, c1)" by fastforce
  with exchanges_run_upserts obtain n where "cn_trace c1 = cn_trace c @ n"
      "plan_requests cfg (write_gate cfg) rest (by_category_key ?safe) (cn_server c) r n"
    by (rule exchanges_step)
  moreover from run(3) r have "awo_conn out = c1" "isl r \<longrightarrow> isl (awo_exit out)"
    using aw_finish_exit [of "(r, c1)"] by (auto simp: aw_finish_conn)
  ultimately show ?thesis
    using run(1,2) unfolding plan_requests_def first_batches_def select_safe_eq [symmetric] by metis
qed simp

lemma drift_batches_dry: "drift_batches rest nb False ds s n \<Longrightarrow> rr_method ` set n \<subseteq> {''GET''}"
proof (induction ds arbitrary: s n)
  case (Cons d ds)
  then obtain p q where n: "n = p @ q" "drift_requests rest nb False d s p" "drift_batches rest nb False ds (state_after rest s p) q" by auto
  from n(2) have "set p \<subseteq> {ip_get nb (get (target_or_empty d) ''address'')}"
    unfolding drift_requests_def Let_def by (auto split: if_splits)
  with Cons.IH [OF n(3)] n(1) show ?case by (auto simp: ip_get_def)
qed simp

text \<open>
  With the toggle off, or without a token, the write path only reads: every request it
  sends to NetBox is a GET.
\<close>

theorem autowrite_off_only_reads:
  assumes "aw_main cfg w rest notify day st c = Some out" "\<not> (aw_apply cfg \<and> aw_token cfg \<noteq> [])"
  shows "\<exists>new. cn_trace (awo_conn out) = cn_trace c @ new \<and> rr_method ` set new \<subseteq> {''GET''}"
proof -
  have off: "\<not> write_gate cfg" using assms(2) by (simp add: write_gate_def)
  have "awo_conn out = c \<or> (\<exists>safe. awo_conn out = snd (run_upserts cfg rest (write_gate cfg) safe c))"
    using assms(1) by (auto simp: aw_main_def Let_def aw_finish_conn split: if_splits sum.splits)
  then consider "awo_conn out = c" | safe where "awo_conn out = snd (run_upserts cfg rest False safe c)" using off by auto
  then show ?thesis
  proof cases
    case 2
    obtain r c1 where r: "run_upserts cfg rest False safe c = (r, c1)" by fastforce
    with exchanges_run_upserts obtain n where "cn_trace c1 = cn_trace c @ n"
        "plan_requests cfg False rest (by_category_key safe) (cn_server c) r n"
      by (rule exchanges_step)
    with drift_batches_dry r 2 show ?thesis unfolding plan_requests_def first_batches_def by fastforce
  qed simp
qed

section \<open>A run end to end\<close>

text \<open>
  A network on which every MCP tool answers an empty list, and a cluster with one load balancer
  address: the sweep finds one safe drift, and the write path acts on it.
\<close>

definition empty_net :: transport where
  "empty_net _ = HttpOk None (Some ''application/json'') (dumps (answer 1 (text_result (JList []))))"

definition lb_services :: json where
  "lb_services = JObj [(''items'', JList [JObj
     [(''metadata'', JObj [(''namespace'', JStr ''home''), (''name'', JStr ''mqtt'')]),
      (''spec'', JObj [(''type'', JStr ''LoadBalancer'')]),
      (''status'', JObj [(''loadBalancer'', JObj [(''ingress'', JList [JObj [(''ip'', JStr ''10.10.30.9'')]])])])]])]"

definition lb_kube :: kube where
  "lb_kube = \<lparr>kube_host = ''kube'', kube_port = ''443'', kube_token = Inr ''token'',
     kube_open = \<lambda>url _. Inr (dumps (if url = ''https://kube:443/api/v1/services'' then lb_services
       else JObj [(''items'', JList [])]))\<rparr>"

definition lb_world :: world where
  "lb_world = \<lparr>w_net = empty_net, w_kube = lb_kube\<rparr>"

definition lb_config :: "bool \<Rightarrow> aw_config" where
  "lb_config on = \<lparr>aw_sweep = demo_config\<lparr>cfg_enable_k8s := True\<rparr>, aw_apply = on, aw_backend = ''writeback'',
     aw_diode_target = [], aw_netbox_url = ''http://netbox/'', aw_token = ''secret''\<rparr>"

definition lb_state :: state where
  "lb_state = \<lparr>st_mcp_config = Some (dumps (JObj [(''mcpServers'', JObj
     [(''omada'', JObj [(''url'', JStr ''http://omada-mcp'')]),
      (''netbox'', JObj [(''url'', JStr ''http://netbox-mcp'')])])])), st_acked = None, st_seen = None\<rparr>"

definition lb_endpoints :: dict where
  "lb_endpoints = [(''omada'', JStr ''http://omada-mcp''), (''netbox'', JStr ''http://netbox-mcp'')]"

lemma lb_state_endpoints: "endpoints (st_mcp_config lb_state) = Inr lb_endpoints"
proof -
  let ?j = "JObj [(''mcpServers'', JObj [(''omada'', JObj [(''url'', JStr ''http://omada-mcp'')]),
      (''netbox'', JObj [(''url'', JStr ''http://netbox-mcp'')])])]"
  have "loads (dumps ?j) = Some ?j" by (rule loads_dumps) simp
  then show ?thesis
    by (simp add: lb_state_def endpoints_def json_loads_def del: dumps_by.simps)
      (simp add: field_def get_or_def endpoint_url_def lb_endpoints_def)
qed

lemma not_event_stream: "\<not> contains (lower ''application/json'') ''text/event-stream''"
  by (simp add: lower_def to_lower_def code_point_def startswith_def)

lemma empty_net_call: "fst (call empty_net tool args c) = Inr (JList [])"
proof -
  have "fst (call empty_net tool args c) = tool_result (cl_name c) tool (text_result (JList []))"
    by (rule call_answer [where sid = None and ctype = "Some ''application/json''" and i = 1])
      (simp_all add: empty_net_def not_event_stream text_result_def)
  then show ?thesis by (simp add: tool_result_text)
qed

lemma empty_net_calls: obtains c' where "call empty_net tool args c = (Inr (JList []), c')"
  using empty_net_call by (metis prod.collapse)

lemma empty_net_get_all: "\<exists>c'. netbox_get_all empty_net ty [] c = Some (Inr [], c')"
proof -
  obtain c' where "call empty_net ''netbox_get_objects'' (page_args ty [] 0) c = (Inr (JList []), c')"
    by (rule empty_net_calls)
  then show ?thesis by (simp add: netbox_get_all_def get_all_loop_page page_next_def)
qed

lemma empty_net_rows: "\<exists>c'. collect_rows row ty empty_net c = Some (Inr [], c')"
  using empty_net_get_all [of ty c] by (auto simp: collect_rows_def)

lemma empty_net_connect: "\<exists>c'. connect empty_net c = (Inr (), c')"
proof -
  have "parse_body ''application/json'' (dumps (answer 1 (text_result (JList [])))) = Inr (answer 1 (text_result (JList [])))"
    using not_event_stream by (intro parse_body_dumps) (simp_all add: answer_def text_result_def lower_def to_lower_def code_point_def)
  moreover have "lower ''application/json'' = ''application/json''"
    by (simp add: lower_def to_lower_def code_point_def)
  ultimately show ?thesis
    by (simp add: connect_def rpc_def post_def mbind_def empty_net_def Let_def rpc_result_def answer_def
        del: dumps_by.simps)
qed

lemma empty_net_open:
  assumes "map_of eps name = Some u"
  obtains c where "open_client empty_net eps name = Inr c"
  using empty_net_connect [of "MCPClient name (py_str u)"] assms by (auto simp: open_client_def)

lemma empty_net_bind:
  "\<exists>c'. mbind (call empty_net tool args) (\<lambda>j. mlift (f j)) c = (f (JList []), c')"
proof -
  obtain c' where "call empty_net tool args c = (Inr (JList []), c')" by (rule empty_net_calls)
  then show ?thesis by (simp add: mbind_def)
qed

lemma empty_net_omada: "read_omada empty_net lb_endpoints = Inr \<lparr>om_nets = [], om_devices = []\<rparr>"
proof -
  obtain c where c: "open_client empty_net lb_endpoints ''omada'' = Inr c"
    by (rule empty_net_open [of lb_endpoints "''omada''"]) (simp add: lb_endpoints_def)
  obtain c1 where n: "collect_omada_networks empty_net c = (Inr [], c1)"
    unfolding collect_omada_networks_def
    using empty_net_bind [where tool = "''getLanNetworkListV2''" and args = "[]" and c = c and f = "\<lambda>data. rbind (rmap omada_row (as_list [''networkList''] data))
        (\<lambda>rows. Inr (List.map_filter id rows))"] by (auto simp: List.map_filter_def)
  obtain c2 where d: "collect_omada_devices empty_net c1 = (Inr [], c2)"
    unfolding collect_omada_devices_def
    using empty_net_bind [where tool = "''getAllDeviceBySite''" and args = "[]" and c = c1 and f = "\<lambda>data. Inr (map omada_device_row (as_list [''deviceList''] data))"] by auto
  show ?thesis by (simp add: read_omada_def c mbind_def n d)
qed

lemma empty_net_netbox:
  "read_netbox cfg empty_net lb_endpoints =
     Some (Inr \<lparr>nx_vlans = [], nx_prefixes = [], nx_devices = [], nx_ips = []\<rparr>)"
proof -
  obtain c where c: "open_client empty_net lb_endpoints ''netbox'' = Inr c"
    by (rule empty_net_open [of lb_endpoints "''netbox''"]) (simp add: lb_endpoints_def)
  obtain c1 where 1: "collect_netbox_vlans empty_net c = Some (Inr [], c1)"
    using empty_net_rows [of vlan_row "''ipam.vlan''" c] by (auto simp: collect_netbox_vlans_def)
  obtain c2 where 2: "collect_netbox_prefixes empty_net c1 = Some (Inr [], c2)"
    using empty_net_rows [of prefix_row "''ipam.prefix''" c1] by (auto simp: collect_netbox_prefixes_def)
  obtain c3 where 3: "collect_netbox_devices empty_net c2 = Some (Inr [], c3)"
    using empty_net_rows [of device_row "''dcim.device''" c2] by (auto simp: collect_netbox_devices_def)
  obtain c4 where 4: "collect_netbox_ips empty_net c3 = Some (Inr [], c4)"
    using empty_net_rows [of ip_row "''ipam.ipaddress''" c3] by (auto simp: collect_netbox_ips_def)
  show ?thesis by (simp add: read_netbox_def c obind_def 1 2 3 4)
qed

definition lb_drift :: drift where
  "lb_drift = hd (lb_ip_drift [] \<lparr>li_ip = JStr ''10.10.30.9'', li_svc = ''home/mqtt''\<rparr>)"

lemma lb_kube_items:
  "items_of lb_kube ''/api/v1/services'' = iterate (get_or [(''items'', the (map_of (case lb_services of JObj d \<Rightarrow> d) ''items''))] ''items'' JNull)"
  "path \<noteq> ''/api/v1/services'' \<Longrightarrow> items_of lb_kube path = Inr []"
proof -
  have s: "loads (dumps lb_services) = Some lb_services" by (rule loads_dumps) (simp add: lb_services_def)
  have e: "loads (dumps (JObj [(''items'', JList [])])) = Some (JObj [(''items'', JList [])])"
    by (rule loads_dumps) simp
  show "items_of lb_kube ''/api/v1/services'' = iterate (get_or [(''items'', the (map_of (case lb_services of JObj d \<Rightarrow> d) ''items''))] ''items'' JNull)"
    by (simp add: items_of_def k8s_get_def lb_kube_def json_loads_def s del: dumps_by.simps)
      (simp add: lb_services_def field_def get_or_def)
  show "path \<noteq> ''/api/v1/services'' \<Longrightarrow> items_of lb_kube path = Inr []"
    by (simp add: items_of_def k8s_get_def lb_kube_def json_loads_def e field_def get_or_def del: dumps_by.simps)
qed

lemma lb_compute_drifts:
  "compute_drifts (aw_sweep (lb_config on)) lb_world lb_endpoints = Some ([lb_drift], [])"
proof -
  have "k8s_run lb_kube [] [] [] = ([lb_drift], [])"
    by (simp add: k8s_run_def collect_nodes_def collect_lb_service_ips_def collect_lb_pools_def lb_kube_items
        compare_nodes_def compare_lb_pools_def note_source_def)
      (simp add: lb_services_def get_or_def service_rows_def field_def compare_lb_ips_def lb_ip_drift_def
        nb_ip_set_def lb_drift_def Let_def)
  then show ?thesis
    by (simp add: compute_drifts_def lb_world_def empty_net_omada empty_net_netbox phase1_drifts_def phase2_def
        note_read_def lb_config_def demo_config_def compare_vlans_def compare_prefixes_def compare_devices_def)
qed

lemma lb_select: "select_safe [] [lb_drift] = [lb_drift]"
  by (simp add: select_safe_def safe_eligible_def SAFE_CATEGORIES_def lb_drift_def lb_ip_drift_def nb_ip_set_def
      target_or_empty_def lb_target_def or_empty_str_def excluded_def EXCLUDED_PREFIXES_def bare_ip_def
      startswith_def str_eval Let_def)

theorem autowrite_respects_floor_witness:
  "\<exists>out. aw_main (lb_config True) lb_world one_ip_server (\<lambda>m. Inr ()) ''2026-01-01'' lb_state
      \<lparr>cn_server = None, cn_trace = []\<rparr> = Some out
    \<and> (cn_trace (awo_conn out) = []
      \<or> (\<exists>nb ts bs. cn_trace (awo_conn out) = ts @ bs \<and> set ts \<subseteq> {tag_get nb, tag_post nb}
          \<and> (\<exists>k \<le> 1. drift_batches one_ip_server nb True (take k [lb_drift]) (state_after one_ip_server None ts) bs)))"
proof -
  have "\<exists>out. aw_main (lb_config True) lb_world one_ip_server (\<lambda>m. Inr ()) ''2026-01-01'' lb_state
      \<lparr>cn_server = None, cn_trace = []\<rparr> = Some out"
    using lb_compute_drifts [of True]
    by (simp add: aw_main_def lb_state_endpoints lb_config_def)
  then obtain out where out: "aw_main (lb_config True) lb_world one_ip_server (\<lambda>m. Inr ()) ''2026-01-01'' lb_state
      \<lparr>cn_server = None, cn_trace = []\<rparr> = Some out" by blast
  have gate: "write_gate (lb_config True)" by (simp add: write_gate_def lb_config_def)
  have acked: "load_acked (st_acked lb_state) = []" by (simp add: load_acked_def lb_state_def)
  have plan: "by_category_key (filter (\<lambda>d. category d \<in> {''netbox-dns-name-stale'', ''lb-ip-missing-in-netbox''}
            \<and> fingerprint d \<notin> set [] \<and> target_or_empty d \<noteq> []
            \<and> \<not> protected (get (target_or_empty d) ''address'')) [lb_drift]) = [lb_drift]"
    unfolding select_safe_eq [symmetric] lb_select by (simp add: by_category_key_def)
  from autowrite_respects_floor [OF out] have "cn_trace (awo_conn out) = []
      \<or> (\<exists>nb ts bs. cn_trace (awo_conn out) = ts @ bs \<and> set ts \<subseteq> {tag_get nb, tag_post nb}
          \<and> (\<exists>k \<le> 1. drift_batches one_ip_server nb True (take k [lb_drift]) (state_after one_ip_server None ts) bs))"
  proof (rule disjE, goal_cases)
    case 2
    then show ?case
    proof (elim exE conjE, goal_cases)
      case (1 eps drifts fs ds k nb ts bs)
      from 1(1,2) have "drifts = [lb_drift]" using lb_compute_drifts [of True] lb_state_endpoints by simp
      with 1(3) plan have one: "ds = [lb_drift]" unfolding acked by (simp only:)
      have "k \<le> 1" using 1(4) unfolding one by simp
      moreover have "drift_batches one_ip_server nb True (take k [lb_drift]) (state_after one_ip_server None ts) bs"
        using 1(10) gate unfolding one by (simp only: conn.simps simp_thms)
      moreover have "set ts \<subseteq> {tag_get nb, tag_post nb}" using 1(9) unfolding if_P [OF gate] .
      moreover have "cn_trace (awo_conn out) = ts @ bs" using 1(6) by simp
      ultimately show ?case by blast
    qed
  qed simp
  with out show ?thesis by (intro exI [of _ out] conjI)
qed

theorem autowrite_off_only_reads_witness:
  "\<exists>out. aw_main (lb_config False) lb_world one_ip_server (\<lambda>m. Inr ()) ''2026-01-01'' lb_state
      \<lparr>cn_server = None, cn_trace = []\<rparr> = Some out \<and> rr_method ` set (cn_trace (awo_conn out)) \<subseteq> {''GET''}"
proof -
  have "\<exists>out. aw_main (lb_config False) lb_world one_ip_server (\<lambda>m. Inr ()) ''2026-01-01'' lb_state
      \<lparr>cn_server = None, cn_trace = []\<rparr> = Some out"
    using lb_compute_drifts [of False]
    by (simp add: aw_main_def lb_state_endpoints lb_config_def)
  then obtain out where out: "aw_main (lb_config False) lb_world one_ip_server (\<lambda>m. Inr ()) ''2026-01-01'' lb_state
      \<lparr>cn_server = None, cn_trace = []\<rparr> = Some out" by blast
  from autowrite_off_only_reads [OF out] out show ?thesis by (auto simp: lb_config_def)
qed

section \<open>Selection\<close>

lemma excluded_truthy: "excluded a \<Longrightarrow> truthy a"
  by (rule ccontr) (simp add: excluded_def bare_ip_def EXCLUDED_PREFIXES_def startswith_def)

text \<open>
  A run whose safe drifts all lie in protected ranges does nothing: no request to
  NetBox, no mail, exit code 0. The floor is applied when the drifts are selected.
\<close>

theorem protected_only_run_is_silent:
  assumes "aw_backend cfg = ''writeback''" "endpoints (st_mcp_config st) = Inr eps"
    and "compute_drifts (aw_sweep cfg) w eps = Some (ds, fs)"
    and "\<forall>d \<in> set ds. category d \<in> set SAFE_CATEGORIES \<longrightarrow> excluded (get (target_or_empty d) ''address'')"
  shows "aw_main cfg w rest notify day st c = Some \<lparr>awo_exit = Inr 0, awo_mail = None, awo_conn = c\<rparr>"
proof -
  have "excluded a \<Longrightarrow> excluded (or_empty_str a)" for a
    by (simp add: or_empty_str_def excluded_truthy)
  with assms(4) have "select_safe (load_acked (st_acked st)) ds = []"
    by (auto simp: select_safe_def safe_eligible_def filter_empty_conv)
  then show ?thesis
    using assms(1-3) by (simp add: aw_main_def run_upserts_def aw_finish_def)
qed

theorem protected_only_run_is_silent_witness:
  "aw_main (lb_config True) dead_world one_ip_server (\<lambda>m. Inr ()) ''2026-01-01'' fresh_state
     \<lparr>cn_server = None, cn_trace = []\<rparr>
   = Some \<lparr>awo_exit = Inr 0, awo_mail = None, awo_conn = \<lparr>cn_server = None, cn_trace = []\<rparr>\<rparr>"
proof (rule protected_only_run_is_silent)
  show "endpoints (st_mcp_config fresh_state) = Inr []"
    by (simp add: fresh_state_def endpoints_empty)
  show "compute_drifts (aw_sweep (lb_config True)) dead_world [] = Some
     (map source_drift [(''omada'', repr_str ''omada''), (''netbox'', repr_str ''netbox'')],
       [(''omada'', repr_str ''omada''), (''netbox'', repr_str ''netbox'')])"
    by (rule compute_drifts_no_endpoints)
qed (auto simp: lb_config_def source_drift_def SAFE_CATEGORIES_def)

text \<open>
  The setting \<open>UPSERT_BACKEND=diode\<close> names NetBox Diode as the upsert layer, in place
  of the read, compare and patch of the REST path. With a target set, the code runs the REST path
  all the same: the two backends behave alike on every input.
\<close>

theorem diode_backend_writes_through_rest:
  fixes rest :: "'a rest"
  assumes "aw_diode_target cfg \<noteq> []"
  shows "aw_main (cfg\<lparr>aw_backend := ''diode''\<rparr>) w rest notify day st c =
    aw_main (cfg\<lparr>aw_backend := ''writeback''\<rparr>) w rest notify day st c"
proof -
  have "write_gate (cfg\<lparr>aw_backend := b\<rparr>) = write_gate cfg" for b by (simp add: write_gate_def)
  then have "aw_finish (cfg\<lparr>aw_backend := b\<rparr>) notify day safe residual rc = aw_finish cfg notify day safe residual rc"
    for b safe residual and rc :: "string list res \<times> 'a conn"
    by (simp add: aw_finish_def summary_body_def Let_def split: prod.split sum.split)
  moreover have "run_upserts (cfg\<lparr>aw_backend := b\<rparr>) = (run_upserts cfg :: 'a rest \<Rightarrow> _)" for b
    by (simp add: fun_eq_iff run_upserts_def)
  ultimately show ?thesis
    using assms by (cases "endpoints (st_mcp_config st)") (simp_all add: aw_main_def write_gate_def Let_def)
qed

theorem diode_backend_writes_through_rest_witness:
  "aw_main ((lb_config True)\<lparr>aw_diode_target := ''grpc://diode'', aw_backend := ''diode''\<rparr>) lb_world one_ip_server
     (\<lambda>m. Inr ()) ''2026-01-01'' lb_state \<lparr>cn_server = None, cn_trace = []\<rparr> =
   aw_main ((lb_config True)\<lparr>aw_diode_target := ''grpc://diode'', aw_backend := ''writeback''\<rparr>) lb_world one_ip_server
     (\<lambda>m. Inr ()) ''2026-01-01'' lb_state \<lparr>cn_server = None, cn_trace = []\<rparr>"
  using diode_backend_writes_through_rest [of "(lb_config True)\<lparr>aw_diode_target := ''grpc://diode''\<rparr>"] by simp

end
