(* ===== verification/WritebackCli.thy ===== *)
theory WritebackCli
  imports Writeback
begin

text \<open>
  The command line of \<open>writeback_cli.py\<close>, from the parsed arguments on: the dispatch on the verb,
  the exit codes and the read-back verification. The argument parser of the standard library is not
  modelled; a verb carries the arguments its subparser collects.
\<close>

datatype verb =
    IpUpsert string "string option" "string option"
  | IpDelete string
  | PrefixUpsert string "string option"
  | VlanUpsert int string

record cli_args =
  cli_apply :: bool
  cli_no_tag :: bool
  cli_verb :: verb

record 's cli_outcome =
  cli_exit :: "int res"
  cli_stdout :: "string list"
  cli_stderr :: "string list"
  cli_conn :: "'s conn"

definition opt_json :: "string option \<Rightarrow> json" where
  "opt_json s = (case s of None \<Rightarrow> JNull | Some t \<Rightarrow> JStr t)"

definition run_verb :: "'s rest \<Rightarrow> netbox \<Rightarrow> cli_args \<Rightarrow> (string, 's conn) stm" where
  "run_verb rest nb args =
     (let use_tag = (\<not> cli_no_tag args); apply = cli_apply args in
      case cli_verb args of
        IpUpsert a dn de \<Rightarrow> upsert_ip rest nb (JStr a) (opt_json dn) (opt_json de) apply use_tag
      | IpDelete a \<Rightarrow> delete_ip rest nb (JStr a) apply
      | PrefixUpsert p de \<Rightarrow> upsert_prefix rest nb (JStr p) (opt_json de) apply use_tag
      | VlanUpsert vid name \<Rightarrow> upsert_vlan rest nb vid (JStr name) apply use_tag)"

definition mode_line :: "cli_args \<Rightarrow> string \<Rightarrow> string" where
  "mode_line args action =
     (if cli_apply args then ''APPLIED'' else ''DRY-RUN (no change; pass --apply to write)'') @ '': '' @ action"

definition verify_step :: "'s rest \<Rightarrow> netbox \<Rightarrow> string \<Rightarrow> bool \<Rightarrow> string \<Rightarrow> 's conn \<Rightarrow> 's cli_outcome" where
  \<comment> \<open>the read-back of an applied address write; \<open>present\<close> is what it should find\<close>
  "verify_step rest nb a present line c =
     (case verify_ip rest nb (JStr a) c of
        (Inl e, c') \<Rightarrow> \<lparr>cli_exit = Inl e, cli_stdout = [line], cli_stderr = [], cli_conn = c'\<rparr>
      | (Inr got, c') \<Rightarrow>
          if (got \<noteq> JNull) = present
          then \<lparr>cli_exit = Inr 0, cli_stdout = [line, ''verified: '' @ a], cli_stderr = [], cli_conn = c'\<rparr>
          else \<lparr>cli_exit = Inr 2, cli_stdout = [line], cli_stderr =
                  [''VERIFY FAILED: '' @ a @ (if present then '' not present after write''
                                              else '' still present after delete'')], cli_conn = c'\<rparr>)"

definition cli_main :: "'s rest \<Rightarrow> string \<Rightarrow> string \<Rightarrow> cli_args \<Rightarrow> 's conn \<Rightarrow> 's cli_outcome" where
  "cli_main rest url token args c =
     (let failed = (\<lambda>e c'. if is_writeback e
            then \<lparr>cli_exit = Inr 1, cli_stdout = [], cli_stderr = [''WRITEBACK FAILED: '' @ exn_str e], cli_conn = c'\<rparr>
            else \<lparr>cli_exit = Inl e, cli_stdout = [], cli_stderr = [], cli_conn = c'\<rparr>) in
      case NetBox url token of
        Inl e \<Rightarrow> failed e c
      | Inr nb \<Rightarrow>
          (case run_verb rest nb args c of
             (Inl e, c1) \<Rightarrow> failed e c1
           | (Inr action, c1) \<Rightarrow>
               (let line = mode_line args action;
                    done = \<lparr>cli_exit = Inr 0, cli_stdout = [line], cli_stderr = [], cli_conn = c1\<rparr>
                in if \<not> cli_apply args then done
                   else (case cli_verb args of
                       IpUpsert a _ _ \<Rightarrow> verify_step rest nb a True line c1
                     | IpDelete a \<Rightarrow> verify_step rest nb a False line c1
                     | _ \<Rightarrow> done))))"

section \<open>Properties\<close>

lemma run_verb_dry:
  assumes "\<not> cli_apply args"
  shows "sends (\<lambda>n. \<exists>path. one_get nb path n) (run_verb rest nb args)"
  using assms
  by (cases "cli_verb args")
    (auto simp: run_verb_def Let_def intro: traces_mono [OF ip_upsert.dry_run_sends_one_get]
      traces_mono [OF ip_delete.dry_run_sends_one_get] traces_mono [OF prefix_upsert.dry_run_sends_one_get]
      traces_mono [OF vlan_upsert.dry_run_sends_one_get])

text \<open>
  Dry-run is the default and is safe: without \<open>--apply\<close> the command line sends at most
  one request, a read, whatever the verb and the server; and it says so on its output line.
\<close>

theorem cli_dry_run_reads_only:
  assumes "\<not> cli_apply args"
  shows "\<exists>n. cn_trace (cli_conn (cli_main rest url token args c)) = cn_trace c @ n
    \<and> length n \<le> 1 \<and> rr_method ` set n \<subseteq> {''GET''}
    \<and> (cli_exit (cli_main rest url token args c) = Inr 0 \<longrightarrow>
        (\<exists>action. cli_stdout (cli_main rest url token args c) =
          [''DRY-RUN (no change; pass --apply to write): '' @ action]))"
proof (cases "NetBox url token")
  case (Inl e)
  then show ?thesis by (auto simp: cli_main_def Let_def)
next
  case (Inr nb)
  obtain r c1 where r: "run_verb rest nb args c = (r, c1)" by fastforce
  obtain n path where n: "cn_trace c1 = cn_trace c @ n" "one_get nb path n"
    using run_verb_dry [OF assms, of nb rest] r unfolding traces_def by (metis snd_conv)
  then have "length n \<le> 1" "rr_method ` set n \<subseteq> {''GET''}" by (auto simp: one_get_def)
  with Inr r n(1) assms show ?thesis
    by (cases r) (auto simp: cli_main_def Let_def mode_line_def)
qed

theorem cli_dry_run_reads_only_witness:
  "\<exists>n. cn_trace (cli_conn (cli_main one_ip_server ''http://netbox'' ''t''
       \<lparr>cli_apply = False, cli_no_tag = False, cli_verb = IpDelete ''10.10.30.9/24''\<rparr>
       \<lparr>cn_server = Some (''foo'', []), cn_trace = []\<rparr>)) = n \<and> length n \<le> 1 \<and> rr_method ` set n \<subseteq> {''GET''}"
  using cli_dry_run_reads_only [of "\<lparr>cli_apply = False, cli_no_tag = False, cli_verb = IpDelete ''10.10.30.9/24''\<rparr>"
      one_ip_server "''http://netbox''" "''t''" "\<lparr>cn_server = Some (''foo'', []), cn_trace = []\<rparr>"]
  by auto

text \<open>
  Exit code 0 of an applied address command means verified: the read-back after the
  write found the address after an upsert, and did not find it after a delete. A read-back that
  contradicts the write gives exit code 2.
\<close>

theorem cli_exit_verified:
  assumes "cli_apply args" "out = cli_main rest url token args c"
    and "cli_verb args = IpUpsert a dn de \<and> present \<or> cli_verb args = IpDelete a \<and> \<not> present"
    and "cli_exit out \<in> {Inr 0, Inr 2}"
  shows "\<exists>nb c1 got. verify_ip rest nb (JStr a) c1 = (Inr got, cli_conn out)
    \<and> (cli_exit out = Inr 0 \<longleftrightarrow> (got \<noteq> JNull) = present)"
proof -
  have step: "\<exists>got. verify_ip rest nb (JStr a) c1 = (Inr got, cli_conn o1) \<and> (cli_exit o1 = Inr 0 \<longleftrightarrow> (got \<noteq> JNull) = present)"
    if "o1 = verify_step rest nb a present line c1" "cli_exit o1 \<in> {Inr 0, Inr 2}" for nb line c1 o1
    using that by (auto simp: verify_step_def split: prod.splits sum.splits if_splits)
  have "\<exists>nb line c1. out = verify_step rest nb a present line c1"
    using assms by (auto simp: cli_main_def Let_def split: sum.splits prod.splits if_splits) blast+
  with step assms(4) show ?thesis by blast
qed

theorem cli_exit_verified_witness:
  "cli_exit (cli_main one_ip_server ''http://netbox'' ''t''
      \<lparr>cli_apply = True, cli_no_tag = False, cli_verb = IpUpsert ''10.10.30.9/24'' (Some ''foo'') None\<rparr>
      \<lparr>cn_server = Some (''foo'', []), cn_trace = []\<rparr>) = Inr 0
   \<and> (\<exists>nb c1 got. verify_ip one_ip_server nb (JStr ''10.10.30.9/24'') c1 = (Inr got,
        cli_conn (cli_main one_ip_server ''http://netbox'' ''t''
      \<lparr>cli_apply = True, cli_no_tag = False, cli_verb = IpUpsert ''10.10.30.9/24'' (Some ''foo'') None\<rparr>
      \<lparr>cn_server = Some (''foo'', []), cn_trace = []\<rparr>)) \<and> got \<noteq> JNull)"
proof -
  define args where "args = \<lparr>cli_apply = True, cli_no_tag = False,
    cli_verb = IpUpsert ''10.10.30.9/24'' (Some ''foo'') None\<rparr>"
  define c where "c = \<lparr>cn_server = Some (''foo'', [] :: string), cn_trace = []\<rparr>"
  have exit: "cli_exit (cli_main one_ip_server ''http://netbox'' ''t'' args c) = Inr 0"
    by (simp add: cli_main_def NetBox_def rstrip_chars_def args_def run_verb_def opt_json_def upsert_ip_def
        mbind_def one_ip_get c_def update_object_def changed_def field_differs_def verify_step_def verify_ip_def Let_def)
  from cli_exit_verified [OF _ refl, of args "''10.10.30.9/24''" "Some ''foo''" None True one_ip_server
      "''http://netbox''" "''t''" c] exit
  show ?thesis unfolding args_def [symmetric] c_def [symmetric] by (simp add: args_def)
qed

end
