(* ===== verification/Esphome.thy ===== *)
theory Esphome
  imports PyJson PyCodec
begin

text \<open>
  The firmware reconciler of \<open>esphome_reconcile.py\<close>: the commands it runs inside the ESPHome pod,
  the classification of the devices, the compile, upload and verify sequence, and the report.

  The pod is a parameter: a function from the shell line and the pod's state to what the exec
  stream delivered. A run keeps the pod, a clock in milliseconds that every command and sleep
  advances, and the log of commands with their exit codes. The dashboard names a configuration by a
  string; another value under that key is an error here.
\<close>

section \<open>Commands in the pod\<close>

record es_config =
  config_dir :: string
  state_file :: string
  dashboard :: string
  max_per_run :: int
  force :: "string list"
  exclude :: "string list"
  dry_run :: bool
  verify_timeout :: nat
  verify_poll :: nat
  api_port :: string
  compile_timeout :: nat
  upload_timeout :: nat
  es_agent :: string

datatype command =
    Devices
  | Hash string
  | ReadState
  | WriteState json
  | Probe json
  | Compile string
  | Upload string json

text \<open>\<open>json.dumps(state, indent=2)\<close>, for the line that stores the state.\<close>

fun dumps_in :: "nat \<Rightarrow> json \<Rightarrow> string"
  and dumps_in_list :: "nat \<Rightarrow> json list \<Rightarrow> string list"
  and dumps_in_items :: "nat \<Rightarrow> dict \<Rightarrow> string list" where
  "dumps_in n (JList (x # xs)) =
     ''['' @ join '','' (dumps_in_list (n + 2) (x # xs)) @ [newline] @ replicate n (CHR '' '') @ '']''"
| "dumps_in n (JObj (kv # kvs)) =
     ''{'' @ join '','' (dumps_in_items (n + 2) (kv # kvs)) @ [newline] @ replicate n (CHR '' '') @ ''}''"
| "dumps_in n (JList []) = ''[]''"
| "dumps_in n (JObj []) = ''{}''"
| "dumps_in n j = dumps j"
| "dumps_in_list n [] = []"
| "dumps_in_list n (x # xs) = ([newline] @ replicate n (CHR '' '') @ dumps_in n x) # dumps_in_list n xs"
| "dumps_in_items n [] = []"
| "dumps_in_items n ((k, v) # kvs) =
     ([newline] @ replicate n (CHR '' '') @ dumps_str k @ '': '' @ dumps_in n v) # dumps_in_items n kvs"

definition dq :: "string \<Rightarrow> string" where
  "dq s = [quote] @ s @ [quote]"

definition command_text :: "es_config \<Rightarrow> command \<Rightarrow> string" where
  "command_text cfg cmd =
     (case cmd of
        Devices \<Rightarrow> ''curl -s --max-time 20 '' @ dashboard cfg @ ''/devices''
      | Hash fn \<Rightarrow> ''sha256sum '' @ config_dir cfg @ ''/'' @ fn
      | ReadState \<Rightarrow> ''cat '' @ state_file cfg @ '' 2>/dev/null || echo '' @ sq ''{}''
      | WriteState j \<Rightarrow> ''echo '' @ sq (b64encode (encode (dumps_in 0 j))) @ '' | python3 -c ''
          @ dq (''import sys,base64;open('' @ sq (state_file cfg) @ '','' @ sq ''wb''
                @ '').write(base64.b64decode(sys.stdin.read()))'')
      | Probe a \<Rightarrow> ''python3 -c '' @ dq (''import socket;socket.setdefaulttimeout(4);socket.create_connection((''
          @ sq (py_str a) @ '','' @ api_port cfg @ ''));print('' @ sq ''UP'' @ '')'')
      | Compile fn \<Rightarrow> ''esphome compile '' @ config_dir cfg @ ''/'' @ fn
      | Upload fn a \<Rightarrow> ''esphome upload '' @ config_dir cfg @ ''/'' @ fn @ '' --device '' @ py_str a)"

definition sentinel :: string where
  "sentinel = ''__ESPHOME_RC__:''"

definition wrapped :: "string \<Rightarrow> string" where
  "wrapped cmd = cmd @ ''; __rc=$?; echo; echo '' @ dq (sentinel @ ''$__rc'')"

text \<open>What the exec stream delivered: output, errors, the client's return code, and elapsed time.\<close>

datatype exec_raw =
    ExecDone string string "int option" nat
  | ExecTimeout string string nat
  | ExecRaise string nat

type_synonym 's pod = "string \<Rightarrow> 's \<Rightarrow> exec_raw \<times> 's"

record 's run =
  rn_pod :: 's
  rn_now :: nat
  rn_log :: "(command \<times> int option) list"

definition sentinel_rc :: "int option \<Rightarrow> string list \<Rightarrow> int option" where
  "sentinel_rc rc lines = foldl (\<lambda>acc l.
     if startswith l sentinel
     then Some (case parse_int (strip (drop (length sentinel) l)) of Some i \<Rightarrow> i | None \<Rightarrow> 1) else acc) rc lines"

definition exec_output :: "string \<Rightarrow> string" where
  "exec_output out = join [newline] (filter (\<lambda>l. \<not> startswith l sentinel) (splitlines out))"

definition exec_pod :: "es_config \<Rightarrow> 's pod \<Rightarrow> command \<Rightarrow> nat \<Rightarrow> (int \<times> string \<times> string, 's run) stm" where
  "exec_pod cfg pod cmd timeout c =
     (let (raw, s) = pod (wrapped (command_text cfg cmd)) (rn_pod c);
          after = (\<lambda>rc t. \<lparr>rn_pod = s, rn_now = rn_now c + Suc t, rn_log = rn_log c @ [(cmd, rc)]\<rparr>)
      in case raw of
           ExecRaise m t \<Rightarrow> (Inl (OSError m), after None t)
         | ExecTimeout out err t \<Rightarrow>
             (Inr (124, out, err @ [newline] @ ''[reconciler] exec timed out after '' @ nat_str timeout @ ''s''),
              after (Some 124) t)
         | ExecDone out err code t \<Rightarrow>
             (let rc = (case sentinel_rc None (splitlines out) of
                          Some i \<Rightarrow> i
                        | None \<Rightarrow> (case code of Some i \<Rightarrow> i | None \<Rightarrow> 1))
              in (Inr (rc, exec_output out, err), after (Some rc) t)))"

section \<open>Reading the fleet\<close>

record device =
  dv_current :: json
  dv_deployed :: json
  dv_address :: json
  dv_platform :: json
  dv_name :: json

type_synonym fleet = "(string \<times> device) list"

definition die :: "int \<Rightarrow> exn" where
  "die rc = SystemExit rc"

definition fleet_row :: "dict \<Rightarrow> device" where
  "fleet_row e = \<lparr>dv_current = get e ''current_version'', dv_deployed = get e ''deployed_version'',
     dv_address = get e ''address'', dv_platform = get e ''target_platform'', dv_name = get e ''name''\<rparr>"

fun add_devices :: "fleet \<Rightarrow> json list \<Rightarrow> fleet res" where
  "add_devices devs [] = Inr devs"
| "add_devices devs (e # es) =
     rbind (as_dict e) (\<lambda>d.
       let fn = get d ''configuration'' in
       if \<not> truthy fn then add_devices devs es
       else (case fn of
           JStr s \<Rightarrow> add_devices (AList.update s (fleet_row d) devs) es
         | _ \<Rightarrow> Inl (TypeError ''configuration is not a string'')))"

definition fetch_devices :: "es_config \<Rightarrow> 's pod \<Rightarrow> (fleet, 's run) stm" where
  "fetch_devices cfg pod =
     mbind (exec_pod cfg pod Devices 30) (\<lambda>(rc, out, err).
       mlift (if rc \<noteq> 0 \<or> strip out = [] then Inl (die 2)
              else (case loads out of
                  None \<Rightarrow> Inl (die 2)
                | Some data \<Rightarrow>
                    rbind (field data ''configured'' (JList [])) (\<lambda>configured.
                    rbind (iterate configured) (add_devices [])))))"

fun words :: "string \<Rightarrow> string list" where
  \<comment> \<open>\<open>s.split()\<close>\<close>
  "words [] = []"
| "words (c # cs) =
     (if is_space c then words cs
      else (case words cs of
          [] \<Rightarrow> [[c]]
        | w # ws \<Rightarrow> (case cs of d # _ \<Rightarrow> if is_space d then [c] # w # ws else (c # w) # ws | [] \<Rightarrow> [[c]])))"

definition config_hash :: "es_config \<Rightarrow> 's pod \<Rightarrow> string \<Rightarrow> (string option, 's run) stm" where
  "config_hash cfg pod fn =
     mbind (exec_pod cfg pod (Hash fn) 30) (\<lambda>(rc, out, _).
       mlift (Inr (if rc \<noteq> 0 \<or> strip out = [] then None else Some (hd (words (strip out))))))"

definition load_state :: "es_config \<Rightarrow> 's pod \<Rightarrow> (json, 's run) stm" where
  "load_state cfg pod =
     mbind (exec_pod cfg pod ReadState 30) (\<lambda>(_, out, _).
       mlift (Inr (if strip out = [] then JObj []
                   else (case loads out of Some j \<Rightarrow> j | None \<Rightarrow> JObj []))))"

definition save_state :: "es_config \<Rightarrow> 's pod \<Rightarrow> json \<Rightarrow> (unit, 's run) stm" where
  "save_state cfg pod state = mbind (exec_pod cfg pod (WriteState state) 30) (\<lambda>_. mlift (Inr ()))"

definition is_reachable :: "es_config \<Rightarrow> 's pod \<Rightarrow> json \<Rightarrow> (bool, 's run) stm" where
  "is_reachable cfg pod address =
     (if \<not> truthy address then mlift (Inr False)
      else mbind (exec_pod cfg pod (Probe address) 10) (\<lambda>(rc, out, _).
        mlift (Inr (rc = 0 \<and> contains out ''UP''))))"

lemma exec_pod_now: "exec_pod cfg pod cmd t c = (r, c') \<Longrightarrow> rn_now c < rn_now c'"
  by (auto simp: exec_pod_def Let_def split: prod.splits exec_raw.splits)

function verify_loop :: "es_config \<Rightarrow> 's pod \<Rightarrow> json \<Rightarrow> nat \<Rightarrow> (bool, 's run) stm" where
  "verify_loop cfg pod address deadline c =
     (if rn_now c < deadline
      then (case exec_pod cfg pod (Probe address) 10 c of
          (Inl e, c') \<Rightarrow> (Inl e, c')
        | (Inr (rc, out, _), c') \<Rightarrow>
            if rc = 0 \<and> contains out ''UP'' then (Inr True, c')
            else verify_loop cfg pod address deadline (c'\<lparr>rn_now := rn_now c' + 1000 * verify_poll cfg\<rparr>))
      else (Inr False, c))"
  by pat_completeness auto
termination
  by (relation "measure (\<lambda>(cfg, pod, address, deadline, c). deadline - rn_now c)")
    (auto dest!: exec_pod_now [OF sym])

declare verify_loop.simps [simp del]

definition verify_online :: "es_config \<Rightarrow> 's pod \<Rightarrow> json \<Rightarrow> (bool, 's run) stm" where
  "verify_online cfg pod address c =
     verify_loop cfg pod address (rn_now c + 1000 * verify_timeout cfg) c"

section \<open>Classification\<close>

definition version_drift :: "device \<Rightarrow> bool" where
  "version_drift d \<longleftrightarrow> truthy (dv_deployed d) \<and> truthy (dv_current d) \<and> dv_deployed d \<noteq> dv_current d"

definition drift_reason :: "device \<Rightarrow> string" where
  "drift_reason d = ''core-version-drift '' @ py_str (dv_deployed d) @ ''->'' @ py_str (dv_current d)"

record classified =
  cl_candidates :: "(string \<times> string) list"
  cl_seeded :: "string list"
  cl_state :: json

definition classify_one :: "es_config \<Rightarrow> string \<Rightarrow> device \<Rightarrow> string \<Rightarrow> classified \<Rightarrow> classified res" where
  \<comment> \<open>the body of the loop for a device that is not excluded and whose hash is \<open>cur\<close>\<close>
  "classify_one cfg fn d cur k =
     rbind (as_dict (cl_state k)) (\<lambda>st.
       let prev = get st fn; cand = (\<lambda>why. k\<lparr>cl_candidates := cl_candidates k @ [(fn, why)]\<rparr>) in
       if ''ALL'' \<in> set (force cfg) \<or> fn \<in> set (force cfg) then Inr (cand ''forced'')
       else if prev = JNull then
         (if version_drift d then Inr (cand (drift_reason d))
          else Inr (k\<lparr>cl_seeded := cl_seeded k @ [fn],
                      cl_state := JObj (AList.update fn (JObj [(''hash'', JStr cur)]) st)\<rparr>))
       else rbind (as_dict prev) (\<lambda>p.
         if get p ''hash'' \<noteq> JStr cur then Inr (cand ''config-changed'')
         else if version_drift d then Inr (cand (drift_reason d))
         else Inr k))"

fun classify_loop :: "es_config \<Rightarrow> 's pod \<Rightarrow> fleet \<Rightarrow> classified \<Rightarrow> (classified, 's run) stm" where
  "classify_loop cfg pod [] k = mlift (Inr k)"
| "classify_loop cfg pod ((fn, d) # devs) k =
     (if fn \<in> set (exclude cfg) then classify_loop cfg pod devs k
      else mbind (config_hash cfg pod fn) (\<lambda>cur.
        case cur of
          None \<Rightarrow> classify_loop cfg pod devs k
        | Some h \<Rightarrow> mbind (mlift (classify_one cfg fn d h k)) (classify_loop cfg pod devs)))"

definition classify :: "es_config \<Rightarrow> 's pod \<Rightarrow> fleet \<Rightarrow> json \<Rightarrow> (classified, 's run) stm" where
  "classify cfg pod devs state =
     classify_loop cfg pod (sort_key fst devs) \<lparr>cl_candidates = [], cl_seeded = [], cl_state = state\<rparr>"

section \<open>One device\<close>

datatype status = Flashed | DryRunCompiled | SkippedOffline

record dev_result =
  dr_fn :: string
  dr_status :: status
  dr_reason :: string

definition tail8 :: "string \<Rightarrow> string \<Rightarrow> string" where
  \<comment> \<open>the last eight lines of \<open>out or err\<close>\<close>
  "tail8 out err = (let ls = splitlines (if out \<noteq> [] then out else err)
     in join [newline] (drop (length ls - 8) ls))"

definition set_hash :: "json \<Rightarrow> string \<Rightarrow> string \<Rightarrow> json res" where
  \<comment> \<open>\<open>state[fn] = {"hash": cur}\<close>\<close>
  "set_hash state fn cur =
     (case state of
        JObj st \<Rightarrow> Inr (JObj (AList.update fn (JObj [(''hash'', JStr cur)]) st))
      | j \<Rightarrow> Inl (TypeError (repr_str (type_name j) @ '' object does not support item assignment'')))"

definition record_hash :: "es_config \<Rightarrow> 's pod \<Rightarrow> string \<Rightarrow> json \<Rightarrow> (json, 's run) stm" where
  "record_hash cfg pod fn state =
     mbind (config_hash cfg pod fn) (\<lambda>cur.
       case cur of
         Some h \<Rightarrow>
           if h = [] then mlift (Inr state)
           else mbind (mlift (set_hash state fn h)) (\<lambda>st.
                mbind (save_state cfg pod st) (\<lambda>_. mlift (Inr st)))
       | None \<Rightarrow> mlift (Inr state))"

definition failed :: "string \<Rightarrow> int \<Rightarrow> string \<Rightarrow> string \<Rightarrow> string \<Rightarrow> exn" where
  "failed what rc fn out err =
     RuntimeError (what @ '' FAILED (rc='' @ int_str rc @ '') for '' @ fn @ '':'' @ [newline] @ tail8 out err)"

definition not_back :: "es_config \<Rightarrow> string \<Rightarrow> exn" where
  "not_back cfg fn =
     RuntimeError (fn @ '' did not come back on :'' @ api_port cfg @ '' within '' @ nat_str (verify_timeout cfg)
       @ ''s after OTA (possible boot-loop '' @ [em_dash] @ '' STOPPING run)'')"

definition verify_and_record :: "es_config \<Rightarrow> 's pod \<Rightarrow> string \<Rightarrow> json \<Rightarrow> json \<Rightarrow> (status \<times> json, 's run) stm" where
  "verify_and_record cfg pod fn addr state =
     mbind (verify_online cfg pod addr) (\<lambda>online.
       if \<not> online then mlift (Inl (not_back cfg fn))
       else mbind (record_hash cfg pod fn state) (\<lambda>st. mlift (Inr (Flashed, st))))"

definition ota :: "es_config \<Rightarrow> 's pod \<Rightarrow> string \<Rightarrow> json \<Rightarrow> json \<Rightarrow> (status \<times> json, 's run) stm" where
  "ota cfg pod fn addr state =
     mbind (exec_pod cfg pod (Upload fn addr) (upload_timeout cfg)) (\<lambda>(rc, out, err).
       if rc \<noteq> 0 then mlift (Inl (failed ''OTA'' rc fn out err))
       else verify_and_record cfg pod fn addr state)"

definition flash_one :: "es_config \<Rightarrow> 's pod \<Rightarrow> string \<Rightarrow> json \<Rightarrow> json \<Rightarrow> (status \<times> json, 's run) stm" where
  \<comment> \<open>the status and the state; a failed step is a \<open>RuntimeError\<close>\<close>
  "flash_one cfg pod fn addr state =
     mbind (exec_pod cfg pod (Compile fn) (compile_timeout cfg)) (\<lambda>(rc, out, err).
       if rc \<noteq> 0 then mlift (Inl (failed ''compile'' rc fn out err))
       else if dry_run cfg then mlift (Inr (DryRunCompiled, state))
       else ota cfg pod fn addr state)"

section \<open>The batch\<close>

record batch_result =
  br_results :: "dev_result list"
  br_failure :: "(string \<times> string) option"

definition dev_address :: "fleet \<Rightarrow> string \<Rightarrow> json" where
  "dev_address devs fn = (case map_of devs fn of None \<Rightarrow> JNull | Some d \<Rightarrow> dv_address d)"

fun flash_batch :: "es_config \<Rightarrow> 's pod \<Rightarrow> fleet \<Rightarrow> (string \<times> string) list \<Rightarrow> json \<Rightarrow> dev_result list
    \<Rightarrow> (batch_result, 's run) stm" where
  "flash_batch cfg pod devs [] state rs = mlift (Inr \<lparr>br_results = rs, br_failure = None\<rparr>)"
| "flash_batch cfg pod devs ((fn, reason) # batch) state rs =
     mbind (is_reachable cfg pod (dev_address devs fn)) (\<lambda>up.
       if \<not> up
       then flash_batch cfg pod devs batch state
              (rs @ [\<lparr>dr_fn = fn, dr_status = SkippedOffline, dr_reason = reason\<rparr>])
       else (\<lambda>c.
         case flash_one cfg pod fn (dev_address devs fn) state c of
           (Inr (s, st), c') \<Rightarrow>
             flash_batch cfg pod devs batch st (rs @ [\<lparr>dr_fn = fn, dr_status = s, dr_reason = reason\<rparr>]) c'
         | (Inl (RuntimeError m), c') \<Rightarrow> (Inr \<lparr>br_results = rs, br_failure = Some (fn, m)\<rparr>, c')
         | (Inl e, c') \<Rightarrow> (Inl e, c')))"

section \<open>Report and main\<close>

definition with_status :: "status \<Rightarrow> dev_result list \<Rightarrow> dev_result list" where
  "with_status s rs = filter (\<lambda>r. dr_status r = s) rs"

definition item :: "string \<Rightarrow> string \<Rightarrow> string" where
  "item fn reason = ''- '' @ [CHR 0x60] @ fn @ [CHR 0x60] @ '' '' @ [em_dash] @ '' '' @ reason"

definition result_items :: "status \<Rightarrow> dev_result list \<Rightarrow> string list" where
  "result_items s rs = map (\<lambda>r. item (dr_fn r) (dr_reason r)) (with_status s rs)"

definition report :: "es_config \<Rightarrow> string \<Rightarrow> batch_result \<Rightarrow> (string \<times> string) list \<Rightarrow> mail" where
  "report cfg day b deferred =
     (let rs = br_results b; flashed = with_status Flashed rs; compiled = with_status DryRunCompiled rs;
          skipped = with_status SkippedOffline rs; mode = (if dry_run cfg then ''DRY-RUN'' else ''LIVE'');
          fence = replicate 3 (CHR 0x60);
          lines =
            [''**ESPHome reconciler** '' @ [em_dash] @ '' '' @ day @ '' ('' @ mode @ '')'', []]
            @ (if flashed \<noteq> [] then ''**Flashed & verified online:**'' # result_items Flashed rs else [])
            @ (if compiled \<noteq> [] then ''**Dry-run compiled OK (not flashed):**'' # result_items DryRunCompiled rs else [])
            @ (if skipped \<noteq> [] then [] # (''**Skipped (offline '' @ [em_dash] @ '' deferred to a future run):**'')
                 # result_items SkippedOffline rs else [])
            @ (case br_failure b of
                 None \<Rightarrow> []
               | Some (fn, m) \<Rightarrow> [[], ''**FAILED (run stopped):**'', ''- '' @ [CHR 0x60] @ fn @ [CHR 0x60],
                   fence, take 600 m, fence])
            @ (if deferred \<noteq> [] then [] # (''**Deferred to next run (per-run cap '' @ int_str (max_per_run cfg) @ ''):**'')
                 # map (\<lambda>(f, r). item f r) deferred else []);
          subject = ''esphome-reconciler: '' @ nat_str (length flashed) @ '' flashed''
            @ (if compiled \<noteq> [] then '', '' @ nat_str (length compiled) @ '' compiled'' else [])
            @ (if skipped \<noteq> [] then '', '' @ nat_str (length skipped) @ '' offline'' else [])
            @ (if br_failure b \<noteq> None then '', 1 FAILED'' else [])
      in \<lparr>ml_subject = subject, ml_body = join [newline] lines, ml_agent = es_agent cfg\<rparr>)"

definition send_report :: "es_config \<Rightarrow> batch_result \<Rightarrow> bool" where
  "send_report cfg b \<longleftrightarrow> with_status Flashed (br_results b) \<noteq> [] \<or> br_failure b \<noteq> None
     \<or> dry_run cfg \<and> with_status DryRunCompiled (br_results b) \<noteq> []"

record es_outcome =
  eo_exit :: int
  eo_mail :: "mail option"

definition save_seeds :: "es_config \<Rightarrow> 's pod \<Rightarrow> classified \<Rightarrow> (unit, 's run) stm" where
  "save_seeds cfg pod k =
     (if cl_seeded k \<noteq> [] \<and> \<not> dry_run cfg then save_state cfg pod (cl_state k) else mlift (Inr ()))"

definition es_main :: "es_config \<Rightarrow> unit res \<Rightarrow> 's pod \<Rightarrow> string \<Rightarrow> (es_outcome, 's run) stm" where
  \<comment> \<open>the second argument is what the Kubernetes client's initialisation does; a mail that cannot
    be delivered does not change the outcome\<close>
  "es_main cfg init pod day =
     (case init of
        Inl _ \<Rightarrow> mlift (Inl (die 2))
      | Inr _ \<Rightarrow>
          mbind (fetch_devices cfg pod) (\<lambda>devs.
          mbind (load_state cfg pod) (\<lambda>state.
          mbind (classify cfg pod devs state) (\<lambda>k.
          mbind (save_seeds cfg pod k) (\<lambda>_.
          if cl_candidates k = [] then mlift (Inr \<lparr>eo_exit = 0, eo_mail = None\<rparr>)
          else
            mbind (flash_batch cfg pod devs (slice_to (max_per_run cfg) (cl_candidates k)) (cl_state k) []) (\<lambda>b.
              mlift (Inr \<lparr>eo_exit = 0, eo_mail =
                (if send_report cfg b
                 then Some (report cfg day b (slice_from (max_per_run cfg) (cl_candidates k)))
                 else None)\<rparr>)))))))"

section \<open>What runs in the pod\<close>

abbreviation runs :: "((command \<times> int option) list \<Rightarrow> bool) \<Rightarrow> ('a, 's run) stm \<Rightarrow> bool" where
  "runs \<equiv> traces rn_log"

definition only :: "command set \<Rightarrow> (command \<times> int option) list \<Rightarrow> bool" where
  "only C n \<longleftrightarrow> fst ` set n \<subseteq> C"

lemma only_simps [simp]: "only C []" "only C (e # n) \<longleftrightarrow> fst e \<in> C \<and> only C n" "only C (m @ n) \<longleftrightarrow> only C m \<and> only C n"
  by (auto simp: only_def)

lemma only_mono: "only C n \<Longrightarrow> C \<subseteq> D \<Longrightarrow> only D n"
  by (auto simp: only_def)

lemma exec_pod_log:
  assumes "exec_pod cfg pod cmd t c = (r, c')"
  shows "rn_log c' = rn_log c @ [(cmd, case r of Inl _ \<Rightarrow> None | Inr (rc, _) \<Rightarrow> Some rc)]"
  using assms by (auto simp: exec_pod_def Let_def split: prod.splits exec_raw.splits)

lemma does_exec:
  "does rn_log (\<lambda>r n. n = [(cmd, case r of Inl _ \<Rightarrow> None | Inr (rc, _) \<Rightarrow> Some rc)]) (exec_pod cfg pod cmd t)"
  unfolding does_def by (metis exec_pod_log prod.collapse)

lemma runs_exec: "runs (\<lambda>n. \<exists>rc. n = [(cmd, rc)]) (exec_pod cfg pod cmd t)"
  unfolding traces_def by (metis exec_pod_log prod.collapse)

lemma runs_only_bind:
  assumes "runs (only C) m" "\<And>a. runs (only C) (f a)"
  shows "runs (only C) (mbind m f)"
  by (rule traces_bind [OF assms(1) assms(2)]) auto

lemma runs_exec_bind:
  assumes "\<And>rc. P [(cmd, rc)]" "\<And>a. runs (\<lambda>n. n = []) (f a)"
  shows "runs P (mbind (exec_pod cfg pod cmd t) f)"
  by (rule traces_bind [OF runs_exec assms(2)]) (auto simp: assms(1))

lemma runs_config_hash: "runs (only {Hash fn}) (config_hash cfg pod fn)"
  unfolding config_hash_def by (rule runs_exec_bind) (auto intro: traces_lift split: prod.split)

lemma runs_save_state: "runs (only (range WriteState)) (save_state cfg pod st)"
  unfolding save_state_def by (rule runs_exec_bind) (auto intro: traces_lift)

lemma runs_is_reachable: "runs (only {Probe a}) (is_reachable cfg pod a)"
  unfolding is_reachable_def by (auto intro!: runs_exec_bind traces_lift split: prod.split)

lemma verify_loop_cases:
  assumes "rn_now c < deadline" "exec_pod cfg pod (Probe a) 10 c = (r, c')"
  obtains (raise) e where "r = Inl e" "verify_loop cfg pod a deadline c = (Inl e, c')"
  | (up) out err where "r = Inr (0, out, err)" "verify_loop cfg pod a deadline c = (Inr True, c')"
  | (down) rc out err where "r = Inr (rc, out, err)" "\<not> (rc = 0 \<and> contains out ''UP'')"
      "verify_loop cfg pod a deadline c =
        verify_loop cfg pod a deadline (c'\<lparr>rn_now := rn_now c' + 1000 * verify_poll cfg\<rparr>)"
proof (cases r)
  case (Inl e)
  with assms raise show thesis by (simp add: verify_loop.simps)
next
  case (Inr p)
  obtain rc out err where p: "p = (rc, out, err)" by (cases p) auto
  show thesis
  proof (cases "rc = 0 \<and> contains out ''UP''")
    case True
    with assms Inr p up show thesis by (simp add: verify_loop.simps)
  next
    case False
    moreover from False assms Inr p have "verify_loop cfg pod a deadline c =
        verify_loop cfg pod a deadline (c'\<lparr>rn_now := rn_now c' + 1000 * verify_poll cfg\<rparr>)"
      by (subst verify_loop.simps) auto
    ultimately show thesis using Inr p down by blast
  qed
qed

text \<open>A property of the outcome and the new commands of the polling loop, by one probe at a time.\<close>

lemma verify_loop_log:
  assumes "Q (Inr False) []" "\<And>e. Q (Inl e) [(Probe a, None)]" "Q (Inr True) [(Probe a, Some 0)]"
    "\<And>rc r n. Q r n \<Longrightarrow> Q r ((Probe a, Some rc) # n)"
  shows "\<exists>new. rn_log (snd (verify_loop cfg pod a deadline c)) = rn_log c @ new
    \<and> Q (fst (verify_loop cfg pod a deadline c)) new"
  using assms
proof (induction cfg pod a deadline c rule: verify_loop.induct)
  case (1 cfg pod a deadline c)
  show ?case
  proof (cases "rn_now c < deadline")
    case True
    obtain r c' where ex: "exec_pod cfg pod (Probe a) 10 c = (r, c')" by fastforce
    note log = exec_pod_log [OF ex]
    from True ex show ?thesis
    proof (cases rule: verify_loop_cases)
      case (raise e)
      with log "1.prems"(2) show ?thesis by simp
    next
      case (up out err)
      with log "1.prems"(3) show ?thesis by simp
    next
      case (down rc out err)
      from "1.IH" [OF True ex [symmetric] down(1) refl refl down(2) "1.prems"] log down "1.prems"(4)
      show ?thesis by auto
    qed
  next
    case False
    with "1.prems"(1) show ?thesis by (simp add: verify_loop.simps)
  qed
qed

lemma runs_verify_online: "runs (only {Probe a}) (verify_online cfg pod a)"
  unfolding traces_def verify_online_def by (intro allI verify_loop_log) auto

lemma runs_record_hash: "runs (only (insert (Hash fn) (range WriteState))) (record_hash cfg pod fn st)"
  unfolding record_hash_def
  by (rule runs_only_bind)
    (auto intro!: traces_lift traces_bind_lift runs_only_bind traces_mono [OF runs_config_hash]
      traces_mono [OF runs_save_state] elim: only_mono split: option.split)

text \<open>
  The commands for one device that answers: a compile; then, only if it succeeded and the run is
  live, an upload, followed by nothing but probes of that device and the record of its hash.
\<close>

definition flash_commands :: "es_config \<Rightarrow> string \<Rightarrow> json \<Rightarrow> (command \<times> int option) list \<Rightarrow> bool" where
  "flash_commands cfg fn a n \<longleftrightarrow>
     (\<exists>rc. n = [(Compile fn, rc)])
     \<or> \<not> dry_run cfg \<and> (\<exists>urc tl. n = [(Compile fn, Some 0), (Upload fn a, urc)] @ tl
         \<and> only (insert (Probe a) (insert (Hash fn) (range WriteState))) tl)"

lemma runs_verify_and_record:
  "runs (only (insert (Probe a) (insert (Hash fn) (range WriteState)))) (verify_and_record cfg pod fn a state)"
  unfolding verify_and_record_def
  by (rule runs_only_bind)
    (auto intro!: traces_lift runs_only_bind traces_mono [OF runs_verify_online] traces_mono [OF runs_record_hash]
      elim: only_mono)

lemma does_ota:
  "does rn_log (\<lambda>_ n. \<exists>urc tl. n = (Upload fn a, urc) # tl
      \<and> only (insert (Probe a) (insert (Hash fn) (range WriteState))) tl) (ota cfg pod fn a state)"
  unfolding ota_def
  by (rule does_bind [OF does_exec])
    (auto intro!: does_lift does_traces [OF runs_verify_and_record] split: prod.split)

lemma does_flash_one: "does rn_log (\<lambda>_. flash_commands cfg fn a) (flash_one cfg pod fn a state)"
  unfolding flash_one_def
  by (rule does_bind [OF does_exec])
    (auto intro!: does_lift does_mono [OF does_ota] simp: flash_commands_def split: prod.split)

section \<open>The update protocol\<close>

text \<open>
  The order of commands a safe run keeps to, as an automaton over the log. A device may be uploaded
  to only directly after its own green compile; after an upload only that device is probed, until it
  answers; a failed compile or upload, or a command that raised, ends the run.
\<close>

datatype phase = Ready | Built string | Flashing json | Halted

fun allowed :: "phase \<Rightarrow> command \<Rightarrow> bool" where
  "allowed Halted cmd \<longleftrightarrow> False"
| "allowed (Flashing a) cmd \<longleftrightarrow> cmd = Probe a"
| "allowed (Built fn) (Upload f a) \<longleftrightarrow> f = fn"
| "allowed Ready (Upload f a) \<longleftrightarrow> False"
| "allowed p cmd \<longleftrightarrow> True"

definition advance :: "phase \<Rightarrow> command \<Rightarrow> int option \<Rightarrow> phase" where
  "advance p cmd rc =
     (if rc = None then Halted
      else (case cmd of
          Compile fn \<Rightarrow> if rc = Some 0 then Built fn else Halted
        | Upload fn a \<Rightarrow> if rc = Some 0 then Flashing a else Halted
        | Probe a \<Rightarrow> if p = Flashing a \<and> rc \<noteq> Some 0 then p else Ready
        | _ \<Rightarrow> Ready))"

fun protocol :: "phase \<Rightarrow> (command \<times> int option) list \<Rightarrow> phase option" where
  "protocol p [] = Some p"
| "protocol p ((cmd, rc) # n) = (if allowed p cmd then protocol (advance p cmd rc) n else None)"

lemma protocol_append:
  "protocol p (m @ n) = (case protocol p m of None \<Rightarrow> None | Some q \<Rightarrow> protocol q n)"
  by (induction p m rule: protocol.induct) auto

definition idle :: "phase \<Rightarrow> bool" where
  "idle p \<longleftrightarrow> p = Ready \<or> (\<exists>fn. p = Built fn)"

definition keeps :: "'a res \<Rightarrow> (command \<times> int option) list \<Rightarrow> bool" where
  \<comment> \<open>the events follow the protocol from any idle phase, and a normal return is idle again\<close>
  "keeps r n \<longleftrightarrow> (\<forall>p. idle p \<longrightarrow> (\<exists>q. protocol p n = Some q \<and> (\<forall>a. r = Inr a \<longrightarrow> idle q)))"

definition plain :: "command \<Rightarrow> bool" where
  "plain cmd \<longleftrightarrow> (case cmd of Compile _ \<Rightarrow> False | Upload _ _ \<Rightarrow> False | _ \<Rightarrow> True)"

lemma idle_simps [simp]: "idle Ready" "idle (Built fn)" "\<not> idle (Flashing a)" "\<not> idle Halted"
  by (auto simp: idle_def)

lemma keeps_Nil [simp]: "keeps r []"
  by (auto simp: keeps_def)

lemma keepsI:
  assumes "\<And>p. idle p \<Longrightarrow> \<exists>q. protocol p n = Some q \<and> (\<forall>a. r = Inr a \<longrightarrow> idle q)"
  shows "keeps r n"
  using assms by (simp add: keeps_def)

lemma keeps_append:
  assumes "keeps (Inr a) x" "keeps r y"
  shows "keeps r (x @ y)"
  using assms unfolding keeps_def by (fastforce simp: protocol_append)

lemma keeps_error: "keeps (Inl e) x \<Longrightarrow> keeps (Inl e') x"
  by (simp add: keeps_def)

lemma keeps_bind:
  assumes "does rn_log keeps m" "\<And>a. does rn_log keeps (f a)"
  shows "does rn_log keeps (mbind m f)"
  by (rule does_bind [OF assms(1)])
    (auto intro!: does_mono [OF assms(2)] intro: keeps_append keeps_error)

lemma keeps_exec: "plain cmd \<Longrightarrow> does rn_log keeps (exec_pod cfg pod cmd t)"
  by (rule does_mono [OF does_exec], rule keepsI, unfold idle_def)
    (auto simp: plain_def advance_def split: command.splits sum.splits)

lemma keeps_config_hash: "does rn_log keeps (config_hash cfg pod fn)"
  unfolding config_hash_def
  by (rule keeps_bind [OF keeps_exec]) (auto simp: plain_def intro: does_lift split: prod.split)

lemma keeps_save_state: "does rn_log keeps (save_state cfg pod st)"
  unfolding save_state_def by (rule keeps_bind [OF keeps_exec]) (auto simp: plain_def intro: does_lift)

lemma keeps_is_reachable: "does rn_log keeps (is_reachable cfg pod a)"
  unfolding is_reachable_def
  by (auto simp: plain_def intro!: does_lift keeps_bind [OF keeps_exec] split: prod.split)

lemma keeps_record_hash: "does rn_log keeps (record_hash cfg pod fn st)"
  unfolding record_hash_def
  by (rule keeps_bind [OF keeps_config_hash])
    (auto intro!: does_lift does_bind_lift keeps_bind keeps_save_state split: option.split)

lemma keeps_fetch_devices: "does rn_log keeps (fetch_devices cfg pod)"
  unfolding fetch_devices_def
  by (rule keeps_bind [OF keeps_exec]) (auto simp: plain_def intro!: does_lift split: prod.split)

lemma keeps_load_state: "does rn_log keeps (load_state cfg pod)"
  unfolding load_state_def
  by (rule keeps_bind [OF keeps_exec]) (auto simp: plain_def intro!: does_lift split: prod.split)

lemma keeps_classify_loop: "does rn_log keeps (classify_loop cfg pod devs k)"
proof (induction devs arbitrary: k)
  case (Cons d devs)
  obtain fn dev where d: "d = (fn, dev)" by fastforce
  show ?case
    by (auto simp: d intro!: Cons keeps_bind [OF keeps_config_hash] does_bind_lift split: option.split)
qed (simp add: does_lift)

lemma keeps_save_seeds: "does rn_log keeps (save_seeds cfg pod k)"
  by (auto simp: save_seeds_def intro: keeps_save_state does_lift)

lemmas keeps_steps = keeps_fetch_devices keeps_load_state keeps_classify_loop keeps_save_seeds
  keeps_is_reachable keeps_record_hash

lemma does_verify_online:
  "does rn_log (\<lambda>r n. \<forall>p. p = Flashing a \<or> p = Ready \<longrightarrow>
      (\<exists>q. protocol p n = Some q \<and> (r = Inr True \<longrightarrow> q = Ready))) (verify_online cfg pod a)"
  unfolding does_def verify_online_def
  by (intro allI verify_loop_log) (auto simp: advance_def)

definition opened :: "phase \<Rightarrow> 'a res \<Rightarrow> (command \<times> int option) list \<Rightarrow> bool" where
  \<comment> \<open>like \<open>keeps\<close>, from one given phase\<close>
  "opened p r n \<longleftrightarrow> (\<exists>q. protocol p n = Some q \<and> (\<forall>a. r = Inr a \<longrightarrow> idle q))"

lemma opened_verified: "does rn_log (opened (Flashing a)) (verify_and_record cfg pod fn a state)"
  unfolding verify_and_record_def
proof (rule does_bind [OF does_verify_online])
  fix online x
  assume x: "\<forall>p. p = Flashing a \<or> p = Ready \<longrightarrow>
      (\<exists>q. protocol p x = Some q \<and> (Inr online = (Inr True :: bool res) \<longrightarrow> q = Ready))"
  have "does rn_log keeps (mbind (record_hash cfg pod fn state) (\<lambda>st. mlift (Inr (Flashed, st))))"
    by (rule keeps_bind [OF keeps_record_hash]) (simp add: does_lift)
  with x show "does rn_log (\<lambda>r y. opened (Flashing a) r (x @ y)) (if \<not> online then mlift (Inl (not_back cfg fn))
         else mbind (record_hash cfg pod fn state) (\<lambda>st. mlift (Inr (Flashed, st))))"
    by (cases online)
      (auto simp: opened_def keeps_def protocol_append intro!: does_lift elim: does_mono)
qed (auto simp: opened_def)

lemma opened_ota: "does rn_log (opened (Built fn)) (ota cfg pod fn a state)"
  unfolding ota_def
  by (rule does_bind [OF does_exec])
    (auto simp: opened_def advance_def intro!: does_lift does_mono [OF opened_verified] split: prod.split)

lemma keeps_flash_one: "does rn_log keeps (flash_one cfg pod fn a state)"
  unfolding flash_one_def
  by (rule does_bind [OF does_exec])
    (auto intro!: does_lift does_mono [OF opened_ota] keepsI simp: opened_def idle_def advance_def split: prod.split)

definition accepted :: "'a res \<Rightarrow> (command \<times> int option) list \<Rightarrow> bool" where
  "accepted r n \<longleftrightarrow> (\<forall>p. idle p \<longrightarrow> protocol p n \<noteq> None)"

lemma accepted_append: "keeps (Inr a) x \<Longrightarrow> accepted r y \<Longrightarrow> accepted r (x @ y)"
  by (fastforce simp: accepted_def keeps_def protocol_append)

lemma accepted_keeps: "keeps r x \<Longrightarrow> accepted r' x"
  by (fastforce simp: accepted_def keeps_def)

lemma accepted_bind:
  assumes "does rn_log keeps m" "\<And>a. does rn_log accepted (f a)"
  shows "does rn_log accepted (mbind m f)"
  by (rule does_bind [OF assms(1)])
    (auto intro!: does_mono [OF assms(2)] intro: accepted_append accepted_keeps)

lemma flash_batch_run:
  "flash_batch cfg pod devs ((fn, reason) # batch) state rs =
     mbind (is_reachable cfg pod (dev_address devs fn)) (\<lambda>up.
       if \<not> up
       then flash_batch cfg pod devs batch state
              (rs @ [\<lparr>dr_fn = fn, dr_status = SkippedOffline, dr_reason = reason\<rparr>])
       else (\<lambda>c.
         case flash_one cfg pod fn (dev_address devs fn) state c of
           (Inr (s, st), c') \<Rightarrow>
             flash_batch cfg pod devs batch st (rs @ [\<lparr>dr_fn = fn, dr_status = s, dr_reason = reason\<rparr>]) c'
         | (Inl e, c') \<Rightarrow>
             ((case e of RuntimeError m \<Rightarrow> Inr \<lparr>br_results = rs, br_failure = Some (fn, m)\<rparr> | _ \<Rightarrow> Inl e), c')))"
  by (simp only: flash_batch.simps, rule arg_cong [where f = "mbind _"])
    (auto simp: fun_eq_iff split: sum.split prod.split exn.split)

lemma accepted_flash_batch: "does rn_log accepted (flash_batch cfg pod devs batch state rs)"
proof (induction batch arbitrary: state rs)
  case (Cons b batch)
  obtain fn reason where b: "b = (fn, reason)" by fastforce
  show ?case
    unfolding b flash_batch_run
    by (rule accepted_bind [OF keeps_is_reachable])
      (auto intro!: Cons does_recover [OF keeps_flash_one] does_mono [OF Cons] intro: accepted_keeps accepted_append
        split: prod.split)
qed (simp add: does_lift accepted_def)



text \<open>
  What a batch runs, device by device: a probe, and for a device that answered the commands of
  \<open>flash_commands\<close>.
\<close>

definition segment :: "es_config \<Rightarrow> fleet \<Rightarrow> string \<Rightarrow> (command \<times> int option) list \<Rightarrow> bool" where
  "segment cfg devs fn n \<longleftrightarrow> (\<exists>m k. n = m @ k \<and> only {Probe (dev_address devs fn)} m
     \<and> (k = [] \<or> flash_commands cfg fn (dev_address devs fn) k))"

definition segments :: "es_config \<Rightarrow> fleet \<Rightarrow> string list \<Rightarrow> (command \<times> int option) list \<Rightarrow> bool" where
  "segments cfg devs fns n \<longleftrightarrow>
     (\<exists>ns. n = concat ns \<and> length ns \<le> length fns \<and> list_all2 (segment cfg devs) (take (length ns) fns) ns)"

lemma segments_Nil [simp]: "segments cfg devs fns []"
  by (auto simp: segments_def intro!: exI [of _ "[]"])

lemma segments_Cons: "segment cfg devs fn m \<Longrightarrow> segments cfg devs fns n \<Longrightarrow> segments cfg devs (fn # fns) (m @ n)"
proof -
  assume m: "segment cfg devs fn m" and "segments cfg devs fns n"
  then obtain ns where "n = concat ns" "length ns \<le> length fns" "list_all2 (segment cfg devs) (take (length ns) fns) ns"
    by (auto simp: segments_def)
  with m show ?thesis unfolding segments_def by (intro exI [of _ "m # ns"]) auto
qed

lemma segment_probe: "only {Probe (dev_address devs fn)} m \<Longrightarrow> segment cfg devs fn m"
  by (auto simp: segment_def)

lemma segment_flash:
  "only {Probe (dev_address devs fn)} m \<Longrightarrow> flash_commands cfg fn (dev_address devs fn) k \<Longrightarrow> segment cfg devs fn (m @ k)"
  by (auto simp: segment_def)

lemma segments_one: "segment cfg devs fn m \<Longrightarrow> segments cfg devs (fn # fns) m"
  using segments_Cons [of cfg devs fn m fns "[]"] by simp

lemma segments_flash:
  assumes "only {Probe (dev_address devs fn)} m" "flash_commands cfg fn (dev_address devs fn) k" "segments cfg devs fns n"
  shows "segments cfg devs (fn # fns) ((m @ k) @ n)"
  by (rule segments_Cons [OF segment_flash [OF assms(1,2)] assms(3)])

lemmas segments_intros = segments_one segments_Cons segment_probe segment_flash segments_flash

lemma does_flash_batch:
  "does rn_log (\<lambda>_. segments cfg devs (map fst batch)) (flash_batch cfg pod devs batch state rs)"
proof (induction batch arbitrary: state rs)
  case (Cons b batch)
  obtain fn reason where b: "b = (fn, reason)" by fastforce
  show ?case
    unfolding b flash_batch_run
    by (rule does_bind [OF does_traces [OF runs_is_reachable, where Q = "\<lambda>_. only {Probe (dev_address devs fn)}"]])
      (auto intro!: does_recover [OF does_flash_one] does_mono [OF Cons] intro: segments_intros
          simp flip: append_assoc split: prod.split)
qed (simp add: does_lift)

definition writes :: "command \<Rightarrow> bool" where
  "writes cmd \<longleftrightarrow> (case cmd of Upload _ _ \<Rightarrow> True | WriteState _ \<Rightarrow> True | _ \<Rightarrow> False)"

definition handles :: "string \<Rightarrow> command \<Rightarrow> bool" where
  "handles fn cmd \<longleftrightarrow> (case cmd of Compile f \<Rightarrow> f = fn | Upload f _ \<Rightarrow> f = fn | Hash f \<Rightarrow> f = fn | _ \<Rightarrow> False)"

definition uploads :: "(command \<times> int option) list \<Rightarrow> nat" where
  "uploads n = length (filter (\<lambda>(cmd, _). case cmd of Upload _ _ \<Rightarrow> True | _ \<Rightarrow> False) n)"

lemma uploads_simps [simp]: "uploads [] = 0" "uploads (m @ n) = uploads m + uploads n"
  "uploads ((cmd, rc) # n) = (case cmd of Upload _ _ \<Rightarrow> 1 | _ \<Rightarrow> 0) + uploads n"
  by (auto simp: uploads_def split: command.split)

lemma uploads_only: "only C n \<Longrightarrow> (\<And>f a. Upload f a \<notin> C) \<Longrightarrow> uploads n = 0"
  by (induction n) (auto split: command.split)

lemma uploads_after [simp]: "only (insert (Probe a) (insert (Hash fn) (range WriteState))) n \<Longrightarrow> uploads n = 0"
  by (rule uploads_only) auto

lemma segment_uploads: "segment cfg devs fn n \<Longrightarrow> uploads n \<le> 1"
  by (auto simp: segment_def flash_commands_def uploads_only)

lemma segments_uploads: "segments cfg devs fns n \<Longrightarrow> uploads n \<le> length fns"
proof -
  have "list_all2 (segment cfg devs) fs ns \<Longrightarrow> uploads (concat ns) \<le> length ns" for fs ns
    by (induction rule: list_all2_induct) (use segment_uploads in force)+
  then show "segments cfg devs fns n \<Longrightarrow> ?thesis" by (force simp: segments_def)
qed

lemma segments_each:
  assumes "segments cfg devs fns n" "(cmd, rc) \<in> set n"
  obtains fn m where "fn \<in> set fns" "segment cfg devs fn m" "(cmd, rc) \<in> set m"
proof -
  from assms obtain ns where ns: "(cmd, rc) \<in> set (concat ns)" "list_all2 (segment cfg devs) (take (length ns) fns) ns"
    by (auto simp: segments_def)
  then obtain m where "m \<in> set ns" "(cmd, rc) \<in> set m" by auto
  then obtain i where i: "i < length ns" "(cmd, rc) \<in> set (ns ! i)" by (metis in_set_conv_nth)
  with ns(2) have "segment cfg devs (take (length ns) fns ! i) (ns ! i)" "i < length (take (length ns) fns)"
    by (auto simp: list_all2_conv_all_nth)
  with i that show thesis by (meson in_set_takeD nth_mem)
qed

lemma segment_dry: "segment cfg devs fn n \<Longrightarrow> dry_run cfg \<Longrightarrow> (cmd, rc) \<in> set n \<Longrightarrow> \<not> writes cmd"
  by (fastforce simp: segment_def flash_commands_def only_def writes_def split: command.splits)

lemma segment_handles: "segment cfg devs fn n \<Longrightarrow> (cmd, rc) \<in> set n \<Longrightarrow> handles f cmd \<Longrightarrow> f = fn"
  by (fastforce simp: segment_def flash_commands_def only_def handles_def split: command.splits)

section \<open>A whole run\<close>

definition names :: "classified \<Rightarrow> string set" where
  "names k = fst ` set (cl_candidates k)"

lemma classify_one_names: "classify_one cfg fn d h k = Inr k' \<Longrightarrow> names k' \<subseteq> insert fn (names k)"
  by (auto simp: names_def classify_one_def Let_def rbind_Inr_iff split: if_splits)

definition picks :: "string set \<Rightarrow> string set \<Rightarrow> classified res \<Rightarrow> (command \<times> int option) list \<Rightarrow> bool" where
  "picks A B r n \<longleftrightarrow> only (Hash ` A) n \<and> (\<forall>k. r = Inr k \<longrightarrow> names k \<subseteq> B \<union> A)"

lemma picks_mono: "picks A B r n \<Longrightarrow> A \<subseteq> A' \<Longrightarrow> B \<subseteq> B' \<union> A' \<Longrightarrow> picks A' B' r n"
  unfolding picks_def by (auto elim!: only_mono)

lemma picks_hash: "only {Hash fn} x \<Longrightarrow> picks A B r n \<Longrightarrow> fn \<in> A \<Longrightarrow> picks A B r (x @ n)"
  unfolding picks_def by (auto elim!: only_mono)

lemma picks_classify_loop:
  "does rn_log (picks (fst ` set devs - set (exclude cfg)) (names k)) (classify_loop cfg pod devs k)"
proof (induction devs arbitrary: k)
  case (Cons d devs)
  obtain fn dev where d: "d = (fn, dev)" by fastforce
  define A where "A = fst ` set (d # devs) - set (exclude cfg)"
  have later: "does rn_log (\<lambda>r n. picks A (names k) r (x @ n)) (classify_loop cfg pod devs k')"
    if "names k' \<subseteq> insert fn (names k)" "fn \<notin> set (exclude cfg)" "only {Hash fn} x" for k' x
    by (rule does_mono [OF Cons], rule picks_hash [OF that(3)])
      (use that in \<open>auto elim!: picks_mono simp: d A_def\<close>)
  have err: "picks A (names k) (Inl e) x" if "fn \<notin> set (exclude cfg)" "only {Hash fn} x" for x e
    using that unfolding picks_def by (auto elim!: only_mono simp: d A_def)
  have "does rn_log (picks A (names k)) (classify_loop cfg pod (d # devs) k)"
  proof (cases "fn \<in> set (exclude cfg)")
    case True
    then show ?thesis by (auto simp: d A_def elim!: picks_mono intro!: does_mono [OF Cons])
  next
    case False
    have step: "does rn_log (\<lambda>r n. picks A (names k) r (x @ n))
        (case cur of None \<Rightarrow> classify_loop cfg pod devs k
         | Some h \<Rightarrow> mbind (mlift (classify_one cfg fn dev h k)) (classify_loop cfg pod devs))"
      if "only {Hash fn} x" for x cur
      using that False
      by (cases cur) (auto intro!: does_bind_lift later err dest: classify_one_names)
    have "does rn_log (\<lambda>_. only {Hash fn}) (config_hash cfg pod fn)"
      by (rule does_traces [OF runs_config_hash])
    then have "does rn_log (picks A (names k)) (mbind (config_hash cfg pod fn) (\<lambda>cur. case cur of None \<Rightarrow> classify_loop cfg pod devs k
         | Some h \<Rightarrow> mbind (mlift (classify_one cfg fn dev h k)) (classify_loop cfg pod devs)))"
      by (rule does_bind) (use step err False in auto)
    with False show ?thesis by (simp add: d)
  qed
  then show ?case by (simp add: A_def)
qed (simp add: does_lift picks_def)

lemma picks_classify:
  "does rn_log (picks (fst ` set devs - set (exclude cfg)) {}) (classify cfg pod devs state)"
  using picks_classify_loop [of "sort_key fst devs" cfg "\<lparr>cl_candidates = [], cl_seeded = [], cl_state = state\<rparr>" pod]
  by (simp add: classify_def names_def)

definition prologue :: "es_config \<Rightarrow> command set" where
  \<comment> \<open>what may run before the first device is handled\<close>
  "prologue cfg = {Devices, ReadState} \<union> Hash ` (- set (exclude cfg)) \<union> (if dry_run cfg then {} else range WriteState)"

definition run_shape :: "es_config \<Rightarrow> (command \<times> int option) list \<Rightarrow> bool" where
  "run_shape cfg n \<longleftrightarrow> (\<exists>pre post devs fns. n = pre @ post \<and> only (prologue cfg) pre \<and> segments cfg devs fns post
     \<and> set fns \<inter> set (exclude cfg) = {} \<and> (0 \<le> max_per_run cfg \<longrightarrow> length fns \<le> nat (max_per_run cfg)))"

lemma run_shape_pre: "only (prologue cfg) n \<Longrightarrow> run_shape cfg n"
  unfolding run_shape_def by (intro exI [of _ n] exI [of _ "[]"]) auto

lemma run_shape_step: "only (prologue cfg) m \<Longrightarrow> run_shape cfg n \<Longrightarrow> run_shape cfg (m @ n)"
  unfolding run_shape_def by (metis append_assoc only_simps(3))

lemma run_shape_segments:
  "segments cfg devs fns n \<Longrightarrow> set fns \<inter> set (exclude cfg) = {} \<Longrightarrow>
     (0 \<le> max_per_run cfg \<Longrightarrow> length fns \<le> nat (max_per_run cfg)) \<Longrightarrow> run_shape cfg n"
  unfolding run_shape_def by (metis append_Nil only_simps(1))

lemma slice_to_subset: "set (slice_to i xs) \<subseteq> set xs"
  by (auto simp: slice_to_def dest: in_set_takeD)

lemma shape_batch:
  assumes "names k \<subseteq> fst ` set devs - set (exclude cfg)"
  shows "does rn_log (\<lambda>_. run_shape cfg)
    (flash_batch cfg pod devs (slice_to (max_per_run cfg) (cl_candidates k)) st [])"
proof (rule does_mono [OF does_flash_batch], rule run_shape_segments)
  have "fst ` set (slice_to (max_per_run cfg) (cl_candidates k)) \<subseteq> names k"
    unfolding names_def by (rule image_mono [OF slice_to_subset])
  with assms show "set (map fst (slice_to (max_per_run cfg) (cl_candidates k))) \<inter> set (exclude cfg) = {}" by auto
qed (auto simp: slice_to_def)

lemma shape_bind:
  assumes "does rn_log (\<lambda>r n. only (prologue cfg) n \<and> (\<forall>a. r = Inr a \<longrightarrow> G a)) m"
    "\<And>a. G a \<Longrightarrow> does rn_log (\<lambda>_. run_shape cfg) (f a)"
  shows "does rn_log (\<lambda>_. run_shape cfg) (mbind m f)"
  by (rule does_bind [OF assms(1)]) (auto intro!: does_mono [OF assms(2)] intro: run_shape_step run_shape_pre)

lemma shape_then:
  assumes "runs (only C) m" "C \<subseteq> prologue cfg" "\<And>a. does rn_log (\<lambda>_. run_shape cfg) (f a)"
  shows "does rn_log (\<lambda>_. run_shape cfg) (mbind m f)"
  by (rule shape_bind [where G = "\<lambda>_. True"])
    (use assms in \<open>auto intro!: does_traces [OF assms(1)] elim: only_mono\<close>)

lemma runs_fetch_devices: "runs (only {Devices}) (fetch_devices cfg pod)"
  unfolding fetch_devices_def by (rule runs_exec_bind) (auto intro: traces_lift split: prod.split)

lemma runs_load_state: "runs (only {ReadState}) (load_state cfg pod)"
  unfolding load_state_def by (rule runs_exec_bind) (auto intro: traces_lift split: prod.split)

lemma runs_save_seeds: "runs (only (if dry_run cfg then {} else range WriteState)) (save_seeds cfg pod k)"
  by (auto simp: save_seeds_def intro: traces_lift runs_save_state)

lemma shape_classify:
  "does rn_log (\<lambda>r n. only (prologue cfg) n \<and> (\<forall>k. r = Inr k \<longrightarrow> names k \<subseteq> fst ` set devs - set (exclude cfg)))
     (classify cfg pod devs state)"
  by (rule does_mono [OF picks_classify]) (auto simp: picks_def prologue_def elim!: only_mono)

lemma shape_es_main: "does rn_log (\<lambda>_. run_shape cfg) (es_main cfg init pod day)"
proof (cases init)
  case (Inr u)
  have last: "does rn_log (\<lambda>_. run_shape cfg) (mbind (flash_batch cfg pod devs
      (slice_to (max_per_run cfg) (cl_candidates k)) st []) (\<lambda>b. mlift (f b)))"
    if "names k \<subseteq> fst ` set devs - set (exclude cfg)" for devs k st and f :: "batch_result \<Rightarrow> es_outcome res"
    by (rule does_bind [OF shape_batch [OF that]]) (auto intro: does_lift)
  show ?thesis
    unfolding es_main_def Inr sum.case
    by (intro shape_then [OF runs_fetch_devices] shape_then [OF runs_load_state] shape_bind [OF shape_classify]
        shape_then [OF runs_save_seeds])
      (auto simp: prologue_def intro!: last does_lift run_shape_pre)
qed (auto simp: es_main_def intro!: does_lift run_shape_pre)

lemma accepted_es_main: "does rn_log accepted (es_main cfg init pod day)"
proof (cases init)
  case (Inr u)
  have last: "does rn_log accepted (mbind (flash_batch cfg pod devs batch st []) (\<lambda>b. mlift (f b)))"
    for devs batch st and f :: "batch_result \<Rightarrow> es_outcome res"
    by (rule does_bind [OF accepted_flash_batch]) (auto intro!: does_lift simp: accepted_def)
  show ?thesis
    unfolding es_main_def Inr sum.case classify_def
    by (auto intro!: accepted_bind keeps_steps last does_lift simp: accepted_def)
qed (auto simp: es_main_def accepted_def intro!: does_lift)

abbreviation start :: "'s \<Rightarrow> 's run" where
  "start s \<equiv> \<lparr>rn_pod = s, rn_now = 0, rn_log = []\<rparr>"

definition es_log :: "es_config \<Rightarrow> unit res \<Rightarrow> 's pod \<Rightarrow> string \<Rightarrow> 's \<Rightarrow> (command \<times> int option) list" where
  \<comment> \<open>the commands of one run with their exit codes\<close>
  "es_log cfg init pod day s = rn_log (snd (es_main cfg init pod day (start s)))"

lemma does_start: "does rn_log (\<lambda>_. P) m \<Longrightarrow> P (rn_log (snd (m (start s))))"
  unfolding does_def by (metis append_Nil run.select_convs(3))

lemma es_log_parts:
  obtains pre post devs fns where "es_log cfg init pod day s = pre @ post" "only (prologue cfg) pre"
    "segments cfg devs fns post" "set fns \<inter> set (exclude cfg) = {}"
    "0 \<le> max_per_run cfg \<Longrightarrow> length fns \<le> nat (max_per_run cfg)"
proof -
  have "run_shape cfg (es_log cfg init pod day s)"
    unfolding es_log_def by (rule does_start [OF shape_es_main])
  then show thesis unfolding run_shape_def by (elim exE conjE) (rule that; simp)
qed

lemma es_log_member:
  assumes "(cmd, rc) \<in> set (es_log cfg init pod day s)"
  obtains (prologue) "cmd \<in> prologue cfg"
  | (device) devs fn m where "fn \<notin> set (exclude cfg)" "segment cfg devs fn m" "(cmd, rc) \<in> set m"
proof -
  obtain pre post devs fns where n: "es_log cfg init pod day s = pre @ post" "only (prologue cfg) pre"
      "segments cfg devs fns post" "set fns \<inter> set (exclude cfg) = {}"
    by (rule es_log_parts)
  from n assms consider "cmd \<in> prologue cfg" | "(cmd, rc) \<in> set post" by (force simp: only_def)
  then show thesis
  proof cases
    case 2
    with n(3) obtain fn m where "fn \<in> set fns" "segment cfg devs fn m" "(cmd, rc) \<in> set m" by (rule segments_each)
    with n(4) device show thesis by blast
  qed (fact prologue)
qed

text \<open>
  Property C27. In every run of the reconciler, whatever the pod answers, the commands follow the
  update protocol: an upload only directly after that device's own successful compile, after an
  upload nothing but probes of that device until it answers, and nothing at all after a failed
  compile, a failed upload or a command that raised.
\<close>

theorem run_follows_protocol: "protocol Ready (es_log cfg init pod day s) \<noteq> None"
proof -
  have "does rn_log (\<lambda>_ n. protocol Ready n \<noteq> None) (es_main cfg init pod day)"
    by (rule does_mono [OF accepted_es_main]) (simp add: accepted_def)
  then show ?thesis unfolding es_log_def by (rule does_start)
qed

text \<open>
  Property C28. With the dry-run gate on, a run neither uploads firmware nor writes its state file.
\<close>

theorem dry_run_flashes_nothing:
  assumes "dry_run cfg" "(cmd, rc) \<in> set (es_log cfg init pod day s)"
  shows "\<not> writes cmd"
  using assms(2)
proof (cases rule: es_log_member)
  case prologue
  with assms(1) show ?thesis by (auto simp: prologue_def writes_def)
next
  case (device devs fn m)
  with segment_dry [OF _ assms(1)] show ?thesis by blast
qed

text \<open>
  A configuration on the exclusion list is never hashed, compiled or uploaded, whatever
  the force list says.
\<close>

theorem excluded_device_untouched:
  assumes "fn \<in> set (exclude cfg)" "(cmd, rc) \<in> set (es_log cfg init pod day s)"
  shows "\<not> handles fn cmd"
  using assms(2)
proof (cases rule: es_log_member)
  case prologue
  with assms(1) show ?thesis by (auto simp: prologue_def handles_def split: if_splits)
next
  case (device devs f m)
  with segment_handles assms(1) show ?thesis by metis
qed

text \<open>
  A run uploads to at most \<open>MAX_PER_RUN\<close> devices.
\<close>

theorem upload_cap:
  assumes "0 \<le> max_per_run cfg"
  shows "uploads (es_log cfg init pod day s) \<le> nat (max_per_run cfg)"
proof -
  obtain pre post devs fns where n: "es_log cfg init pod day s = pre @ post" "only (prologue cfg) pre"
      "segments cfg devs fns post" "length fns \<le> nat (max_per_run cfg)"
    using assms by (metis es_log_parts)
  have "uploads pre = 0" by (rule uploads_only [OF n(2)]) (auto simp: prologue_def)
  with n segments_uploads [OF n(3)] show ?thesis by simp
qed

section \<open>A concrete fleet\<close>

text \<open>
  Two configured devices that the pod reports, of which one has a changed configuration and one is
  excluded; every command succeeds and every device answers.
\<close>

definition demo_fleet :: string where
  "demo_fleet = dumps (JObj [(''configured'', JList
     [JObj [(''configuration'', JStr ''lamp''), (''address'', JStr ''h1'')],
      JObj [(''configuration'', JStr ''pool''), (''address'', JStr ''h2'')]])])"

definition demo_answer :: "string \<Rightarrow> string" where
  "demo_answer line =
     (if startswith line ''curl'' then demo_fleet
      else if startswith line ''sha256sum'' then ''new lamp''
      else if startswith line ''cat'' then dumps (JObj [(''lamp'', JObj [(''hash'', JStr ''old'')])])
      else if startswith line ''python3'' then ''UP'' else [])"

definition demo_pod :: "unit pod" where
  "demo_pod line s = (ExecDone (demo_answer line @ newline # sentinel @ ''0'' @ [newline]) [] (Some 0) 5, s)"

definition demo_es_config :: "bool \<Rightarrow> es_config" where
  "demo_es_config dry = \<lparr>config_dir = ''/c'', state_file = ''/s'', dashboard = ''http://d'',
     max_per_run = 3, force = [''pool''], exclude = [''pool''], dry_run = dry, verify_timeout = 1,
     verify_poll = 1, api_port = ''6053'', compile_timeout = 6, upload_timeout = 3, es_agent = ''ops''\<rparr>"

lemma demo_dry: "dry_run (demo_es_config b) = b" "''pool'' \<in> set (exclude (demo_es_config b))"
  "max_per_run (demo_es_config b) = 3"
  by (simp_all add: demo_es_config_def)

lemma demo_live_log:
  "es_log (demo_es_config False) (Inr ()) demo_pod ''d'' () =
     [(Devices, Some 0), (ReadState, Some 0), (Hash ''lamp'', Some 0), (Probe (JStr ''h1''), Some 0),
      (Compile ''lamp'', Some 0), (Upload ''lamp'' (JStr ''h1''), Some 0),
      (Probe (JStr ''h1''), Some 0), (Hash ''lamp'', Some 0),
      (WriteState (JObj [(''lamp'', JObj [(''hash'', JStr ''new'')])]), Some 0)]"
  by code_simp

lemma demo_dry_log:
  "es_log (demo_es_config True) (Inr ()) demo_pod ''d'' () =
     [(Devices, Some 0), (ReadState, Some 0), (Hash ''lamp'', Some 0), (Probe (JStr ''h1''), Some 0),
      (Compile ''lamp'', Some 0)]"
  by code_simp

theorem dry_run_flashes_nothing_witness:
  "(Compile ''lamp'', Some 0) \<in> set (es_log (demo_es_config True) (Inr ()) demo_pod ''d'' ())
     \<and> \<not> writes (Compile ''lamp'')"
  using demo_dry_log dry_run_flashes_nothing [of "demo_es_config True" "Compile ''lamp''" "Some 0" "Inr ()" demo_pod "''d''" "()"]
  by (simp add: demo_dry)

theorem excluded_device_untouched_witness:
  "(Upload ''lamp'' (JStr ''h1''), Some 0) \<in> set (es_log (demo_es_config False) (Inr ()) demo_pod ''d'' ())
     \<and> \<not> handles ''pool'' (Upload ''lamp'' (JStr ''h1''))"
  using demo_live_log excluded_device_untouched [of "''pool''" "demo_es_config False" "Upload ''lamp'' (JStr ''h1'')"
      "Some 0" "Inr ()" demo_pod "''d''" "()"]
  by (simp add: demo_dry)

theorem upload_cap_witness: "uploads (es_log (demo_es_config False) (Inr ()) demo_pod ''d'' ()) \<le> 3"
  using upload_cap [of "demo_es_config False" "Inr ()" demo_pod "''d''" "()"] by (simp add: demo_dry)

text \<open>
  A pod in which the configuration is edited while a compile runs. Its state is the version of the
  configuration, the version last compiled, the version on the device and the stored state.
\<close>

definition edit_pod :: "(nat \<times> nat \<times> nat \<times> json) pod" where
  "edit_pod line s =
     (let (conf, built, dev, stored) = s;
          out = (if startswith line ''curl'' then demo_fleet
                 else if startswith line ''sha256sum'' then ''v'' @ nat_str conf
                 else if startswith line ''cat'' then dumps stored
                 else if startswith line ''python3'' then ''UP'' else []);
          s' = (if startswith line ''esphome compile'' then (conf + 1, conf, dev, stored)
                else if startswith line ''esphome upload'' then (conf, built, built, stored) else s)
      in (ExecDone (out @ newline # sentinel @ ''0'' @ [newline]) [] (Some 0) 5, s'))"

abbreviation stored_hash :: "string \<Rightarrow> json" where
  "stored_hash h \<equiv> JObj [(''lamp'', JObj [(''hash'', JStr h)])]"

lemma edit_first_run:
  "(let c = snd (es_main (demo_es_config False) (Inr ()) edit_pod ''d'' (start (1, 0, 0, stored_hash ''v0'')))
    in (rn_pod c, last (rn_log c))) = ((2, 1, 1, stored_hash ''v0''), (WriteState (stored_hash ''v2''), Some 0))"
  by code_simp

lemma edit_second_run:
  "es_log (demo_es_config False) (Inr ()) edit_pod ''d'' (2, 1, 1, stored_hash ''v2'')
     = [(Devices, Some 0), (ReadState, Some 0), (Hash ''lamp'', Some 0)]"
  by code_simp

text \<open>
  The hash is recorded from the file as it is after the flash, so an edit that lands
  while a device is compiled and flashed is lost: the device runs version 1, the state file records
  version 2, and the next run, which reads that state, compiles and uploads nothing.
\<close>

theorem edit_during_flash_is_lost:
  "rn_pod (snd (es_main (demo_es_config False) (Inr ()) edit_pod ''d'' (start (1, 0, 0, stored_hash ''v0''))))
     = (2, 1, 1, stored_hash ''v0'')
   \<and> last (es_log (demo_es_config False) (Inr ()) edit_pod ''d'' (1, 0, 0, stored_hash ''v0''))
     = (WriteState (stored_hash ''v2''), Some 0)
   \<and> es_log (demo_es_config False) (Inr ()) edit_pod ''d'' (2, 1, 1, stored_hash ''v2'')
     = [(Devices, Some 0), (ReadState, Some 0), (Hash ''lamp'', Some 0)]"
  using edit_first_run edit_second_run by (simp add: Let_def es_log_def)

end
