(* ===== verification/A2a.thy ===== *)
theory A2a
  imports PyJson
begin

text \<open>
  The client of \<open>a2a_client.py\<close> for an agent over JSON-RPC: send a message, then poll the task until
  it is terminal or the budget is spent, and the test for an unavailable model backend.

  The agent is a parameter: a function from the request and the state of the world to what
  \<open>urlopen\<close> delivered and how long it took. A run keeps the world, a clock in milliseconds that
  every request and every sleep advances, and the log of the methods it called.
\<close>

section \<open>Replies\<close>

definition TERMINAL :: "string list" where
  "TERMINAL = [''completed'', ''failed'', ''canceled'', ''rejected'', ''unknown'', ''input-required'']"

fun last_data :: "json \<Rightarrow> string list \<Rightarrow> json" where
  "last_data obj [] = obj"
| "last_data obj (l # ls) =
     (let line = strip l; chunk = strip (drop 5 line) in
      if startswith line ''data:'' \<and> chunk \<noteq> [] \<and> chunk \<noteq> ''[DONE]''
      then last_data (case loads chunk of Some j \<Rightarrow> j | None \<Rightarrow> obj) ls
      else last_data obj ls)"

definition parse_jsonrpc :: "string \<Rightarrow> json" where
  "parse_jsonrpc raw0 =
     (let raw = strip raw0 in
      if startswith raw ''{'' then (case loads raw of Some j \<Rightarrow> j | None \<Rightarrow> JObj [])
      else last_data (JObj []) (splitlines raw))"

definition dict_or :: "json \<Rightarrow> dict res" where
  \<comment> \<open>the receiver of \<open>.get\<close> in \<open>(x or {}).get\<close>\<close>
  "dict_or j = (if truthy j then as_dict j else Inr [])"

definition items_or :: "json \<Rightarrow> json list res" where
  \<comment> \<open>the elements of \<open>x or []\<close>\<close>
  "items_or j = (if truthy j then iterate j else Inr [])"

fun all_parts :: "json list \<Rightarrow> json list res" where
  "all_parts [] = Inr []"
| "all_parts (a # as) =
     rbind (as_dict a) (\<lambda>d. rbind (items_or (get d ''parts'')) (\<lambda>ps. rbind (all_parts as) (\<lambda>qs. Inr (ps @ qs))))"

definition reply_parts :: "dict \<Rightarrow> json list res" where
  \<comment> \<open>the parts of the artifacts, then those of the status message\<close>
  "reply_parts result =
     rbind (items_or (get result ''artifacts'')) (\<lambda>arts.
     rbind (all_parts arts) (\<lambda>ps.
     rbind (dict_or (get result ''status'')) (\<lambda>st.
     rbind (dict_or (get st ''message'')) (\<lambda>msg.
     rbind (items_or (get msg ''parts'')) (\<lambda>qs. Inr (ps @ qs))))))"

fun part_texts :: "json list \<Rightarrow> json list res" where
  "part_texts [] = Inr []"
| "part_texts (p # ps) =
     rbind (as_dict p) (\<lambda>d. rbind (part_texts ps) (\<lambda>ts.
       Inr (if get d ''kind'' = JStr ''text'' then get_or d ''text'' (JStr []) # ts else ts)))"

definition last_text :: "json list \<Rightarrow> json" where
  "last_text ts = (if ts = [] then JStr [] else last ts)"

definition extract_text :: "dict \<Rightarrow> json res" where
  "extract_text result = rbind (reply_parts result) (\<lambda>ps. rbind (part_texts ps) (\<lambda>ts. Inr (last_text ts)))"

definition state_of :: "dict \<Rightarrow> json res" where
  "state_of result =
     rbind (dict_or (get result ''status'')) (\<lambda>st.
       Inr (if truthy (get st ''state'') then get st ''state''
            else if truthy (get result ''state'') then get result ''state'' else JStr ''?''))"

definition is_terminal :: "json \<Rightarrow> bool res" where
  \<comment> \<open>\<open>state in TERMINAL\<close>\<close>
  "is_terminal state =
     (if hashable state then Inr (\<exists>t\<in>set TERMINAL. state = JStr t)
      else Inl (TypeError (''unhashable type: '' @ repr_str (type_name state))))"

section \<open>Requests\<close>

datatype a2a_raw =
    A2aBody string nat
  | A2aFail string nat

type_synonym 's agent = "string \<Rightarrow> json \<Rightarrow> 's \<Rightarrow> a2a_raw \<times> 's"

datatype a2a_method = MessageSend | TasksGet

record 's call_run =
  cr_world :: 's
  cr_now :: nat
  cr_log :: "a2a_method list"

definition send_payload :: "string \<Rightarrow> string \<Rightarrow> json" where
  "send_payload prompt mid = JObj
     [(''jsonrpc'', JStr ''2.0''), (''id'', JInt 1), (''method'', JStr ''message/send''),
      (''params'', JObj [(''message'', JObj
         [(''role'', JStr ''user''),
          (''parts'', JList [JObj [(''kind'', JStr ''text''), (''text'', JStr prompt)]]),
          (''messageId'', JStr mid), (''kind'', JStr ''message'')])])]"

definition get_payload :: "json \<Rightarrow> json" where
  "get_payload task = JObj
     [(''jsonrpc'', JStr ''2.0''), (''id'', JInt 2), (''method'', JStr ''tasks/get''),
      (''params'', JObj [(''id'', task)])]"

definition a2a_post :: "'s agent \<Rightarrow> string \<Rightarrow> a2a_method \<Rightarrow> json \<Rightarrow> (json, 's call_run) stm" where
  \<comment> \<open>\<open>_post\<close>; every exception of the request is one that a handler of \<open>Exception\<close> catches\<close>
  "a2a_post agent url meth payload c =
     (let (raw, w) = agent url payload (cr_world c);
          next = (\<lambda>t. \<lparr>cr_world = w, cr_now = cr_now c + Suc t, cr_log = cr_log c @ [meth]\<rparr>)
      in case raw of
           A2aBody body t \<Rightarrow> (Inr (parse_jsonrpc body), next t)
         | A2aFail e t \<Rightarrow> (Inl (OSError e), next t))"

definition reply_of :: "json \<Rightarrow> (json \<times> json \<times> dict) res" where
  \<comment> \<open>text, state and result of an answer\<close>
  "reply_of d =
     rbind (as_dict d) (\<lambda>dd. rbind (dict_or (get dd ''result'')) (\<lambda>result.
     rbind (extract_text result) (\<lambda>text. rbind (state_of result) (\<lambda>state. Inr (text, state, result)))))"

text \<open>The polling loop. The interval is in seconds, the deadline on the clock of the run.\<close>

definition nap :: "nat \<Rightarrow> nat \<Rightarrow> nat" where
  "nap interval remaining = min (1000 * interval) (max 1000 remaining)"

lemma a2a_post_now: "a2a_post agent url meth p c = (r, c') \<Longrightarrow> cr_now c < cr_now c'"
  by (auto simp: a2a_post_def Let_def split: prod.splits a2a_raw.splits)

function poll_loop :: "'s agent \<Rightarrow> string \<Rightarrow> nat \<Rightarrow> nat \<Rightarrow> json \<Rightarrow> json \<Rightarrow> json \<Rightarrow> (json \<times> json, 's call_run) stm" where
  "poll_loop agent url interval deadline task text state c =
     (if deadline \<le> cr_now c then (Inr (text, state), c)
      else (let c1 = c\<lparr>cr_now := cr_now c + nap interval (deadline - cr_now c)\<rparr> in
        if deadline \<le> cr_now c1 then (Inr (text, state), c1)
        else (case a2a_post agent url TasksGet (get_payload task) c1 of
            (Inl _, c2) \<Rightarrow> poll_loop agent url interval deadline task text state c2
          | (Inr d, c2) \<Rightarrow>
              (case rbind (reply_of d) (\<lambda>(t, s, _). rbind (is_terminal s) (\<lambda>b. Inr (t, s, b))) of
                 Inl e \<Rightarrow> (Inl e, c2)
               | Inr (t, s, b) \<Rightarrow>
                   (let text' = (if truthy t then t else text) in
                    if b then (Inr (text', s), c2)
                    else poll_loop agent url interval deadline task text' s c2)))))"
  by pat_completeness auto
termination
  by (relation "measure (\<lambda>(agent, url, interval, deadline, task, text, state, c). deadline - cr_now c)")
    (auto dest!: a2a_post_now [OF sym])

declare poll_loop.simps [simp del]

definition call_agent :: "'s agent \<Rightarrow> string \<Rightarrow> string \<Rightarrow> nat \<Rightarrow> nat \<Rightarrow> string \<Rightarrow> (json \<times> json, 's call_run) stm" where
  "call_agent agent url prompt budget interval mid c =
     (let deadline = cr_now c + 1000 * budget in
      case a2a_post agent url MessageSend (send_payload prompt mid) c of
        (Inl e, c1) \<Rightarrow> (Inr (JStr [], JStr (''transport-error: '' @ exn_str e)), c1)
      | (Inr d, c1) \<Rightarrow>
          mbind (mlift (rbind (reply_of d) (\<lambda>(text, state, result).
              rbind (if truthy text then is_terminal state else Inr False) (\<lambda>b. Inr (text, state, result, b)))))
            (\<lambda>(text, state, result, b).
              let task = (if truthy (get result ''id'') then get result ''id'' else get result ''taskId'') in
              if truthy text \<and> (b \<or> state = JStr ''?'') \<or> \<not> truthy task then mlift (Inr (text, state))
              else poll_loop agent url interval deadline task text state) c1)"

section \<open>Backend outages\<close>

definition backend_markers :: "string list" where
  "backend_markers = [''no deployments available'', ''connection refused'', ''stream_error'',
     ''apiconnectionerror'', ''service unavailable'', ''upstream connect error'',
     ''econnrefused'', ''litellm'', '':4000'', ''503'']"

definition lower_of :: "json \<Rightarrow> string res" where
  \<comment> \<open>\<open>(text or "").lower()\<close>\<close>
  "lower_of text = (if \<not> truthy text then Inr []
     else (case text of JStr s \<Rightarrow> Inr (lower s) | j \<Rightarrow> Inl (attr_error j ''lower'')))"

definition is_backend_unavailable :: "json \<Rightarrow> json \<Rightarrow> bool res" where
  "is_backend_unavailable text state =
     (case state of
        JStr st \<Rightarrow>
          if startswith st ''transport-error'' then Inr True
          else if st = ''failed'' then
            rbind (lower_of text) (\<lambda>low. Inr (strip low = [] \<or> (\<exists>m\<in>set backend_markers. contains low m)))
          else Inr False
      | j \<Rightarrow> Inl (attr_error j ''startswith''))"

section \<open>Bounds\<close>

lemma a2a_post_step:
  assumes "a2a_post agent url meth p c = (r, c')"
  shows "cr_log c' = cr_log c @ [meth]" "cr_now c < cr_now c'"
  using assms by (auto simp: a2a_post_def Let_def split: prod.splits a2a_raw.splits)

text \<open>One round of the polling loop: it stops, or it posts once and goes on.\<close>

lemma poll_loop_cases:
  obtains (timeout) c1 where "poll_loop agent url interval deadline task tx state c = (Inr (tx, state), c1)"
      "cr_log c1 = cr_log c" "cr_now c \<le> cr_now c1"
  | (answer) r c1 c2 d where "cr_now c1 = cr_now c + nap interval (deadline - cr_now c)" "cr_now c1 < deadline"
      "cr_log c1 = cr_log c" "a2a_post agent url TasksGet (get_payload task) c1 = (Inr d, c2)"
      "poll_loop agent url interval deadline task tx state c = (r, c2)"
      "\<And>e. r = Inl e \<Longrightarrow> rbind (reply_of d) (\<lambda>(t, s, _). rbind (is_terminal s) (\<lambda>b. Inr (t, s, b))) = Inl e"
  | (again) r c1 c2 tx' state' where "cr_now c1 = cr_now c + nap interval (deadline - cr_now c)" "cr_now c1 < deadline"
      "cr_log c1 = cr_log c" "a2a_post agent url TasksGet (get_payload task) c1 = (r, c2)"
      "poll_loop agent url interval deadline task tx state c =
        poll_loop agent url interval deadline task tx' state' c2"
proof -
  let ?c1 = "c\<lparr>cr_now := cr_now c + nap interval (deadline - cr_now c)\<rparr>"
  note eq = poll_loop.simps [of agent url interval deadline task tx state c]
  consider "deadline \<le> cr_now c" | "cr_now c < deadline" "deadline \<le> cr_now ?c1" | "cr_now c < deadline" "cr_now ?c1 < deadline"
    by linarith
  then show thesis
  proof cases
    case 3
    obtain r c2 where post: "a2a_post agent url TasksGet (get_payload task) ?c1 = (r, c2)" by fastforce
    show thesis
    proof (cases r)
      case (Inl e)
      with 3 post eq have "poll_loop agent url interval deadline task tx state c =
          poll_loop agent url interval deadline task tx state c2" by simp
      with 3 post show thesis by (intro again [of ?c1 r c2]) auto
    next
      case (Inr d)
      let ?v = "rbind (reply_of d) (\<lambda>(t, s, _). rbind (is_terminal s) (\<lambda>b. Inr (t, s, b)))"
      show thesis
      proof (cases ?v)
        case v: (Inl e)
        with 3 post eq Inr have "poll_loop agent url interval deadline task tx state c = (Inl e, c2)" by simp
        with 3 post v Inr show thesis by (intro answer [of ?c1 d c2 "Inl e"]) auto
      next
        case v: (Inr x)
        obtain t s b where x: "x = (t, s, b)" by (cases x) auto
        let ?t = "if truthy t then t else tx"
        show thesis
        proof (cases b)
          case True
          with 3 post eq Inr v x have "poll_loop agent url interval deadline task tx state c = (Inr (?t, s), c2)"
            by (simp add: Let_def)
          with 3 post Inr show thesis by (intro answer [of ?c1 d c2 "Inr (?t, s)"]) auto
        next
          case False
          with 3 post eq Inr v x have "poll_loop agent url interval deadline task tx state c =
              poll_loop agent url interval deadline task ?t s c2" by (simp add: Let_def)
          with 3 post show thesis by (intro again [of ?c1 r c2]) auto
        qed
      qed
    qed
  qed (use eq timeout in \<open>auto simp: Let_def\<close>)
qed

lemma nap_lower: "1 \<le> interval \<Longrightarrow> 1000 \<le> nap interval remaining"
  by (auto simp: nap_def)

lemma poll_loop_log:
  assumes "1 \<le> interval"
  shows "\<exists>n. cr_log (snd (poll_loop agent url interval deadline task tx state c)) = cr_log c @ replicate n TasksGet
    \<and> 1000 * n \<le> deadline - cr_now c"
proof (induction "deadline - cr_now c" arbitrary: c tx state rule: less_induct)
  case less
  show ?case
  proof (cases rule: poll_loop_cases [of agent url interval deadline task tx state c])
    case (timeout c1)
    then show ?thesis by (intro exI [of _ 0]) simp
  next
    case (answer r c1 c2 d)
    from a2a_post_step [OF answer(4)] answer nap_lower [OF assms, of "deadline - cr_now c"] show ?thesis
      by (intro exI [of _ 1]) auto
  next
    case (again r c1 c2 tx' state')
    note post = a2a_post_step [OF again(4)]
    have dec: "deadline - cr_now c2 < deadline - cr_now c"
      using again(1,2) post(2) by linarith
    obtain n where "cr_log (snd (poll_loop agent url interval deadline task tx' state' c2)) = cr_log c2 @ replicate n TasksGet"
        "1000 * n \<le> deadline - cr_now c2"
      using less [OF dec] by blast
    with again post nap_lower [OF assms, of "deadline - cr_now c"] show ?thesis
      by (intro exI [of _ "Suc n"]) auto
  qed
qed

lemma call_agent_cases:
  obtains (failed) e c1 where "a2a_post agent url MessageSend (send_payload prompt mid) c = (Inl e, c1)"
      "call_agent agent url prompt budget interval mid c = (Inr (JStr [], JStr (''transport-error: '' @ exn_str e)), c1)"
  | (stop) r d c1 where "a2a_post agent url MessageSend (send_payload prompt mid) c = (Inr d, c1)"
      "call_agent agent url prompt budget interval mid c = (r, c1)"
      "\<And>e. r = Inl e \<Longrightarrow> \<exists>e. reply_of d = Inl e \<or> (\<exists>tx s rs. reply_of d = Inr (tx, s, rs) \<and> is_terminal s = Inl e)"
  | (poll) d c1 task tx state rs where "a2a_post agent url MessageSend (send_payload prompt mid) c = (Inr d, c1)"
      "reply_of d = Inr (tx, state, rs)"
      "call_agent agent url prompt budget interval mid c =
        poll_loop agent url interval (cr_now c + 1000 * budget) task tx state c1"
proof -
  obtain r c1 where post: "a2a_post agent url MessageSend (send_payload prompt mid) c = (r, c1)" by fastforce
  show thesis
  proof (cases r)
    case (Inl e)
    with post failed show thesis by (simp add: call_agent_def)
  next
    case (Inr d)
    show thesis
    proof (cases "reply_of d")
      case r: (Inl e)
      with post Inr show thesis by (intro stop [of d c1 "Inl e"]) (auto simp: call_agent_def mbind_def)
    next
      case r: (Inr x)
      obtain tx state rs where x: "x = (tx, state, rs)" by (cases x) auto
      show thesis
      proof (cases "if truthy tx then is_terminal state else Inr False")
        case t: (Inl e)
        with post Inr r x show thesis
          by (intro stop [of d c1 "Inl e"]) (auto simp: call_agent_def mbind_def split: if_splits)
      next
        case t: (Inr b)
        let ?task = "if truthy (get rs ''id'') then get rs ''id'' else get rs ''taskId''"
        show thesis
        proof (cases "truthy tx \<and> (b \<or> state = JStr ''?'') \<or> \<not> truthy ?task")
          case True
          with post Inr r x t show thesis
            by (intro stop [of d c1 "Inr (tx, state)"]) (auto simp: call_agent_def mbind_def Let_def split: if_splits)
        next
          case False
          with post Inr r x t show thesis
            by (intro poll [of d c1 tx state rs ?task])
              (simp_all add: call_agent_def mbind_def Let_def del: de_Morgan_disj de_Morgan_conj)
        qed
      qed
    qed
  qed
qed

lemma poll_loop_now: "cr_now c \<le> cr_now (snd (poll_loop agent url interval deadline task tx state c))"
proof (induction "deadline - cr_now c" arbitrary: c tx state rule: less_induct)
  case less
  show ?case
  proof (cases rule: poll_loop_cases [of agent url interval deadline task tx state c])
    case (answer r c1 c2 d)
    with a2a_post_step [OF answer(4)] show ?thesis by simp
  next
    case (again r c1 c2 tx' state')
    with a2a_post_step [OF again(4)] have "deadline - cr_now c2 < deadline - cr_now c" "cr_now c \<le> cr_now c2" by linarith+
    with less [OF this(1), of tx' state'] again(5) show ?thesis by simp
  qed simp
qed

lemma call_agent_now: "cr_now c < cr_now (snd (call_agent agent url prompt budget interval mid c))"
proof (cases rule: call_agent_cases [of agent url prompt mid c budget interval])
  case (poll d c1 task tx state rs)
  with a2a_post_step(2) [OF poll(1)] show ?thesis by (simp add: less_le_trans [OF _ poll_loop_now])
qed (auto dest: a2a_post_step)

lemma call_agent_log:
  assumes "1 \<le> interval"
  shows "\<exists>n\<le>budget. cr_log (snd (call_agent agent url prompt budget interval mid c))
    = cr_log c @ MessageSend # replicate n TasksGet"
proof (cases rule: call_agent_cases [of agent url prompt mid c budget interval])
  case (failed e c1)
  with a2a_post_step [OF failed(1)] show ?thesis by (intro exI [of _ 0]) simp
next
  case (stop r d c1)
  with a2a_post_step [OF stop(1)] show ?thesis by (intro exI [of _ 0]) simp
next
  case (poll d c1 task tx state rs)
  note post = a2a_post_step [OF poll(1)]
  obtain n where n: "cr_log (snd (poll_loop agent url interval (cr_now c + 1000 * budget) task tx state c1))
      = cr_log c1 @ replicate n TasksGet" "1000 * n \<le> cr_now c + 1000 * budget - cr_now c1"
    using poll_loop_log [OF assms] by blast
  with post have "n \<le> budget" by linarith
  with n post poll(3) show ?thesis by auto
qed

text \<open>
  A call sends one \<open>message/send\<close> and then nothing but \<open>tasks/get\<close>, at most one for
  each second of its budget, whatever the agent answers; so it always ends.
\<close>

theorem call_agent_requests:
  assumes "1 \<le> interval"
  shows "\<exists>n\<le>budget. cr_log (snd (call_agent agent url prompt budget interval mid c))
    = cr_log c @ MessageSend # replicate n TasksGet"
  using assms by (rule call_agent_log)

section \<open>Replies of the documented shape\<close>

text \<open>
  The shape that JSON-RPC and the protocol of the agents give a reply: an object, whose \<open>result\<close> is missing
  or a task; the artifacts and the status message of a task are missing or have parts, each an object whose
  text, if it is a text part, is a string; the state is missing or a string. An answer may also carry
  no JSON at all.
\<close>

definition text_part :: "json \<Rightarrow> bool" where
  "text_part p =
     (case p of
        JObj d \<Rightarrow> get d ''kind'' = JStr ''text'' \<longrightarrow> (case get_or d ''text'' (JStr []) of JStr _ \<Rightarrow> True | _ \<Rightarrow> False)
      | _ \<Rightarrow> False)"

definition parts_shape :: "json \<Rightarrow> bool" where
  "parts_shape j = (case j of JList ps \<Rightarrow> list_all text_part ps | _ \<Rightarrow> \<not> truthy j)"

definition carrier_shape :: "json \<Rightarrow> bool" where
  \<comment> \<open>an artifact or a message\<close>
  "carrier_shape j = (case j of JObj d \<Rightarrow> parts_shape (get d ''parts'') | _ \<Rightarrow> False)"

definition state_shape :: "json \<Rightarrow> bool" where
  "state_shape j = (case j of JStr _ \<Rightarrow> True | _ \<Rightarrow> \<not> truthy j)"

definition status_shape :: "json \<Rightarrow> bool" where
  "status_shape j =
     (case j of
        JObj d \<Rightarrow> state_shape (get d ''state'') \<and> (truthy (get d ''message'') \<longrightarrow> carrier_shape (get d ''message''))
      | _ \<Rightarrow> \<not> truthy j)"

definition task_shape :: "dict \<Rightarrow> bool" where
  "task_shape r \<longleftrightarrow>
     (case get r ''artifacts'' of JList xs \<Rightarrow> list_all carrier_shape xs | j \<Rightarrow> \<not> truthy j)
     \<and> status_shape (get r ''status'') \<and> state_shape (get r ''state'')"

definition reply_shape :: "json \<Rightarrow> bool" where
  "reply_shape j =
     (case j of JObj d \<Rightarrow> (case get d ''result'' of JObj r \<Rightarrow> task_shape r | x \<Rightarrow> \<not> truthy x) | _ \<Rightarrow> False)"

definition carried :: "string \<Rightarrow> json list" where
  \<comment> \<open>the JSON values in a body: the body itself, or the data lines of an event stream\<close>
  "carried body =
     (let raw = strip body in
      List.map_filter loads
        (if startswith raw ''{'' then [raw]
         else map (\<lambda>l. strip (drop 5 (strip l))) (filter (\<lambda>l. startswith (strip l) ''data:'') (splitlines raw))))"

definition answers_well :: "'s agent \<Rightarrow> string \<Rightarrow> bool" where
  "answers_well agent url \<longleftrightarrow>
     (\<forall>p w body t w'. agent url p w = (A2aBody body t, w') \<longrightarrow> list_all reply_shape (carried body))"

lemma last_data_cases:
  "last_data obj ls = obj
   \<or> last_data obj ls \<in> set (List.map_filter loads (map (\<lambda>l. strip (drop 5 (strip l))) (filter (\<lambda>l. startswith (strip l) ''data:'') ls)))"
proof (induction ls arbitrary: obj)
  case (Cons l ls)
  from Cons.IH [of obj] Cons.IH [of "case loads (strip (drop 5 (strip l))) of Some j \<Rightarrow> j | None \<Rightarrow> obj"] show ?case
    by (auto simp: Let_def map_filter_simps split: option.splits)
qed simp

lemma parse_jsonrpc_carried: "parse_jsonrpc body = JObj [] \<or> parse_jsonrpc body \<in> set (carried body)"
  using last_data_cases [of "JObj []" "splitlines (strip body)"]
  by (auto simp: parse_jsonrpc_def carried_def Let_def map_filter_simps split: option.splits)

lemma post_shape:
  assumes "answers_well agent url" "a2a_post agent url meth p c = (Inr d, c')"
  shows "reply_shape d"
proof -
  from assms(2) obtain body t w where "agent url p (cr_world c) = (A2aBody body t, w)" "d = parse_jsonrpc body"
    by (auto simp: a2a_post_def Let_def split: prod.splits a2a_raw.splits)
  moreover have "reply_shape (JObj [])" by (simp add: reply_shape_def get_def)
  ultimately show ?thesis
    using assms(1) parse_jsonrpc_carried [of body] unfolding answers_well_def list_all_iff by metis
qed

lemma part_texts_shape: "list_all text_part ps \<Longrightarrow> \<exists>ts. part_texts ps = Inr (map JStr ts)"
proof (induction ps)
  case (Cons p ps)
  then obtain d ts where "p = JObj d" "part_texts ps = Inr (map JStr ts)" by (auto simp: text_part_def split: json.splits)
  moreover from this Cons.prems have "get d ''kind'' = JStr ''text'' \<Longrightarrow> \<exists>s. get_or d ''text'' (JStr []) = JStr s"
    by (auto simp: text_part_def split: json.splits)
  ultimately have "part_texts (p # ps) = Inr (map JStr ts) \<or> (\<exists>s. part_texts (p # ps) = Inr (map JStr (s # ts)))"
    by auto
  then show ?case by blast
qed simp

lemma items_parts: "parts_shape j \<Longrightarrow> \<exists>ps. items_or j = Inr ps \<and> list_all text_part ps"
  by (cases j) (auto simp: parts_shape_def items_or_def)

lemma all_parts_shape: "list_all carrier_shape xs \<Longrightarrow> \<exists>ps. all_parts xs = Inr ps \<and> list_all text_part ps"
proof (induction xs)
  case (Cons a xs)
  then obtain d qs where "a = JObj d" "parts_shape (get d ''parts'')" "all_parts xs = Inr qs" "list_all text_part qs"
    by (auto simp: carrier_shape_def split: json.splits)
  with items_parts [of "get d ''parts''"] show ?case by fastforce
qed simp

lemma reply_parts_shape:
  assumes "task_shape r"
  shows "\<exists>ps. reply_parts r = Inr ps \<and> list_all text_part ps"
proof -
  have "\<exists>xs. items_or (get r ''artifacts'') = Inr xs \<and> list_all carrier_shape xs"
    using assms by (cases "get r ''artifacts''") (auto simp: task_shape_def items_or_def)
  then obtain xs ps where ps: "items_or (get r ''artifacts'') = Inr xs" "all_parts xs = Inr ps" "list_all text_part ps"
    using all_parts_shape by blast
  have "\<exists>d. dict_or (get r ''status'') = Inr d \<and> (truthy (get d ''message'') \<longrightarrow> carrier_shape (get d ''message''))"
    using assms by (cases "get r ''status''") (auto simp: task_shape_def status_shape_def dict_or_def get_def)
  then obtain d where d: "dict_or (get r ''status'') = Inr d" "truthy (get d ''message'') \<longrightarrow> carrier_shape (get d ''message'')"
    by blast
  have "\<exists>m. dict_or (get d ''message'') = Inr m \<and> parts_shape (get m ''parts'')"
  proof (cases "truthy (get d ''message'')")
    case True
    with d(2) show ?thesis by (cases "get d ''message''") (auto simp: carrier_shape_def dict_or_def)
  qed (auto simp: dict_or_def get_def parts_shape_def)
  then obtain m qs where "dict_or (get d ''message'') = Inr m" "items_or (get m ''parts'') = Inr qs" "list_all text_part qs"
    using items_parts by blast
  with ps d(1) show ?thesis by (simp add: reply_parts_def)
qed

lemma state_of_shape:
  assumes "task_shape r"
  shows "\<exists>s. state_of r = Inr (JStr s)"
proof -
  have "\<exists>d. dict_or (get r ''status'') = Inr d \<and> state_shape (get d ''state'')"
    using assms by (cases "get r ''status''") (auto simp: task_shape_def status_shape_def dict_or_def get_def state_shape_def)
  then obtain d where "dict_or (get r ''status'') = Inr d" "state_shape (get d ''state'')" by blast
  with assms show ?thesis
    by (auto simp: state_of_def task_shape_def state_shape_def split: json.splits)
qed

lemma reply_of_shape:
  assumes "reply_shape d"
  shows "\<exists>t s r. reply_of d = Inr (JStr t, JStr s, r)"
proof -
  obtain dd where d: "d = JObj dd" using assms by (cases d) (auto simp: reply_shape_def)
  have "\<exists>r. dict_or (get dd ''result'') = Inr r \<and> task_shape r"
    using assms d by (cases "get dd ''result''")
      (auto simp: reply_shape_def dict_or_def get_def task_shape_def status_shape_def state_shape_def)
  then obtain r where r: "dict_or (get dd ''result'') = Inr r" "task_shape r" by blast
  obtain ps ts where "reply_parts r = Inr ps" "part_texts ps = Inr (map JStr ts)"
    using reply_parts_shape [OF r(2)] part_texts_shape by blast
  moreover have "\<exists>t. last_text (map JStr ts) = JStr t" by (auto simp: last_text_def last_map)
  ultimately show ?thesis
    using d r(1) state_of_shape [OF r(2)] by (auto simp: reply_of_def extract_text_def)
qed

lemma poll_loop_returns:
  assumes "answers_well agent url"
  shows "\<exists>t s. fst (poll_loop agent url interval deadline task (JStr tx) (JStr st) c) = Inr (JStr t, JStr s)"
proof (induction "deadline - cr_now c" arbitrary: c tx st rule: less_induct)
  case less
  let ?c1 = "c\<lparr>cr_now := cr_now c + nap interval (deadline - cr_now c)\<rparr>"
  show ?case
  proof (cases "deadline \<le> cr_now c \<or> deadline \<le> cr_now ?c1")
    case True
    then show ?thesis by (subst poll_loop.simps) (auto simp: Let_def)
  next
    case False
    obtain r c2 where post: "a2a_post agent url TasksGet (get_payload task) ?c1 = (r, c2)" by fastforce
    have dec: "deadline - cr_now c2 < deadline - cr_now c" using False a2a_post_step(2) [OF post] by auto
    show ?thesis
    proof (cases r)
      case (Inl e)
      with False post less [OF dec] show ?thesis by (subst poll_loop.simps) (simp add: Let_def)
    next
      case (Inr d)
      obtain t s rs where reply: "reply_of d = Inr (JStr t, JStr s, rs)"
        using reply_of_shape [OF post_shape [OF assms post [unfolded Inr]]] by blast
      let ?t = "if t = [] then tx else t"
      from False post Inr reply have
        "poll_loop agent url interval deadline task (JStr tx) (JStr st) c =
           (if \<exists>x\<in>set TERMINAL. JStr s = JStr x then (Inr (JStr ?t, JStr s), c2)
            else poll_loop agent url interval deadline task (JStr ?t) (JStr s) c2)"
        by (subst poll_loop.simps) (auto simp: Let_def is_terminal_def)
      with less [OF dec] show ?thesis by simp
    qed
  qed
qed

text \<open>
  Property C32. The call never raises for an operational failure: against an agent whose replies have the
  shape of the protocol, any mix of failing requests, bodies that are no JSON, slow tasks and finished tasks
  makes it return a text and a state, both strings; if the first request fails, the text is empty and the
  state says that the transport failed.
\<close>

theorem call_agent_returns:
  assumes "answers_well agent url"
  shows "\<exists>tx state. fst (call_agent agent url prompt budget interval mid c) = Inr (JStr tx, JStr state)
    \<and> (isl (fst (a2a_post agent url MessageSend (send_payload prompt mid) c)) \<longrightarrow> tx = [] \<and> startswith state ''transport-error: '')"
proof -
  obtain r c1 where post: "a2a_post agent url MessageSend (send_payload prompt mid) c = (r, c1)" by fastforce
  show ?thesis
  proof (cases r)
    case (Inl e)
    with post show ?thesis by (simp add: call_agent_def startswith_def)
  next
    case (Inr d)
    obtain t s rs where reply: "reply_of d = Inr (JStr t, JStr s, rs)"
      using reply_of_shape [OF post_shape [OF assms post [unfolded Inr]]] by blast
    let ?task = "if truthy (get rs ''id'') then get rs ''id'' else get rs ''taskId''"
    have "call_agent agent url prompt budget interval mid c =
        (if t \<noteq> [] \<and> ((\<exists>x\<in>set TERMINAL. s = x) \<or> s = ''?'') \<or> \<not> truthy ?task then (Inr (JStr t, JStr s), c1)
         else poll_loop agent url interval (cr_now c + 1000 * budget) ?task (JStr t) (JStr s) c1)"
      using post Inr reply by (auto simp: call_agent_def mbind_def Let_def is_terminal_def)
    with poll_loop_returns [OF assms] Inr post show ?thesis by (auto split: if_splits)
  qed
qed

text \<open>An agent that accepts the message, drops one request and then completes the task.\<close>

definition slow_agent :: "nat agent" where
  "slow_agent url p w =
     (if w = 0 then A2aBody ''{\"result\": {\"id\": \"t\", \"status\": {\"state\": \"working\"}}}'' 5
      else if w = 1 then A2aFail ''timed out'' 9
      else A2aBody ''data: {\"result\": {\"status\": {\"state\": \"completed\", \"message\": {\"parts\": [{\"kind\": \"text\", \"text\": \"ok\"}]}}}}'' 5,
      Suc w)"

lemma slow_agent_answers: "answers_well slow_agent url"
proof -
  have "list_all reply_shape (carried ''{\"result\": {\"id\": \"t\", \"status\": {\"state\": \"working\"}}}'')"
    by code_simp
  moreover have "list_all reply_shape (carried ''data: {\"result\": {\"status\": {\"state\": \"completed\", \"message\": {\"parts\": [{\"kind\": \"text\", \"text\": \"ok\"}]}}}}'')"
    by code_simp
  ultimately show ?thesis by (auto simp: answers_well_def slow_agent_def split: if_splits)
qed

theorem call_agent_requests_witness:
  "\<exists>n\<le>60. cr_log (snd (call_agent slow_agent ''u'' ''p'' 60 10 ''m'' \<lparr>cr_world = 0, cr_now = 0, cr_log = []\<rparr>))
    = MessageSend # replicate n TasksGet"
  using call_agent_requests [of 10 60 slow_agent "''u''" "''p''" "''m''" "\<lparr>cr_world = 0, cr_now = 0, cr_log = []\<rparr>"]
  by simp

theorem call_agent_returns_witness:
  "answers_well slow_agent ''u'' \<and>
   (\<exists>tx state. fst (call_agent slow_agent ''u'' ''p'' 60 10 ''m'' \<lparr>cr_world = 0, cr_now = 0, cr_log = []\<rparr>) = Inr (JStr tx, JStr state))"
  using call_agent_returns [OF slow_agent_answers] slow_agent_answers by blast

text \<open>
  An answer that is valid JSON but not an object makes the call raise: an event stream
  whose last data line is a list, and a result that is a string.
\<close>

theorem call_agent_raises:
  "fst (call_agent (\<lambda>_ _ w. (A2aBody ''data: [1]'' 0, w)) url prompt budget interval mid c)
     = Inl (attr_error (JList [JInt 1]) ''get'')
   \<and> fst (call_agent (\<lambda>_ _ w. (A2aBody ''{\"result\": \"busy\"}'' 0, w)) url prompt budget interval mid c)
     = Inl (attr_error (JStr ''busy'') ''get'')"
proof -
  have "parse_jsonrpc ''data: [1]'' = JList [JInt 1]" "parse_jsonrpc ''{\"result\": \"busy\"}'' = JObj [(''result'', JStr ''busy'')]"
    by code_simp+
  then show ?thesis by (simp add: call_agent_def a2a_post_def reply_of_def dict_or_def mbind_def)
qed

end
