(* ===== verification/Triage.thy ===== *)
theory Triage
  imports A2a PyRe
begin

text \<open>
  The triage runner of \<open>triage_run.py\<close>: the tag gate on an agent's reply, the removal of a trailing
  roster, and the loop that re-asks the agent while its model backend is unavailable and once more
  after an unusable reply. The agent and the mail service are parameters.
\<close>

section \<open>The tag gate\<close>

abbreviation en_dash :: char where "en_dash \<equiv> CHR 0x95"

definition in_chars :: "string \<Rightarrow> re" where
  "in_chars cs = Cls (\<lambda>c. c \<in> set cs)"

abbreviation tab :: char where "tab \<equiv> CHR 0x09"
abbreviation backtick :: char where "backtick \<equiv> CHR 0x60"

definition blanks :: re where
  \<comment> \<open>\<open>[ \t]+\<close>\<close>
  "blanks = Plus (in_chars [CHR '' '', tab])"

definition tag_re :: re where
  "tag_re = seqs [Bol, Star (in_chars ([CHR '' '', tab] @ ''>*_#'' @ [backtick] @ ''.-'')),
     Grp 1 (alts [seqs [StrI ''ALL'', blanks, StrI ''CLEAR''], StrI ''PROBLEM'', StrI ''URGENT'', StrI ''FYI'', StrI ''ISSUE'']),
     WordB, Grp 2 (Star Dot), Eol]"

definition negation_re :: re where
  "negation_re = seqs [Star (in_chars ([CHR '' '', tab] @ '':*_'' @ [backtick] @ ''.'' @ [en_dash, em_dash] @ ''-'')),
     alts [StrI ''none'', seqs [StrI ''no'', WordB], StrI ''nothing'', seqs [StrI ''n'', Opt (StrI ''/''), StrI ''a''],
       seqs [StrI ''all'', Star (in_chars [CHR '' '', tab]), StrI ''clear''], StrI ''no problem'', StrI ''no issue'']]"

definition to_upper :: "char \<Rightarrow> char" where
  "to_upper c = (let n = code_point c in
     if 97 \<le> n \<and> n \<le> 122 \<or> 224 \<le> n \<and> n \<le> 254 \<and> n \<noteq> 247 then char_of (n - 32) else c)"

fun squeeze :: "string \<Rightarrow> string" where
  \<comment> \<open>\<open>re.sub(r"\s+", " ", s)\<close>\<close>
  "squeeze [] = []"
| "squeeze (c # cs) =
     (if is_space c then (case cs of d # _ \<Rightarrow> if is_space d then squeeze cs else CHR '' '' # squeeze cs | [] \<Rightarrow> '' '')
      else c # squeeze cs)"

datatype tag = Allclear | Problem

definition classify_tag :: "string \<Rightarrow> tag option" where
  "classify_tag s =
     (case re_search tag_re s of
        None \<Rightarrow> None
      | Some (_, m) \<Rightarrow>
          if squeeze (map to_upper (group 1 m)) = ''ALL CLEAR'' \<or> re_match negation_re (group 2 m) \<noteq> None
          then Some Allclear else Some Problem)"

section \<open>The roster backstop\<close>

definition roster_heads :: "re list" where
  "roster_heads =
     [seqs [StrI ''not'', blanks, StrI ''actionable''],
      seqs [StrI ''all'', blanks, StrI ''clear''],
      seqs [StrI ''all'', blanks, StrI ''other'', WordB],
      seqs [StrI ''all'', blanks, alts [StrI ''bridge'', StrI ''pod'', StrI ''integration'', StrI ''hub''], Opt (StrI ''s''), WordB],
      seqs [StrI ''pending'', blanks, StrI ''alert'', Opt (StrI ''s''), WordB],
      seqs [StrI ''for'', blanks, StrI ''reference'', WordB],
      seqs [StrI ''no'', blanks, Opt (seqs [StrI ''other'', blanks]), StrI ''action'', blanks, alts [StrI ''needed'', StrI ''required'']],
      seqs [StrI ''not'', blanks, StrI ''load'', Star (in_chars [CHR ''-'', CHR '' '', tab]), StrI ''bearing''],
      seqs [StrI ''worth'', blanks, StrI ''monitoring'']]"

definition roster_cut :: re where
  "roster_cut = seqs [Bol, Star (in_chars ([CHR '' '', tab] @ ''>*_#'' @ [backtick])), alts roster_heads]"

definition strip_roster :: "string \<Rightarrow> string" where
  "strip_roster s = (case re_search roster_cut s of None \<Rightarrow> s | Some (i, _) \<Rightarrow> rstrip (take i s))"

definition is_empty_finding :: "string \<Rightarrow> bool" where
  "is_empty_finding body \<longleftrightarrow>
     length (filter (\<lambda>c. \<not> (is_space c \<or> c \<in> set (''>*_#'' @ [backtick] @ ''.-:''))) (sub1 tag_re body)) < 12"

section \<open>Prompts\<close>

definition CONTRACT :: string where
  "CONTRACT =
     [newline] @ [newline] @ ''OUTPUT CONTRACT '' @ [em_dash]
     @ '' follow it exactly, it is as important as the task:'' @ [newline]
     @ ''- Reply in ENGLISH ONLY, regardless of any tool output.'' @ [newline]
     @ ''- This is a ONE-WAY notification: never ask a question, never request input or confirmation ''
     @ [em_dash] @ '' nobody can reply. If you are unsure, state your best assessment.'' @ [newline]
     @ ''- Report ONLY actionable problems '' @ [em_dash] @ '' things that need attention '' @ [em_dash]
     @ '' each with the single next step you propose. Do NOT report healthy status, normal/benign/known ''
     @ ''artifacts, or '' @ [CHR 0x27] @ ''worth monitoring'' @ [CHR 0x27] @ '' non-problems. ''
     @ [CHR 0x27] @ ''All green'' @ [CHR 0x27] @ '' is silence.'' @ [newline]
     @ ''- If you find one or more actionable problems, BEGIN your reply with exactly the tag  PROBLEM: ''
     @ '' then each problem and its one proposed fix, as declaratives.'' @ [newline]
     @ ''- END your reply immediately after the last problem'' @ [CHR 0x27]
     @ ''s proposed fix. Do NOT add any closing section, summary, roster, or reassurance. In particular ''
     @ ''NEVER append a '' @ [CHR 0x27] @ ''Not actionable'' @ [CHR 0x27] @ '', '' @ [CHR 0x27]
     @ ''All clear'' @ [CHR 0x27] @ '', '' @ [CHR 0x27] @ ''All other ...'' @ [CHR 0x27] @ '', or ''
     @ [CHR 0x27] @ ''For reference'' @ [CHR 0x27]
     @ '' section, a list of what is healthy or running (bridges/pods/integrations up), or an explanation ''
     @ ''of why something benign is fine. Known/expected/always-on artifacts '' @ [em_dash]
     @ '' the Watchdog test alert, '' @ [CHR 0x60] @ ''zha'' @ [CHR 0x60]
     @ '' not_loaded when Zigbee runs on zigbee2mqtt, bridge pods running, ESPHome '' @ [CHR 0x27]
     @ ''unknown'' @ [CHR 0x27] @ '' probe artifacts, registry orphans '' @ [em_dash]
     @ '' are NEVER mentioned at all. The reader wants problems only; being told something is fine ''
     @ ''or expected is noise he has explicitly rejected.'' @ [newline]
     @ ''- If nothing is actionable, reply with EXACTLY:  ALL CLEAR  (nothing else).'' @ [newline]
     @ ''- Keep the whole reply under 900 characters. Light markdown is fine (**bold**, '' @ [CHR 0x60]
     @ ''code'' @ [CHR 0x60] @ '', '' @ [CHR 0x60] @ ''- bullets'' @ [CHR 0x60] @ '', short '' @ [CHR 0x60]
     @ ''#'' @ [CHR 0x60] @ ''/'' @ [CHR 0x60] @ ''##'' @ [CHR 0x60] @ '' headings, [links](url)) ''
     @ [em_dash] @ '' no tables, no images; it is rendered into a themed HTML email.'' @ [newline]
     @ ''TOOL DISCIPLINE: keep every tool call TARGETED '' @ [em_dash]
     @ '' scope to specific namespaces/resources with small limits; never dump all namespaces or ''
     @ ''request full unfiltered lists (large responses accumulate in your context and can overflow ''
     @ ''and abort this run; a narrow query that returns beats a broad one that never does). If a ''
     @ ''tool errors, times out, or returns a 4xx/5xx, treat THAT tool as unavailable: note it in ''
     @ ''ONE short line (which tool + status) and CONTINUE with your remaining tools '' @ [em_dash]
     @ '' do not retry it more than once, do not paste the raw error, do not stop early. Base your ''
     @ ''conclusion on the tools that returned; if a genuinely important signal is unreachable because ''
     @ ''every relevant tool failed, report THAT as a problem (which tool / service / datasource ''
     @ ''failed and what you checked).''"

definition RETRY_PREFACE :: string where
  "RETRY_PREFACE =
     ''NOTE: an earlier attempt this run returned no usable report. Do NOT ask any question or ''
     @ ''request input. Reply in English only. Begin your reply with exactly PROBLEM: (then each ''
     @ ''actionable problem and its one proposed fix) or exactly ALL CLEAR if nothing is actionable. ''
     @ ''Output only that report.'' @ [newline] @ [newline]"

record triage_config =
  tc_agent_url :: string
  tc_agent_name :: string
  tc_title :: string
  tc_budget :: nat
  tc_window :: nat
  tc_prompt :: string

definition prompt_first :: "triage_config \<Rightarrow> string" where
  "prompt_first cfg = strip (tc_prompt cfg) @ CONTRACT"

definition prompt_retry :: "triage_config \<Rightarrow> string" where
  "prompt_retry cfg = RETRY_PREFACE @ strip (tc_prompt cfg) @ CONTRACT"

definition per_call :: "triage_config \<Rightarrow> nat" where
  "per_call cfg = max 60 (tc_budget cfg div 2)"

section \<open>The loop\<close>

datatype verdict = Error | Empty | AllClear | Sent string | Malformed

definition judge :: "json \<Rightarrow> verdict res" where
  \<comment> \<open>the outcome of a reply from a reachable backend\<close>
  "judge reply =
     (if \<not> truthy reply then Inr Empty
      else (case reply of
          JStr s \<Rightarrow> Inr (case classify_tag s of
              Some Allclear \<Rightarrow> AllClear
            | Some Problem \<Rightarrow> (let body = strip_roster s in if is_empty_finding body then AllClear else Sent body)
            | None \<Rightarrow> Malformed)
        | _ \<Rightarrow> Inl (TypeError ''expected string or bytes-like object'')))"

fun productive :: "verdict \<Rightarrow> bool" where
  "productive AllClear \<longleftrightarrow> True"
| "productive (Sent _) \<longleftrightarrow> True"
| "productive _ \<longleftrightarrow> False"

definition ask :: "triage_config \<Rightarrow> 's agent \<Rightarrow> bool \<Rightarrow> (json \<times> bool, 's call_run) stm" where
  \<comment> \<open>one call of the agent: its text, and whether its backend is unavailable\<close>
  "ask cfg agent retry =
     mbind (call_agent agent (tc_agent_url cfg) (if retry then prompt_retry cfg else prompt_first cfg) (per_call cfg) 10
             (if retry then ''triage-cron-retry'' else ''triage-cron''))
       (\<lambda>(reply, state). mlift (rbind (is_backend_unavailable reply state) (\<lambda>b. Inr (reply, b))))"

lemma ask_now: "ask cfg agent retry c = (r, c') \<Longrightarrow> cr_now c < cr_now c'"
  unfolding ask_def mbind_def
  by (auto split: prod.splits sum.splits dest!: sym [of "call_agent _ _ _ _ _ _ _"]) (metis call_agent_now snd_conv)+

function triage_loop :: "triage_config \<Rightarrow> 's agent \<Rightarrow> nat \<Rightarrow> nat \<Rightarrow> bool \<Rightarrow> (verdict, 's call_run) stm" where
  "triage_loop cfg agent deadline backoff retry c =
     (case ask cfg agent retry c of
        (Inl e, c1) \<Rightarrow> (Inl e, c1)
      | (Inr (reply, True), c1) \<Rightarrow>
          (let remaining = (deadline - cr_now c1) div 1000 in
           if remaining = 0 then (Inr Error, c1)
           else triage_loop cfg agent deadline (min (backoff * 2) 120) retry
                  (c1\<lparr>cr_now := cr_now c1 + 1000 * min backoff (max 1 remaining)\<rparr>))
      | (Inr (reply, False), c1) \<Rightarrow>
          (case judge reply of
             Inl e \<Rightarrow> (Inl e, c1)
           | Inr v \<Rightarrow>
               if productive v \<or> retry then (Inr v, c1)
               else triage_loop cfg agent deadline backoff True c1))"
  by pat_completeness auto
termination
  by (relation "measures [\<lambda>(cfg, agent, deadline, backoff, retry, c). if retry then 0 else 1,
        \<lambda>(cfg, agent, deadline, backoff, retry, c). deadline - cr_now c]")
    (auto dest!: ask_now [OF sym] split: if_splits)

declare triage_loop.simps [simp del]

definition triage_mail :: "triage_config \<Rightarrow> string \<Rightarrow> string \<Rightarrow> mail" where
  "triage_mail cfg day body =
     \<lparr>ml_subject = tc_title cfg @ '' '' @ [em_dash] @ '' '' @ day, ml_body = body, ml_agent = tc_agent_name cfg\<rparr>"

definition triage_main :: "triage_config \<Rightarrow> 's agent \<Rightarrow> (mail \<Rightarrow> unit res) \<Rightarrow> string \<Rightarrow> (verdict \<times> mail option, 's call_run) stm" where
  \<comment> \<open>the result line and the mail; a mail that cannot be sent raises\<close>
  "triage_main cfg agent notify day c =
     mbind (triage_loop cfg agent (cr_now c + 1000 * tc_window cfg) 20 False) (\<lambda>v.
       mlift (case v of
           Sent body \<Rightarrow> rbind (notify (triage_mail cfg day body)) (\<lambda>_. Inr (v, Some (triage_mail cfg day body)))
         | _ \<Rightarrow> Inr (v, None))) c"

section \<open>What the gate lets through\<close>

lemma rstrip_prefix: "\<exists>u. s = rstrip s @ u \<and> (\<forall>c\<in>set u. is_space c)"
proof -
  let ?u = "rev (takeWhile is_space (rev s))"
  have "s = rstrip s @ ?u" unfolding rstrip_def by (metis rev_append rev_rev_ident takeWhile_dropWhile_id)
  then show ?thesis by (metis set_rev set_takeWhileD)
qed

lemma space_not_word: "is_space c \<Longrightarrow> \<not> is_word c"
  by (auto simp: is_space_def is_word_def is_alnum_def Let_def code_point_def)

lemma roster_at_line_start: "matches roster_cut (p, s, c) \<noteq> [] \<Longrightarrow> (p = [] \<or> hd p = newline) \<and> s \<noteq> []"
proof -
  have "matches (alts roster_heads) (p, [], c) = []" by (simp add: roster_heads_def)
  then have "matches roster_cut (p, [], c) = []" by (simp add: roster_cut_def in_chars_def)
  moreover have "matches roster_cut (p, s, c) = []" if "\<not> (p = [] \<or> hd p = newline)"
    using that by (simp add: roster_cut_def)
  ultimately show "matches roster_cut (p, s, c) \<noteq> [] \<Longrightarrow> (p = [] \<or> hd p = newline) \<and> s \<noteq> []" by blast
qed

lemma roster_open_end: "open_end roster_cut"
  by (simp add: roster_cut_def roster_heads_def blanks_def in_chars_def)

lemma rstrip_newline: "hd (rev t) = newline \<Longrightarrow> t \<noteq> [] \<Longrightarrow> rstrip t \<noteq> t"
proof
  assume "hd (rev t) = newline" "t \<noteq> []" "rstrip t = t"
  moreover obtain x xs where "rev t = x # xs" using \<open>t \<noteq> []\<close> by (cases "rev t") auto
  moreover have "is_space newline" by (simp add: is_space_def code_point_def)
  ultimately have "length (rev t) \<le> length xs"
    unfolding rstrip_def by (metis dropWhile.simps(2) length_dropWhile_le length_rev list.sel(1))
  with \<open>rev t = x # xs\<close> show False by simp
qed

text \<open>
  The roster backstop leaves no roster line in what it keeps: searching the stripped
  body again finds nothing, so stripping twice changes nothing.
\<close>

theorem strip_roster_clean: "re_search roster_cut (strip_roster s) = None \<and> strip_roster (strip_roster s) = strip_roster s"
proof (cases "re_search roster_cut s")
  case None
  then show ?thesis by (simp add: strip_roster_def)
next
  case (Some x)
  obtain i m where im: "re_search roster_cut s = Some (i, m)" using Some by (cases x) auto
  then obtain t u where s: "s = t @ u" "i = length t" and m: "m \<in> set (matches roster_cut (rev t, u, []))" by (rule re_searchE)
  have strip: "strip_roster s = rstrip t" using im s by (simp add: strip_roster_def)
  obtain w where w: "t = rstrip t @ w" "\<forall>c\<in>set w. is_space c" using rstrip_prefix by blast
  have "re_search roster_cut (rstrip t) = None"
  proof (rule ccontr)
    assume "re_search roster_cut (rstrip t) \<noteq> None"
    then obtain j m2 where "re_search roster_cut (rstrip t) = Some (j, m2)" by auto
    then obtain t2 u2 where t2: "rstrip t = t2 @ u2" and m2: "m2 \<in> set (matches roster_cut (rev t2, u2, []))" by (rule re_searchE)
    have "u2 \<noteq> []" using m2 roster_at_line_start [of "rev t2" u2 "[]"] by force
    have "t \<noteq> []" using t2 \<open>u2 \<noteq> []\<close> by (auto simp: rstrip_def)
    then have "hd (rev t) = newline" using m roster_at_line_start [of "rev t" u "[]"] by force
    with \<open>t \<noteq> []\<close> w(1) rstrip_newline have "w \<noteq> []" by force
    with w(2) have "\<not> starts_word (w @ u)" using space_not_word by (auto simp: starts_word_def hd_append)
    from matches_extend [OF roster_open_end this m2] have "matches roster_cut (rev t2, u2 @ w @ u, []) \<noteq> []" by force
    then have "i \<le> length t2" using re_search_earliest [OF im, of t2 "u2 @ w @ u"] s(1) w(1) t2 by simp
    moreover have "length t = length t2 + length u2 + length w" using w(1) t2 by (metis length_append add.assoc)
    ultimately show False using s(2) \<open>w \<noteq> []\<close> by simp
  qed
  with strip show ?thesis by (simp add: strip_roster_def)
qed

lemma tag_match:
  assumes "m \<in> set (matches tag_re (p, s, c))"
  shows "p = [] \<or> hd p = newline" "pos_rest m = [] \<or> hd (pos_rest m) = newline"
proof -
  obtain a b d e where tag: "tag_re = Cat Bol (Cat a (Cat b (Cat d (Cat e Eol))))" by (simp add: tag_re_def)
  from assms show "p = [] \<or> hd p = newline" "pos_rest m = [] \<or> hd (pos_rest m) = newline"
    unfolding tag by (auto split: prod.splits if_splits)
qed

lemma one_line_tag:
  assumes "newline \<notin> set s" "re_search tag_re s = Some (i, m)"
  shows "i = 0 \<and> pos_rest m = []"
proof -
  from assms(2) obtain t u where s: "s = t @ u" "i = length t" and m: "m \<in> set (matches tag_re (rev t, u, []))"
    by (rule re_searchE)
  from tag_match(1) [OF m] have "t = []"
    using assms(1) s(1) by (cases "rev t") auto
  moreover obtain v where "u = v @ pos_rest m" using matches_consumed [OF m] by (auto simp: consumed_def)
  with tag_match(2) [OF m] have "pos_rest m = []" using assms(1) s(1) by (cases "pos_rest m") auto
  ultimately show ?thesis using s(2) by simp
qed

lemma one_line_empty: "newline \<notin> set s \<Longrightarrow> classify_tag s \<noteq> None \<Longrightarrow> is_empty_finding s"
  using one_line_tag by (fastforce simp: is_empty_finding_def sub1_def classify_tag_def split: option.splits prod.splits)

lemma one_line_roster: "newline \<notin> set s \<Longrightarrow> strip_roster s = s \<or> strip_roster s = []"
proof -
  assume s: "newline \<notin> set s"
  have "i = 0" if im: "re_search roster_cut s = Some (i, m)" for i m
  proof -
    from im obtain t u where t: "s = t @ u" "i = length t" "m \<in> set (matches roster_cut (rev t, u, []))" by (rule re_searchE)
    then have "rev t = [] \<or> hd (rev t) = newline" using roster_at_line_start [of "rev t" u "[]"] by force
    with s t show ?thesis by (cases "rev t") auto
  qed
  then show ?thesis by (auto simp: strip_roster_def rstrip_def split: option.splits)
qed

lemma empty_text_empty: "is_empty_finding []"
proof -
  have "sub1 tag_re [] = []"
    by (auto simp: sub1_def split: option.splits prod.splits dest!: one_line_tag [rotated])
  then show ?thesis by (simp add: is_empty_finding_def)
qed

text \<open>
  A report written on a single line is never sent, whatever it says: the test for an
  empty finding removes the whole line of the tag, finds nothing left and files the reply as clear.
\<close>

theorem one_line_report_dropped:
  assumes "newline \<notin> set s" "classify_tag s = Some Problem"
  shows "judge (JStr s) = Inr AllClear"
proof -
  have "s \<noteq> []" using assms(2) by (auto simp: classify_tag_def re_search_def re_search_from.simps first_match_def
        tag_re_def in_chars_def blanks_def split: option.splits)
  with assms one_line_empty one_line_roster [OF assms(1)] empty_text_empty show ?thesis
    by (auto simp: judge_def Let_def)
qed

theorem one_line_report_dropped_witness:
  "classify_tag ''PROBLEM: disk full on node w3, expand it'' = Some Problem
   \<and> judge (JStr ''PROBLEM: disk full on node w3, expand it'') = Inr AllClear"
proof -
  have tag: "classify_tag ''PROBLEM: disk full on node w3, expand it'' = Some Problem" by code_simp
  have "newline \<notin> set ''PROBLEM: disk full on node w3, expand it''" by simp
  from one_line_report_dropped [OF this tag] tag show ?thesis by simp
qed

text \<open>
  The gate files actionable reports as clear when the first word after the tag begins
  like a negation: a report about the NAS, about a namespace, or about missing backups.
\<close>

theorem negation_swallows_reports:
  "map classify_tag [''PROBLEM: NAS down'', ''PROBLEM: namespace x'', ''PROBLEM: no backups'']
     = [Some Allclear, Some Allclear, Some Allclear]"
proof -
  have "classify_tag ''PROBLEM: NAS down'' = Some Allclear" by code_simp
  moreover have "classify_tag ''PROBLEM: namespace x'' = Some Allclear" by code_simp
  moreover have "classify_tag ''PROBLEM: no backups'' = Some Allclear" by code_simp
  ultimately show ?thesis by simp
qed

section \<open>The loop\<close>

lemma triage_loop_cases:
  obtains (raise) e c1 where "triage_loop cfg agent deadline backoff retry c = (Inl e, c1)"
      "\<exists>r. ask cfg agent retry c = (r, c1)"
  | (give_up) reply c1 where "triage_loop cfg agent deadline backoff retry c = (Inr Error, c1)"
      "ask cfg agent retry c = (Inr (reply, True), c1)"
  | (verdict) reply v c1 where "triage_loop cfg agent deadline backoff retry c = (Inr v, c1)"
      "ask cfg agent retry c = (Inr (reply, False), c1)" "judge reply = Inr v" "productive v \<or> retry"
  | (requeue) reply c1 wait where "ask cfg agent retry c = (Inr (reply, True), c1)"
      "1000 \<le> deadline - cr_now c1" "wait = min backoff (max 1 ((deadline - cr_now c1) div 1000))"
      "triage_loop cfg agent deadline backoff retry c =
        triage_loop cfg agent deadline (min (backoff * 2) 120) retry (c1\<lparr>cr_now := cr_now c1 + 1000 * wait\<rparr>)"
  | (reask) reply c1 where "ask cfg agent retry c = (Inr (reply, False), c1)" "\<not> retry"
      "triage_loop cfg agent deadline backoff retry c = triage_loop cfg agent deadline backoff True c1"
proof -
  obtain r c1 where a: "ask cfg agent retry c = (r, c1)" by fastforce
  note eq = triage_loop.simps [of cfg agent deadline backoff retry c]
  consider e where "r = Inl e" | reply where "r = Inr (reply, True)" | reply where "r = Inr (reply, False)"
    by (metis (full_types) old.sum.exhaust surj_pair)
  then show thesis
  proof cases
    case (1 e)
    with a eq raise show thesis by simp
  next
    case (2 reply)
    show thesis
    proof (cases "(deadline - cr_now c1) div 1000 = 0")
      case True
      with a eq 2 give_up show thesis by simp
    next
      case False
      with a eq 2 show thesis by (intro requeue [of reply c1]) (auto simp: Let_def div_eq_0_iff)
    qed
  next
    case (3 reply)
    show thesis
    proof (cases "judge reply")
      case (Inl e)
      with a eq 3 raise show thesis by simp
    next
      case (Inr v)
      show thesis
      proof (cases "productive v \<or> retry")
        case True
        with a eq 3 Inr show thesis by (intro verdict [of v c1 reply]) auto
      next
        case False
        with a eq 3 Inr show thesis by (intro reask [of reply c1]) auto
      qed
    qed
  qed
qed

lemma triage_loop_induct [consumes 0, case_names step]:
  assumes "\<And>backoff retry c. (\<And>backoff' retry' c'. deadline - cr_now c' + (if retry' then 0 else 1)
        < deadline - cr_now c + (if retry then 0 else (1 :: nat)) \<Longrightarrow> P backoff' retry' c') \<Longrightarrow> P backoff retry c"
  shows "P backoff retry c"
  by (induction "deadline - cr_now c + (if retry then 0 else (1 :: nat))" arbitrary: backoff retry c rule: less_induct)
    (use assms in blast)

definition replied :: "triage_config \<Rightarrow> 's agent \<Rightarrow> json \<Rightarrow> bool" where
  "replied cfg agent reply \<longleftrightarrow> (\<exists>retry c c'. ask cfg agent retry c = (Inr (reply, False), c'))"

lemma triage_loop_verdict:
  "triage_loop cfg agent deadline backoff retry c = (Inr v, c') \<Longrightarrow> v = Error \<or> (\<exists>reply. replied cfg agent reply \<and> judge reply = Inr v)"
proof (induction backoff retry c rule: triage_loop_induct [where deadline = deadline])
  case (step backoff retry c)
  show ?case
  proof (cases rule: triage_loop_cases [of cfg agent deadline backoff retry c])
    case (verdict reply v' c1)
    with step.prems show ?thesis by (auto simp: replied_def)
  next
    case (requeue reply c1 wait)
    from ask_now [OF requeue(1)] requeue(2) step.IH [of "c1\<lparr>cr_now := cr_now c1 + 1000 * wait\<rparr>" retry] requeue(4) step.prems
    show ?thesis by force
  next
    case (reask reply c1)
    from ask_now [OF reask(1)] reask step.IH [of c1 True] step.prems show ?thesis by force
  qed (use step.prems in auto)
qed

text \<open>
  Property C33. Only a tagged finding is mailed. If a run mails, the agent gave a reply whose leading
  tag is a problem tag that no negation follows, with at least twelve characters of substance below
  the tag's line; the body is the part of the reply before the first roster line, and the mail
  service accepted it.
\<close>

theorem triage_mails_only_findings:
  assumes "triage_main cfg agent notify day c = (Inr (v, Some m), c')"
  shows "\<exists>s. replied cfg agent (JStr s) \<and> classify_tag s = Some Problem \<and> ml_body m = strip_roster s
    \<and> \<not> is_empty_finding (strip_roster s) \<and> notify m = Inr ()"
proof -
  obtain v1 c1 where loop: "triage_loop cfg agent (cr_now c + 1000 * tc_window cfg) 20 False c = (Inr v1, c1)"
    using assms by (auto simp: triage_main_def mbind_def split: prod.splits sum.splits)
  with assms obtain body where body: "v1 = Sent body" "m = triage_mail cfg day body" "notify m = Inr ()"
    by (auto simp: triage_main_def mbind_def rbind_Inr_iff split: verdict.splits)
  with triage_loop_verdict [OF loop] obtain reply where r: "replied cfg agent reply" "judge reply = Inr (Sent body)" by auto
  then obtain s where "reply = JStr s" "classify_tag s = Some Problem" "body = strip_roster s" "\<not> is_empty_finding body"
    by (auto simp: judge_def Let_def split: if_splits json.splits option.splits tag.splits)
  with r body show ?thesis by (auto simp: triage_mail_def)
qed

definition send_count :: "a2a_method list \<Rightarrow> nat" where
  "send_count ms = length (filter (\<lambda>m. m = MessageSend) ms)"

lemma sends_simps [simp]: "send_count [] = 0" "send_count (m # ms) = (if m = MessageSend then 1 else 0) + send_count ms"
  "send_count (ms @ ns) = send_count ms + send_count ns" "send_count (replicate n TasksGet) = 0"
  by (simp_all add: send_count_def filter_replicate)

lemma ask_sends: "ask cfg agent retry c = (r, c') \<Longrightarrow> send_count (cr_log c') = send_count (cr_log c) + 1"
proof -
  assume a: "ask cfg agent retry c = (r, c')"
  let ?call = "call_agent agent (tc_agent_url cfg) (if retry then prompt_retry cfg else prompt_first cfg) (per_call cfg) 10
      (if retry then ''triage-cron-retry'' else ''triage-cron'') c"
  have "c' = snd ?call" using a by (auto simp: ask_def mbind_def split: prod.splits sum.splits)
  moreover obtain n where "cr_log (snd ?call) = cr_log c @ MessageSend # replicate n TasksGet"
    using call_agent_log [of 10 "per_call cfg" agent "tc_agent_url cfg" "if retry then prompt_retry cfg else prompt_first cfg"
        "if retry then ''triage-cron-retry'' else ''triage-cron''" c] by auto
  ultimately show ?thesis by simp
qed

lemma triage_loop_sends:
  "1 \<le> backoff \<Longrightarrow> send_count (cr_log (snd (triage_loop cfg agent deadline backoff retry c)))
     \<le> send_count (cr_log c) + (deadline - cr_now c) div 1000 + (if retry then 1 else 2)"
proof (induction backoff retry c rule: triage_loop_induct [where deadline = deadline])
  case (step backoff retry c)
  show ?case
  proof (cases rule: triage_loop_cases [of cfg agent deadline backoff retry c])
    case (requeue reply c1 wait)
    let ?c2 = "c1\<lparr>cr_now := cr_now c1 + 1000 * wait\<rparr>"
    have now: "cr_now c < cr_now c1" using ask_now [OF requeue(1)] .
    have wait: "1 \<le> wait" using requeue(3) step.prems by auto
    have less: "deadline - cr_now ?c2 + (if retry then 0 else 1) < deadline - cr_now c + (if retry then 0 else (1 :: nat))"
      using now requeue(2) by auto
    have "(deadline - cr_now ?c2) div 1000 + 1 \<le> (deadline - cr_now c) div 1000"
    proof -
      have "deadline - cr_now ?c2 + 1000 \<le> deadline - cr_now c" using now wait requeue(2) by simp
      then have "(deadline - cr_now ?c2 + 1000) div 1000 \<le> (deadline - cr_now c) div 1000" by (rule div_le_mono)
      then show ?thesis by simp
    qed
    moreover have "1 \<le> min (backoff * 2) 120" using step.prems by simp
    note step.IH [OF less this]
    ultimately show ?thesis using requeue(4) ask_sends [OF requeue(1)] by simp
  next
    case (reask reply c1)
    have now: "cr_now c < cr_now c1" using ask_now [OF reask(1)] .
    then have "deadline - cr_now c1 + (if True then 0 else 1) < deadline - cr_now c + (if retry then 0 else (1 :: nat))"
      using reask(2) by auto
    from step.IH [OF this step.prems] reask ask_sends [OF reask(1)]
      div_le_mono [of "deadline - cr_now c1" "deadline - cr_now c" 1000] now
    show ?thesis by auto
  qed (auto dest!: ask_sends)
qed

text \<open>
  A run asks the agent at most twice more than its requeue window has seconds, however
  the agent and its backend behave; the loop always ends.
\<close>

theorem triage_asks_bounded:
  "send_count (cr_log (snd (triage_main cfg agent notify day c))) \<le> send_count (cr_log c) + tc_window cfg + 2"
  using triage_loop_sends [of 20 cfg agent "cr_now c + 1000 * tc_window cfg" False c]
  by (simp add: triage_main_def snd_mbind_mlift)

text \<open>An agent that answers at once with a report of two lines.\<close>

definition report_text :: string where
  "report_text = ''PROBLEM:'' @ [newline] @ ''disk sda1 is full''"

definition demo_body :: string where
  "demo_body = dumps (JObj [(''result'', JObj [(''status'', JObj [(''state'', JStr ''completed''),
     (''message'', JObj [(''parts'', JList [JObj [(''kind'', JStr ''text''), (''text'', JStr report_text)]])])])])])"

definition demo_reporter :: "unit agent" where
  "demo_reporter url p w =
     (A2aBody demo_body 0, w)"

definition demo_triage :: triage_config where
  "demo_triage = \<lparr>tc_agent_url = ''u'', tc_agent_name = ''storage'', tc_title = ''t'', tc_budget = 800, tc_window = 900, tc_prompt = ''p''\<rparr>"

lemma demo_reply:
  "reply_of (parse_jsonrpc demo_body)
     = Inr (JStr report_text, JStr ''completed'', [(''status'', JObj [(''state'', JStr ''completed''),
         (''message'', JObj [(''parts'', JList [JObj [(''kind'', JStr ''text''), (''text'', JStr report_text)]])])])])"
  by code_simp

lemma demo_verdict: "judge (JStr report_text) = Inr (Sent report_text)"
  by code_simp

lemma demo_mail:
  "\<exists>c'. triage_main demo_triage demo_reporter (\<lambda>_. Inr ()) ''d'' \<lparr>cr_world = (), cr_now = 0, cr_log = []\<rparr>
     = (Inr (Sent report_text, Some (triage_mail demo_triage ''d'' report_text)), c')"
proof -
  have "report_text \<noteq> []" by (simp add: report_text_def)
  then have "\<exists>c1. ask demo_triage demo_reporter False \<lparr>cr_world = (), cr_now = 0, cr_log = []\<rparr> = (Inr (JStr report_text, False), c1)"
    by (simp add: ask_def call_agent_def a2a_post_def demo_reporter_def demo_reply mbind_def is_terminal_def TERMINAL_def
        is_backend_unavailable_def startswith_def)
  then show ?thesis
    by (auto simp: triage_main_def mbind_def triage_loop.simps demo_verdict)
qed

theorem triage_mails_only_findings_witness:
  "\<exists>s. replied demo_triage demo_reporter (JStr s) \<and> classify_tag s = Some Problem
    \<and> ml_body (triage_mail demo_triage ''d'' report_text) = strip_roster s \<and> \<not> is_empty_finding (strip_roster s)"
proof -
  obtain c' where "triage_main demo_triage demo_reporter (\<lambda>_. Inr ()) ''d'' \<lparr>cr_world = (), cr_now = 0, cr_log = []\<rparr>
     = (Inr (Sent report_text, Some (triage_mail demo_triage ''d'' report_text)), c')"
    using demo_mail by blast
  from triage_mails_only_findings [OF this] show ?thesis by blast
qed

end
