(* ===== verification/PyFloat.thy ===== *)
theory PyFloat
  imports Py Complex_Main
begin

text \<open>
  Python's \<open>float\<close>: a finite double is the rational number it stands for, and every operation
  rounds its exact result to the nearest double, ties to even. The two zeros are one value.
\<close>

datatype pyfloat = Fin rat | FInf bool | NaN

section \<open>Rounding\<close>

definition pow2 :: "int \<Rightarrow> rat" where
  "pow2 k = (if 0 \<le> k then 2 ^ nat k else 1 / 2 ^ nat (- k))"

function bits :: "int \<Rightarrow> int" where
  "bits n = (if n \<le> 0 then 0 else 1 + bits (n div 2))"
  by pat_completeness auto
termination
  by (relation "measure nat") auto

declare bits.simps [simp del]

definition ilog2 :: "rat \<Rightarrow> int" where
  \<comment> \<open>the exponent of the leading bit of a positive number\<close>
  "ilog2 q = (let (n, d) = quotient_of q; e = bits n - bits d
     in if pow2 e \<le> q then e else e - 1)"

definition half_even :: "rat \<Rightarrow> int" where
  "half_even q = (let f = \<lfloor>q\<rfloor>; r = q - of_int f in
     if r < 1 / 2 then f else if 1 / 2 < r then f + 1 else if even f then f else f + 1)"

definition dbl :: "rat \<Rightarrow> pyfloat" where
  "dbl q =
     (if q = 0 then Fin 0
      else (let a = \<bar>q\<bar>; u = max (ilog2 a - 52) (- 1074); v = of_int (half_even (a / pow2 u)) * pow2 u
            in if 1024 \<le> ilog2 v then FInf (q < 0) else Fin (if q < 0 then - v else v)))"

section \<open>Operations\<close>

fun fmul :: "pyfloat \<Rightarrow> pyfloat \<Rightarrow> pyfloat" where
  "fmul (Fin a) (Fin b) = dbl (a * b)"
| "fmul (FInf s) (Fin b) = (if b = 0 then NaN else FInf (s \<noteq> (b < 0)))"
| "fmul (Fin a) (FInf t) = (if a = 0 then NaN else FInf ((a < 0) \<noteq> t))"
| "fmul (FInf s) (FInf t) = FInf (s \<noteq> t)"
| "fmul NaN y = NaN"
| "fmul x NaN = NaN"

fun fdiv :: "pyfloat \<Rightarrow> rat \<Rightarrow> pyfloat" where
  \<comment> \<open>division by a non-zero constant\<close>
  "fdiv (Fin a) k = dbl (a / k)"
| "fdiv (FInf s) k = FInf (s \<noteq> (k < 0))"
| "fdiv NaN k = NaN"

fun flt :: "pyfloat \<Rightarrow> pyfloat \<Rightarrow> bool" where
  "flt (Fin a) (Fin b) \<longleftrightarrow> a < b"
| "flt (Fin a) (FInf t) \<longleftrightarrow> \<not> t"
| "flt (FInf s) (Fin b) \<longleftrightarrow> s"
| "flt (FInf s) (FInf t) \<longleftrightarrow> s \<and> \<not> t"
| "flt NaN y \<longleftrightarrow> False"
| "flt x NaN \<longleftrightarrow> False"

fun feq :: "pyfloat \<Rightarrow> pyfloat \<Rightarrow> bool" where
  "feq NaN y \<longleftrightarrow> False"
| "feq x NaN \<longleftrightarrow> False"
| "feq x y \<longleftrightarrow> x = y"

fun round_int :: "pyfloat \<Rightarrow> int res" where
  \<comment> \<open>\<open>round(x)\<close>\<close>
  "round_int (Fin q) = Inr (half_even q)"
| "round_int (FInf s) = Inl (OverflowError ''cannot convert float infinity to integer'')"
| "round_int NaN = Inl (ValueError ''cannot convert float NaN to integer'')"

fun fmt1 :: "pyfloat \<Rightarrow> string" where
  \<comment> \<open>\<open>"%.1f" % x\<close>\<close>
  "fmt1 (Fin q) =
     (let n = half_even (\<bar>q\<bar> * 10)
      in (if q < 0 then ''-'' else []) @ int_str (n div 10) @ ''.'' @ int_str (n mod 10))"
| "fmt1 (FInf s) = (if s then ''-inf'' else ''inf'')"
| "fmt1 NaN = ''nan''"

definition fixed :: "nat \<Rightarrow> rat \<Rightarrow> string" where
  \<comment> \<open>\<open>"%.df" % x\<close> of a finite double, with \<open>d\<close> digits after the point\<close>
  "fixed d q =
     (let n = half_even (\<bar>q\<bar> * 10 ^ d); fr = nat_str (nat (n mod 10 ^ d))
      in (if q < 0 then ''-'' else []) @ int_str (n div 10 ^ d) @ ''.'' @ replicate (d - length fr) (CHR ''0'') @ fr)"

section \<open>Parsing\<close>

definition split2 :: "(char \<Rightarrow> bool) \<Rightarrow> string \<Rightarrow> string \<times> string option" where
  \<comment> \<open>the text before the first such character, and the text after it if there is one\<close>
  "split2 P s = (takeWhile (\<lambda>c. \<not> P c) s, case dropWhile (\<lambda>c. \<not> P c) s of [] \<Rightarrow> None | _ # t \<Rightarrow> Some t)"

definition digit_part :: "string \<Rightarrow> bool" where
  "digit_part s \<longleftrightarrow> s = [] \<or> digit_groups s"

definition no_under :: "string \<Rightarrow> string" where
  "no_under s = filter (\<lambda>c. c \<noteq> CHR ''_'') s"

definition sign_of :: "string \<Rightarrow> bool \<times> string" where
  "sign_of s = (case s of c # cs \<Rightarrow> if c = CHR ''-'' then (True, cs) else if c = CHR ''+'' then (False, cs) else (False, s)
                        | [] \<Rightarrow> (False, []))"

definition digits_int :: "string \<Rightarrow> int" where
  "digits_int s = foldl (\<lambda>a c. a * 10 + int (digit_val c)) 0 (no_under s)"

definition exponent :: "string option \<Rightarrow> int option" where
  "exponent e =
     (case e of
        None \<Rightarrow> Some 0
      | Some t \<Rightarrow> (let (neg, ds) = sign_of t in
          if digit_groups ds then Some (if neg then - digits_int ds else digits_int ds)
          else None))"

definition decimal :: "string \<Rightarrow> rat option" where
  "decimal s =
     (let (m, e) = split2 (\<lambda>c. c = CHR ''e'' \<or> c = CHR ''E'') s; (ip, fo) = split2 (\<lambda>c. c = CHR ''.'') m;
          fr = (case fo of None \<Rightarrow> [] | Some t \<Rightarrow> t)
      in if digit_part ip \<and> digit_part fr \<and> (ip \<noteq> [] \<or> fr \<noteq> [])
         then map_option (\<lambda>x. let k = x - int (length (no_under fr)); n = of_int (digits_int (ip @ fr)) in
                 if 0 \<le> k then n * 10 ^ nat k else n / 10 ^ nat (- k)) (exponent e)
         else None)"

definition parse_float :: "string \<Rightarrow> pyfloat option" where
  \<comment> \<open>\<open>float(s)\<close>; \<open>None\<close> is the \<open>ValueError\<close>\<close>
  "parse_float s =
     (let (neg, t) = sign_of (strip s) in
      if lower t \<in> {''inf'', ''infinity''} then Some (FInf neg)
      else if lower t = ''nan'' then Some NaN
      else map_option (\<lambda>q. dbl (if neg then - q else q)) (decimal t))"

definition json_float :: "json \<Rightarrow> pyfloat res" where
  \<comment> \<open>\<open>float(x)\<close>\<close>
  "json_float j =
     (case j of
        JStr s \<Rightarrow> (case parse_float s of Some x \<Rightarrow> Inr x | None \<Rightarrow> Inl (ValueError ''could not convert string to float''))
      | JFloat t \<Rightarrow> (case parse_float t of Some x \<Rightarrow> Inr x | None \<Rightarrow> Inl (ValueError ''could not convert string to float''))
      | JInt i \<Rightarrow> (case dbl (of_int i) of FInf _ \<Rightarrow> Inl (OverflowError ''int too large to convert to float'') | x \<Rightarrow> Inr x)
      | JBool b \<Rightarrow> Inr (Fin (if b then 1 else 0))
      | _ \<Rightarrow> Inl (TypeError (''float() argument must be a string or a real number, not '' @ repr_str (type_name j))))"

section \<open>Order\<close>

lemma flt_irrefl [simp]: "\<not> flt x x"
  by (cases x) auto

lemma flt_trans: "flt x y \<Longrightarrow> flt y z \<Longrightarrow> flt x z"
  by (cases x; cases y; cases z) auto

lemma flt_asym: "flt x y \<Longrightarrow> \<not> flt y x"
  by (cases x; cases y) auto

lemma flt_not_feq: "flt x y \<Longrightarrow> \<not> feq x y"
  by (cases x; cases y) auto

end
