(* ===== verification/AlertBridge.thy ===== *)
theory AlertBridge
  imports A2a PyFloat PyCodec
begin

text \<open>
  The alert bridge of \<open>bridge.py\<close>: the evidence it gathers for a group of firing alerts, the prompt,
  the agent's answer, the mail, and the web handler with its bounded pool of workers.

  Prometheus, the agent and the mail service are parameters. The queries of one group are
  pairwise different, so a function of the query's address is as general as a server with state.
\<close>

section \<open>Alerts\<close>

record bridge_config =
  bc_max_alerts :: int
  bc_prom_url :: string
  bc_agent_url :: string
  bc_agent_name :: string

definition MAX_PREGATHER_PODS :: nat where
  "MAX_PREGATHER_PODS = 5"

definition MAX_PREGATHER_NODES :: nat where
  "MAX_PREGATHER_NODES = 4"

record alert =
  al_name :: json
  al_ns :: json
  al_sev :: json
  al_text :: json
  al_pod :: json
  al_node :: json
  al_container :: json

definition or_else :: "json \<Rightarrow> json \<Rightarrow> json" where
  \<comment> \<open>\<open>a or b\<close>\<close>
  "or_else a b = (if truthy a then a else b)"

definition firing_one :: "dict \<Rightarrow> alert res" where
  "firing_one a =
     rbind (dict_or (get a ''labels'')) (\<lambda>lbl.
     rbind (dict_or (get a ''annotations'')) (\<lambda>ann.
       Inr \<lparr>al_name = get_or lbl ''alertname'' (JStr ''?''), al_ns = get_or lbl ''namespace'' (JStr []),
            al_sev = get_or lbl ''severity'' (JStr []),
            al_text = or_else (get ann ''description'') (or_else (get ann ''summary'') (or_else (get ann ''message'') (JStr []))),
            al_pod = get_or lbl ''pod'' (JStr []), al_node = get_or lbl ''node'' (JStr []),
            al_container = get_or lbl ''container'' (JStr [])\<rparr>))"

fun firing_loop :: "json list \<Rightarrow> alert list res" where
  "firing_loop [] = Inr []"
| "firing_loop (j # js) =
     rbind (as_dict j) (\<lambda>a.
       if get a ''status'' \<noteq> JStr ''firing'' then firing_loop js
       else rbind (firing_one a) (\<lambda>x. rbind (firing_loop js) (\<lambda>xs. Inr (x # xs))))"

definition firing :: "json \<Rightarrow> alert list res" where
  "firing payload = rbind (field payload ''alerts'' (JList [])) (\<lambda>as. rbind (iterate as) firing_loop)"

section \<open>Evidence\<close>

type_synonym prometheus = "string \<Rightarrow> string res"

definition sample :: "json \<Rightarrow> (json \<times> json) res" where
  "sample j =
     rbind (as_dict j) (\<lambda>x.
     rbind (second (or_else (get x ''value'') (JList [JNull, JStr []]))) (\<lambda>v.
       Inr (or_else (get x ''metric'') (JObj []), v)))"

definition samples :: "string \<Rightarrow> (json \<times> json) list res" where
  "samples body =
     rbind (json_loads body) (\<lambda>j. rbind (as_dict j) (\<lambda>d.
       if get d ''status'' \<noteq> JStr ''success'' then Inr []
       else rbind (dict_or (get d ''data'')) (\<lambda>dd.
         rbind (iterate (get_or dd ''result'' (JList []))) (rmap sample))))"

definition prom :: "bridge_config \<Rightarrow> prometheus \<Rightarrow> string \<Rightarrow> (json \<times> json) list" where
  "prom cfg net query =
     (if bc_prom_url cfg = [] then []
      else (case rbind (net (rstrip_chars ''/'' (bc_prom_url cfg) @ ''/api/v1/query?query='' @ quote_plus query)) samples of
          Inr rows \<Rightarrow> rows
        | Inl _ \<Rightarrow> []))"

definition first :: "(json \<times> json) list \<Rightarrow> json" where
  "first rows = (case rows of [] \<Rightarrow> JNull | (_, v) # _ \<Rightarrow> v)"

abbreviation q2 :: "string \<Rightarrow> string" where
  "q2 s \<equiv> quote # s @ [quote]"

definition short :: "json \<Rightarrow> string res" where
  \<comment> \<open>\<open>x.split(".")[0]\<close>\<close>
  "short j = (case j of JStr s \<Rightarrow> Inr (before (CHR ''.'') s) | _ \<Rightarrow> Inl (attr_error j ''split''))"

definition mebi :: "json \<Rightarrow> int res" where
  \<comment> \<open>\<open>round(float(x) / 1048576)\<close>\<close>
  "mebi j = rbind (json_float j) (\<lambda>x. round_int (fdiv x 1048576))"

definition tolerate :: "string \<Rightarrow> string res \<Rightarrow> (string \<Rightarrow> string res) \<Rightarrow> string res" where
  \<comment> \<open>one statement of a block that ignores a \<open>TypeError\<close> and a \<open>ValueError\<close>: the text so far, the
    text after the statement, and the rest of the block\<close>
  "tolerate sofar stmt cont =
     (case stmt of
        Inr s \<Rightarrow> cont s
      | Inl (TypeError _) \<Rightarrow> Inr sofar
      | Inl (ValueError _) \<Rightarrow> Inr sofar
      | Inl e \<Rightarrow> Inl e)"

definition add_memory :: "string \<Rightarrow> json \<Rightarrow> json \<Rightarrow> json \<Rightarrow> string res" where
  "add_memory seg peak limit wss =
     tolerate seg
       (if peak \<noteq> JNull \<and> limit \<noteq> JNull then
          rbind (mebi peak) (\<lambda>p. rbind (mebi limit) (\<lambda>l.
            Inr (seg @ '' mem_usage_peak='' @ int_str p @ ''Mi/limit='' @ int_str l @ ''Mi'')))
        else if peak \<noteq> JNull then rbind (mebi peak) (\<lambda>p. Inr (seg @ '' mem_usage_peak='' @ int_str p @ ''Mi''))
        else Inr seg)
       (\<lambda>seg1. tolerate seg1
          (if wss \<noteq> JNull then rbind (mebi wss) (\<lambda>w. Inr (seg1 @ '' working_set_peak='' @ int_str w @ ''Mi'')) else Inr seg1)
          Inr)"

definition pod_node :: "alert \<Rightarrow> (json \<times> json) list \<Rightarrow> json res" where
  "pod_node a info =
     rbind (case info of [] \<Rightarrow> Inr (JStr []) | (metric, _) # _ \<Rightarrow> rbind (as_dict metric) (\<lambda>d. Inr (get d ''node'')))
       (\<lambda>n. Inr (or_else n (or_else (al_node a) (JStr []))))"

definition pod_line :: "bridge_config \<Rightarrow> prometheus \<Rightarrow> alert \<Rightarrow> json list \<Rightarrow> (string \<times> json list) res" where
  \<comment> \<open>the line of one pod, and the nodes with its node\<close>
  "pod_line cfg net a nodes =
     (let container = or_else (al_container a) (JStr []);
          sel = ''namespace='' @ q2 (py_str (al_ns a)) @ '',pod='' @ q2 (py_str (al_pod a));
          restarts = first (prom cfg net (''max(kube_pod_container_status_restarts_total{'' @ sel @ ''})''));
          info = prom cfg net (''kube_pod_info{'' @ sel @ ''}'');
          csel = sel @ (if truthy container then '',container='' @ q2 (py_str container) else '',container!='' @ q2 []);
          limit = first (prom cfg net (''max(kube_pod_container_resource_limits{'' @ csel @ '',resource='' @ q2 ''memory'' @ ''})''));
          peak = first (prom cfg net (''max(max_over_time(container_memory_usage_bytes{'' @ csel @ ''}[30m]))''));
          wss = first (prom cfg net (''max(max_over_time(container_memory_working_set_bytes{'' @ csel @ ''}[30m]))''));
          seg = ''  '' @ py_str (al_ns a) @ ''/'' @ py_str (al_pod a) @ '':''
                @ (if truthy container then '' container='' @ py_str container else [])
                @ (if restarts \<noteq> JNull then '' restarts='' @ before (CHR ''.'') (py_str restarts) else [])
      in rbind (pod_node a info) (\<lambda>node.
         rbind (if truthy node then rbind (short node) (\<lambda>s. Inr (seg @ '' node='' @ s, if node \<in> set nodes then nodes else nodes @ [node]))
                else Inr (seg, nodes)) (\<lambda>(seg1, nodes1).
         rbind (add_memory seg1 peak limit wss) (\<lambda>seg2. Inr (seg2, nodes1)))))"

fun pod_lines :: "bridge_config \<Rightarrow> prometheus \<Rightarrow> alert list \<Rightarrow> (json \<times> json) list \<Rightarrow> json list \<Rightarrow> (string list \<times> json list) res" where
  "pod_lines cfg net [] seen nodes = Inr ([], nodes)"
| "pod_lines cfg net (a # as) seen nodes =
     (let key = (al_ns a, al_pod a) in
      if \<not> truthy (al_pod a) then pod_lines cfg net as seen nodes
      else if \<not> (hashable (al_ns a) \<and> hashable (al_pod a)) then Inl (TypeError ''unhashable type'')
      else if key \<in> set seen then pod_lines cfg net as seen nodes
      else if MAX_PREGATHER_PODS < length seen + 1 then Inr ([], nodes)
      else rbind (pod_line cfg net a nodes) (\<lambda>(l, nodes1).
           rbind (pod_lines cfg net as (key # seen) nodes1) (\<lambda>(ls, ns). Inr (l # ls, ns))))"

definition tolerate_parts :: "string list \<Rightarrow> string res \<Rightarrow> (string list \<Rightarrow> string list res) \<Rightarrow> string list res" where
  "tolerate_parts sofar stmt cont =
     (case stmt of
        Inr s \<Rightarrow> cont (sofar @ [s])
      | Inl (TypeError _) \<Rightarrow> Inr sofar
      | Inl (ValueError _) \<Rightarrow> Inr sofar
      | Inl e \<Rightarrow> Inl e)"

definition part_if :: "json \<Rightarrow> (pyfloat \<Rightarrow> string res) \<Rightarrow> string list \<Rightarrow> (string list \<Rightarrow> string list res) \<Rightarrow> string list res" where
  "part_if v show_value sofar cont =
     (if v = JNull then cont sofar else tolerate_parts sofar (rbind (json_float v) show_value) cont)"

definition node_parts :: "json \<Rightarrow> json \<Rightarrow> json \<Rightarrow> string list res" where
  "node_parts temp load cpu =
     part_if temp (\<lambda>x. rbind (round_int x) (\<lambda>i. Inr (''temp='' @ int_str i @ [CHR 0xB0] @ ''C''))) [] (\<lambda>ps.
     part_if load (\<lambda>x. Inr (''load1='' @ fmt1 x)) ps (\<lambda>ps.
     part_if cpu (\<lambda>x. rbind (round_int (fmul x (Fin 100))) (\<lambda>i. Inr (''cpu='' @ int_str i @ ''%''))) ps Inr))"

definition node_line :: "bridge_config \<Rightarrow> prometheus \<Rightarrow> json \<Rightarrow> string list res" where
  "node_line cfg net node =
     (let inst = q2 (py_str node @ ''.*'');
          temp = first (prom cfg net (''max(node_hwmon_temp_celsius{instance=~'' @ inst @ ''})''));
          load = first (prom cfg net (''max(node_load1{instance=~'' @ inst @ ''})''));
          cpu = first (prom cfg net (''1 - avg(rate(node_cpu_seconds_total{instance=~'' @ inst @ '',mode='' @ q2 ''idle'' @ ''}[5m]))''))
      in rbind (node_parts temp load cpu) (\<lambda>ps.
         if ps = [] then Inr []
         else rbind (short node) (\<lambda>s. Inr [''  node '' @ s @ '': '' @ join '', '' ps])))"

definition evidence_head :: string where
  "evidence_head = [newline] @ [newline] @ ''Pre-gathered evidence (Prometheus, live):'' @ [newline]"

definition evidence_tail :: string where
  "evidence_tail =
     [newline] @ ''(A node at temp>=90'' @ [CHR 0xB0]
     @ ''C or load1 far above its core count means the NODE may be the cause, not the pod. For an ''
     @ ''OOMKilled/memory alert the relevant comparison is the pod'' @ [CHR 0x27]
     @ ''s mem_usage_peak (cgroup-enforced) vs its limit above '' @ [em_dash]
     @ '' NOT working_set_peak, which excludes reclaimable page cache. usage_peak at or near the ''
     @ ''limit while working_set_peak is far below means a page-cache-driven OOM under heavy file ''
     @ ''I/O (a headroom gap, not an RSS leak), not a contradiction. A healthy node does NOT rule ''
     @ ''out a per-container cgroup-limit OOM. If a pod is unhealthy, pull its failing container''
     @ [CHR 0x27] @ ''s logs via Loki to confirm before concluding.)''"

definition pregather :: "bridge_config \<Rightarrow> prometheus \<Rightarrow> alert list \<Rightarrow> string res" where
  "pregather cfg net alerts =
     (if bc_prom_url cfg = [] then Inr []
      else
        rbind (pod_lines cfg net (slice_to (bc_max_alerts cfg) alerts) [] []) (\<lambda>(pods, nodes).
        rbind (rmap (node_line cfg net) (take MAX_PREGATHER_NODES nodes)) (\<lambda>ns.
          let lines = pods @ concat ns in
          Inr (if lines = [] then [] else evidence_head @ join [newline] lines @ evidence_tail))))"

section \<open>The agent\<close>

definition clip :: "json \<Rightarrow> string res" where
  \<comment> \<open>\<open>"%s" % x[:200]\<close>\<close>
  "clip j = (case j of JStr s \<Rightarrow> Inr (take 200 s) | JList xs \<Rightarrow> Inr (py_str (JList (take 200 xs)))
     | _ \<Rightarrow> Inl (TypeError ''slice''))"

definition alert_line :: "alert \<Rightarrow> string res" where
  "alert_line a =
     (let part = (\<lambda>pre v post. if truthy v then pre @ py_str v @ post else [])
      in rbind (clip (al_text a)) (\<lambda>t.
         Inr (''- '' @ py_str (al_name a) @ part '' ['' (al_sev a) '']'' @ part '' ns='' (al_ns a) []
              @ part '' pod='' (al_pod a) [] @ part '' container='' (al_container a) [] @ '': '' @ t)))"

definition prompt_head :: string where
  "prompt_head =
     ''An AlertManager group just fired. Triage it with your read-only tools. For each alert: real ''
     @ ''signal or transient noise, the likely cause, and the single next step you would propose. ''
     @ ''Live evidence is pre-gathered below where available '' @ [em_dash]
     @ '' use it; it already answers '' @ [CHR 0x27] @ ''is the node healthy'' @ [CHR 0x27]
     @ '' for the affected pods, so don'' @ [CHR 0x27]
     @ ''t re-query that. If one alert is squarely another domain'' @ [CHR 0x27]
     @ ''s expertise (storage / network / ml / smart-home), you MAY delegate ONE focused deep-dive ''
     @ ''to that specialist and fold their finding in '' @ [em_dash]
     @ '' but tell the specialist this is an unattended one-way pipeline: it must answer directly ''
     @ ''from read-only inspection and MUST NOT ask for confirmation or request any input. A specialist ''
     @ ''that stalls waiting for approval hangs this whole enrichment until it times out, so if it ''
     @ ''cannot answer without confirming an action, it should decline the deep-dive and report what ''
     @ ''it found read-only. For any OOMKilled or memory alert, your reply MUST name the workload ''
     @ ''(namespace/pod/container) and state its memory limit and recent mem_usage_peak (cgroup-enforced) ''
     @ ''from the pre-gathered evidence '' @ [em_dash]
     @ '' never omit the identity or those numbers. An OOMKill is a per-container cgroup-limit event: ''
     @ ''compare mem_usage_peak vs limit, NOT working_set and NOT node memory. If mem_usage_peak ''
     @ ''sits at the limit while working_set_peak is far below, that is a page-cache-driven OOM under ''
     @ ''heavy file I/O (a headroom gap, not a leak) '' @ [em_dash]
     @ '' do not treat it as a contradiction to explain away. This is a one-way enrichment note that ''
     @ ''rides alongside the page AlertManager already sent '' @ [em_dash]
     @ '' nobody can reply, so never ask a question. If it'' @ [CHR 0x27]
     @ ''s all benign/known noise, say so briefly. Keep the whole reply under 1400 characters, plain ''
     @ ''text, no markdown.'' @ [newline] @ [newline] @ ''Firing alerts:'' @ [newline]"

definition agent_prompt :: "bridge_config \<Rightarrow> prometheus \<Rightarrow> alert list \<Rightarrow> string res" where
  "agent_prompt cfg net alerts =
     rbind (rmap alert_line (slice_to (bc_max_alerts cfg) alerts)) (\<lambda>ls.
     rbind (pregather cfg net alerts) (\<lambda>evidence. Inr (prompt_head @ join [newline] ls @ evidence)))"

fun nonempty_texts :: "json list \<Rightarrow> json list res" where
  "nonempty_texts [] = Inr []"
| "nonempty_texts (p # ps) =
     rbind (as_dict p) (\<lambda>d. rbind (nonempty_texts ps) (\<lambda>ts.
       Inr (if get d ''kind'' = JStr ''text'' \<and> truthy (get d ''text'') then get d ''text'' # ts else ts)))"

definition call_agent_once :: "(string \<Rightarrow> json \<Rightarrow> string res) \<Rightarrow> bridge_config \<Rightarrow> string \<Rightarrow> json res" where
  \<comment> \<open>\<open>_call_agent\<close>: the parameter is what the agent's endpoint answers to a request\<close>
  "call_agent_once agent cfg prompt =
     rbind (agent (bc_agent_url cfg) (send_payload prompt ''alert-bridge'')) (\<lambda>body.
     rbind (json_loads body) (\<lambda>j. rbind (as_dict j) (\<lambda>d.
     rbind (dict_or (get d ''result'')) (\<lambda>result.
     rbind (reply_parts result) (\<lambda>ps. rbind (nonempty_texts ps) (\<lambda>ts. Inr (last_text ts)))))))"

section \<open>One group\<close>

fun all_strings :: "json list \<Rightarrow> string list res" where
  "all_strings [] = Inr []"
| "all_strings (JStr s # js) = rbind (all_strings js) (\<lambda>ss. Inr (s # ss))"
| "all_strings (_ # js) = Inl (TypeError ''sequence item: expected str instance'')"

definition group_names :: "alert list \<Rightarrow> string res" where
  "group_names alerts =
     rbind (all_strings (map al_name alerts)) (\<lambda>ns. Inr (take 120 (join '', '' (sort (remdups ns)))))"

definition handle :: "(string \<Rightarrow> json \<Rightarrow> string res) \<Rightarrow> prometheus \<Rightarrow> bridge_config \<Rightarrow> json \<Rightarrow> (json \<times> mail) option res" where
  \<comment> \<open>\<open>_handle\<close> without the semaphore: the agent's answer and the mail, if one is sent\<close>
  "handle agent net cfg payload =
     rbind (firing payload) (\<lambda>alerts.
       if alerts = [] then Inr None
       else rbind (group_names alerts) (\<lambda>names.
         Inr (case rbind (agent_prompt cfg net alerts) (call_agent_once agent cfg) of
             Inl _ \<Rightarrow> None
           | Inr t \<Rightarrow>
               if truthy t
               then Some (t, \<lparr>ml_subject = ''kagent enrichment: '' @ names, ml_body = py_str t, ml_agent = bc_agent_name cfg\<rparr>)
               else None)))"

section \<open>The web handler\<close>

text \<open>
  The body of a request is what reading and decoding the announced number of bytes gives. The pool
  of workers is the semaphore's counter and the payloads of the running threads; a request finds
  out whether a thread could be started.
\<close>

record http_in =
  hi_path :: string
  hi_length :: "string option"
  hi_read :: "string res"

record bridge_state =
  bs_permits :: nat
  bs_workers :: "json list"
  bs_sent :: "mail list"

definition do_GET :: "http_in \<Rightarrow> nat" where
  "do_GET rq = (if hi_path rq = ''/healthz'' then 200 else 404)"

definition read_payload :: "http_in \<Rightarrow> json res" where
  "read_payload rq =
     (case parse_int (case hi_length rq of None \<Rightarrow> ''0'' | Some h \<Rightarrow> h) of
        None \<Rightarrow> Inl (ValueError ''invalid literal for int()'')
      | Some n \<Rightarrow> if n = 0 then Inr (JObj []) else rbind (hi_read rq) json_loads)"

definition do_POST :: "bool \<Rightarrow> http_in \<Rightarrow> (nat, bridge_state) stm" where
  \<comment> \<open>the first argument says whether the interpreter can start a thread; the result is the status\<close>
  "do_POST can_start rq st =
     (if hi_path rq \<noteq> ''/alerts'' then (Inr 404, st)
      else (case read_payload rq of
          Inl _ \<Rightarrow> (Inr 400, st)
        | Inr payload \<Rightarrow>
            if 0 < bs_permits st
            then (if can_start
                  then (Inr 202, st\<lparr>bs_permits := bs_permits st - 1, bs_workers := bs_workers st @ [payload]\<rparr>)
                  else (Inl (RuntimeError (''can'' @ [CHR 0x27] @ ''t start new thread'')), st\<lparr>bs_permits := bs_permits st - 1\<rparr>))
            else (Inr 429, st)))"

definition release :: "nat \<Rightarrow> (unit, bridge_state) stm" where
  \<comment> \<open>the release of a bounded semaphore\<close>
  "release bound st =
     (if bs_permits st < bound then (Inr (), st\<lparr>bs_permits := bs_permits st + 1\<rparr>)
      else (Inl (ValueError ''Semaphore released too many times''), st))"

definition remove_nth :: "nat \<Rightarrow> 'a list \<Rightarrow> 'a list" where
  "remove_nth i xs = take i xs @ drop (Suc i) xs"

definition finish :: "(string \<Rightarrow> json \<Rightarrow> string res) \<Rightarrow> prometheus \<Rightarrow> bridge_config \<Rightarrow> nat \<Rightarrow> nat \<Rightarrow> (unit, bridge_state) stm" where
  \<comment> \<open>the worker at the given place runs \<open>_handle\<close> to its end, the \<open>finally\<close> clause included\<close>
  "finish agent net cfg bound i st =
     (let r = handle agent net cfg (bs_workers st ! i);
          st1 = st\<lparr>bs_workers := remove_nth i (bs_workers st),
                   bs_sent := bs_sent st @ (case r of Inr (Some (_, m)) \<Rightarrow> [m] | _ \<Rightarrow> [])\<rparr>
      in case release bound st1 of
           (Inl e, st2) \<Rightarrow> (Inl e, st2)
         | (Inr _, st2) \<Rightarrow> ((case r of Inl e \<Rightarrow> Inl e | Inr _ \<Rightarrow> Inr ()), st2))"

definition initial :: "nat \<Rightarrow> bridge_state" where
  "initial bound = \<lparr>bs_permits = bound, bs_workers = [], bs_sent = []\<rparr>"

text \<open>
  The steps of the service, in any order: a request is handled, or one of the workers ends. The flag
  says whether starting a thread may fail.
\<close>

inductive bridge_step :: "bool \<Rightarrow> bridge_config \<Rightarrow> nat \<Rightarrow> bridge_state \<Rightarrow> bridge_state \<Rightarrow> bool"
  for may_fail cfg bound where
  request: "can_start \<or> may_fail \<Longrightarrow> bridge_step may_fail cfg bound st (snd (do_POST can_start rq st))"
| worker_ends: "i < length (bs_workers st) \<Longrightarrow> bridge_step may_fail cfg bound st (snd (finish agent net cfg bound i st))"

inductive reachable :: "bool \<Rightarrow> bridge_config \<Rightarrow> nat \<Rightarrow> bridge_state \<Rightarrow> bool"
  for may_fail cfg bound where
  start: "reachable may_fail cfg bound (initial bound)"
| step: "reachable may_fail cfg bound st \<Longrightarrow> bridge_step may_fail cfg bound st st' \<Longrightarrow> reachable may_fail cfg bound st'"

inductive_cases bridge_stepE: "bridge_step may_fail cfg bound st st'"

section \<open>The pool\<close>

lemma length_remove_nth [simp]: "i < length xs \<Longrightarrow> length (remove_nth i xs) = length xs - 1"
  by (simp add: remove_nth_def)

lemma do_POST_pool:
  "bs_permits (snd (do_POST can_start rq st)) + length (bs_workers (snd (do_POST can_start rq st)))
     \<le> bs_permits st + length (bs_workers st)"
  "can_start \<Longrightarrow> bs_permits (snd (do_POST can_start rq st)) + length (bs_workers (snd (do_POST can_start rq st)))
     = bs_permits st + length (bs_workers st)"
  by (auto simp: do_POST_def split: sum.splits)

lemma finish_pool:
  assumes "i < length (bs_workers st)" "bs_permits st + length (bs_workers st) \<le> bound"
  shows "bs_permits (snd (finish agent net cfg bound i st)) = Suc (bs_permits st)"
    "length (bs_workers (snd (finish agent net cfg bound i st))) = length (bs_workers st) - 1"
    "fst (finish agent net cfg bound i st) = (case handle agent net cfg (bs_workers st ! i) of Inl e \<Rightarrow> Inl e | Inr _ \<Rightarrow> Inr ())"
  using assms by (auto simp: finish_def release_def Let_def)

lemma pool_invariant:
  "reachable may_fail cfg bound st \<Longrightarrow> bs_permits st + length (bs_workers st) \<le> bound
     \<and> (\<not> may_fail \<longrightarrow> bs_permits st + length (bs_workers st) = bound)"
proof (induction rule: reachable.induct)
  case start
  then show ?case by (simp add: initial_def)
next
  case (step st st')
  from step.hyps(2) show ?case
  proof (cases rule: bridge_step.cases)
    case (request can_start rq)
    with step.IH do_POST_pool [where st = st and rq = rq] show ?thesis by (metis order_trans)
  next
    case (worker_ends i agent net)
    with step.IH finish_pool(1,2) [OF worker_ends(2)] show ?thesis by auto
  qed
qed

text \<open>
  Property C34. In every reachable state of the service at most \<open>MAX_INFLIGHT\<close> workers run, and the
  release at the end of a worker never exceeds the semaphore's bound: how a worker ends depends only
  on what handling its group did. As long as threads can be started, permits and workers always add
  up to the bound, so a permit comes back with every worker that ends.
\<close>

theorem workers_bounded:
  assumes "reachable may_fail cfg bound st"
  shows "length (bs_workers st) \<le> bound
    \<and> (\<forall>agent net i. i < length (bs_workers st) \<longrightarrow>
         fst (finish agent net cfg bound i st) = (case handle agent net cfg (bs_workers st ! i) of Inl e \<Rightarrow> Inl e | Inr _ \<Rightarrow> Inr ()))
    \<and> (\<not> may_fail \<longrightarrow> bs_permits st + length (bs_workers st) = bound)"
  using pool_invariant [OF assms] finish_pool(3) by auto

definition demo_bridge :: bridge_config where
  "demo_bridge = \<lparr>bc_max_alerts = 8, bc_prom_url = ''http://p'', bc_agent_url = ''u'', bc_agent_name = ''obs''\<rparr>"

definition alert_post :: http_in where
  "alert_post = \<lparr>hi_path = ''/alerts'', hi_length = None, hi_read = Inr []\<rparr>"

lemma alert_post_payload: "read_payload alert_post = Inr (JObj [])"
  by (simp add: alert_post_def read_payload_def parse_int_def strip_def lstrip_def rstrip_def is_space_def code_point_def
      parse_unsigned_def is_digit_def digits_val_def digit_val_def)

theorem workers_bounded_witness:
  "\<exists>st. reachable False demo_bridge 1 st \<and> length (bs_workers st) = 1 \<and> bs_permits st = 0 \<and> length (bs_workers st) \<le> 1"
proof -
  let ?st = "snd (do_POST True alert_post (initial 1))"
  have "reachable False demo_bridge 1 ?st"
    by (rule reachable.step [OF reachable.start]) (rule bridge_step.request, simp)
  moreover from workers_bounded [OF this] have "length (bs_workers ?st) \<le> 1" by blast
  moreover have "length (bs_workers ?st) = 1" "bs_permits ?st = 0"
    using alert_post_payload by (simp_all add: do_POST_def initial_def alert_post_def)
  ultimately show ?thesis by blast
qed

text \<open>
  A permit is taken before the worker's thread is started and is not given back when
  starting it fails: after as many failed starts as there are permits the service is in a state with
  no worker and no permit, from which no step leads out; it answers every further request with 429, or
  with 400 or 404 where the request is not an alert.
\<close>

theorem failed_starts_exhaust_pool:
  "\<exists>st. reachable True cfg bound st \<and> bs_workers st = []
     \<and> Collect (bridge_step True cfg bound st) \<subseteq> {st}
     \<and> (\<forall>can_start rq. fst (do_POST can_start rq st) \<in> {Inr 404, Inr 400, Inr 429})"
proof -
  have reach: "k \<le> bound \<Longrightarrow> reachable True cfg bound \<lparr>bs_permits = bound - k, bs_workers = [], bs_sent = []\<rparr>" for k
  proof (induction k)
    case 0
    then show ?case using reachable.start by (simp add: initial_def)
  next
    case (Suc k)
    let ?st = "\<lparr>bs_permits = bound - k, bs_workers = [], bs_sent = []\<rparr> :: bridge_state"
    have "snd (do_POST False alert_post ?st) = \<lparr>bs_permits = bound - Suc k, bs_workers = [], bs_sent = []\<rparr>"
      using Suc.prems alert_post_payload by (simp add: do_POST_def) (simp add: alert_post_def)
    moreover have "reachable True cfg bound (snd (do_POST False alert_post ?st))"
      using Suc by (intro reachable.step [OF _ bridge_step.request]) auto
    ultimately show ?case by simp
  qed
  let ?dead = "\<lparr>bs_permits = 0, bs_workers = [], bs_sent = []\<rparr> :: bridge_state"
  have "reachable True cfg bound ?dead" using reach [of bound] by simp
  moreover have "st' = ?dead" if "bridge_step True cfg bound ?dead st'" for st'
    using that by (cases rule: bridge_step.cases) (auto simp: do_POST_def split: sum.splits)
  ultimately show ?thesis by (intro exI [of _ ?dead]) (auto simp: do_POST_def split: sum.split)
qed

section \<open>One group of alerts\<close>

text \<open>
  Enrichment is best effort: when handling a group sends a mail, the group had a firing
  alert and the agent answered the prompt with a text, which is the body; whenever the agent cannot be
  reached or its answer cannot be read, nothing is sent.
\<close>

theorem mail_carries_agent_text:
  assumes "handle agent net cfg payload = Inr (Some (t, m))"
  shows "\<exists>alerts prompt. firing payload = Inr alerts \<and> alerts \<noteq> [] \<and> agent_prompt cfg net alerts = Inr prompt
    \<and> call_agent_once agent cfg prompt = Inr t \<and> truthy t \<and> ml_body m = py_str t"
proof -
  from assms obtain alerts names where a: "firing payload = Inr alerts" "alerts \<noteq> []" "group_names alerts = Inr names"
    by (auto simp: handle_def rbind_Inr_iff split: if_splits)
  let ?r = "rbind (agent_prompt cfg net alerts) (call_agent_once agent cfg)"
  obtain x where x: "?r = Inr x" using assms a by (cases ?r) (auto simp: handle_def)
  with assms a have "x = t" "truthy t" "ml_body m = py_str t" by (auto simp: handle_def split: if_splits)
  with x a show ?thesis by (auto simp: rbind_Inr_iff)
qed

text \<open>An alert whose labels are strings, as Prometheus labels are.\<close>

definition str_field :: "json \<Rightarrow> bool" where
  "str_field j \<longleftrightarrow> (\<exists>s. j = JStr s)"

definition plain_alert :: "alert \<Rightarrow> bool" where
  "plain_alert a \<longleftrightarrow> str_field (al_text a) \<and> str_field (al_ns a) \<and> str_field (al_pod a) \<and> str_field (al_node a)"

lemma plain_alertD:
  assumes "plain_alert a"
  shows "hashable (al_ns a)" "hashable (al_pod a)" "\<exists>s. or_else (al_node a) (JStr []) = JStr s" "\<exists>t. clip (al_text a) = Inr t"
  using assms by (auto simp: plain_alert_def str_field_def or_else_def clip_def)

lemma prom_down: "prom cfg (\<lambda>_. Inl e) q = []"
  by (simp add: prom_def)

lemma pod_line_down:
  assumes "plain_alert a"
  shows "\<exists>l ns. pod_line cfg (\<lambda>_. Inl e) a nodes = Inr (l, ns) \<and> (\<forall>n\<in>set ns. str_field n \<or> n \<in> set nodes)"
proof -
  obtain s where s: "or_else (al_node a) (JStr []) = JStr s" using plain_alertD(3) [OF assms] by blast
  have "pod_node a [] = Inr (JStr s)" by (simp add: pod_node_def or_else_def [of "JStr []"] s)
  then show ?thesis
    by (simp add: pod_line_def prom_down first_def add_memory_def tolerate_def short_def Let_def)
      (auto simp: str_field_def)
qed

lemma pod_lines_down:
  "(\<forall>a\<in>set as. plain_alert a) \<Longrightarrow> \<exists>ls ns. pod_lines cfg (\<lambda>_. Inl e) as seen nodes = Inr (ls, ns)"
proof (induction as arbitrary: seen nodes)
  case (Cons a as)
  obtain l ns where "pod_line cfg (\<lambda>_. Inl e) a nodes = Inr (l, ns)" using pod_line_down Cons.prems by fastforce
  moreover obtain ls ns' where "pod_lines cfg (\<lambda>_. Inl e) as ((al_ns a, al_pod a) # seen) ns = Inr (ls, ns')"
    using Cons by fastforce
  ultimately show ?case using Cons plain_alertD(1,2) [of a] by (auto simp: Let_def)
qed simp

lemma node_line_down: "node_line cfg (\<lambda>_. Inl e) n = Inr []"
  by (simp add: node_line_def prom_down first_def node_parts_def part_if_def)

lemma rmap_all_ok: "(\<And>x. x \<in> set xs \<Longrightarrow> \<exists>y. f x = Inr y) \<Longrightarrow> \<exists>ys. rmap f xs = Inr ys"
proof (induction xs)
  case (Cons x xs)
  then obtain y ys where "f x = Inr y" "rmap f xs = Inr ys" by fastforce
  then show ?case by simp
qed simp

lemma alert_line_total: "plain_alert a \<Longrightarrow> \<exists>l. alert_line a = Inr l"
proof -
  assume "plain_alert a"
  then obtain t where "clip (al_text a) = Inr t" using plain_alertD(4) by blast
  then show ?thesis by (simp add: alert_line_def)
qed

lemma prompt_total:
  assumes "\<forall>a\<in>set alerts. plain_alert a"
  shows "\<exists>p. agent_prompt cfg (\<lambda>_. Inl e) alerts = Inr p"
proof -
  let ?as = "slice_to (bc_max_alerts cfg) alerts"
  have sub: "\<forall>a\<in>set ?as. plain_alert a" using assms by (auto simp: slice_to_def dest: in_set_takeD)
  have "\<exists>ls. rmap alert_line ?as = Inr ls"
    by (rule rmap_all_ok) (use sub alert_line_total in blast)
  moreover obtain ls ns where "pod_lines cfg (\<lambda>_. Inl e) ?as [] [] = Inr (ls, ns)" using pod_lines_down [OF sub] by blast
  moreover have "\<exists>ys. rmap (node_line cfg (\<lambda>_. Inl e)) (take MAX_PREGATHER_NODES ns) = Inr ys"
    by (rule rmap_all_ok) (simp add: node_line_down)
  moreover from calculation have "\<exists>ev. pregather cfg (\<lambda>_. Inl e) alerts = Inr ev" by (auto simp: pregather_def Let_def)
  ultimately show ?thesis by (auto simp: agent_prompt_def)
qed

text \<open>
  When every Prometheus query fails, the prompt is still built for alerts whose labels
  are strings, and the agent is asked.
\<close>

theorem prompt_without_prometheus:
  assumes "\<forall>a\<in>set alerts. plain_alert a"
  shows "\<exists>p. agent_prompt cfg (\<lambda>_. Inl e) alerts = Inr p"
  using assms by (rule prompt_total)

section \<open>A concrete group\<close>

definition demo_payload :: json where
  "demo_payload = JObj [(''alerts'', JList [JObj [(''status'', JStr ''firing''),
     (''labels'', JObj [(''alertname'', JStr ''Oom''), (''namespace'', JStr ''media''), (''pod'', JStr ''sab-0'')]),
     (''annotations'', JObj [(''summary'', JStr ''killed'')])]])]"

definition demo_alert :: alert where
  "demo_alert = \<lparr>al_name = JStr ''Oom'', al_ns = JStr ''media'', al_sev = JStr [], al_text = JStr ''killed'',
     al_pod = JStr ''sab-0'', al_node = JStr [], al_container = JStr []\<rparr>"

lemma demo_firing: "firing demo_payload = Inr [demo_alert]"
  by (simp add: firing_def demo_payload_def field_def get_or_def firing_one_def dict_or_def or_else_def demo_alert_def get_def)

lemma demo_plain: "plain_alert demo_alert"
  by (simp add: plain_alert_def str_field_def demo_alert_def)

theorem prompt_without_prometheus_witness: "\<exists>p. agent_prompt demo_bridge (\<lambda>_. Inl (OSError ''refused'')) [demo_alert] = Inr p"
  by (rule prompt_without_prometheus) (simp add: demo_plain)

definition demo_answer_body :: string where
  "demo_answer_body = dumps (JObj [(''result'', JObj [(''artifacts'', JList [JObj [(''parts'', JList
     [JObj [(''kind'', JStr ''text''), (''text'', JStr ''noise'')]])]])])])"

lemma demo_once: "call_agent_once (\<lambda>_ _. Inr demo_answer_body) cfg p = Inr (JStr ''noise'')"
proof -
  have "loads demo_answer_body = Some (JObj [(''result'', JObj [(''artifacts'', JList [JObj [(''parts'', JList
     [JObj [(''kind'', JStr ''text''), (''text'', JStr ''noise'')]])]])])])" by code_simp
  then show ?thesis
    by (simp add: call_agent_once_def json_loads_def dict_or_def reply_parts_def items_or_def last_text_def)
qed

theorem mail_carries_agent_text_witness:
  "\<exists>m alerts prompt. handle (\<lambda>_ _. Inr demo_answer_body) (\<lambda>_. Inl (OSError ''refused'')) demo_bridge demo_payload = Inr (Some (JStr ''noise'', m))
    \<and> firing demo_payload = Inr alerts \<and> alerts \<noteq> [] \<and> agent_prompt demo_bridge (\<lambda>_. Inl (OSError ''refused'')) alerts = Inr prompt
    \<and> ml_body m = ''noise''"
proof -
  obtain p where p: "agent_prompt demo_bridge (\<lambda>_. Inl (OSError ''refused'')) [demo_alert] = Inr p"
    using prompt_total [of "[demo_alert]"] demo_plain by auto
  then have "\<exists>m. handle (\<lambda>_ _. Inr demo_answer_body) (\<lambda>_. Inl (OSError ''refused'')) demo_bridge demo_payload = Inr (Some (JStr ''noise'', m))"
    by (simp add: handle_def demo_firing group_names_def demo_alert_def demo_once)
  then show ?thesis using mail_carries_agent_text by fastforce
qed

definition inf_body :: string where
  "inf_body = dumps (JObj [(''status'', JStr ''success''), (''data'', JObj [(''result'', JList
     [JObj [(''metric'', JObj []), (''value'', JList [JInt 0, JStr ''+Inf''])]])])])"

lemma inf_samples: "samples inf_body = Inr [(JObj [], JStr ''+Inf'')]"
  by code_simp

lemma inf_mebi: "mebi (JStr ''+Inf'') = Inl (OverflowError ''cannot convert float infinity to integer'')"
  by code_simp

lemma inf_prom: "prom demo_bridge (\<lambda>_. Inr inf_body) q = [(JObj [], JStr ''+Inf'')]"
  by (simp add: prom_def demo_bridge_def inf_samples)

lemma inf_pregather:
  "pregather demo_bridge (\<lambda>_. Inr inf_body) [demo_alert] = Inl (OverflowError ''cannot convert float infinity to integer'')"
proof -
  have "pod_line demo_bridge (\<lambda>_. Inr inf_body) demo_alert [] = Inl (OverflowError ''cannot convert float infinity to integer'')"
    by (simp add: pod_line_def inf_prom first_def pod_node_def or_else_def add_memory_def tolerate_def inf_mebi demo_alert_def Let_def)
  then have "pod_lines demo_bridge (\<lambda>_. Inr inf_body) [demo_alert] [] [] = Inl (OverflowError ''cannot convert float infinity to integer'')"
    by (simp add: MAX_PREGATHER_PODS_def) (simp add: demo_alert_def MAX_PREGATHER_PODS_def)
  then show ?thesis by (simp add: pregather_def demo_bridge_def slice_to_def)
qed

text \<open>
  A sample of plus infinity is not survived: when Prometheus answers the memory queries
  of a pod with it, building the evidence raises an overflow that nothing before the agent's call
  catches, so whatever the agent would say, it is not asked and no mail is sent.
\<close>

theorem infinite_sample_suppresses_enrichment:
  "agent_prompt demo_bridge (\<lambda>_. Inr inf_body) [demo_alert] = Inl (OverflowError ''cannot convert float infinity to integer'')
   \<and> handle agent (\<lambda>_. Inr inf_body) demo_bridge demo_payload = Inr None"
proof -
  have "\<exists>l. rmap alert_line (slice_to (bc_max_alerts demo_bridge) [demo_alert]) = Inr l"
    using alert_line_total [OF demo_plain] by (auto simp: demo_bridge_def slice_to_def)
  then have "agent_prompt demo_bridge (\<lambda>_. Inr inf_body) [demo_alert] = Inl (OverflowError ''cannot convert float infinity to integer'')"
    by (auto simp: agent_prompt_def inf_pregather)
  then show ?thesis by (simp add: handle_def demo_firing group_names_def) (simp add: demo_alert_def)
qed

end
