(* ===== verification/PyScan.thy ===== *)
theory PyScan
  imports PyRe
begin

text \<open>
  The first match of an expression on a text of known shape, step by step: an expression leads from a
  position to another if the first of its matches there ends at the other, and a search finds the match
  at the first position from which the expression leads anywhere.
\<close>

definition leads :: "re \<Rightarrow> pos \<Rightarrow> pos \<Rightarrow> bool" where
  "leads r m m' \<longleftrightarrow> (\<exists>ms. matches r m = m' # ms)"

lemma leads_Cat: "leads a m m1 \<Longrightarrow> leads b m1 m2 \<Longrightarrow> leads (Cat a b) m m2"
  by (auto simp: leads_def)

lemma leads_Alt: "leads a m m1 \<Longrightarrow> leads (Alt a b) m m1"
  by (auto simp: leads_def)

lemma leads_Alt_right: "matches a m = [] \<Longrightarrow> leads b m m1 \<Longrightarrow> leads (Alt a b) m m1"
  by (auto simp: leads_def)

lemma leads_Eps: "leads Eps m m"
  by (simp add: leads_def)

lemma leads_Grp:
  "leads a (p, t @ s, c) (p', s, c') \<Longrightarrow> leads (Grp n a) (p, t @ s, c) (p', s, AList.update n t c')"
  by (auto simp: leads_def)

lemma leads_Cls: "P x \<Longrightarrow> leads (Cls P) (p, x # s, c) (x # p, s, c)"
  by (simp add: leads_def)

lemma leads_Str: "leads (Str w) (p, w @ s, c) (rev w @ p, s, c)"
proof (induction w arbitrary: p rule: Str.induct)
  case (3 x y w)
  have "leads (Chr x) (p, x # (y # w) @ s, c) (x # p, (y # w) @ s, c)" by (rule leads_Cls) simp
  from leads_Cat [OF this 3] show ?case by simp
qed (simp_all add: leads_def)

lemma leads_StrI: "lower v = lower w \<Longrightarrow> leads (StrI w) (p, v @ s, c) (rev v @ p, s, c)"
proof (induction w arbitrary: v p)
  case (Cons x w)
  then obtain y v' where v: "v = y # v'" "to_lower y = to_lower x" "lower v' = lower w"
    by (cases v) (auto simp: lower_def)
  have "leads (Cls (\<lambda>z. to_lower z = to_lower x)) (p, y # v' @ s, c) (y # p, v' @ s, c)"
    using v by (intro leads_Cls) simp
  from leads_Cat [OF this Cons.IH [OF v(3)]] v(1) show ?case by simp
qed (simp add: leads_def lower_def)

lemma leads_Star:
  assumes "\<forall>x \<in> set t. P x" "u = [] \<or> \<not> P (hd u)"
  shows "leads (Star (Cls P)) (p, t @ u, c) (rev t @ p, u, c)"
  using assms(1)
proof (induction t arbitrary: p)
  case Nil
  from assms(2) show ?case by (cases u) (auto simp: leads_def star.simps)
next
  case (Cons x t)
  then have "leads (Star (Cls P)) (x # p, t @ u, c) (rev t @ x # p, u, c)" by simp
  with Cons.prems show ?case by (auto simp: leads_def star.simps [of _ "(p, x # t @ u, c)"])
qed

lemma leads_Plus:
  assumes "t \<noteq> []" "\<forall>x \<in> set t. P x" "u = [] \<or> \<not> P (hd u)"
  shows "leads (Plus (Cls P)) (p, t @ u, c) (rev t @ p, u, c)"
proof -
  obtain x t' where t: "t = x # t'" using assms(1) by (cases t) auto
  have "leads (Cls P) (p, x # t' @ u, c) (x # p, t' @ u, c)" using assms(2) t by (intro leads_Cls) simp
  from leads_Cat [OF this leads_Star [of t' P u]] assms t show ?thesis by simp
qed

lemma Cat_none: "matches a m = [] \<Longrightarrow> matches (Cat a b) m = []"
  by simp

lemma StrI_none: "\<not> startswith (lower s) (lower w) \<Longrightarrow> matches (StrI w) (p, s, c) = []"
proof (induction w arbitrary: p s)
  case (Cons x w)
  show ?case
  proof (cases s)
    case (Cons y v)
    with Cons.prems Cons.IH [of v "y # p"] show ?thesis by (auto simp: startswith_def lower_def)
  qed simp
qed (simp add: startswith_def lower_def)

lemma Str_none: "\<not> startswith s w \<Longrightarrow> matches (Str w) (p, s, c) = []"
proof (induction w arbitrary: p s rule: Str.induct)
  case (2 x)
  then show ?case by (cases s) (auto simp: startswith_def)
next
  case (3 x y w)
  show ?case
  proof (cases s)
    case (Cons z v)
    with 3 show ?thesis by (auto simp: startswith_def)
  qed simp
qed (simp add: startswith_def)

lemma re_search_from_leads:
  assumes "leads r (rev t @ p, u, []) m" "\<And>v w. t = v @ w \<Longrightarrow> w \<noteq> [] \<Longrightarrow> matches r (rev v @ p, w @ u, []) = []"
  shows "re_search_from r p (t @ u) = Some (length p + length t, m)"
  using assms
proof (induction t arbitrary: p)
  case Nil
  then show ?case by (subst re_search_from.simps) (auto simp: leads_def first_match_def)
next
  case (Cons x t)
  from Cons.prems(2) [of "[]" "x # t"] have "matches r (p, x # t @ u, []) = []" by simp
  moreover have "re_search_from r (x # p) (t @ u) = Some (length (x # p) + length t, m)"
  proof (rule Cons.IH)
    show "matches r (rev v @ x # p, w @ u, []) = []" if "t = v @ w" "w \<noteq> []" for v w
      using Cons.prems(2) [of "x # v" w] that by simp
  qed (use Cons.prems(1) in simp)
  ultimately show ?case by (subst re_search_from.simps) (simp add: first_match_def)
qed

lemma re_search_leads:
  assumes "leads r (rev t, u, []) m" "\<And>v w. t = v @ w \<Longrightarrow> w \<noteq> [] \<Longrightarrow> matches r (rev v, w @ u, []) = []"
  shows "re_search r (t @ u) = Some (length t, m)"
  using re_search_from_leads [of r t "[]" u m] assms by (simp add: re_search_def)

lemma startswith_contains: "startswith s w \<Longrightarrow> contains (v @ s) w"
  by (induction v) (cases s; auto simp: startswith_def)+

text \<open>A word that does not occur in a text does not begin in it either, if the text ends a line.\<close>

lemma no_start_in:
  assumes "\<not> contains (lower t) w" "t = v @ x" "x \<noteq> []" "last t = newline" "newline \<notin> set w"
  shows "\<not> startswith (lower (x @ u)) w"
proof
  assume s: "startswith (lower (x @ u)) w"
  show False
  proof (cases "length w \<le> length x")
    case True
    with s have "startswith (lower x) w" by (simp add: startswith_def lower_def)
    then have "contains (lower v @ lower x) w" by (rule startswith_contains)
    with assms(1,2) show False by (simp add: lower_def)
  next
    case False
    obtain y where x: "x = y @ [newline]" using assms(2-4) by (cases x rule: rev_cases) auto
    from s have w: "w = take (length w) (lower (x @ u))" by (simp add: startswith_def)
    from False x have "to_lower newline \<in> set (take (length w) (lower (x @ u)))"
      by (simp add: lower_def take_Cons')
    with w have "to_lower newline \<in> set w" by simp
    moreover have "to_lower newline = newline" by code_simp
    ultimately show False using assms(5) by simp
  qed
qed

section \<open>The text of a group\<close>

text \<open>What every step of a repetition keeps, the repetition keeps.\<close>

lemma star_closure:
  assumes "\<And>m m'. m' \<in> set (f m) \<Longrightarrow> R m m'" "\<And>m. R m m" "\<And>m m1 m'. R m m1 \<Longrightarrow> R m1 m' \<Longrightarrow> R m m'"
    and "m' \<in> set (star f m)"
  shows "R m m'"
  using assms(1,4)
proof (induction f m rule: star.induct)
  case (1 f m)
  from "1.prems"(2) consider "m' = m" | m1 where "m1 \<in> set (f m)" "length (pos_rest m1) < length (pos_rest m)" "m' \<in> set (star f m1)"
    by (subst (asm) star.simps) (auto split: if_splits)
  then show ?case
    using "1.IH" "1.prems"(1) assms(2,3) by cases blast+
qed

lemma lazy_star_closure:
  assumes "\<And>m m'. m' \<in> set (f m) \<Longrightarrow> R m m'" "\<And>m. R m m" "\<And>m m1 m'. R m m1 \<Longrightarrow> R m1 m' \<Longrightarrow> R m m'"
    and "m' \<in> set (lazy_star f m)"
  shows "R m m'"
  using assms(1,4)
proof (induction f m rule: lazy_star.induct)
  case (1 f m)
  from "1.prems"(2) consider "m' = m" | m1 where "m1 \<in> set (f m)" "length (pos_rest m1) < length (pos_rest m)" "m' \<in> set (lazy_star f m1)"
    by (subst (asm) lazy_star.simps) (auto split: if_splits)
  then show ?case
    using "1.IH" "1.prems"(1) assms(2,3) by cases blast+
qed

lemma in_Cat: "m' \<in> set (matches (Cat a b) m) \<longleftrightarrow> (\<exists>m1 \<in> set (matches a m). m' \<in> set (matches b m1))"
  by auto

text \<open>An expression without a group of that number keeps what the group captured.\<close>

primrec avoids :: "nat \<Rightarrow> re \<Rightarrow> bool" where
  "avoids n (Cls P) \<longleftrightarrow> True"
| "avoids n Eps \<longleftrightarrow> True"
| "avoids n (Cat a b) \<longleftrightarrow> avoids n a \<and> avoids n b"
| "avoids n (Alt a b) \<longleftrightarrow> avoids n a \<and> avoids n b"
| "avoids n (Star a) \<longleftrightarrow> avoids n a"
| "avoids n (LazyStar a) \<longleftrightarrow> avoids n a"
| "avoids n (Grp k a) \<longleftrightarrow> k \<noteq> n \<and> avoids n a"
| "avoids n Bol \<longleftrightarrow> True"
| "avoids n Eol \<longleftrightarrow> True"
| "avoids n EndZ \<longleftrightarrow> True"
| "avoids n WordB \<longleftrightarrow> True"
| "avoids n (NotAfter P) \<longleftrightarrow> True"

lemma avoids_Str [simp]: "avoids n (Str w)"
  by (induction w rule: Str.induct) simp_all

definition same_group :: "nat \<Rightarrow> pos \<Rightarrow> pos \<Rightarrow> bool" where
  "same_group n m m' \<longleftrightarrow> map_of (snd (snd m')) n = map_of (snd (snd m)) n"

lemma avoids_keeps: "avoids n r \<Longrightarrow> m' \<in> set (matches r m) \<Longrightarrow> same_group n m m'"
proof (induction r arbitrary: m m')
  case (Cat a b)
  then obtain m1 where "m1 \<in> set (matches a m)" "m' \<in> set (matches b m1)" unfolding in_Cat by blast
  with Cat.IH(1) [of m1 m] Cat.IH(2) [of m' m1] Cat.prems(1) show ?case by (simp add: same_group_def)
next
  case (Alt a b)
  then have "m' \<in> set (matches a m) \<or> m' \<in> set (matches b m)" by simp
  with Alt.IH(1) [of m' m] Alt.IH(2) [of m' m] Alt.prems(1) show ?case by auto
next
  case (Star a)
  show ?case
  proof (rule star_closure [of "matches a"])
    show "m' \<in> set (star (matches a) m)" using Star.prems(2) by simp
    show "same_group n x y" if "y \<in> set (matches a x)" for x y using Star.IH [OF _ that] Star.prems(1) by simp
  qed (simp_all add: same_group_def)
next
  case (LazyStar a)
  show ?case
  proof (rule lazy_star_closure [of "matches a"])
    show "m' \<in> set (lazy_star (matches a) m)" using LazyStar.prems(2) by simp
    show "same_group n x y" if "y \<in> set (matches a x)" for x y using LazyStar.IH [OF _ that] LazyStar.prems(1) by simp
  qed (simp_all add: same_group_def)
next
  case (Grp k a)
  then obtain p s c where "(p, s, c) \<in> set (matches a m)" "map_of (snd (snd m')) n = map_of c n"
    by (auto simp: update_conv')
  with Grp.IH [of "(p, s, c)" m] Grp.prems(1) show ?case by (simp add: same_group_def)
qed (auto simp: same_group_def split: prod.splits list.splits if_splits)

text \<open>An expression of characters of one kind takes only those from the text.\<close>

primrec chars_in :: "(char \<Rightarrow> bool) \<Rightarrow> re \<Rightarrow> bool" where
  "chars_in P (Cls Q) \<longleftrightarrow> (\<forall>x. Q x \<longrightarrow> P x)"
| "chars_in P Eps \<longleftrightarrow> True"
| "chars_in P (Cat a b) \<longleftrightarrow> chars_in P a \<and> chars_in P b"
| "chars_in P (Alt a b) \<longleftrightarrow> chars_in P a \<and> chars_in P b"
| "chars_in P (Star a) \<longleftrightarrow> chars_in P a"
| "chars_in P (LazyStar a) \<longleftrightarrow> chars_in P a"
| "chars_in P (Grp k a) \<longleftrightarrow> chars_in P a"
| "chars_in P Bol \<longleftrightarrow> True"
| "chars_in P Eol \<longleftrightarrow> True"
| "chars_in P EndZ \<longleftrightarrow> True"
| "chars_in P WordB \<longleftrightarrow> True"
| "chars_in P (NotAfter Q) \<longleftrightarrow> True"

lemma chars_in_Str [simp]: "chars_in P (Str w) \<longleftrightarrow> (\<forall>x \<in> set w. P x)"
  by (induction w rule: Str.induct) auto

definition takes :: "(char \<Rightarrow> bool) \<Rightarrow> pos \<Rightarrow> pos \<Rightarrow> bool" where
  "takes P m m' \<longleftrightarrow> (\<exists>t. consumed m m' t \<and> (\<forall>x \<in> set t. P x))"

lemma takes_refl: "takes P m m"
  unfolding takes_def by (intro exI [of _ "[]"]) simp

lemma takes_trans: "takes P m m1 \<Longrightarrow> takes P m1 m' \<Longrightarrow> takes P m m'"
  unfolding takes_def using consumed_trans by (metis Un_iff set_append)

lemma chars_in_takes: "chars_in P r \<Longrightarrow> m' \<in> set (matches r m) \<Longrightarrow> takes P m m'"
proof (induction r arbitrary: m m')
  case (Cls Q)
  then show ?case
    by (auto simp: takes_def consumed_def split: list.splits if_splits prod.splits intro!: exI [of _ "[hd (pos_rest m)]"])
next
  case (Cat a b)
  then obtain m1 where "m1 \<in> set (matches a m)" "m' \<in> set (matches b m1)" unfolding in_Cat by blast
  with Cat.IH(1) [of m1 m] Cat.IH(2) [of m' m1] Cat.prems(1) takes_trans show ?case by (metis chars_in.simps(3))
next
  case (Alt a b)
  then have "m' \<in> set (matches a m) \<or> m' \<in> set (matches b m)" by simp
  with Alt.IH(1) [of m' m] Alt.IH(2) [of m' m] Alt.prems(1) show ?case by auto
next
  case (Star a)
  show ?case
  proof (rule star_closure [of "matches a"])
    show "m' \<in> set (star (matches a) m)" using Star.prems(2) by simp
    show "takes P x y" if "y \<in> set (matches a x)" for x y using Star.IH [OF _ that] Star.prems(1) by simp
  qed (rule takes_refl, erule (1) takes_trans)
next
  case (LazyStar a)
  show ?case
  proof (rule lazy_star_closure [of "matches a"])
    show "m' \<in> set (lazy_star (matches a) m)" using LazyStar.prems(2) by simp
    show "takes P x y" if "y \<in> set (matches a x)" for x y using LazyStar.IH [OF _ that] LazyStar.prems(1) by simp
  qed (rule takes_refl, erule (1) takes_trans)
next
  case (Grp k a)
  then obtain p s c where "(p, s, c) \<in> set (matches a m)" "fst m' = p" "pos_rest m' = s" by auto
  with Grp.IH [of "(p, s, c)" m] Grp.prems(1) show ?case by (auto simp: takes_def consumed_def)
qed (auto intro: takes_refl split: prod.splits if_splits)

text \<open>The text that a group captured, between an expression and one that avoids it, or at the start.\<close>

lemma group_captures:
  assumes "m' \<in> set (matches (Cat (Grp n r) b) m)" "avoids n b"
  obtains m2 t where "m2 \<in> set (matches r m)" "consumed m m2 t" "map_of (snd (snd m')) n = Some t"
proof -
  from assms(1) obtain m3 where m: "m3 \<in> set (matches (Grp n r) m)" "m' \<in> set (matches b m3)"
    unfolding in_Cat by blast
  from m(1) obtain p s c where p: "(p, s, c) \<in> set (matches r m)"
      "m3 = (p, s, AList.update n (take (length (pos_rest m) - length s) (pos_rest m)) c)"
    by auto
  obtain t where t: "consumed m (p, s, c) t" using matches_consumed [OF p(1)] by blast
  then have "take (length (pos_rest m) - length s) (pos_rest m) = t" by (simp add: consumed_def)
  with p(2) avoids_keeps [OF assms(2) m(2)] have "map_of (snd (snd m')) n = Some t"
    by (simp add: same_group_def update_conv')
  with that p(1) t show thesis by blast
qed

lemma group_between:
  assumes "m' \<in> set (matches (Cat a (Cat (Grp n r) b)) m)" "avoids n b"
  obtains m1 m2 t where "m1 \<in> set (matches a m)" "m2 \<in> set (matches r m1)" "consumed m1 m2 t" "map_of (snd (snd m')) n = Some t"
  using assms group_captures unfolding in_Cat [of m' a] by metis

lemma first_group_chars:
  assumes "re_match (Cat (Grp n r) b) s = Some m" "avoids n b" "chars_in P r"
  shows "\<exists>u. s = group n m @ u" "x \<in> set (group n m) \<Longrightarrow> P x"
proof -
  obtain m2 t where m: "m2 \<in> set (matches r ([], s, []))" "consumed ([], s, []) m2 t" "map_of (snd (snd m)) n = Some t"
    using group_captures [OF re_matchD [OF assms(1)] assms(2)] by blast
  from chars_in_takes [OF assms(3) m(1)] obtain t' where "consumed ([], s, []) m2 t'" "\<forall>x \<in> set t'. P x"
    by (auto simp: takes_def)
  moreover from this(1) m(2) have "t' = t" by (simp add: consumed_def)
  ultimately show "\<exists>u. s = group n m @ u" "x \<in> set (group n m) \<Longrightarrow> P x"
    using m(2,3) by (auto simp: group_def consumed_def)
qed

text \<open>A text that an expression matches up to its end.\<close>

lemma whole_match_chars:
  assumes "re_match r s \<noteq> None" "r = Cat r' EndZ" "chars_in P r'" "x \<in> set s" "x \<noteq> newline"
  shows "P x"
proof -
  from assms(1,2) obtain m m' where m: "m \<in> set (matches r' ([], s, []))" "m' \<in> set (matches EndZ m)"
    unfolding re_match_iff by (metis in_Cat)
  obtain t where t: "consumed ([], s, []) m t" "\<forall>x \<in> set t. P x"
    using chars_in_takes [OF assms(3) m(1)] by (auto simp: takes_def)
  from m(2) have "pos_rest m = [] \<or> pos_rest m = [newline]" by (auto split: prod.splits if_splits)
  with t assms(4,5) show ?thesis by (auto simp: consumed_def)
qed

end
