(* ===== verification/DoerEdit.thy ===== *)
theory DoerEdit
  imports A2a PyFloat PyScan
begin

text \<open>
  The deterministic edits of \<open>doer_pipeline.py\<close>: validation of a proposal, the quantities it
  compares, and the minimal edits of a file that is a list of lines. An edit returns the lines with
  what it did to them.
\<close>

section \<open>Validation\<close>

definition unit_digits :: re where
  "unit_digits = Plus Digit"

definition fraction :: re where
  "fraction = Opt (seqs [Chr (CHR ''.''), Plus Digit])"

definition cron_re :: re where
  "cron_re = (let f = seqs [Plus NonSpace, Plus Space] in seqs [f, f, f, f, Plus NonSpace, EndZ])"

definition retain_re :: re where
  "retain_re = seqs [unit_digits, EndZ]"

definition for_re :: re where
  "for_re = seqs [unit_digits, Cls (\<lambda>c. c \<in> set ''smhdwy''), EndZ]"

definition mem_units :: "string list" where
  "mem_units = [''Ki'', ''Mi'', ''Gi'', ''Ti'', ''Pi'', ''K'', ''M'', ''G'', ''T'', ''P'']"

definition mem_re :: re where
  "mem_re = seqs [unit_digits, fraction, alts (map Str mem_units), EndZ]"

definition cpu_re :: re where
  "cpu_re = seqs [alts [seqs [unit_digits, Chr (CHR ''m'')], seqs [unit_digits, fraction]], EndZ]"

definition value_formats :: "(string \<times> re \<times> string) list" where
  \<comment> \<open>per action, the form of its value and what the message says it is not\<close>
  "value_formats =
     [(''set_cron'', cron_re, ''a 5-field cron''),
      (''set_retain'', retain_re, ''a non-negative integer (retain)''),
      (''set_for'', for_re, ''a Prometheus duration like 5m/1h (for)''),
      (''set_mem_limit'', mem_re, ''a memory quantity like 2Gi/512Mi''),
      (''set_cpu_limit'', cpu_re, ''a cpu quantity like 500m/2/1.5'')]"

record doer_config =
  dc_agent_url :: string
  dc_agent_name :: string
  dc_allowed :: "string list"
  dc_repo :: string
  dc_token :: string
  dc_prefix :: string
  dc_git_name :: string
  dc_git_email :: string
  dc_prom_url :: string
  dc_prompt :: string
  dc_budget :: nat
  dc_window :: nat

definition blank_value :: "json \<Rightarrow> bool" where
  "blank_value nv \<longleftrightarrow> nv = JNull \<or> (case nv of JStr s \<Rightarrow> strip s = [] | _ \<Rightarrow> False)"

definition new_value_of :: "dict \<Rightarrow> string" where
  "new_value_of p = strip (py_str (get p ''new_value''))"

definition file_error :: "doer_config \<Rightarrow> json \<Rightarrow> string option res" where
  "file_error cfg f =
     (case f of
        JNull \<Rightarrow> Inr None
      | JStr s \<Rightarrow>
          Inr (if contains s ''..'' \<or> startswith s ''/'' \<or> \<not> startswith s (dc_prefix cfg) \<or> \<not> (endswith s ''.yaml'' \<or> endswith s ''.yml'')
               then Some (''file '' @ repr_str s @ '' outside allowlist '' @ repr_str (dc_prefix cfg)) else None)
      | JList xs \<Rightarrow> if JStr ''..'' \<in> set xs then Inr (Some (''file '' @ py_repr f @ '' outside allowlist '' @ repr_str (dc_prefix cfg)))
                   else Inl (attr_error f ''startswith'')
      | JObj d \<Rightarrow> if ''..'' \<in> fst ` set d then Inr (Some (''file '' @ py_repr f @ '' outside allowlist '' @ repr_str (dc_prefix cfg)))
                  else Inl (attr_error f ''startswith'')
      | _ \<Rightarrow> Inl (TypeError (''argument of type '' @ repr_str (type_name f) @ '' is not iterable'')))"

definition format_error :: "string \<Rightarrow> string \<Rightarrow> string option" where
  "format_error action nv =
     (case map_of value_formats action of
        None \<Rightarrow> None
      | Some (r, what) \<Rightarrow> if re_match r nv = None then Some (''new_value '' @ repr_str nv @ '' is not '' @ what) else None)"

definition allowlist_text :: "doer_config \<Rightarrow> string" where
  "allowlist_text cfg = py_repr (JList (map JStr (sort (remdups (dc_allowed cfg)))))"

definition validate :: "doer_config \<Rightarrow> json \<Rightarrow> string option res" where
  \<comment> \<open>\<open>None\<close> accepts; an unhashable action and a \<open>file\<close> that is not a string raise\<close>
  "validate cfg pr =
     (case pr of
        JObj p \<Rightarrow>
          (let action = get p ''action'' in
           if \<not> hashable action then Inl (TypeError (''unhashable type: '' @ repr_str (type_name action)))
           else if \<not> (\<exists>a\<in>set (dc_allowed cfg). action = JStr a)
           then Inr (Some (''action '' @ py_repr action @ '' not in allowlist '' @ allowlist_text cfg))
           else if \<not> truthy (get p ''target'') then Inr (Some ''missing target'')
           else if blank_value (get p ''new_value'') then Inr (Some ''missing/blank new_value'')
           else (case format_error (py_str action) (new_value_of p) of
               Some e \<Rightarrow> Inr (Some e)
             | None \<Rightarrow> file_error cfg (get p ''file'')))
      | _ \<Rightarrow> Inr (Some ''not a JSON object''))"

section \<open>Quantities\<close>

definition strip_quotes :: "string \<Rightarrow> string" where
  \<comment> \<open>\<open>s.strip("\"'")\<close>\<close>
  "strip_quotes s = (let q = (\<lambda>c. c = quote \<or> c = CHR 0x27) in rev (dropWhile q (rev (dropWhile q s))))"

definition mem_mult :: "string \<Rightarrow> rat" where
  "mem_mult u =
     (case map_of [([], 1), (''K'', 10 ^ 3), (''M'', 10 ^ 6), (''G'', 10 ^ 9), (''T'', 10 ^ 12), (''P'', 10 ^ 15),
                   (''Ki'', 2 ^ 10), (''Mi'', 2 ^ 20), (''Gi'', 2 ^ 30), (''Ti'', 2 ^ 40), (''Pi'', 2 ^ 50)] u of
        Some m \<Rightarrow> m | None \<Rightarrow> 1)"

definition mem_quantity :: re where
  "mem_quantity = seqs [Grp 1 (seqs [unit_digits, fraction]), Star Space, Grp 2 (alts (map Str mem_units @ [Eps])), EndZ]"

definition mem_bytes :: "string \<Rightarrow> pyfloat option" where
  "mem_bytes s =
     (case re_match mem_quantity (strip_quotes (strip s)) of
        None \<Rightarrow> None
      | Some m \<Rightarrow> map_option (\<lambda>x. fmul x (Fin (mem_mult (group 2 m)))) (parse_float (group 1 m)))"

definition cpu_millicores :: "string \<Rightarrow> pyfloat option" where
  "cpu_millicores s0 =
     (let s = strip_quotes (strip s0) in
      if endswith s ''m'' then parse_float (butlast s)
      else map_option (\<lambda>x. fmul x (Fin 1000)) (parse_float s))"

datatype resource = Memory | Cpu

fun field_name :: "resource \<Rightarrow> string" where
  "field_name Memory = ''memory''"
| "field_name Cpu = ''cpu''"

fun parse_quantity :: "resource \<Rightarrow> string \<Rightarrow> pyfloat option" where
  "parse_quantity Memory = mem_bytes"
| "parse_quantity Cpu = cpu_millicores"

fun prom_scale :: "resource \<Rightarrow> rat" where
  "prom_scale Memory = 1"
| "prom_scale Cpu = 1000"

fun unit_div :: "resource \<Rightarrow> rat" where
  "unit_div Memory = 2 ^ 30"
| "unit_div Cpu = 1000"

fun unit_name :: "resource \<Rightarrow> string" where
  "unit_name Memory = ''GiB''"
| "unit_name Cpu = ''cores''"

section \<open>Edits\<close>

datatype edit = Changed nat | Noop | Absent

definition doc_sep :: re where
  "doc_sep = seqs [Str ''---'', Star Space, EndZ]"

definition is_sep :: "string \<Rightarrow> bool" where
  "is_sep l \<longleftrightarrow> re_match doc_sep l \<noteq> None"

fun find_index :: "('a \<Rightarrow> bool) \<Rightarrow> 'a list \<Rightarrow> nat option" where
  "find_index P [] = None"
| "find_index P (x # xs) = (if P x then Some 0 else map_option Suc (find_index P xs))"

definition indent_of :: "string \<Rightarrow> nat" where
  "indent_of l = length l - length (lstrip l)"

definition name_re :: "string \<Rightarrow> re" where
  "name_re target = seqs [Star Space, Str ''name:'', Star Space, Str target, Star Space, EndZ]"

definition field_re :: "string \<Rightarrow> re" where
  "field_re fld = seqs [Grp 1 (seqs [Star Space, Str fld, Str '':'', Star Space]), Star Dot, EndZ]"

fun scan_scalar :: "re \<Rightarrow> string \<Rightarrow> bool \<Rightarrow> string list \<Rightarrow> nat \<Rightarrow> nat \<Rightarrow> edit \<times> string list" where
  \<comment> \<open>the loop from line \<open>j\<close> on, for at most the given number of lines\<close>
  "scan_scalar r nv quoted lines j 0 = (Absent, lines)"
| "scan_scalar r nv quoted lines j (Suc n) =
     (if is_sep (lines ! j) then (Absent, lines)
      else (case re_match r (lines ! j) of
          None \<Rightarrow> scan_scalar r nv quoted lines (Suc j) n
        | Some m \<Rightarrow>
            (let g = group 1 m; cur = strip_quotes (strip (drop (length g) (lines ! j))) in
             if cur = nv then (Noop, lines)
             else (Changed j, lines[j := g @ (if quoted then [quote] @ nv @ [quote] else nv)]))))"

definition apply_scalar :: "string \<Rightarrow> bool \<Rightarrow> string list \<Rightarrow> string \<Rightarrow> string \<Rightarrow> edit \<times> string list" where
  "apply_scalar fld quoted lines target nv =
     (case find_index (\<lambda>l. re_match (name_re target) l \<noteq> None) lines of
        None \<Rightarrow> (Absent, lines)
      | Some ni \<Rightarrow> scan_scalar (field_re fld) nv quoted lines (Suc ni) (length lines - Suc ni))"

definition alert_re :: "string \<Rightarrow> re" where
  "alert_re target = seqs [Grp 1 (Star Space), Str ''-'', Plus Space, Str ''alert:'', Star Space, Str target, Star Space, EndZ]"

definition for_line_re :: "string \<Rightarrow> re" where
  "for_line_re field_indent = seqs [Str field_indent, Str ''for:'', Star Space, Star Dot, EndZ]"

fun after_first :: "string \<Rightarrow> string \<Rightarrow> string" where
  \<comment> \<open>\<open>l.split(p, 1)[1]\<close> of a text that contains \<open>p\<close>\<close>
  "after_first p [] = []"
| "after_first p (c # cs) = (if startswith (c # cs) p then drop (length p) (c # cs) else after_first p cs)"

fun scan_for :: "string \<Rightarrow> string \<Rightarrow> nat \<Rightarrow> string list \<Rightarrow> nat \<Rightarrow> nat \<Rightarrow> (edit \<times> string list) option" where
  \<comment> \<open>\<open>None\<close> where the loop ends or breaks without having found the clause\<close>
  "scan_for fi nv ind lines j 0 = None"
| "scan_for fi nv ind lines j (Suc n) =
     (let l = lines ! j in
      if is_sep l then None
      else if strip l \<noteq> [] \<and> indent_of l \<le> ind then None
      else if re_match (for_line_re fi) l \<noteq> None then
        Some (if strip_quotes (strip (after_first ''for:'' l)) = nv then (Noop, lines)
              else (Changed j, lines[j := fi @ ''for: '' @ nv]))
      else scan_for fi nv ind lines (Suc j) n)"

definition insert_at :: "nat \<Rightarrow> 'a \<Rightarrow> 'a list \<Rightarrow> 'a list" where
  "insert_at i x xs = take i xs @ x # drop i xs"

definition apply_for :: "string list \<Rightarrow> string \<Rightarrow> string \<Rightarrow> edit \<times> string list" where
  "apply_for lines target nv =
     (case find_index (\<lambda>l. re_match (alert_re target) l \<noteq> None) lines of
        None \<Rightarrow> (Absent, lines)
      | Some ai \<Rightarrow>
          (let ind = (case re_match (alert_re target) (lines ! ai) of Some m \<Rightarrow> group 1 m | None \<Rightarrow> []);
               fi = ind @ ''  ''
           in case scan_for fi nv (length ind) lines (Suc ai) (length lines - Suc ai) of
                Some r \<Rightarrow> r
              | None \<Rightarrow> (Changed (Suc ai), insert_at (Suc ai) (fi @ ''for: '' @ nv) lines)))"

definition anchored_name_re :: "string \<Rightarrow> re" where
  "anchored_name_re target =
     seqs [Star Space, Str ''name:'', Star Space, Opt (seqs [Chr (CHR ''&''), Plus NonSpace, Plus Space]), Str target, Star Space, EndZ]"

definition limits_re :: re where
  "limits_re = seqs [Grp 1 (Star Space), Str ''limits:'', Star Space, EndZ]"

definition limit_field_re :: "string \<Rightarrow> re" where
  "limit_field_re fld = seqs [Grp 1 (Star Space), Str fld, Str '':'', Star Space, Grp 2 (Star Dot), EndZ]"

fun doc_start :: "string list \<Rightarrow> nat \<Rightarrow> nat" where
  "doc_start lines 0 = 0"
| "doc_start lines (Suc k) = (if is_sep (lines ! k) then Suc k else doc_start lines k)"

definition doc_end :: "string list \<Rightarrow> nat \<Rightarrow> nat" where
  "doc_end lines k = k + length (takeWhile (\<lambda>l. \<not> is_sep l) (drop k lines))"

fun limit_fields :: "resource \<Rightarrow> nat \<Rightarrow> string list \<Rightarrow> nat \<Rightarrow> nat \<Rightarrow> (nat \<times> string \<times> string) list" where
  \<comment> \<open>the inner loop: the lines below a \<open>limits:\<close> of the given indentation\<close>
  "limit_fields res ind lines k 0 = []"
| "limit_fields res ind lines k (Suc n) =
     (let l = lines ! k in
      if strip l = [] \<or> ind < indent_of l then
        (case re_match (limit_field_re (field_name res)) l of
           Some m \<Rightarrow> if length (group 1 m) = ind + 2 then [(k, group 1 m, strip (group 2 m))] else []
         | None \<Rightarrow> [])
        @ limit_fields res ind lines (Suc k) n
      else [])"

definition limit_matches :: "resource \<Rightarrow> string list \<Rightarrow> nat \<Rightarrow> nat \<Rightarrow> (nat \<times> string \<times> string) list" where
  "limit_matches res lines lo hi =
     concat (map (\<lambda>j. case re_match limits_re (lines ! j) of
         None \<Rightarrow> []
       | Some m \<Rightarrow> limit_fields res (length (group 1 m)) lines (Suc j) (hi - Suc j)) [lo..<hi])"

definition apply_limit :: "resource \<Rightarrow> string list \<Rightarrow> string \<Rightarrow> string \<Rightarrow> (edit \<times> string list) res" where
  "apply_limit res lines target nv =
     (case find_index (\<lambda>l. re_match (anchored_name_re target) l \<noteq> None) lines of
        None \<Rightarrow> Inr (Absent, lines)
      | Some ni \<Rightarrow>
          (case limit_matches res lines (doc_start lines ni) (doc_end lines (Suc ni)) of
             [(k, pre, cur)] \<Rightarrow>
               (case (parse_quantity res cur, parse_quantity res nv) of
                  (Some curv, Some newv) \<Rightarrow>
                    if feq newv curv then Inr (Noop, lines)
                    else if flt newv curv
                    then Inl (ValueError (''set_'' @ field_name res @ ''_limit must INCREASE the limit ('' @ cur @ '' -> '' @ nv @ '' rejected)''))
                    else Inr (Changed k, lines[k := pre @ field_name res @ '': '' @ nv])
                | _ \<Rightarrow> Inl (ValueError (''unparseable '' @ field_name res @ '' quantity: cur='' @ repr_str cur @ '' new='' @ repr_str nv)))
           | _ \<Rightarrow> Inr (Absent, lines)))"

section \<open>An edit changes one line\<close>

definition one_line_edit :: "string list \<Rightarrow> nat \<Rightarrow> string list \<Rightarrow> bool" where
  "one_line_edit lines k lines' \<longleftrightarrow> (\<exists>x. k < length lines \<and> lines' = lines[k := x] \<or> k \<le> length lines \<and> lines' = insert_at k x lines)"

lemma find_indexD: "find_index P xs = Some i \<Longrightarrow> i < length xs \<and> P (xs ! i) \<and> (\<forall>j<i. \<not> P (xs ! j))"
  by (induction xs arbitrary: i) (auto simp: less_Suc_eq_0_disj split: if_splits)

lemma scan_scalar_result:
  assumes "scan_scalar r nv quoted lines j n = (e, lines')" "j + n \<le> length lines"
  shows "(\<forall>k. e \<noteq> Changed k) \<and> lines' = lines
    \<or> (\<exists>k m. e = Changed k \<and> j \<le> k \<and> k < j + n \<and> (\<forall>i. j \<le> i \<and> i \<le> k \<longrightarrow> \<not> is_sep (lines ! i))
        \<and> re_match r (lines ! k) = Some m \<and> strip_quotes (strip (drop (length (group 1 m)) (lines ! k))) \<noteq> nv
        \<and> lines' = lines[k := group 1 m @ (if quoted then [quote] @ nv @ [quote] else nv)])"
  using assms
proof (induction n arbitrary: j)
  case (Suc n)
  show ?case
  proof (cases "is_sep (lines ! j) \<or> re_match r (lines ! j) \<noteq> None")
    case True
    with Suc.prems show ?thesis by (auto simp: Let_def split: option.splits if_splits)
  next
    case False
    then have "\<not> is_sep (lines ! j)" "re_match r (lines ! j) = None" by blast+
    with Suc.prems have "scan_scalar r nv quoted lines (Suc j) n = (e, lines')" by simp
    moreover have "Suc j + n \<le> length lines" using Suc.prems(2) by simp
    ultimately have ih: "(\<forall>k. e \<noteq> Changed k) \<and> lines' = lines \<or>
        (\<exists>k m. e = Changed k \<and> Suc j \<le> k \<and> k < Suc j + n \<and> (\<forall>i. Suc j \<le> i \<and> i \<le> k \<longrightarrow> \<not> is_sep (lines ! i))
          \<and> re_match r (lines ! k) = Some m \<and> strip_quotes (strip (drop (length (group 1 m)) (lines ! k))) \<noteq> nv
          \<and> lines' = lines[k := group 1 m @ (if quoted then [quote] @ nv @ [quote] else nv)])"
      by (rule Suc.IH)
    then show ?thesis
    proof (elim disjE exE conjE, goal_cases)
      case (2 k m)
      moreover have "\<forall>i. j \<le> i \<and> i \<le> k \<longrightarrow> \<not> is_sep (lines ! i)"
        using 2 \<open>\<not> is_sep (lines ! j)\<close> by (metis Suc_leI le_neq_implies_less)
      ultimately show ?thesis by (intro disjI2 exI [of _ k] exI [of _ m]) simp
    qed simp_all
  qed
qed auto

lemma apply_scalar_result:
  assumes "apply_scalar fld quoted lines target nv = (e, lines')"
  shows "(\<forall>k. e \<noteq> Changed k) \<and> lines' = lines
    \<or> (\<exists>ni k m. e = Changed k \<and> ni < k \<and> k < length lines \<and> (\<forall>i. ni < i \<and> i \<le> k \<longrightarrow> \<not> is_sep (lines ! i))
        \<and> re_match (name_re target) (lines ! ni) \<noteq> None \<and> re_match (field_re fld) (lines ! k) = Some m
        \<and> lines' = lines[k := group 1 m @ (if quoted then [quote] @ nv @ [quote] else nv)])"
proof (cases "find_index (\<lambda>l. re_match (name_re target) l \<noteq> None) lines")
  case None
  with assms show ?thesis by (auto simp: apply_scalar_def)
next
  case (Some ni)
  with assms have scan: "scan_scalar (field_re fld) nv quoted lines (Suc ni) (length lines - Suc ni) = (e, lines')"
    by (simp add: apply_scalar_def)
  note ni = find_indexD [OF Some]
  then have "Suc ni + (length lines - Suc ni) \<le> length lines" by linarith
  from scan_scalar_result [OF scan this] show ?thesis
  proof (elim disjE exE conjE)
    fix k m
    assume k: "e = Changed k" "Suc ni \<le> k" "k < Suc ni + (length lines - Suc ni)"
      "\<forall>i. Suc ni \<le> i \<and> i \<le> k \<longrightarrow> \<not> is_sep (lines ! i)" "re_match (field_re fld) (lines ! k) = Some m"
      "lines' = lines[k := group 1 m @ (if quoted then [quote] @ nv @ [quote] else nv)]"
    then have "ni < k" "k < length lines" "\<forall>i. ni < i \<and> i \<le> k \<longrightarrow> \<not> is_sep (lines ! i)"
      using ni by (linarith, linarith, simp add: Suc_le_eq)
    with k ni show ?thesis by blast
  qed blast
qed

lemma scan_for_result:
  assumes "scan_for fi nv ind lines j n = Some (e, lines')" "j + n \<le> length lines"
  shows "e = Noop \<and> lines' = lines \<or> (\<exists>k. e = Changed k \<and> k < length lines \<and> lines' = lines[k := fi @ ''for: '' @ nv])"
  using assms by (induction n arbitrary: j) (auto simp: Let_def split: if_splits)

lemma apply_for_result:
  assumes "apply_for lines target nv = (e, lines')"
  shows "(\<forall>k. e \<noteq> Changed k) \<and> lines' = lines
    \<or> (\<exists>k fi. e = Changed k \<and> (k < length lines \<and> lines' = lines[k := fi @ ''for: '' @ nv]
          \<or> k \<le> length lines \<and> lines' = insert_at k (fi @ ''for: '' @ nv) lines))"
proof (cases "find_index (\<lambda>l. re_match (alert_re target) l \<noteq> None) lines")
  case None
  with assms show ?thesis by (auto simp: apply_for_def)
next
  case (Some ai)
  note ai = find_indexD [OF Some]
  define ind where "ind = (case re_match (alert_re target) (lines ! ai) of Some m \<Rightarrow> group 1 m | None \<Rightarrow> [])"
  define fi where "fi = ind @ ''  ''"
  define found where "found = scan_for fi nv (length ind) lines (Suc ai) (length lines - Suc ai)"
  have "(e, lines') = (case found of Some r \<Rightarrow> r | None \<Rightarrow> (Changed (Suc ai), insert_at (Suc ai) (fi @ ''for: '' @ nv) lines))"
    using assms Some unfolding apply_for_def found_def fi_def ind_def Let_def by simp
  moreover have "Suc ai + (length lines - Suc ai) \<le> length lines" using ai by linarith
  ultimately show ?thesis
    using scan_for_result [of fi nv "length ind" lines "Suc ai" "length lines - Suc ai" e lines'] ai
    by (cases found) (auto simp: found_def)
qed

lemma limit_fields_index: "(k, pre, cur) \<in> set (limit_fields res ind lines j n) \<Longrightarrow> j \<le> k \<and> k < j + n"
  by (induction n arbitrary: j) (fastforce simp: Let_def split: if_splits option.splits)+

lemma limit_matches_index: "(k, pre, cur) \<in> set (limit_matches res lines lo hi) \<Longrightarrow> lo < k \<and> k < hi"
  by (auto simp: limit_matches_def split: option.splits dest!: limit_fields_index)

lemma doc_end_bound: "k \<le> length lines \<Longrightarrow> doc_end lines k \<le> length lines"
  unfolding doc_end_def by (metis add_le_cancel_left le_add_diff_inverse length_drop length_takeWhile_le)

lemma apply_limit_result:
  assumes "apply_limit res lines target nv = Inr (e, lines')"
  shows "(\<forall>k. e \<noteq> Changed k) \<and> lines' = lines
    \<or> (\<exists>ni k pre cur curv newv. find_index (\<lambda>l. re_match (anchored_name_re target) l \<noteq> None) lines = Some ni
        \<and> e = Changed k \<and> k < length lines \<and> lines' = lines[k := pre @ field_name res @ '': '' @ nv]
        \<and> limit_matches res lines (doc_start lines ni) (doc_end lines (Suc ni)) = [(k, pre, cur)]
        \<and> parse_quantity res cur = Some curv \<and> parse_quantity res nv = Some newv \<and> \<not> flt newv curv \<and> \<not> feq newv curv)"
proof (cases "find_index (\<lambda>l. re_match (anchored_name_re target) l \<noteq> None) lines")
  case None
  with assms show ?thesis by (auto simp: apply_limit_def)
next
  case (Some ni)
  let ?ms = "limit_matches res lines (doc_start lines ni) (doc_end lines (Suc ni))"
  have bound: "k < length lines" if "(k, pre, cur) \<in> set ?ms" for k pre cur
    using limit_matches_index [OF that] doc_end_bound [of "Suc ni" lines] find_indexD [OF Some] by simp
  consider k pre cur where "?ms = [(k, pre, cur)]" | "\<nexists>x. ?ms = [x]" by (metis prod_cases3)
  then show ?thesis
  proof cases
    case (1 k pre cur)
    have k: "k < length lines" using bound [of k pre cur] 1 by simp
    from assms Some 1 obtain curv newv where q: "parse_quantity res cur = Some curv" "parse_quantity res nv = Some newv"
      by (auto simp: apply_limit_def split: option.splits)
    show ?thesis
    proof (cases "feq newv curv")
      case True
      with assms Some 1 q show ?thesis by (auto simp: apply_limit_def)
    next
      case False
      with assms Some 1 q have "\<not> flt newv curv" "e = Changed k" "lines' = lines[k := pre @ field_name res @ '': '' @ nv]"
        by (auto simp: apply_limit_def split: if_splits)
      with k 1 q False Some show ?thesis by blast
    qed
  next
    case 2
    with assms Some show ?thesis by (auto simp: apply_limit_def split: list.splits prod.splits)
  qed
qed

lemma one_line_editI: "k < length lines \<Longrightarrow> one_line_edit lines k (lines[k := x])" "k \<le> length lines \<Longrightarrow> one_line_edit lines k (insert_at k x lines)"
  by (auto simp: one_line_edit_def)

text \<open>
  Every edit is minimal: if an edit reports a change at a line, the new lines are the old
  ones with that one line replaced, or with one line inserted there; in every other case it returns the
  lines as they were.
\<close>

lemma edits_change_one_line:
  assumes "apply_scalar fld quoted lines target nv = (e, lines') \<or> apply_for lines target nv = (e, lines')
    \<or> apply_limit res lines target nv = Inr (e, lines')"
  shows "(case e of Changed k \<Rightarrow> one_line_edit lines k lines' | _ \<Rightarrow> lines' = lines)"
  using assms
proof (elim disjE)
  assume "apply_scalar fld quoted lines target nv = (e, lines')"
  from apply_scalar_result [OF this] show ?thesis by (auto intro: one_line_editI split: edit.split)
next
  assume "apply_for lines target nv = (e, lines')"
  from apply_for_result [OF this] show ?thesis by (auto intro: one_line_editI split: edit.split)
next
  assume "apply_limit res lines target nv = Inr (e, lines')"
  from apply_limit_result [OF this] show ?thesis by (auto intro: one_line_editI split: edit.split)
qed

section \<open>The line an edit writes\<close>

text \<open>A line that gives the value, bare or in quotes, to the field, with blanks before and after the field.\<close>

definition blank_run :: "string \<Rightarrow> bool" where
  "blank_run s \<longleftrightarrow> (\<forall>c \<in> set s. is_space c \<and> c \<noteq> newline)"

definition sets_field :: "string \<Rightarrow> string \<Rightarrow> string \<Rightarrow> bool" where
  "sets_field fld nv l \<longleftrightarrow> (\<exists>ind gap v. blank_run ind \<and> blank_run gap \<and> v \<in> {nv, [quote] @ nv @ [quote]} \<and> l = ind @ fld @ '':'' @ gap @ v)"

lemma blank_run_space [simp]: "blank_run []" "blank_run (CHR '' '' # s) \<longleftrightarrow> blank_run s"
  by (simp_all add: blank_run_def is_space_def code_point_def)

lemma blank_run_append [simp]: "blank_run (s @ t) \<longleftrightarrow> blank_run s \<and> blank_run t"
  by (auto simp: blank_run_def)

lemma sets_fieldI:
  "blank_run ind \<Longrightarrow> blank_run gap \<Longrightarrow> sets_field fld v (ind @ fld @ CHR '':'' # gap @ v)"
  "blank_run ind \<Longrightarrow> blank_run gap \<Longrightarrow> sets_field fld v (ind @ fld @ CHR '':'' # gap @ quote # v @ [quote])"
  unfolding sets_field_def by (metis append_Cons append_Nil insertI1 insertI2 singletonI)+

lemma indentation:
  assumes "re_match (Cat (Grp n (Star Space)) b) l = Some m" "avoids n b" "newline \<notin> set l"
  shows "blank_run (group n m)"
proof -
  from first_group_chars [OF assms(1,2), of is_space] assms(3) show ?thesis by (force simp: blank_run_def)
qed

lemma Str_consumed: "m' \<in> set (matches (Str w) m) \<Longrightarrow> consumed m m' w"
proof (induction w arbitrary: m rule: Str.induct)
  case (3 x y w)
  then obtain m1 where "m1 \<in> set (matches (Chr x) m)" "m' \<in> set (matches (Str (y # w)) m1)"
    unfolding Str.simps in_Cat by blast
  with "3.IH" [of m1] show ?case by (cases m) (auto simp: consumed_def split: list.splits if_splits)
qed (auto simp: consumed_def split: prod.splits list.splits if_splits)

lemma field_prefix:
  assumes "re_match (field_re fld) l = Some m" "newline \<notin> set l"
  obtains ind gap where "blank_run ind" "blank_run gap" "group 1 m = ind @ fld @ '':'' @ gap"
proof -
  let ?g = "Cat (Star Space) (Cat (Str fld) (Cat (Str '':'') (Star Space)))" and ?b = "seqs [Star Dot, EndZ]"
  have r: "field_re fld = Cat (Grp 1 ?g) ?b" by (simp add: field_re_def)
  have av: "avoids 1 ?b" by simp
  obtain m2 t where t: "m2 \<in> set (matches ?g ([], l, []))" "consumed ([], l, []) m2 t" "map_of (snd (snd m)) 1 = Some t"
    by (rule group_captures [OF re_matchD [OF assms(1) [unfolded r]] av])
  from t(1) obtain a b c where m: "a \<in> set (matches (Star Space) ([], l, []))" "b \<in> set (matches (Str fld) a)"
      "c \<in> set (matches (Str '':'') b)" "m2 \<in> set (matches (Star Space) c)"
    unfolding in_Cat by blast
  have sp: "\<exists>u. consumed x y u \<and> (\<forall>z \<in> set u. is_space z)" if "y \<in> set (matches (Star Space) x)" for x y
    using chars_in_takes [of is_space "Star Space" y x] that by (simp add: takes_def)
  obtain ind gap where ig: "consumed ([], l, []) a ind" "\<forall>z \<in> set ind. is_space z" "consumed c m2 gap" "\<forall>z \<in> set gap. is_space z"
    using sp [OF m(1)] sp [OF m(4)] by blast
  have all: "consumed ([], l, []) m2 (ind @ fld @ '':'' @ gap)"
    using consumed_trans [OF ig(1) consumed_trans [OF Str_consumed [OF m(2)] consumed_trans [OF Str_consumed [OF m(3)] ig(3)]]] .
  with t(2) have "t = ind @ fld @ '':'' @ gap" by (simp add: consumed_def)
  moreover have "newline \<notin> set ind" "newline \<notin> set gap" using all assms(2) by (auto simp: consumed_def)
  ultimately show thesis using that ig t(3) by (auto simp: blank_run_def group_def)
qed

abbreviation no_breaks :: "string list \<Rightarrow> bool" where
  "no_breaks ls \<equiv> \<forall>l \<in> set ls. newline \<notin> set l"

lemma scalar_line:
  assumes "apply_scalar fld quoted ls t v = (Changed k, ls')" "no_breaks ls"
  shows "\<exists>l. k < length ls \<and> ls' = ls[k := l] \<and> sets_field fld v l"
proof -
  from apply_scalar_result [OF assms(1)] obtain m where m: "k < length ls" "re_match (field_re fld) (ls ! k) = Some m"
      "ls' = ls[k := group 1 m @ (if quoted then [quote] @ v @ [quote] else v)]"
    by auto
  moreover from m(1) assms(2) have "newline \<notin> set (ls ! k)" by (meson nth_mem)
  ultimately obtain ind gap where "blank_run ind" "blank_run gap" "group 1 m = ind @ fld @ '':'' @ gap"
    using field_prefix by blast
  with m have "sets_field fld v (group 1 m @ (if quoted then [quote] @ v @ [quote] else v))"
    using sets_fieldI [of ind gap fld v] by simp
  with m show ?thesis by blast
qed

lemma for_line:
  assumes "apply_for ls t v = (Changed k, ls')" "no_breaks ls"
  shows "\<exists>l. (k < length ls \<and> ls' = ls[k := l] \<or> k \<le> length ls \<and> ls' = insert_at k l ls) \<and> sets_field ''for'' v l"
proof (cases "find_index (\<lambda>l. re_match (alert_re t) l \<noteq> None) ls")
  case None
  with assms show ?thesis by (auto simp: apply_for_def)
next
  case (Some ai)
  note ai = find_indexD [OF Some]
  then obtain m where m: "re_match (alert_re t) (ls ! ai) = Some m" by blast
  have "alert_re t = Cat (Grp 1 (Star Space)) (seqs [Str ''-'', Plus Space, Str ''alert:'', Star Space, Str t, Star Space, EndZ])"
    by (simp add: alert_re_def)
  with m have "blank_run (group 1 m)"
    using indentation [of 1 _ "ls ! ai" m] ai assms(2) by (auto simp: nth_mem)
  define ind where "ind = (case re_match (alert_re t) (ls ! ai) of Some m \<Rightarrow> group 1 m | None \<Rightarrow> [])"
  define fi where "fi = ind @ ''  ''"
  define found where "found = scan_for fi v (length ind) ls (Suc ai) (length ls - Suc ai)"
  have "blank_run fi" using \<open>blank_run (group 1 m)\<close> m by (simp add: ind_def fi_def)
  from sets_fieldI(1) [OF this, of "'' ''" "''for''" v] have line: "sets_field ''for'' v (fi @ ''for: '' @ v)" by simp
  have "(Changed k, ls') = (case found of Some r \<Rightarrow> r | None \<Rightarrow> (Changed (Suc ai), insert_at (Suc ai) (fi @ ''for: '' @ v) ls))"
    using assms(1) Some unfolding apply_for_def found_def fi_def ind_def Let_def by simp
  moreover have "Suc ai + (length ls - Suc ai) \<le> length ls" using ai by linarith
  ultimately show ?thesis
    using scan_for_result [of fi v "length ind" ls "Suc ai" "length ls - Suc ai" "Changed k" ls'] ai line
    by (cases found) (auto simp: found_def)
qed

lemma limit_fields_pre:
  "(k, pre, cur) \<in> set (limit_fields res ind ls j n) \<Longrightarrow> j + n \<le> length ls \<Longrightarrow> no_breaks ls \<Longrightarrow> blank_run pre"
proof (induction n arbitrary: j)
  case (Suc n)
  have r: "limit_field_re (field_name res) = Cat (Grp 1 (Star Space)) (seqs [Str (field_name res), Str '':'', Star Space, Grp 2 (Star Dot), EndZ])"
    by (simp add: limit_field_re_def)
  have "newline \<notin> set (ls ! j)" using Suc.prems(2,3) by auto
  then have "blank_run (group 1 m)" if "re_match (limit_field_re (field_name res)) (ls ! j) = Some m" for m
    using indentation [of 1 _ "ls ! j" m] that r by simp
  moreover have "(k, pre, cur) \<in> set (limit_fields res ind ls (Suc j) n) \<Longrightarrow> blank_run pre" using Suc by simp
  ultimately show ?case using Suc.prems(1) by (auto simp: Let_def split: if_splits option.splits)
qed simp

lemma limit_line:
  assumes "apply_limit res ls t v = Inr (Changed k, ls')" "no_breaks ls"
  shows "\<exists>l. k < length ls \<and> ls' = ls[k := l] \<and> sets_field (field_name res) v l"
proof -
  from apply_limit_result [OF assms(1)] obtain ni pre cur where r: "k < length ls" "ls' = ls[k := pre @ field_name res @ '': '' @ v]"
      "limit_matches res ls (doc_start ls ni) (doc_end ls (Suc ni)) = [(k, pre, cur)]"
      "find_index (\<lambda>l. re_match (anchored_name_re t) l \<noteq> None) ls = Some ni"
    by auto
  have "doc_end ls (Suc ni) \<le> length ls" using find_indexD [OF r(4)] by (intro doc_end_bound) simp
  moreover from r(3) have "(k, pre, cur) \<in> set (limit_matches res ls (doc_start ls ni) (doc_end ls (Suc ni)))" by simp
  then obtain j ind where "j < doc_end ls (Suc ni)" "(k, pre, cur) \<in> set (limit_fields res ind ls (Suc j) (doc_end ls (Suc ni) - Suc j))"
    by (auto simp: limit_matches_def split: option.splits)
  ultimately have "blank_run pre" using limit_fields_pre [of k pre cur res ind ls "Suc j"] assms(2) by auto
  then have "sets_field (field_name res) v (pre @ field_name res @ '': '' @ v)"
    using sets_fieldI(1) [of pre "'' ''" "field_name res" v] by simp
  with r(1,2) show ?thesis by blast
qed

lemma sets_field_break: "sets_field fld v l \<Longrightarrow> newline \<notin> set fld \<Longrightarrow> newline \<notin> set v \<Longrightarrow> newline \<notin> set l"
proof -
  assume "sets_field fld v l" "newline \<notin> set fld" "newline \<notin> set v"
  then obtain ind gap w where w: "blank_run ind" "blank_run gap" "w = v \<or> w = [quote] @ v @ [quote]" "l = ind @ fld @ '':'' @ gap @ w"
    unfolding sets_field_def by blast
  then have "newline \<notin> set ind" "newline \<notin> set gap" by (auto simp: blank_run_def)
  moreover have "newline \<notin> set w" using w(3) \<open>newline \<notin> set v\<close> by auto
  ultimately show "newline \<notin> set l" using w(4) \<open>newline \<notin> set fld\<close> by simp
qed

lemma flt_total: "\<not> flt y x \<Longrightarrow> \<not> feq y x \<Longrightarrow> x \<noteq> NaN \<Longrightarrow> y \<noteq> NaN \<Longrightarrow> flt x y"
  by (cases x; cases y) auto

text \<open>A quantity of the validated form, and one of memory, is a number.\<close>

lemma dbl_number: "dbl q \<noteq> NaN"
  by (simp add: dbl_def Let_def)

lemma fmul_number: "x \<noteq> NaN \<Longrightarrow> 0 < b \<Longrightarrow> fmul x (Fin b) \<noteq> NaN"
  by (cases x) (auto simp: dbl_number)

lemma parse_float_number:
  assumes "\<forall>c \<in> set s. to_lower c \<noteq> CHR ''n''"
  shows "parse_float s \<noteq> Some NaN"
proof -
  obtain neg t where t: "sign_of (strip s) = (neg, t)" by fastforce
  have "set (snd (sign_of u)) \<subseteq> set u" for u by (cases u) (auto simp: sign_of_def)
  from this [of "strip s"] t have "set t \<subseteq> set (strip s)" by simp
  then have "set t \<subseteq> set s" using set_strip_sub by blast
  with assms have "CHR ''n'' \<notin> set (lower t)" by (auto simp: lower_def)
  then have "lower t \<noteq> ''nan''" by auto
  with t show ?thesis by (auto simp: parse_float_def dbl_number)
qed

lemma mem_mult_pos: "0 < mem_mult u"
  by (auto simp: mem_mult_def split: option.splits if_splits)

lemma mem_number: "mem_bytes s \<noteq> Some NaN"
proof -
  let ?b = "seqs [Star Space, Grp 2 (alts (map Str mem_units @ [Eps])), EndZ]"
  let ?P = "\<lambda>c. is_digit c \<or> c = CHR ''.''"
  have "parse_float (group 1 m) \<noteq> Some NaN" if "re_match mem_quantity u = Some m" for u m
  proof (rule parse_float_number)
    have r: "mem_quantity = Cat (Grp 1 (seqs [unit_digits, fraction])) ?b" by (simp add: mem_quantity_def)
    have "avoids 1 ?b" "chars_in ?P (seqs [unit_digits, fraction])" by (simp_all add: mem_units_def unit_digits_def fraction_def)
    note cs = first_group_chars(2) [OF that [unfolded r] this]
    have "to_lower c \<noteq> CHR ''n''" if "?P c" for c
      using that by (auto simp: is_digit_def to_lower_def code_point_def)
    with cs show "\<forall>c \<in> set (group 1 m). to_lower c \<noteq> CHR ''n''" by blast
  qed
  then show ?thesis
    using fmul_number [OF _ mem_mult_pos] by (fastforce simp: mem_bytes_def split: option.splits)
qed

lemma set_strip_quotes: "set (strip_quotes s) \<subseteq> set s"
  by (auto simp: strip_quotes_def Let_def dest!: set_dropWhileD)

lemma cpu_number:
  assumes "format_error ''set_cpu_limit'' nv = None"
  shows "cpu_millicores nv \<noteq> Some NaN"
proof -
  let ?P = "\<lambda>c. is_digit c \<or> c = CHR ''.'' \<or> c = CHR ''m''"
  let ?r = "alts [seqs [unit_digits, Chr (CHR ''m'')], seqs [unit_digits, fraction]]"
  have m: "re_match cpu_re nv \<noteq> None" using assms by (auto simp: format_error_def value_formats_def split: if_splits)
  have r: "cpu_re = Cat ?r EndZ" "chars_in ?P ?r" by (simp_all add: cpu_re_def unit_digits_def fraction_def)
  have "to_lower c \<noteq> CHR ''n''" if "c = newline \<or> ?P c" for c
    using that by (auto simp: is_digit_def to_lower_def code_point_def)
  with whole_match_chars [OF m r] have nv: "\<forall>c \<in> set nv. to_lower c \<noteq> CHR ''n''" by blast
  have sub: "set (strip_quotes (strip nv)) \<subseteq> set nv" "set (butlast (strip_quotes (strip nv))) \<subseteq> set nv"
    using set_strip_quotes [of "strip nv"] set_strip_sub [of nv] in_set_butlastD by fastforce+
  have "parse_float (strip_quotes (strip nv)) \<noteq> Some NaN" "parse_float (butlast (strip_quotes (strip nv))) \<noteq> Some NaN"
    by (rule parse_float_number, use nv sub in blast)+
  then show ?thesis
    using fmul_number [of _ 1000] by (fastforce simp: cpu_millicores_def Let_def split: if_splits)
qed

fun limit_action :: "resource \<Rightarrow> string" where
  \<comment> \<open>the action that asks for the edit\<close>
  "limit_action Memory = ''set_mem_limit''"
| "limit_action Cpu = ''set_cpu_limit''"

text \<open>
  Property C30. A resource limit only ever goes up: when the edit of a limit, with a value that passed the
  validation of its action, changes a line, then the first line of the file that names the target is in the
  same document as this line, the line is the only limit of its kind in that document, and the quantity it
  had is strictly below the one written. The one exception is a limit of the processor whose text is \<open>nan\<close>,
  which any value replaces.
\<close>

theorem limit_only_increases:
  assumes "apply_limit res lines target nv = Inr (Changed k, lines')" "format_error (limit_action res) nv = None"
  shows "\<exists>ni pre cur curv newv.
      find_index (\<lambda>l. re_match (anchored_name_re target) l \<noteq> None) lines = Some ni
    \<and> doc_start lines ni \<le> k \<and> k < doc_end lines (Suc ni)
    \<and> limit_matches res lines (doc_start lines ni) (doc_end lines (Suc ni)) = [(k, pre, cur)]
    \<and> lines' = lines[k := pre @ field_name res @ '': '' @ nv] \<and> parse_quantity res cur = Some curv
    \<and> parse_quantity res nv = Some newv \<and> (flt curv newv \<or> res = Cpu \<and> curv = NaN)"
proof -
  from apply_limit_result [OF assms(1)] obtain ni pre cur curv newv where
      r: "find_index (\<lambda>l. re_match (anchored_name_re target) l \<noteq> None) lines = Some ni"
        "lines' = lines[k := pre @ field_name res @ '': '' @ nv]"
        "limit_matches res lines (doc_start lines ni) (doc_end lines (Suc ni)) = [(k, pre, cur)]"
        "parse_quantity res cur = Some curv" "parse_quantity res nv = Some newv" "\<not> flt newv curv" "\<not> feq newv curv"
    by auto
  have "newv \<noteq> NaN" "res = Memory \<Longrightarrow> curv \<noteq> NaN"
    using r(4,5) assms(2) mem_number cpu_number by (cases res; fastforce)+
  with r(6,7) have "flt curv newv \<or> res = Cpu \<and> curv = NaN" using flt_total by (cases res) auto
  with r limit_matches_index [of k pre cur res lines "doc_start lines ni" "doc_end lines (Suc ni)"] show ?thesis by auto
qed

definition demo_release :: "string list" where
  "demo_release = [''kind: HelmRelease'', ''metadata:'', ''  name: app'', ''spec:'', ''  limits:'', ''    cpu: 5m'']"

lemma demo_target: "find_index (\<lambda>l. re_match (anchored_name_re ''app'') l \<noteq> None) demo_release = Some 2"
  by code_simp

lemma demo_doc: "doc_start demo_release 2 = 0" "doc_end demo_release 3 = 6"
  by code_simp+

lemma demo_limits: "limit_matches Cpu demo_release 0 6 = [(5, ''    '', ''5m'')]"
  by code_simp

lemma demo_quantities: "parse_quantity Cpu ''5m'' = Some (Fin 5)" "parse_quantity Cpu ''9m'' = Some (Fin 9)"
  by code_simp+

lemma demo_limit: "apply_limit Cpu demo_release ''app'' ''9m'' = Inr (Changed 5, demo_release[5 := ''    cpu: 9m''])"
  using demo_target demo_doc demo_limits demo_quantities by (simp add: apply_limit_def)

theorem limit_only_increases_witness:
  "\<exists>ni pre cur curv newv.
      find_index (\<lambda>l. re_match (anchored_name_re ''app'') l \<noteq> None) demo_release = Some ni
    \<and> doc_start demo_release ni \<le> 5 \<and> 5 < doc_end demo_release (Suc ni)
    \<and> limit_matches Cpu demo_release (doc_start demo_release ni) (doc_end demo_release (Suc ni)) = [(5, pre, cur)]
    \<and> demo_release[5 := ''    cpu: 9m''] = demo_release[5 := pre @ field_name Cpu @ '': '' @ ''9m''] \<and> parse_quantity Cpu cur = Some curv
    \<and> parse_quantity Cpu ''9m'' = Some newv \<and> (flt curv newv \<or> Cpu = Cpu \<and> curv = NaN)"
proof -
  have "format_error (limit_action Cpu) ''9m'' = None" by code_simp
  then show ?thesis by (rule limit_only_increases [OF demo_limit])
qed

end
