(* ===== verification/PySha.thy ===== *)
theory PySha
  imports PyHash
begin

text \<open>
  \<open>hashlib.sha256\<close> as FIPS 180-4 defines it and \<open>hmac.new(key, msg, hashlib.sha256)\<close> as RFC 2104
  does. Words are natural numbers with the wrap-around written out, as in \<open>PyHash\<close>; the padding and
  the split into blocks are the ones of SHA-1.
\<close>

section \<open>SHA-256\<close>

unbundle bit_operations_syntax

definition plus32 :: "nat \<Rightarrow> nat \<Rightarrow> nat" where
  "plus32 a b = take_bit 32 (a + b)"

definition rotr :: "nat \<Rightarrow> nat \<Rightarrow> nat" where
  "rotr n x = drop_bit n x OR push_bit (32 - n) (take_bit n x)"

type_synonym sha256_state = "nat \<times> nat \<times> nat \<times> nat \<times> nat \<times> nat \<times> nat \<times> nat"

definition sha256_init :: sha256_state where
  "sha256_init = (0x6A09E667, 0xBB67AE85, 0x3C6EF372, 0xA54FF53A, 0x510E527F, 0x9B05688C, 0x1F83D9AB, 0x5BE0CD19)"

definition sha256_k :: "nat list" where
  "sha256_k =
    [0x428A2F98, 0x71374491, 0xB5C0FBCF, 0xE9B5DBA5, 0x3956C25B, 0x59F111F1, 0x923F82A4, 0xAB1C5ED5,
     0xD807AA98, 0x12835B01, 0x243185BE, 0x550C7DC3, 0x72BE5D74, 0x80DEB1FE, 0x9BDC06A7, 0xC19BF174,
     0xE49B69C1, 0xEFBE4786, 0x0FC19DC6, 0x240CA1CC, 0x2DE92C6F, 0x4A7484AA, 0x5CB0A9DC, 0x76F988DA,
     0x983E5152, 0xA831C66D, 0xB00327C8, 0xBF597FC7, 0xC6E00BF3, 0xD5A79147, 0x06CA6351, 0x14292967,
     0x27B70A85, 0x2E1B2138, 0x4D2C6DFC, 0x53380D13, 0x650A7354, 0x766A0ABB, 0x81C2C92E, 0x92722C85,
     0xA2BFE8A1, 0xA81A664B, 0xC24B8B70, 0xC76C51A3, 0xD192E819, 0xD6990624, 0xF40E3585, 0x106AA070,
     0x19A4C116, 0x1E376C08, 0x2748774C, 0x34B0BCB5, 0x391C0CB3, 0x4ED8AA4A, 0x5B9CCA4F, 0x682E6FF3,
     0x748F82EE, 0x78A5636F, 0x84C87814, 0x8CC70208, 0x90BEFFFA, 0xA4506CEB, 0xBEF9A3F7, 0xC67178F2]"

definition small_sigma0 :: "nat \<Rightarrow> nat" where
  "small_sigma0 x = rotr 7 x XOR rotr 18 x XOR drop_bit 3 x"

definition small_sigma1 :: "nat \<Rightarrow> nat" where
  "small_sigma1 x = rotr 17 x XOR rotr 19 x XOR drop_bit 10 x"

definition big_sigma0 :: "nat \<Rightarrow> nat" where
  "big_sigma0 x = rotr 2 x XOR rotr 13 x XOR rotr 22 x"

definition big_sigma1 :: "nat \<Rightarrow> nat" where
  "big_sigma1 x = rotr 6 x XOR rotr 11 x XOR rotr 25 x"

definition sha256_next :: "nat list \<Rightarrow> nat" where
  \<comment> \<open>the word after the last sixteen of the schedule, kept oldest first\<close>
  "sha256_next w = plus32 (plus32 (small_sigma1 (w ! 14)) (w ! 9)) (plus32 (small_sigma0 (w ! 1)) (hd w))"

definition temp1 :: "nat \<Rightarrow> nat \<Rightarrow> sha256_state \<Rightarrow> nat" where
  "temp1 k wt s = (case s of (a, b, c, d, e, f, g, h) \<Rightarrow>
     plus32 (plus32 h (big_sigma1 e)) (plus32 ((e AND f) XOR (not32 e AND g)) (plus32 k wt)))"

definition temp2 :: "sha256_state \<Rightarrow> nat" where
  "temp2 s = (case s of (a, b, c, d, e, f, g, h) \<Rightarrow>
     plus32 (big_sigma0 a) ((a AND b) XOR (a AND c) XOR (b AND c)))"

definition sha256_shift :: "nat \<Rightarrow> nat \<Rightarrow> sha256_state \<Rightarrow> sha256_state" where
  "sha256_shift t1 t2 s = (case s of (a, b, c, d, e, f, g, h) \<Rightarrow> (plus32 t1 t2, a, b, c, plus32 d t1, e, f, g))"

fun sha256_rounds :: "nat list \<Rightarrow> nat list \<Rightarrow> sha256_state \<Rightarrow> sha256_state" where
  "sha256_rounds [] w s = s"
| "sha256_rounds (k # ks) w s =
     sha256_rounds ks (tl w @ [sha256_next w]) (sha256_shift (temp1 k (hd w) s) (temp2 s) s)"

fun sha256_add :: "sha256_state \<Rightarrow> sha256_state \<Rightarrow> sha256_state" where
  "sha256_add (a, b, c, d, e, f, g, h) (a', b', c', d', e', f', g', h') =
     (plus32 a a', plus32 b b', plus32 c c', plus32 d d', plus32 e e', plus32 f f', plus32 g g', plus32 h h')"

definition sha256_block :: "sha256_state \<Rightarrow> nat list \<Rightarrow> sha256_state" where
  "sha256_block s w = sha256_add s (sha256_rounds sha256_k w s)"

definition sha256_words :: "nat list \<Rightarrow> nat list" where
  "sha256_words bs =
     (case foldl sha256_block sha256_init (blocks (be_words (pad bs))) of
        (a, b, c, d, e, f, g, h) \<Rightarrow> [a, b, c, d, e, f, g, h])"

definition sha256_hex :: "nat list \<Rightarrow> string" where
  \<comment> \<open>\<open>hexdigest()\<close>\<close>
  "sha256_hex bs = concat (map hex_word (sha256_words bs))"

definition word_bytes :: "nat \<Rightarrow> nat list" where
  "word_bytes x = map (\<lambda>k. x div k mod 256) [2 ^ 24, 2 ^ 16, 2 ^ 8, 1]"

definition sha256 :: "nat list \<Rightarrow> nat list" where
  \<comment> \<open>\<open>digest()\<close>\<close>
  "sha256 bs = concat (map word_bytes (sha256_words bs))"

section \<open>HMAC\<close>

definition hmac_key :: "nat list \<Rightarrow> nat list" where
  \<comment> \<open>the key, hashed when longer than a block, padded with zeros to one\<close>
  "hmac_key k = (let k' = (if 64 < length k then sha256 k else k) in k' @ replicate (64 - length k') 0)"

definition hmac_sha256 :: "nat list \<Rightarrow> nat list \<Rightarrow> nat list" where
  "hmac_sha256 key msg =
     (let k = hmac_key key
      in sha256 (map (\<lambda>b. b XOR 0x5C) k @ sha256 (map (\<lambda>b. b XOR 0x36) k @ msg)))"

section \<open>Shape and a test vector\<close>

lemma length_sha256_words [simp]: "length (sha256_words bs) = 8"
  by (simp add: sha256_words_def split: prod.split)

lemma length_concat_const: "(\<And>x. length (f x) = n) \<Longrightarrow> length (concat (map f xs)) = n * length xs"
  by (induction xs) auto

lemma length_sha256_hex [simp]: "length (sha256_hex bs) = 64"
  by (simp add: sha256_hex_def length_concat_const)

lemma sha256_hex_chars: "c \<in> set (sha256_hex bs) \<Longrightarrow> is_hex_lower c"
  by (auto simp: sha256_hex_def hex_word_chars)

lemma length_sha256 [simp]: "length (sha256 bs) = 32"
  by (simp add: sha256_def length_concat_const word_bytes_def)

lemma sha256_bytes: "b \<in> set (sha256 bs) \<Longrightarrow> b < 256"
  by (auto simp: sha256_def word_bytes_def)

lemma length_hmac [simp]: "length (hmac_sha256 key msg) = 32"
  by (simp add: hmac_sha256_def Let_def)

lemma hmac_bytes: "b \<in> set (hmac_sha256 key msg) \<Longrightarrow> b < 256"
  by (auto simp: hmac_sha256_def Let_def dest: sha256_bytes)

lemma length_hmac_key: "length (hmac_key k) = 64"
  by (auto simp: hmac_key_def Let_def)

lemmas sha256_eval = sha256_init_def sha256_k_def small_sigma0_def small_sigma1_def big_sigma0_def
  big_sigma1_def sha256_next_def temp1_def temp2_def sha256_shift_def rotr_def plus32_def not32_def

lemma sha256_block_abc:
  "sha256_block sha256_init [0x61626380, 0, 0, 0, 0, 0, 0, 0, 0, 0, 0, 0, 0, 0, 0, 24] =
     (0xBA7816BF, 0x8F01CFEA, 0x414140DE, 0x5DAE2223, 0xB00361A3, 0x96177A9C, 0xB410FF61, 0xF20015AD)"
  by (simp add: sha256_block_def sha256_eval)

lemma sha256_abc: "sha256_words (encode ''abc'') =
    [0xBA7816BF, 0x8F01CFEA, 0x414140DE, 0x5DAE2223, 0xB00361A3, 0x96177A9C, 0xB410FF61, 0xF20015AD]"
proof -
  have "be_words (pad (encode ''abc'')) = [0x61626380, 0, 0, 0, 0, 0, 0, 0, 0, 0, 0, 0, 0, 0, 0, 24]"
    by (simp add: sha1_input_eval)
  then show ?thesis by (simp add: sha256_words_def blocks_one sha256_block_abc)
qed

end
