(* ===== verification/Doer.thy ===== *)
theory Doer
  imports DoerEdit PyCodec PySha "HOL-Library.Sublist"
begin

text \<open>
  The write-gate pipeline of \<open>doer_pipeline.py\<close>: ask the agent, take a proposal from its reply, validate
  it, check the cluster's capacity, edit a fresh clone and open a pull request. The agent, the YAML loader,
  the files of the clone and the rest of the outside world (Prometheus, git, GitHub, the mail service) are
  parameters; the run keeps the log of everything it did to the outside world.
\<close>

section \<open>The outside world\<close>

abbreviation CLONE :: string where
  "CLONE \<equiv> ''/tmp/repo''"

datatype effect =
    Query string
  | Run "string list"
  | WriteFile string string
  | Api string string "json option"
  | Notify mail

type_synonym outside = "effect list \<Rightarrow> effect \<Rightarrow> string res"

record 's doer_run =
  dr_agent :: "'s call_run"
  dr_log :: "effect list"

definition perform :: "outside \<Rightarrow> effect \<Rightarrow> (string, 's doer_run) stm" where
  "perform out e c = (out (dr_log c) e, c\<lparr>dr_log := dr_log c @ [e]\<rparr>)"

definition doer_notify :: "doer_config \<Rightarrow> outside \<Rightarrow> string \<Rightarrow> string \<Rightarrow> (unit, 's doer_run) stm" where
  \<comment> \<open>a send that fails is only logged\<close>
  "doer_notify cfg out subject body c =
     (Inr (), snd (perform out (Notify \<lparr>ml_subject = subject, ml_body = body, ml_agent = dc_agent_name cfg\<rparr>) c))"

definition git :: "outside \<Rightarrow> string list \<Rightarrow> (string, 's doer_run) stm" where
  "git out args = perform out (Run ([''git'', ''-C'', CLONE] @ args))"

definition gh_api :: "outside \<Rightarrow> string \<Rightarrow> string \<Rightarrow> json option \<Rightarrow> (json, 's doer_run) stm" where
  "gh_api out meth path payload = mbind (perform out (Api meth path payload)) (\<lambda>body. mlift (json_loads body))"

section \<open>Asking the agent\<close>

definition STORAGE_PROMPT :: string where
  "STORAGE_PROMPT =
     ''Using your read-only tools, sweep for storage-durability risks (stale Longhorn backups, ''
     @ ''misconfigured RecurringJob schedules, too-low backup retention, capacity, orphans). Give ''
     @ ''a terse human triage first. THEN, only if there is a concrete, safe, config-level fix, append ''
     @ ''a fenced '' @ [CHR 0x60] @ [CHR 0x60] @ [CHR 0x60] @ ''json block with EXACTLY these keys: {''
     @ [quote] @ ''action'' @ [quote] @ '':'' @ [quote] @ ''<set_cron|set_retain>'' @ [quote] @ '',''
     @ [quote] @ ''target'' @ [quote] @ '':'' @ [quote] @ ''<RecurringJob name>'' @ [quote] @ '',''
     @ [quote] @ ''new_value'' @ [quote] @ '':'' @ [quote]
     @ ''<a 5-field cron for set_cron, or an integer for set_retain>'' @ [quote] @ '','' @ [quote]
     @ ''rationale'' @ [quote] @ '':'' @ [quote] @ ''<one sentence>'' @ [quote]
     @ ''}. set_cron only for a clearly-wrong schedule; set_retain only to INCREASE retention (never ''
     @ ''reduce it). If there is no safe config fix, emit NO json block. Never propose deletions ''
     @ ''or anything that reduces protection.''"

definition OUTPUT_RULES :: string where
  "OUTPUT_RULES =
     [newline] @ [newline] @ ''STRICT OUTPUT RULES '' @ [em_dash]
     @ '' you are an unattended batch job; there is NO human to reply to. Never ask a question or ''
     @ ''request confirmation. Never print a tool call as text. If a tool errors or times out, do ''
     @ ''NOT conclude '' @ [CHR 0x27] @ ''no data'' @ [CHR 0x27] @ '' or '' @ [CHR 0x27] @ ''no access''
     @ [CHR 0x27] @ '' and stop '' @ [em_dash]
     @ '' retry it, or reach the same signal with another of your read-only tools; only conclude ''
     @ ''there is nothing to fix once your tools have ACTUALLY returned data showing the component ''
     @ ''is healthy (an unconfirmed '' @ [CHR 0x27] @ ''I couldn'' @ [CHR 0x27] @ ''t check'' @ [CHR 0x27]
     @ '' is a failure, not a clean run). If you found a safe fix, output ONLY the one fenced ''
     @ [CHR 0x60] @ [CHR 0x60] @ [CHR 0x60]
     @ ''json proposal block and nothing else. If you did not, output nothing at all.''"

definition doer_prompt :: "doer_config \<Rightarrow> string" where
  "doer_prompt cfg = (if dc_prompt cfg = [] then STORAGE_PROMPT else dc_prompt cfg) @ OUTPUT_RULES"

definition ask_once :: "doer_config \<Rightarrow> 's agent \<Rightarrow> (json \<times> bool, 's call_run) stm" where
  "ask_once cfg agent =
     mbind (call_agent agent (dc_agent_url cfg) (doer_prompt cfg) (dc_budget cfg) 10 ''doer'')
       (\<lambda>(reply, state). mlift (rbind (is_backend_unavailable reply state) (\<lambda>b. Inr (reply, b))))"

lemma ask_once_now: "ask_once cfg agent c = (r, c') \<Longrightarrow> cr_now c < cr_now c'"
  unfolding ask_once_def mbind_def
  by (auto split: prod.splits sum.splits dest!: sym [of "call_agent _ _ _ _ _ _ _"]) (metis call_agent_now snd_conv)+

function ask_loop :: "doer_config \<Rightarrow> 's agent \<Rightarrow> nat \<Rightarrow> nat \<Rightarrow> (json, 's call_run) stm" where
  "ask_loop cfg agent deadline backoff c =
     (case ask_once cfg agent c of
        (Inl e, c1) \<Rightarrow> (Inl e, c1)
      | (Inr (reply, False), c1) \<Rightarrow> (Inr reply, c1)
      | (Inr (reply, True), c1) \<Rightarrow>
          (let remaining = (deadline - cr_now c1) div 1000 in
           if remaining = 0 then (Inr reply, c1)
           else ask_loop cfg agent deadline (min (backoff * 2) 120)
                  (c1\<lparr>cr_now := cr_now c1 + 1000 * min backoff (max 1 remaining)\<rparr>)))"
  by pat_completeness auto
termination
  by (relation "measure (\<lambda>(cfg, agent, deadline, backoff, c). deadline - cr_now c)")
    (auto dest!: ask_once_now [OF sym] split: if_splits)

declare ask_loop.simps [simp del]

definition ask_agent :: "doer_config \<Rightarrow> 's agent \<Rightarrow> (json, 's doer_run) stm" where
  "ask_agent cfg agent c =
     (let (r, a) = ask_loop cfg agent (cr_now (dr_agent c) + 1000 * dc_window cfg) 20 (dr_agent c)
      in (r, c\<lparr>dr_agent := a\<rparr>))"

section \<open>The proposal\<close>

definition fence :: string where
  "fence = [CHR 0x60, CHR 0x60, CHR 0x60]"

definition fenced_re :: re where
  "fenced_re = seqs [Str fence, Star (Cls (\<lambda>c. code_point c < 128 \<and> is_word c \<or> c = CHR ''-'')),
     Star Space, Grp 1 (LazyStar Any), Str fence]"

definition bare_re :: re where
  "bare_re = (let inside = Star (Cls (\<lambda>c. c \<noteq> CHR ''{'' \<and> c \<noteq> CHR ''}''))
     in seqs [Chr (CHR ''{''), inside, Str ([quote] @ ''action'' @ [quote]), inside, Chr (CHR ''}'')])"

fun first_proposal :: "string list \<Rightarrow> json option" where
  \<comment> \<open>the first block that is a JSON object with an action\<close>
  "first_proposal [] = None"
| "first_proposal (b # bs) =
     (case loads (strip b) of
        Some (JObj d) \<Rightarrow> if truthy (get d ''action'') then Some (JObj d) else first_proposal bs
      | _ \<Rightarrow> first_proposal bs)"

definition extract_proposal :: "json \<Rightarrow> json option res" where
  "extract_proposal reply =
     (case reply of
        JStr s \<Rightarrow> Inr (case first_proposal (findall1 fenced_re [] s) of
            Some j \<Rightarrow> Some j
          | None \<Rightarrow> (case re_search bare_re s of Some (i, m) \<Rightarrow> loads (matched m i) | None \<Rightarrow> None))
      | _ \<Rightarrow> Inl (TypeError ''expected string or bytes-like object''))"

section \<open>The capacity gate\<close>

definition item0 :: "json \<Rightarrow> json res" where
  \<comment> \<open>\<open>x[0]\<close>\<close>
  "item0 j =
     (case j of
        JList (x # _) \<Rightarrow> Inr x
      | JStr (c # _) \<Rightarrow> Inr (JStr [c])
      | JObj _ \<Rightarrow> Inl (KeyError ''0'')
      | _ \<Rightarrow> Inl (TypeError ''index''))"

definition subscript :: "json \<Rightarrow> string \<Rightarrow> json res" where
  \<comment> \<open>\<open>x[k]\<close> for a text \<open>k\<close>\<close>
  "subscript j k =
     (case j of
        JObj d \<Rightarrow> (case map_of d k of Some v \<Rightarrow> Inr v | None \<Rightarrow> Inl (key_error k))
      | _ \<Rightarrow> Inl (TypeError ''index''))"

definition prom_value :: "string \<Rightarrow> pyfloat option res" where
  "prom_value body =
     rbind (json_loads body) (\<lambda>d.
     rbind (field d ''data'' (JObj [])) (\<lambda>dd.
     rbind (field dd ''result'' (JList [])) (\<lambda>r.
       if truthy r
       then rbind (item0 r) (\<lambda>x. rbind (subscript x ''value'') (\<lambda>v. rbind (second v) (\<lambda>y. rbind (json_float y) (\<lambda>f. Inr (Some f)))))
       else Inr None)))"

definition prom_query :: "doer_config \<Rightarrow> outside \<Rightarrow> string \<Rightarrow> (pyfloat option, 's doer_run) stm" where
  "prom_query cfg out expr c =
     (let base = rstrip_chars ''/'' (dc_prom_url cfg) in
      if base = [] then (Inr None, c)
      else (let (r, c1) = perform out (Query (base @ ''/api/v1/query?query='' @ quote_url expr)) c
        in (Inr (case rbind r prom_value of Inr v \<Rightarrow> v | Inl _ \<Rightarrow> None), c1)))"

definition allocatable :: "resource \<Rightarrow> string" where
  "allocatable res = ''kube_node_status_allocatable{resource='' @ [quote] @ field_name res @ [quote] @ ''}''"

definition free_query :: "resource \<Rightarrow> string" where
  "free_query res = ''sum('' @ allocatable res @ '') - sum(kube_pod_container_resource_requests{resource=''
     @ [quote] @ field_name res @ [quote] @ ''})''"

definition in_units :: "resource \<Rightarrow> pyfloat \<Rightarrow> string" where
  "in_units res x = fmt1 (fdiv x (unit_div res)) @ '' '' @ unit_name res"

definition capacity_check :: "doer_config \<Rightarrow> outside \<Rightarrow> string \<Rightarrow> resource \<Rightarrow> (string option, 's doer_run) stm" where
  \<comment> \<open>\<open>Some\<close> message rejects\<close>
  "capacity_check cfg out nv res =
     (case parse_quantity res nv of
        None \<Rightarrow> mlift (Inr (Some (''unparseable '' @ field_name res @ '' quantity '' @ repr_str nv)))
      | Some newv \<Rightarrow>
          mbind (prom_query cfg out (''max('' @ allocatable res @ '')'')) (\<lambda>node.
            case node of
              None \<Rightarrow> mlift (Inr (Some (''CANNOT VERIFY '' @ field_name res @ '' capacity (Prometheus unreachable) '' @ [em_dash]
                        @ '' refusing to raise a limit blind'')))
            | Some n \<Rightarrow>
                (let top = fmul n (Fin (prom_scale res)) in
                 if flt (fmul (dbl (9 / 10)) top) newv
                 then mlift (Inr (Some (field_name res @ '' limit '' @ nv @ '' exceeds 90% of the largest node (''
                        @ in_units res top @ '') '' @ [em_dash] @ '' no node could hold it'')))
                 else mbind (prom_query cfg out (free_query res)) (\<lambda>free.
                   mlift (Inr (case free of
                       None \<Rightarrow> None
                     | Some f0 \<Rightarrow>
                         (let f = fmul f0 (Fin (prom_scale res)) in
                          if flt f newv
                          then Some (field_name res @ '' limit '' @ nv @ '' exceeds current cluster free headroom ('' @ in_units res f @ '')'')
                          else None)))))))"

section \<open>Editing the clone\<close>

datatype doer_action = SetCron | SetRetain | SetFor | SetLimit resource

definition action_of :: "string \<Rightarrow> doer_action option" where
  "action_of = map_of [(''set_cron'', SetCron), (''set_retain'', SetRetain), (''set_for'', SetFor),
     (''set_mem_limit'', SetLimit Memory), (''set_cpu_limit'', SetLimit Cpu)]"

fun action_kind :: "doer_action \<Rightarrow> string" where
  "action_kind SetFor = ''PrometheusRule''"
| "action_kind (SetLimit _) = ''HelmRelease''"
| "action_kind _ = ''RecurringJob''"

definition prefixed :: "string \<Rightarrow> json \<Rightarrow> json res" where
  "prefixed p t = (case t of JStr s \<Rightarrow> Inr (JStr (p @ s)) | _ \<Rightarrow> Inl (TypeError (''can only concatenate str (not '' @ [quote] @ type_name t @ [quote] @ '') to str'')))"

fun locate :: "doer_action \<Rightarrow> json \<Rightarrow> json res" where
  "locate SetFor t = prefixed ''alert: '' t"
| "locate (SetLimit _) t = Inr t"
| "locate _ t = prefixed ''name: '' t"

fun apply_action :: "doer_action \<Rightarrow> string list \<Rightarrow> string \<Rightarrow> string \<Rightarrow> (edit \<times> string list) res" where
  "apply_action SetCron ls t v = Inr (apply_scalar ''cron'' True ls t v)"
| "apply_action SetRetain ls t v = Inr (apply_scalar ''retain'' False ls t v)"
| "apply_action SetFor ls t v = Inr (apply_for ls t v)"
| "apply_action (SetLimit res) ls t v = apply_limit res ls t v"

definition in_text :: "json \<Rightarrow> string \<Rightarrow> bool res" where
  "in_text needle hay =
     (case needle of
        JStr s \<Rightarrow> Inr (contains hay s)
      | j \<Rightarrow> Inl (TypeError (''in <string> requires string as left operand, not '' @ type_name j)))"

definition py_int :: "json \<Rightarrow> int res" where
  "py_int j =
     (case j of
        JInt i \<Rightarrow> Inr i
      | JBool b \<Rightarrow> Inr (if b then 1 else 0)
      | JFloat t \<Rightarrow> float_int t
      | JStr s \<Rightarrow> (case parse_int s of Some i \<Rightarrow> Inr i | None \<Rightarrow> Inl (ValueError (''invalid literal for int() with base 10: '' @ repr_str s)))
      | _ \<Rightarrow> Inl (TypeError ''int() argument must be a string, a bytes-like object or a real number''))"

datatype guard_verdict = Skip | Reject string | Allow

definition retain_verdict :: "json \<Rightarrow> string \<Rightarrow> guard_verdict res" where
  "retain_verdict cur nv =
     (case rbind (py_int (JStr nv)) (\<lambda>n. rbind (py_int cur) (\<lambda>m. Inr (n \<le> m))) of
        Inl (OverflowError e) \<Rightarrow> Inl (OverflowError e)
      | Inl _ \<Rightarrow> Inr (Reject ''retain values must be integers'')
      | Inr le \<Rightarrow> Inr (if le then Reject (''set_retain must INCREASE retention ('' @ py_str cur @ '' -> '' @ nv @ '' rejected)'') else Allow))"

fun guard_retain :: "json list \<Rightarrow> json \<Rightarrow> string \<Rightarrow> guard_verdict res" where
  "guard_retain [] target nv = Inr Skip"
| "guard_retain (d # ds) target nv =
     (case d of
        JObj dd \<Rightarrow>
          if get dd ''kind'' = JStr ''RecurringJob''
          then rbind (dict_or (get dd ''metadata'')) (\<lambda>md.
            if get md ''name'' = target then rbind (dict_or (get dd ''spec'')) (\<lambda>sp. retain_verdict (get sp ''retain'') nv)
            else guard_retain ds target nv)
          else guard_retain ds target nv
      | _ \<Rightarrow> guard_retain ds target nv)"

type_synonym yaml_loader = "string \<Rightarrow> json list option"

definition guard_of :: "yaml_loader \<Rightarrow> doer_action \<Rightarrow> string \<Rightarrow> json \<Rightarrow> string \<Rightarrow> bool res" where
  \<comment> \<open>whether the file may be edited; \<open>False\<close> passes on to the next file\<close>
  "guard_of yaml act txt target nv =
     (if act = SetRetain
      then (case yaml txt of
          None \<Rightarrow> Inr False
        | Some docs \<Rightarrow> rbind (guard_retain docs target nv) (\<lambda>v.
            case v of Skip \<Rightarrow> Inr False | Reject m \<Rightarrow> Inl (ValueError m) | Allow \<Rightarrow> Inr True))
      else Inr True)"

text \<open>The files below \<open>PATH_PREFIX\<close> in the order of the walk; \<open>None\<close> is one that cannot be read as UTF-8.\<close>

type_synonym tree = "(string \<times> string option) list"

fun find_edit :: "yaml_loader \<Rightarrow> doer_action \<Rightarrow> json \<Rightarrow> json \<Rightarrow> string \<Rightarrow> tree \<Rightarrow> (string \<times> string) option res" where
  \<comment> \<open>the file to write and its new text\<close>
  "find_edit yaml act needle target nv [] = Inr None"
| "find_edit yaml act needle target nv ((path, content) # fs) =
     (case content of
        None \<Rightarrow> find_edit yaml act needle target nv fs
      | Some raw \<Rightarrow>
          (let txt = universal_newlines raw in
           if \<not> (endswith path ''.yaml'' \<or> endswith path ''.yml'') \<or> \<not> contains txt (action_kind act)
           then find_edit yaml act needle target nv fs
           else rbind (in_text needle txt) (\<lambda>hit.
             if \<not> hit then find_edit yaml act needle target nv fs
             else rbind (guard_of yaml act txt target nv) (\<lambda>go.
               if \<not> go then find_edit yaml act needle target nv fs
               else rbind (apply_action act (split_on newline txt) (py_str target) nv) (\<lambda>(e, lines).
                 case e of
                   Noop \<Rightarrow> Inr None
                 | Absent \<Rightarrow> find_edit yaml act needle target nv fs
                 | Changed _ \<Rightarrow> Inr (Some (path, join [newline] lines)))))))"

definition plan_edit :: "yaml_loader \<Rightarrow> tree \<Rightarrow> string \<Rightarrow> json \<Rightarrow> string \<Rightarrow> (string \<times> string) option res" where
  "plan_edit yaml files action target nv =
     (case action_of action of
        None \<Rightarrow> Inl (key_error action)
      | Some act \<Rightarrow> rbind (locate act target) (\<lambda>needle. find_edit yaml act needle target nv files))"

definition find_and_apply :: "outside \<Rightarrow> yaml_loader \<Rightarrow> tree \<Rightarrow> string \<Rightarrow> json \<Rightarrow> string \<Rightarrow> (string option, 's doer_run) stm" where
  "find_and_apply out yaml files action target nv =
     mbind (mlift (plan_edit yaml files action target nv)) (\<lambda>r.
       case r of
         None \<Rightarrow> mlift (Inr None)
       | Some (path, txt) \<Rightarrow> mbind (perform out (WriteFile path txt)) (\<lambda>_. mlift (Inr (Some path))))"

section \<open>The pull request\<close>

definition printable :: "string \<Rightarrow> string" where
  "printable s = map (\<lambda>c. if 32 \<le> code_point c \<and> code_point c \<le> 126 then c else CHR '' '') s"

definition rationale_of :: "dict \<Rightarrow> string" where
  "rationale_of p = take 300 (printable (py_str (get_or p ''rationale'' (JStr []))))"

definition branch_key :: "string \<Rightarrow> string \<Rightarrow> string \<Rightarrow> string" where
  "branch_key action target nv = take 10 (sha256_hex (encode (action @ ''|'' @ target @ ''|'' @ nv)))"

definition branch_name :: "doer_config \<Rightarrow> string \<Rightarrow> string \<Rightarrow> string \<Rightarrow> string" where
  "branch_name cfg action target nv = ''doer/'' @ dc_agent_name cfg @ ''-'' @ action @ ''-'' @ branch_key action target nv"

definition bold_item :: "string \<Rightarrow> string \<Rightarrow> string" where
  "bold_item k v = ''- **'' @ k @ '':** '' @ [CHR 0x60] @ v @ [CHR 0x60] @ [newline]"

definition pr_body :: "doer_config \<Rightarrow> string \<Rightarrow> string \<Rightarrow> string \<Rightarrow> string \<Rightarrow> string \<Rightarrow> string" where
  "pr_body cfg action target nv file rationale =
     ''Proposed by the **'' @ dc_agent_name cfg @ '' doer** (local model), applied deterministically by ''
     @ ''the doer pipeline (the model did not write this diff).'' @ [newline, newline]
     @ bold_item ''action'' action @ bold_item ''target'' target @ bold_item ''new value'' nv @ bold_item ''file'' file
     @ [newline] @ ''**Rationale:** '' @ (if rationale = [] then ''(none given)'' else rationale) @ [newline, newline]
     @ ''**Reversible:** '' @ [CHR 0x60] @ ''git revert'' @ [CHR 0x60]
     @ '' after merge. Review before merging '' @ [em_dash] @ '' the model ''
     @ ''only proposed the intent; a human gate (this PR) is the approval.'' @ [newline, newline]
     @ ''_Read-only agent + non-LLM pipeline; the model never held a credential._''"

definition clone_command :: "doer_config \<Rightarrow> string list" where
  "clone_command cfg = [''git'', ''clone'', ''--depth'', ''1'',
     ''https://x-access-token:'' @ dc_token cfg @ ''@github.com/'' @ dc_repo cfg, CLONE]"

definition commit_message :: "doer_config \<Rightarrow> string \<Rightarrow> string \<Rightarrow> string \<Rightarrow> string" where
  "commit_message cfg action target rationale =
     ''fix('' @ dc_agent_name cfg @ ''): '' @ action @ '' '' @ target @ '' (kagent doer proposal)'' @ [newline, newline] @ rationale"

definition pulls_path :: "doer_config \<Rightarrow> string" where
  "pulls_path cfg = ''/repos/'' @ dc_repo cfg @ ''/pulls''"

definition open_pulls_path :: "doer_config \<Rightarrow> string \<Rightarrow> string" where
  "open_pulls_path cfg branch = pulls_path cfg @ ''?state=open&head='' @ before (CHR ''/'') (dc_repo cfg) @ '':'' @ branch"

definition pr_payload :: "doer_config \<Rightarrow> string \<Rightarrow> string \<Rightarrow> string \<Rightarrow> string \<Rightarrow> string \<Rightarrow> json" where
  "pr_payload cfg action target nv file rationale = JObj
     [(''title'', JStr (''fix('' @ dc_agent_name cfg @ ''): '' @ action @ '' '' @ target @ '' (kagent doer)'')),
      (''head'', JStr (branch_name cfg action target nv)), (''base'', JStr ''main''),
      (''body'', JStr (pr_body cfg action target nv file rationale))]"

definition doer_subject :: "doer_config \<Rightarrow> string \<Rightarrow> string" where
  "doer_subject cfg what = dc_agent_name cfg @ '' doer: '' @ what"

definition open_pr :: "doer_config \<Rightarrow> outside \<Rightarrow> string \<Rightarrow> string \<Rightarrow> string \<Rightarrow> string \<Rightarrow> string \<Rightarrow> (unit, 's doer_run) stm" where
  "open_pr cfg out action target nv file rationale =
     (let branch = branch_name cfg action target nv in
      mbind (gh_api out ''GET'' (open_pulls_path cfg branch) None) (\<lambda>existing.
        if truthy existing then mlift (rbind (item0 existing) (\<lambda>x. rbind (as_dict x) (\<lambda>_. Inr ())))
        else
          mbind (git out [''checkout'', ''-b'', branch]) (\<lambda>_.
          mbind (git out [''add'', file]) (\<lambda>_.
          mbind (git out [''commit'', ''-m'', commit_message cfg action target rationale]) (\<lambda>_.
          mbind (git out [''push'', ''origin'', branch]) (\<lambda>_.
          mbind (gh_api out ''POST'' (pulls_path cfg) (Some (pr_payload cfg action target nv file rationale))) (\<lambda>pr.
          mbind (mlift (as_dict pr)) (\<lambda>d.
            doer_notify cfg out (doer_subject cfg ''PR opened'')
              (py_str (get d ''html_url'') @ [newline] @ action @ '' '' @ target @ '' -> '' @ nv)))))))))"

section \<open>The run\<close>

definition gated :: "string \<Rightarrow> resource option" where
  "gated = map_of [(''set_mem_limit'', Memory), (''set_cpu_limit'', Cpu)]"

definition capacity_gate :: "doer_config \<Rightarrow> outside \<Rightarrow> string \<Rightarrow> string \<Rightarrow> (string option, 's doer_run) stm" where
  "capacity_gate cfg out action nv =
     (case gated action of None \<Rightarrow> mlift (Inr None) | Some res \<Rightarrow> capacity_check cfg out nv res)"

definition clone_repo :: "doer_config \<Rightarrow> outside \<Rightarrow> (string, 's doer_run) stm" where
  "clone_repo cfg out =
     mbind (perform out (Run (clone_command cfg))) (\<lambda>_.
     mbind (git out [''config'', ''user.name'', dc_git_name cfg]) (\<lambda>_.
       git out [''config'', ''user.email'', dc_git_email cfg]))"

definition carry_out :: "doer_config \<Rightarrow> outside \<Rightarrow> yaml_loader \<Rightarrow> tree \<Rightarrow> dict \<Rightarrow> (unit, 's doer_run) stm" where
  \<comment> \<open>what \<open>main\<close> does with an accepted proposal\<close>
  "carry_out cfg out yaml files p =
     (let action = py_str (get p ''action''); target = get p ''target''; nv = new_value_of p in
      mbind (capacity_gate cfg out action nv) (\<lambda>cap.
        if cap \<noteq> None \<or> dc_token cfg = [] then mlift (Inr ())
        else
          mbind (clone_repo cfg out) (\<lambda>_.
          mbind (find_and_apply out yaml files action target nv) (\<lambda>changed.
            case changed of
              None \<Rightarrow> mlift (Inr ())
            | Some file \<Rightarrow> open_pr cfg out action (py_str target) nv file (rationale_of p)))))"

definition doer_main :: "doer_config \<Rightarrow> 's agent \<Rightarrow> outside \<Rightarrow> yaml_loader \<Rightarrow> tree \<Rightarrow> (unit, 's doer_run) stm" where
  "doer_main cfg agent out yaml files =
     mbind (ask_agent cfg agent) (\<lambda>reply.
     mbind (mlift (extract_proposal reply)) (\<lambda>proposal.
       case proposal of
         None \<Rightarrow> mlift (Inr ())
       | Some j \<Rightarrow>
           if \<not> truthy j then mlift (Inr ())
           else mbind (mlift (validate cfg j)) (\<lambda>err.
             case (err, j) of
               (None, JObj p) \<Rightarrow> carry_out cfg out yaml files p
             | _ \<Rightarrow> mlift (Inr ()))))"

definition failure_text :: "exn \<Rightarrow> string" where
  "failure_text e = (case e of HTTPError code _ \<Rightarrow> ''HTTP '' @ nat_str code | _ \<Rightarrow> take 300 (exn_repr e))"

definition run_doer :: "doer_config \<Rightarrow> 's agent \<Rightarrow> outside \<Rightarrow> yaml_loader \<Rightarrow> tree \<Rightarrow> 's doer_run \<Rightarrow> nat \<times> 's doer_run" where
  \<comment> \<open>the whole script: its exit code\<close>
  "run_doer cfg agent out yaml files c =
     (case doer_main cfg agent out yaml files c of
        (Inr _, c1) \<Rightarrow> (0, c1)
      | (Inl e, c1) \<Rightarrow> (1, snd (doer_notify cfg out (doer_subject cfg ''FAILED'') (failure_text e) c1)))"

section \<open>What a run does to the outside world\<close>

definition pr_protocol :: "doer_config \<Rightarrow> dict \<Rightarrow> string \<Rightarrow> string \<Rightarrow> effect list" where
  \<comment> \<open>the steps of a complete run, for a proposal and the file it writes\<close>
  "pr_protocol cfg p file txt =
     (let action = py_str (get p ''action''); target = py_str (get p ''target''); nv = new_value_of p;
          branch = branch_name cfg action target nv in
      [Run (clone_command cfg),
       Run [''git'', ''-C'', CLONE, ''config'', ''user.name'', dc_git_name cfg],
       Run [''git'', ''-C'', CLONE, ''config'', ''user.email'', dc_git_email cfg],
       WriteFile file txt,
       Api ''GET'' (open_pulls_path cfg branch) None,
       Run [''git'', ''-C'', CLONE, ''checkout'', ''-b'', branch],
       Run [''git'', ''-C'', CLONE, ''add'', file],
       Run [''git'', ''-C'', CLONE, ''commit'', ''-m'', commit_message cfg action target (rationale_of p)],
       Run [''git'', ''-C'', CLONE, ''push'', ''origin'', branch],
       Api ''POST'' (pulls_path cfg) (Some (pr_payload cfg action target nv file (rationale_of p)))])"

text \<open>A sequence of steps is done from its first one, and up to the one that fails.\<close>

lemma does_perform: "does dr_log (\<lambda>r x. x = [e]) (perform out e)"
  by (simp add: does_def perform_def)

lemma does_notify:
  "does dr_log (\<lambda>r x. r = Inr () \<and> x = [Notify \<lparr>ml_subject = s, ml_body = b, ml_agent = dc_agent_name cfg\<rparr>]) (doer_notify cfg out s b)"
  by (simp add: does_def doer_notify_def perform_def)

lemma does_git: "does dr_log (\<lambda>r x. x = [Run ([''git'', ''-C'', CLONE] @ args)]) (git out args)"
  unfolding git_def by (rule does_perform)

lemma does_gh_api: "does dr_log (\<lambda>r x. x = [Api meth path payload]) (gh_api out meth path payload)"
  unfolding gh_api_def by (rule does_bind [OF does_perform]) (auto intro: does_lift)

lemma does_ask_agent: "does dr_log (\<lambda>r x. x = []) (ask_agent cfg agent)"
  by (simp add: does_def ask_agent_def split: prod.split)

lemma does_prom_query: "does dr_log (\<lambda>r x. \<forall>e\<in>set x. \<exists>u. e = Query u) (prom_query cfg out expr)"
  by (simp add: does_def prom_query_def perform_def Let_def split: prod.split)

lemma does_capacity: "does dr_log (\<lambda>r x. \<forall>e\<in>set x. \<exists>u. e = Query u) (capacity_gate cfg out action nv)"
proof (cases "gated action")
  case None
  then show ?thesis by (simp add: capacity_gate_def does_def)
next
  case (Some res)
  have "does dr_log (\<lambda>r x. \<forall>e\<in>set x. \<exists>u. e = Query u) (capacity_check cfg out nv res)"
  proof (cases "parse_quantity res nv")
    case (Some newv)
    show ?thesis unfolding capacity_check_def Some option.case
    proof (rule does_bind [OF does_prom_query], goal_cases)
      case (1 a x)
      then show ?case
        by (cases a) (auto simp: Let_def intro!: does_lift does_bind [OF does_prom_query])
    qed auto
  qed (simp add: capacity_check_def does_def)
  with Some show ?thesis by (simp add: capacity_gate_def)
qed

definition steps_of :: "effect list \<Rightarrow> effect set \<Rightarrow> 'a res \<Rightarrow> effect list \<Rightarrow> bool" where
  \<comment> \<open>a prefix of the steps, or, on success only, all of them and a final mail\<close>
  "steps_of steps finals r x \<longleftrightarrow> prefix x steps \<or> ((\<exists>v. r = Inr v) \<and> (\<exists>m\<in>finals. x = steps @ [m]))"

lemma steps_of_stop: "does tr (steps_of steps finals) (mlift r)"
  by (rule does_lift) (simp add: steps_of_def)

lemma steps_of_bind:
  assumes "does tr (\<lambda>r x. x = [e]) m" "\<And>a. does tr (steps_of steps finals) (f a)"
  shows "does tr (steps_of (e # steps) finals) (mbind m f)"
  by (rule does_bind [OF assms(1)]) (auto simp: steps_of_def intro: does_mono [OF assms(2)])

lemma steps_of_lift: "(\<And>a. r = Inr a \<Longrightarrow> does tr (steps_of steps finals) (f a)) \<Longrightarrow> does tr (steps_of steps finals) (mbind (mlift r) f)"
  by (rule does_bind_lift) (auto simp: steps_of_def)

definition opened_mails :: "doer_config \<Rightarrow> dict \<Rightarrow> effect set" where
  "opened_mails cfg p = {Notify \<lparr>ml_subject = doer_subject cfg ''PR opened'',
      ml_body = url @ [newline] @ py_str (get p ''action'') @ '' '' @ py_str (get p ''target'') @ '' -> '' @ new_value_of p,
      ml_agent = dc_agent_name cfg\<rparr> | url. True}"

lemma does_open_pr:
  "does dr_log (steps_of (drop 4 (pr_protocol cfg p file txt)) (opened_mails cfg p))
     (open_pr cfg out (py_str (get p ''action'')) (py_str (get p ''target'')) (new_value_of p) file (rationale_of p))"
proof -
  have notify: "does dr_log (steps_of [] (opened_mails cfg p)) (doer_notify cfg out (doer_subject cfg ''PR opened'')
      (u @ [newline] @ py_str (get p ''action'') @ '' '' @ py_str (get p ''target'') @ '' -> '' @ new_value_of p))" for u
    by (rule does_mono [OF does_notify]) (auto simp: steps_of_def opened_mails_def)
  show ?thesis
    unfolding open_pr_def Let_def pr_protocol_def
    apply simp
    apply (rule steps_of_bind [OF does_gh_api])
    apply (simp add: steps_of_stop, intro impI)
    apply (intro steps_of_bind [OF does_git, simplified] steps_of_bind [OF does_gh_api] steps_of_lift)
    using notify by simp
qed

lemma does_edit_and_open:
  assumes "\<And>f t. plan_edit yaml files (py_str (get p ''action'')) (get p ''target'') (new_value_of p) = Inr (Some (f, t)) \<Longrightarrow> f = file \<and> t = txt"
  shows "does dr_log (\<lambda>r y. steps_of (drop 3 (pr_protocol cfg p file txt)) (opened_mails cfg p) r y
      \<and> (y \<noteq> [] \<longrightarrow> plan_edit yaml files (py_str (get p ''action'')) (get p ''target'') (new_value_of p) = Inr (Some (file, txt))))
    (mbind (find_and_apply out yaml files (py_str (get p ''action'')) (get p ''target'') (new_value_of p)) (\<lambda>changed.
       case changed of
         None \<Rightarrow> mlift (Inr ())
       | Some file \<Rightarrow> open_pr cfg out (py_str (get p ''action'')) (py_str (get p ''target'')) (new_value_of p) file (rationale_of p)))"
    (is "does _ (\<lambda>r y. ?Q r y \<and> (y \<noteq> [] \<longrightarrow> ?plan = _)) (mbind _ ?k)")
proof -
  consider e where "?plan = Inl e" | "?plan = Inr None" | "?plan = Inr (Some (file, txt))"
  proof (cases ?plan)
    case (Inr o')
    with assms that show ?thesis by (cases o') auto
  qed (use that in auto)
  then show ?thesis
  proof cases
    case 3
    have split: "drop 3 (pr_protocol cfg p file txt) = WriteFile file txt # drop 4 (pr_protocol cfg p file txt)"
      by (simp add: pr_protocol_def Let_def)
    have eq: "mbind (find_and_apply out yaml files (py_str (get p ''action'')) (get p ''target'') (new_value_of p)) ?k
        = mbind (perform out (WriteFile file txt)) (\<lambda>_. ?k (Some file))"
      using 3 by (auto simp: find_and_apply_def mbind_def mlift_def fun_eq_iff split: prod.split sum.split)
    have "does dr_log ?Q (mbind (perform out (WriteFile file txt)) (\<lambda>_. ?k (Some file)))"
      unfolding split by (rule steps_of_bind [OF does_perform]) (simp add: does_open_pr)
    then show ?thesis unfolding eq by (rule does_mono) (use 3 in auto)
  qed (auto simp: find_and_apply_def mbind_def mlift_def does_def steps_of_def)
qed

lemma does_clone_and_then:
  assumes "does dr_log (\<lambda>r y. steps_of (drop 3 (pr_protocol cfg p file txt)) finals r y \<and> (y \<noteq> [] \<longrightarrow> P)) m"
  shows "does dr_log (\<lambda>r y. steps_of (pr_protocol cfg p file txt) finals r y \<and> (4 \<le> length y \<longrightarrow> P)) (mbind (clone_repo cfg out) (\<lambda>_. m))"
proof -
  obtain h s where whole: "pr_protocol cfg p file txt = h @ s" "length h = 3" "h = take 3 (pr_protocol cfg p file txt)"
    by (rule that [OF append_take_drop_id [of 3, symmetric]]) (simp_all add: pr_protocol_def Let_def)
  have "does dr_log (\<lambda>r x. prefix x (take 3 (pr_protocol cfg p file txt)) \<and> (\<forall>v. r = Inr v \<longrightarrow> x = take 3 (pr_protocol cfg p file txt))) (clone_repo cfg out)"
    unfolding clone_repo_def git_def pr_protocol_def Let_def
    by (rule does_bind [OF does_perform], simp, rule does_bind [OF does_perform], simp, rule does_mono [OF does_perform]) auto
  then have clone: "does dr_log (\<lambda>r x. prefix x h \<and> (\<forall>v. r = Inr v \<longrightarrow> x = h)) (clone_repo cfg out)" using whole(3) by simp
  have m: "does dr_log (\<lambda>r y. steps_of s finals r y \<and> (y \<noteq> [] \<longrightarrow> P)) m"
    using assms unfolding whole(1) by (simp add: whole(2))
  show ?thesis unfolding whole(1)
  proof (rule does_bind [OF clone], goal_cases)
    case (1 a x)
    then show ?case by (auto intro!: does_mono [OF m] simp: steps_of_def whole(2))
  next
    case (2 e x)
    then have "prefix x h" by simp
    then have "prefix x (h @ s)" "length x \<le> 3" using whole(2) by (auto dest: prefix_length_le)
    then show ?case by (simp add: steps_of_def)
  qed
qed

definition queries_only :: "effect list \<Rightarrow> bool" where
  "queries_only xs \<longleftrightarrow> (\<forall>e\<in>set xs. \<exists>u. e = Query u)"

definition writes_as_planned :: "doer_config \<Rightarrow> yaml_loader \<Rightarrow> tree \<Rightarrow> 'a res \<Rightarrow> dict \<Rightarrow> effect list \<Rightarrow> bool" where
  "writes_as_planned cfg yaml files r p y \<longleftrightarrow>
     y = [] \<or> dc_token cfg \<noteq> [] \<and> (\<exists>file txt. steps_of (pr_protocol cfg p file txt) (opened_mails cfg p) r y
       \<and> (4 \<le> length y \<longrightarrow> plan_edit yaml files (py_str (get p ''action'')) (get p ''target'') (new_value_of p) = Inr (Some (file, txt))))"

lemma does_carry_out:
  "does dr_log (\<lambda>r x. \<exists>q y. x = q @ y \<and> queries_only q \<and> writes_as_planned cfg yaml files r p y) (carry_out cfg out yaml files p)"
  unfolding carry_out_def Let_def
proof (rule does_bind [OF does_capacity], goal_cases)
  case (1 cap x)
  show ?case
  proof (cases "cap \<noteq> None \<or> dc_token cfg = []")
    case True
    with 1 show ?thesis by (auto simp: queries_only_def writes_as_planned_def intro!: does_lift)
  next
    case False
    obtain f0 t0 where plan: "\<And>f t. plan_edit yaml files (py_str (get p ''action'')) (get p ''target'') (new_value_of p) = Inr (Some (f, t)) \<Longrightarrow> f = f0 \<and> t = t0"
      by (metis Inr_inject option.inject prod.inject prod.exhaust)
    from False 1 show ?thesis
      by (auto intro!: does_mono [OF does_clone_and_then [OF does_edit_and_open [OF plan]]] simp: queries_only_def writes_as_planned_def)
  qed
next
  case (2 e x)
  then show ?case by (auto simp: queries_only_def writes_as_planned_def)
qed

lemma does_doer_main:
  "does dr_log (\<lambda>r x. \<exists>q y. x = q @ y \<and> queries_only q
      \<and> (y = [] \<or> (\<exists>p. validate cfg (JObj p) = Inr None \<and> writes_as_planned cfg yaml files r p y))) (doer_main cfg agent out yaml files)"
  unfolding doer_main_def
proof (rule does_bind [OF does_ask_agent], goal_cases)
  case (1 reply x)
  show ?case
  proof (rule does_bind_lift, goal_cases)
    case (1 proposal)
    show ?case
    proof (cases "proposal = None \<or> (\<exists>j. proposal = Some j \<and> \<not> truthy j)")
      case True
      then show ?thesis using \<open>x = []\<close> by (auto simp: queries_only_def intro!: does_lift)
    next
      case False
      then obtain j where j: "proposal = Some j" "truthy j" by auto
      have "does dr_log (\<lambda>r y. \<exists>q z. y = q @ z \<and> queries_only q
          \<and> (z = [] \<or> (\<exists>p. validate cfg (JObj p) = Inr None \<and> writes_as_planned cfg yaml files r p z)))
        (mbind (mlift (validate cfg j)) (\<lambda>err. case (err, j) of (None, JObj p) \<Rightarrow> carry_out cfg out yaml files p | _ \<Rightarrow> mlift (Inr ())))"
      proof (rule does_bind_lift, goal_cases)
        case (1 err)
        show ?case
        proof (cases "err = None \<and> (\<exists>p. j = JObj p)")
          case True
          then obtain p where "err = None" "j = JObj p" by auto
          with 1 show ?thesis by (auto intro!: does_mono [OF does_carry_out])
        next
          case False
          then show ?thesis by (cases err; cases j) (auto simp: queries_only_def intro!: does_lift)
        qed
      qed (auto simp: queries_only_def)
      with j \<open>x = []\<close> show ?thesis by simp
    qed
  qed (use \<open>x = []\<close> in \<open>auto simp: queries_only_def\<close>)
qed (auto simp: queries_only_def)

text \<open>
  Property C8. Whatever the agent, Prometheus, git and GitHub answer, what a run of the doer does to the
  outside world is: queries of Prometheus; then a prefix of one fixed sequence (clone, two settings, one
  file, the check for an open pull request, branch, add, commit, push of that branch, one new pull request
  against main), and only with a token and a proposal that passed validation, the file being the one the
  planned edit names; then at most one mail, which says that the pull request was opened after the whole
  sequence or that the run failed, with exit code 1. Nothing is merged and nothing else is sent.
\<close>

theorem doer_follows_protocol:
  fixes c :: "'s doer_run"
  shows "\<exists>queries steps mails code c1. run_doer cfg agent out yaml files c = (code, c1)
    \<and> dr_log c1 = dr_log c @ queries @ steps @ mails \<and> queries_only queries
    \<and> (steps = [] \<and> (code = 1 \<or> mails = [])
       \<or> dc_token cfg \<noteq> [] \<and> (\<exists>p file txt. validate cfg (JObj p) = Inr None \<and> prefix steps (pr_protocol cfg p file txt)
          \<and> (length steps < 4 \<or> plan_edit yaml files (py_str (get p ''action'')) (get p ''target'') (new_value_of p) = Inr (Some (file, txt)))
          \<and> (code = 1 \<or> mails = [] \<or> steps = pr_protocol cfg p file txt \<and> (\<exists>m\<in>opened_mails cfg p. mails = [m]))))
    \<and> (code = 0 \<or> code = 1 \<and> (\<exists>body. mails = [Notify \<lparr>ml_subject = doer_subject cfg ''FAILED'', ml_body = body, ml_agent = dc_agent_name cfg\<rparr>]))"
proof -
  obtain r c1 where main: "doer_main cfg agent out yaml files c = (r, c1)" by fastforce
  obtain q y where log: "dr_log c1 = dr_log c @ q @ y" and q: "queries_only q"
    and y: "y = [] \<or> (\<exists>p. validate cfg (JObj p) = Inr None \<and> writes_as_planned cfg yaml files r p y)"
    using does_step [OF does_doer_main main] by metis
  show ?thesis
  proof (cases r)
    case (Inl e)
    let ?m = "Notify \<lparr>ml_subject = doer_subject cfg ''FAILED'', ml_body = failure_text e, ml_agent = dc_agent_name cfg\<rparr>"
    have run: "run_doer cfg agent out yaml files c = (1, c1\<lparr>dr_log := dr_log c1 @ [?m]\<rparr>)"
      using main Inl by (simp add: run_doer_def doer_notify_def perform_def)
    have "y = [] \<or> dc_token cfg \<noteq> [] \<and> (\<exists>p file txt. validate cfg (JObj p) = Inr None \<and> prefix y (pr_protocol cfg p file txt)
        \<and> (length y < 4 \<or> plan_edit yaml files (py_str (get p ''action'')) (get p ''target'') (new_value_of p) = Inr (Some (file, txt))))"
      using y Inl unfolding writes_as_planned_def steps_of_def not_less [symmetric] by blast
    with log q show ?thesis unfolding run
      by - (rule exI [of _ q], rule exI [of _ y], rule exI [of _ "[?m]"], rule exI [of _ 1], rule exI,
        intro conjI, rule refl, simp, assumption, blast, blast)
  next
    case (Inr u)
    have run: "run_doer cfg agent out yaml files c = (0, c1)" using main Inr by (simp add: run_doer_def)
    consider "y = []" | p f t where "validate cfg (JObj p) = Inr None" "dc_token cfg \<noteq> []"
        "length y < 4 \<or> plan_edit yaml files (py_str (get p ''action'')) (get p ''target'') (new_value_of p) = Inr (Some (f, t))"
        "prefix y (pr_protocol cfg p f t)"
      | p f t m where "validate cfg (JObj p) = Inr None" "dc_token cfg \<noteq> []"
        "plan_edit yaml files (py_str (get p ''action'')) (get p ''target'') (new_value_of p) = Inr (Some (f, t))"
        "y = pr_protocol cfg p f t @ [m]" "m \<in> opened_mails cfg p"
      using y unfolding writes_as_planned_def steps_of_def by (fastforce simp: pr_protocol_def Let_def)
    then show ?thesis
    proof cases
      case 1
      with log q show ?thesis unfolding run
        by - (rule exI [of _ q], rule exI [of _ "[]"], rule exI [of _ "[]"], auto)
    next
      case (2 p f t)
      with log q show ?thesis unfolding run
        by - (rule exI [of _ q], rule exI [of _ y], rule exI [of _ "[]"], auto)
    next
      case (3 p f t m)
      have "pr_protocol cfg p f t \<noteq> []" by (simp add: pr_protocol_def Let_def)
      then show ?thesis unfolding run
        by - (rule exI [of _ q], rule exI [of _ "pr_protocol cfg p f t"], rule exI [of _ "[m]"], use 3 log q in auto)
    qed
  qed
qed

section \<open>The planned edit\<close>

text \<open>The field that an action sets.\<close>

fun action_field :: "doer_action \<Rightarrow> string" where
  "action_field SetCron = ''cron''"
| "action_field SetRetain = ''retain''"
| "action_field SetFor = ''for''"
| "action_field (SetLimit res) = field_name res"

lemma apply_action_line:
  assumes "apply_action act ls t v = Inr (Changed k, ls')" "no_breaks ls"
  shows "\<exists>l. (k < length ls \<and> ls' = ls[k := l] \<or> act = SetFor \<and> k \<le> length ls \<and> ls' = insert_at k l ls)
    \<and> sets_field (action_field act) v l"
proof (cases act)
  case (SetLimit res)
  with assms limit_line [of res ls t v k ls'] show ?thesis by auto
qed (use assms scalar_line [of _ _ ls t v k ls'] for_line [of ls t v k ls'] in auto)

lemma no_breaks_split: "no_breaks (split_on newline s)"
  by (induction s) (auto split: list.splits)

lemma action_field_break: "newline \<notin> set (action_field act)"
proof (cases act)
  case (SetLimit res)
  then show ?thesis by (cases res) simp_all
qed simp_all

lemma verdict_allows: "(case v of Skip \<Rightarrow> Inr False | Reject m \<Rightarrow> Inl (ValueError m) | Allow \<Rightarrow> Inr True) = Inr True \<longleftrightarrow> v = Allow"
  by (cases v) auto

lemma guard_ofD: "guard_of yaml act txt target nv = Inr True \<Longrightarrow> act = SetRetain \<Longrightarrow> \<exists>docs. yaml txt = Some docs \<and> guard_retain docs target nv = Inr Allow"
  by (auto simp: guard_of_def rbind_Inr_iff verdict_allows split: option.splits)

lemma find_edit_file:
  assumes "find_edit yaml act needle target nv files = Inr (Some (path, new))"
  shows "\<exists>raw txt lines' k. (path, Some raw) \<in> set files \<and> (endswith path ''.yaml'' \<or> endswith path ''.yml'')
    \<and> txt = universal_newlines raw \<and> contains txt (action_kind act) \<and> in_text needle txt = Inr True
    \<and> guard_of yaml act txt target nv = Inr True
    \<and> apply_action act (split_on newline txt) (py_str target) nv = Inr (Changed k, lines') \<and> new = join [newline] lines'"
  using assms
proof (induction files)
  case (Cons x files)
  obtain q content where x: "x = (q, content)" by (cases x)
  have ih: "find_edit yaml act needle target nv files = Inr (Some (path, new)) \<Longrightarrow> ?case" using Cons.IH by (metis list.set_intros(2))
  show ?case
  proof (cases content)
    case None
    with Cons.prems x ih show ?thesis by simp
  next
    case (Some raw)
    let ?t = "universal_newlines raw"
    show ?thesis
    proof (cases "\<not> (endswith q ''.yaml'' \<or> endswith q ''.yml'') \<or> \<not> contains ?t (action_kind act)")
      case True
      with Cons.prems x Some ih show ?thesis by (simp add: Let_def)
    next
      case False
      with Cons.prems x Some obtain hit where hit: "in_text needle ?t = Inr hit" by (auto simp: Let_def rbind_Inr_iff)
      show ?thesis
      proof (cases hit)
        case h: True
        with False Cons.prems x Some hit obtain go where go: "guard_of yaml act ?t target nv = Inr go" by (auto simp: Let_def rbind_Inr_iff)
        show ?thesis
        proof (cases go)
          case g: True
          with h False Cons.prems x Some hit go obtain e ls where e: "apply_action act (split_on newline ?t) (py_str target) nv = Inr (e, ls)"
            by (auto simp: Let_def rbind_Inr_iff)
          show ?thesis
          proof (cases e)
            case (Changed k)
            with e h g False Cons.prems x Some hit go have "path = q" "new = join [newline] ls" by (auto simp: Let_def)
            moreover have "apply_action act (split_on newline ?t) (py_str target) nv = Inr (Changed k, ls)" using e Changed by simp
            ultimately show ?thesis using h g False x Some hit go by (intro exI [of _ raw] exI [of _ ?t]) auto
          qed (use e h g False Cons.prems x Some hit go ih in \<open>auto simp: Let_def\<close>)
        qed (use h False Cons.prems x Some hit go ih in \<open>auto simp: Let_def\<close>)
      qed (use False Cons.prems x Some hit ih in \<open>auto simp: Let_def\<close>)
    qed
  qed
qed simp

text \<open>
  Property C9. The edit of a run, for a value without a line break, touches one line of one file: the file is
  a YAML file below the prefix that names the kind of the action, and the lines of its new text are the old
  ones with one of them replaced, or, for the clause of an alert, one inserted. The new line gives the value
  to the field of the action and to no other; the retention is written only if the guard of retentions
  allowed the value on the documents of the file. Values with line breaks are the finding below.
\<close>

theorem planned_edit_is_minimal:
  assumes "plan_edit yaml files action target nv = Inr (Some (path, new))" "newline \<notin> set nv"
  shows "\<exists>act raw txt k l. action_of action = Some act \<and> (path, Some raw) \<in> set files
    \<and> (endswith path ''.yaml'' \<or> endswith path ''.yml'') \<and> txt = universal_newlines raw
    \<and> contains txt (action_kind act)
    \<and> (k < length (split_on newline txt) \<and> split_on newline new = (split_on newline txt)[k := l]
       \<or> act = SetFor \<and> k \<le> length (split_on newline txt) \<and> split_on newline new = insert_at k l (split_on newline txt))
    \<and> sets_field (action_field act) nv l
    \<and> (act = SetRetain \<longrightarrow> (\<exists>docs. yaml txt = Some docs \<and> guard_retain docs target nv = Inr Allow))"
proof -
  obtain act needle where act: "action_of action = Some act"
    and find: "find_edit yaml act needle target nv files = Inr (Some (path, new))"
    using assms(1) by (auto simp: plan_edit_def rbind_Inr_iff split: option.splits)
  obtain raw t lines' k where found: "(path, Some raw) \<in> set files" "endswith path ''.yaml'' \<or> endswith path ''.yml''"
    "t = universal_newlines raw" "contains t (action_kind act)" "guard_of yaml act t target nv = Inr True"
    "apply_action act (split_on newline t) (py_str target) nv = Inr (Changed k, lines')" "new = join [newline] lines'"
    using find_edit_file [OF find] by blast
  let ?ls = "split_on newline t"
  obtain l where l: "k < length ?ls \<and> lines' = ?ls[k := l] \<or> act = SetFor \<and> k \<le> length ?ls \<and> lines' = insert_at k l ?ls"
      "sets_field (action_field act) nv l"
    using apply_action_line [OF found(6) no_breaks_split] by blast
  have "newline \<notin> set l" by (rule sets_field_break [OF l(2) action_field_break assms(2)])
  with l(1) no_breaks_split [of t] have "no_breaks lines'"
    by (auto simp: insert_at_def dest!: in_set_takeD in_set_dropD subsetD [OF set_update_subset_insert])
  moreover have "lines' \<noteq> []"
    using l(1) by (elim disjE) (metis length_list_update less_nat_zero_code list.size(3), simp add: insert_at_def)
  ultimately have "split_on newline new = lines'" unfolding found(7) by (simp add: split_on_join)
  with act found l guard_ofD [OF found(5)] show ?thesis by blast
qed

section \<open>What the gates let through\<close>

definition line_text :: "string list \<Rightarrow> string" where
  "line_text ls = join [newline] ls"

definition demo_doer :: doer_config where
  "demo_doer = \<lparr>dc_agent_url = ''http://storage'', dc_agent_name = ''storage'', dc_allowed = [''set_cron'', ''set_retain''],
     dc_repo = ''o/r'', dc_token = ''tok'', dc_prefix = ''kubernetes/apps/'', dc_git_name = ''doer'', dc_git_email = ''d@x'',
     dc_prom_url = [], dc_prompt = [], dc_budget = 500, dc_window = 600\<rparr>"

definition daily_job :: "string list" where
  "daily_job = [''kind: RecurringJob'', ''metadata:'', ''  name: daily'', ''spec:'', ''  cron: '' @ [quote] @ ''0 3 * * *'' @ [quote], ''  retain: 7'']"

definition odd_cron :: dict where
  "odd_cron = [(''action'', JStr ''set_cron''), (''target'', JStr ''daily''),
     (''new_value'', JStr (''0'' @ [quote, newline] @ ''  retain: 1 # x''))]"

lemma odd_cron_planned:
  "plan_edit yaml [(''kubernetes/apps/j.yaml'', Some (line_text daily_job))] ''set_cron'' (JStr ''daily'') (new_value_of odd_cron)
     = Inr (Some (''kubernetes/apps/j.yaml'',
         line_text [''kind: RecurringJob'', ''metadata:'', ''  name: daily'', ''spec:'', ''  cron: '' @ [quote] @ ''0'' @ [quote],
           ''  retain: 1 # x'' @ [quote], ''  retain: 7'']))"
proof -
  have "apply_scalar ''cron'' True (split_on newline (line_text daily_job)) ''daily'' (new_value_of odd_cron) =
      (Changed 4, daily_job[4 := ''  cron: '' @ [quote] @ ''0'' @ [quote, newline] @ ''  retain: 1 # x'' @ [quote]])"
    by code_simp
  moreover have "universal_newlines (line_text daily_job) = line_text daily_job" "contains (line_text daily_job) ''RecurringJob''"
      "contains (line_text daily_job) ''name: daily''" "endswith ''kubernetes/apps/j.yaml'' ''.yaml''"
    by code_simp+
  ultimately show ?thesis
    by (simp add: plan_edit_def action_of_def prefixed_def Let_def in_text_def guard_of_def) (simp add: line_text_def daily_job_def)
qed

lemma early_cron_planned:
  "plan_edit yaml [(''kubernetes/apps/j.yaml'', Some (line_text daily_job))] ''set_cron'' (JStr ''daily'') ''0 4 * * *''
     = Inr (Some (''kubernetes/apps/j.yaml'', line_text (daily_job[4 := ''  cron: '' @ [quote] @ ''0 4 * * *'' @ [quote]])))"
proof -
  have "apply_scalar ''cron'' True (split_on newline (line_text daily_job)) ''daily'' ''0 4 * * *'' =
      (Changed 4, daily_job[4 := ''  cron: '' @ [quote] @ ''0 4 * * *'' @ [quote]])"
    by code_simp
  moreover have "universal_newlines (line_text daily_job) = line_text daily_job" "contains (line_text daily_job) ''RecurringJob''"
      "contains (line_text daily_job) ''name: daily''" "endswith ''kubernetes/apps/j.yaml'' ''.yaml''"
    by code_simp+
  ultimately show ?thesis
    by (simp add: plan_edit_def action_of_def prefixed_def Let_def in_text_def guard_of_def) (simp add: line_text_def daily_job_def)
qed

theorem planned_edit_is_minimal_witness:
  "let path = ''kubernetes/apps/j.yaml''; new = line_text (daily_job[4 := ''  cron: '' @ [quote] @ ''0 4 * * *'' @ [quote]]) in
   \<exists>act raw txt k l. action_of ''set_cron'' = Some act \<and> (path, Some raw) \<in> set [(path, Some (line_text daily_job))]
    \<and> (endswith path ''.yaml'' \<or> endswith path ''.yml'') \<and> txt = universal_newlines raw
    \<and> contains txt (action_kind act)
    \<and> (k < length (split_on newline txt) \<and> split_on newline new = (split_on newline txt)[k := l]
       \<or> act = SetFor \<and> k \<le> length (split_on newline txt) \<and> split_on newline new = insert_at k l (split_on newline txt))
    \<and> sets_field (action_field act) ''0 4 * * *'' l
    \<and> (act = SetRetain \<longrightarrow> (\<exists>docs. (\<lambda>_. None) txt = Some docs \<and> guard_retain docs (JStr ''daily'') ''0 4 * * *'' = Inr Allow))"
proof -
  have "newline \<notin> set ''0 4 * * *''" by simp
  from planned_edit_is_minimal [OF early_cron_planned this] show ?thesis unfolding Let_def .
qed

text \<open>
  The form required of a schedule is five blank-separated fields and lets quotes and line
  breaks through: an accepted change of a schedule can add a line to the file, here one that sets the
  retention, which the guard for changes of a retention never sees.
\<close>

theorem cron_value_adds_a_line:
  "validate demo_doer (JObj odd_cron) = Inr None
   \<and> plan_edit yaml [(''kubernetes/apps/j.yaml'', Some (line_text daily_job))] ''set_cron'' (JStr ''daily'') (new_value_of odd_cron)
     = Inr (Some (''kubernetes/apps/j.yaml'',
         line_text [''kind: RecurringJob'', ''metadata:'', ''  name: daily'', ''spec:'', ''  cron: '' @ [quote] @ ''0'' @ [quote],
           ''  retain: 1 # x'' @ [quote], ''  retain: 7'']))"
proof -
  have "validate demo_doer (JObj odd_cron) = Inr None" by code_simp
  then show ?thesis using odd_cron_planned by simp
qed

definition two_jobs :: "string list" where
  "two_jobs = [''kind: RecurringJob'', ''metadata:'', ''  name: weekly'', ''  labels:'', ''    name: daily'', ''spec:'', ''  retain: 30'',
     ''---'', ''kind: RecurringJob'', ''metadata:'', ''  name: daily'', ''spec:'', ''  retain: 7'']"

definition retain_job :: "string \<Rightarrow> dict \<Rightarrow> int \<Rightarrow> json" where
  "retain_job name labels n = JObj [(''kind'', JStr ''RecurringJob''),
     (''metadata'', JObj [(''name'', JStr name), (''labels'', JObj labels)]), (''spec'', JObj [(''retain'', JInt n)])]"

text \<open>
  The guard on a retention looks at the document whose name is the target, the edit at the
  first line that gives the name anywhere: where a document before it carries the target as a label, the
  guard compares 7 with 8 and the edit takes the other job from 30 to 8.
\<close>

theorem retain_guard_misses_the_edit:
  assumes "yaml (line_text two_jobs) = Some [retain_job ''weekly'' [(''name'', JStr ''daily'')] 30, retain_job ''daily'' [] 7]"
  shows "plan_edit yaml [(''kubernetes/apps/j.yaml'', Some (line_text two_jobs))] ''set_retain'' (JStr ''daily'') ''8''
     = Inr (Some (''kubernetes/apps/j.yaml'', line_text (two_jobs[6 := ''  retain: 8''])))"
proof -
  have docs: "guard_retain [retain_job ''weekly'' [(''name'', JStr ''daily'')] 30, retain_job ''daily'' [] 7] (JStr ''daily'') ''8'' = Inr Allow"
    by code_simp
  have reads: "universal_newlines (line_text two_jobs) = line_text two_jobs" "contains (line_text two_jobs) ''RecurringJob''"
      "contains (line_text two_jobs) ''name: daily''"
    by code_simp+
  have edit: "apply_scalar ''retain'' False (split_on newline (line_text two_jobs)) ''daily'' ''8'' = (Changed 6, two_jobs[6 := ''  retain: 8''])"
    by code_simp
  have "endswith ''kubernetes/apps/j.yaml'' ''.yaml''" by code_simp
  with assms docs reads edit show ?thesis
    by (simp add: plan_edit_def action_of_def prefixed_def Let_def in_text_def guard_of_def line_text_def)
qed

theorem retain_guard_misses_the_edit_witness:
  "plan_edit (\<lambda>_. Some [retain_job ''weekly'' [(''name'', JStr ''daily'')] 30, retain_job ''daily'' [] 7])
      [(''kubernetes/apps/j.yaml'', Some (line_text two_jobs))] ''set_retain'' (JStr ''daily'') ''8''
     = Inr (Some (''kubernetes/apps/j.yaml'', line_text (two_jobs[6 := ''  retain: 8''])))"
  by (rule retain_guard_misses_the_edit) simp

lemma prom_query_ok: "\<exists>v c'. prom_query cfg out expr c = (Inr v, c')"
  by (simp add: prom_query_def Let_def split: prod.split)

text \<open>
  When the capacity gate lets a limit pass: the quantity parses, the allocatable capacity of
  the largest node is known and the limit is not above nine tenths of it, and, only if the free headroom of
  the cluster is known, the limit is not above that either. A headroom that cannot be read lets it pass.
\<close>

theorem capacity_allows_iff:
  "fst (capacity_check cfg out nv res c) = Inr None \<longleftrightarrow>
     (\<exists>newv node c1. parse_quantity res nv = Some newv
        \<and> prom_query cfg out (''max('' @ allocatable res @ '')'') c = (Inr (Some node), c1)
        \<and> \<not> flt (fmul (dbl (9 / 10)) (fmul node (Fin (prom_scale res)))) newv
        \<and> (case fst (prom_query cfg out (free_query res) c1) of
             Inr (Some free) \<Rightarrow> \<not> flt (fmul free (Fin (prom_scale res))) newv
           | _ \<Rightarrow> True))"
proof (cases "parse_quantity res nv")
  case None
  then show ?thesis by (simp add: capacity_check_def)
next
  case (Some newv)
  obtain node c1 where q1: "prom_query cfg out (''max('' @ allocatable res @ '')'') c = (Inr node, c1)" using prom_query_ok by blast
  obtain free c2 where q2: "prom_query cfg out (free_query res) c1 = (Inr free, c2)" using prom_query_ok by blast
  show ?thesis
    using Some q1 q2 by (cases node; cases free) (auto simp: capacity_check_def mbind_def Let_def)
qed

section \<open>What a failed run mails\<close>

definition repr_safe :: "string \<Rightarrow> bool" where
  \<comment> \<open>printable characters that \<open>repr\<close> prints as they are\<close>
  "repr_safe s \<longleftrightarrow> (\<forall>c\<in>set s. 32 \<le> code_point c \<and> code_point c < 127 \<and> c \<noteq> CHR 0x27 \<and> c \<noteq> CHR 0x5C)"

lemma repr_char_plain:
  assumes "32 \<le> code_point c" "code_point c < 127" "c \<noteq> q" "c \<noteq> CHR 0x5C"
  shows "repr_char q c = [c]"
  unfolding repr_char_def Let_def by (rule trans [OF if_not_P], use assms in blast) (use assms in \<open>simp del: One_nat_def\<close>)

lemma repr_safe_same: "repr_safe s \<Longrightarrow> repr_str s = CHR 0x27 # s @ [CHR 0x27]"
proof -
  assume p: "repr_safe s"
  have "\<forall>c\<in>set s. repr_char (CHR 0x27) c = [c]"
    by (rule ballI, rule repr_char_plain) (use p [unfolded repr_safe_def] in blast)+
  then have "concat (map (repr_char (CHR 0x27)) s) = s" by (induction s) auto
  moreover have "CHR 0x27 \<notin> set s" using p by (auto simp: repr_safe_def)
  ultimately show ?thesis by (simp add: repr_str_def Let_def)
qed

lemma repr_safe_append [simp]: "repr_safe (a @ b) \<longleftrightarrow> repr_safe a \<and> repr_safe b"
  by (auto simp: repr_safe_def)

definition clone_failure :: "doer_config \<Rightarrow> exn" where
  "clone_failure cfg = CalledProcessError 128 (clone_command cfg)"

lemma clone_failure_text:
  assumes "repr_safe (dc_token cfg)" "repr_safe (dc_repo cfg)" "length (dc_token cfg) \<le> 200"
  shows "\<exists>a b. failure_text (clone_failure cfg) = a @ dc_token cfg @ b"
proof -
  have url: "repr_str (''https://x-access-token:'' @ dc_token cfg @ ''@github.com/'' @ dc_repo cfg)
      = CHR 0x27 # (''https://x-access-token:'' @ dc_token cfg @ ''@github.com/'' @ dc_repo cfg) @ [CHR 0x27]"
    using assms by (intro repr_safe_same) (auto simp: repr_safe_def code_point_def)
  define a where "a = ''CalledProcessError(128, [''
      @ repr_str ''git'' @ '', '' @ repr_str ''clone'' @ '', '' @ repr_str ''--depth'' @ '', '' @ repr_str ''1'' @ '', '' @ CHR 0x27 # ''https://x-access-token:''"
  have len: "length a \<le> 100"
    unfolding a_def by (simp add: repr_safe_same repr_safe_def code_point_def)
  obtain b where "exn_repr (clone_failure cfg) = a @ dc_token cfg @ b"
    unfolding a_def clone_failure_def clone_command_def
    using url by (simp add: py_simps)
  then have "failure_text (clone_failure cfg) = take 300 (a @ dc_token cfg @ b)" by (simp add: failure_text_def clone_failure_def)
  also have "\<dots> = a @ dc_token cfg @ take (300 - length a - length (dc_token cfg)) b" using len assms(3) by simp
  finally show ?thesis by blast
qed

text \<open>
  Property C31. A clone that fails mails the credential: git's exception carries its command line, the
  command line the token, and the mail of a failed run the text of the exception.
\<close>

theorem failed_clone_mails_the_token:
  assumes "ask_agent cfg agent c = (Inr reply, c1)" "extract_proposal reply = Inr (Some (JObj p))"
    "validate cfg (JObj p) = Inr None" "p \<noteq> []" "gated (py_str (get p ''action'')) = None" "dc_token cfg \<noteq> []"
    "out (dr_log c1) (Run (clone_command cfg)) = Inl (CalledProcessError 128 (clone_command cfg))"
    "repr_safe (dc_token cfg)" "repr_safe (dc_repo cfg)" "length (dc_token cfg) \<le> 200"
  shows "\<exists>c2 m a b. run_doer cfg agent out yaml files c = (1, c2) \<and> last (dr_log c2) = Notify m \<and> ml_body m = a @ dc_token cfg @ b"
proof -
  have "doer_main cfg agent out yaml files c = (Inl (clone_failure cfg), c1\<lparr>dr_log := dr_log c1 @ [Run (clone_command cfg)]\<rparr>)"
    using assms(1-7) by (simp add: doer_main_def mbind_def carry_out_def capacity_gate_def clone_repo_def perform_def clone_failure_def Let_def)
  moreover obtain a b where "failure_text (clone_failure cfg) = a @ dc_token cfg @ b" using clone_failure_text assms(8-10) by blast
  ultimately show ?thesis by (simp add: run_doer_def doer_notify_def perform_def) blast
qed

text \<open>An agent that proposes a schedule, and a world in which nothing succeeds.\<close>

definition plain_proposal :: dict where
  "plain_proposal = [(''action'', JStr ''set_cron''), (''target'', JStr ''daily''), (''new_value'', JStr ''0 4 * * *'')]"

definition proposal_text :: string where
  "proposal_text = fence @ ''json'' @ [newline] @ dumps (JObj plain_proposal) @ [newline] @ fence"

definition proposal_body :: string where
  "proposal_body = dumps (JObj [(''result'', JObj [(''status'', JObj [(''state'', JStr ''completed''),
     (''message'', JObj [(''parts'', JList [JObj [(''kind'', JStr ''text''), (''text'', JStr proposal_text)]])])])])])"

definition proposer :: "unit agent" where
  "proposer url p w = (A2aBody proposal_body 0, w)"

definition offline :: outside where
  "offline done e = (case e of Run cmd \<Rightarrow> Inl (CalledProcessError 128 cmd) | _ \<Rightarrow> Inl (OSError ''unreachable''))"

definition demo_start :: "unit doer_run" where
  "demo_start = \<lparr>dr_agent = \<lparr>cr_world = (), cr_now = 0, cr_log = []\<rparr>, dr_log = []\<rparr>"

lemma proposal_reply:
  "reply_of (parse_jsonrpc proposal_body)
     = Inr (JStr proposal_text, JStr ''completed'', [(''status'', JObj [(''state'', JStr ''completed''),
         (''message'', JObj [(''parts'', JList [JObj [(''kind'', JStr ''text''), (''text'', JStr proposal_text)]])])])])"
  by code_simp

lemma proposal_taken: "extract_proposal (JStr proposal_text) = Inr (Some (JObj plain_proposal))"
  by code_simp

lemma proposal_valid: "validate demo_doer (JObj plain_proposal) = Inr None"
  by code_simp

lemma proposer_asked: "\<exists>c1. ask_agent demo_doer proposer demo_start = (Inr (JStr proposal_text), c1) \<and> dr_log c1 = []"
proof -
  have "proposal_text \<noteq> []" by (simp add: proposal_text_def fence_def)
  then have "\<exists>c1. ask_once demo_doer proposer \<lparr>cr_world = (), cr_now = 0, cr_log = []\<rparr> = (Inr (JStr proposal_text, False), c1)"
    by (simp add: ask_once_def call_agent_def a2a_post_def proposer_def proposal_reply mbind_def is_terminal_def TERMINAL_def
        is_backend_unavailable_def startswith_def)
  then show ?thesis by (auto simp: ask_agent_def demo_start_def ask_loop.simps)
qed

theorem failed_clone_mails_the_token_witness:
  "\<exists>c2 m a b. run_doer demo_doer proposer offline (\<lambda>_. None) [] demo_start = (1, c2)
    \<and> last (dr_log c2) = Notify m \<and> ml_body m = a @ ''tok'' @ b"
proof -
  obtain c1 where "ask_agent demo_doer proposer demo_start = (Inr (JStr proposal_text), c1)" using proposer_asked by blast
  from failed_clone_mails_the_token [OF this proposal_taken proposal_valid, of offline "\<lambda>_. None" "[]"] show ?thesis
    by (auto simp: plain_proposal_def gated_def demo_doer_def offline_def repr_safe_def code_point_def)
qed

end
