(* ===== verification/AgentCallback.thy ===== *)
theory AgentCallback
  imports PyFloat PyCodec PySha PyJson
begin

text \<open>
  The service of \<open>agent-callback/server.py\<close> that turns a confirmed e-mail button into a message to an
  agent: signed tokens, the ledger of used token ids, the pages and the two handlers, as one step each
  and as the threads of the server interleave them. The key, the clock and the agents are parameters.
  A token's document is UTF-8 without a byte order mark.
\<close>

section \<open>Tokens\<close>

definition to_std :: "char \<Rightarrow> char" where
  "to_std c = (if c = CHR ''-'' then CHR ''+'' else if c = CHR ''_'' then CHR ''/'' else c)"

definition b64d :: "string \<Rightarrow> nat list res" where
  "b64d s = b64decode (map to_std s @ replicate ((4 - length s mod 4) mod 4) (CHR ''=''))"

definition cont :: "nat \<Rightarrow> bool" where
  "cont b \<longleftrightarrow> 128 \<le> b \<and> b < 192"

fun utf8_strict :: "nat list \<Rightarrow> string option" where
  \<comment> \<open>\<open>bytes.decode()\<close>; characters beyond the model stand at one control code\<close>
  "utf8_strict [] = Some []"
| "utf8_strict (a # bs) =
     (if a < 128 then map_option ((#) (char_of a)) (utf8_strict bs)
      else (case bs of
          [] \<Rightarrow> None
        | b # cs \<Rightarrow>
            if 194 \<le> a \<and> a < 224 \<and> cont b
            then map_option ((#) (if a < 196 then char_of ((a - 192) * 64 + (b - 128)) else CHR 0x9D)) (utf8_strict cs)
            else (case cs of
                [] \<Rightarrow> None
              | c # ds \<Rightarrow>
                  if 224 \<le> a \<and> a < 240 \<and> cont b \<and> cont c \<and> (a \<noteq> 224 \<or> 160 \<le> b)
                  then map_option ((#) (CHR 0x9D)) (utf8_strict ds)
                  else (case ds of
                      [] \<Rightarrow> None
                    | d # es \<Rightarrow>
                        if 240 \<le> a \<and> a < 245 \<and> cont b \<and> cont c \<and> cont d \<and> (a \<noteq> 240 \<or> 144 \<le> b) \<and> (a \<noteq> 244 \<or> b < 144)
                        then map_option ((#) (CHR 0x9D)) (utf8_strict es)
                        else None))))"

definition agent_ok :: "string \<Rightarrow> bool" where
  "agent_ok a \<longleftrightarrow> a \<noteq> [] \<and> (\<forall>c\<in>set a. c \<in> set ''abcdefghijklmnopqrstuvwxyz0123456789-'')"

definition payload_of :: "string \<Rightarrow> dict option" where
  "payload_of body =
     (case b64d body of
        Inl _ \<Rightarrow> None
      | Inr bs \<Rightarrow> (case Option.bind (utf8_strict bs) loads of Some (JObj p) \<Rightarrow> Some p | _ \<Rightarrow> None))"

definition verify :: "nat list \<Rightarrow> rat \<Rightarrow> string \<Rightarrow> dict option res" where
  \<comment> \<open>an \<open>exp\<close> that is not a number raises\<close>
  "verify key now token =
     (if key = [] \<or> token = [] \<or> length (filter (\<lambda>c. c = CHR ''.'') token) \<noteq> 1 then Inr None
      else (let body = before (CHR ''.'') token; sig = drop (Suc (length body)) token in
        if b64d sig \<noteq> Inr (hmac_sha256 key (encode body)) then Inr None
        else (case payload_of body of
            None \<Rightarrow> Inr None
          | Some p \<Rightarrow>
              rbind (json_float (get_or p ''exp'' (JInt 0))) (\<lambda>e.
                Inr (if flt e (Fin now) \<or> \<not> agent_ok (py_str (get_or p ''a'' (JStr []))) then None else Some p)))))"

section \<open>The ledger\<close>

type_synonym ledger = "(string \<times> pyfloat) list"

definition prune :: "rat \<Rightarrow> ledger \<Rightarrow> ledger" where
  "prune now used = filter (\<lambda>(j, e). \<not> flt e (Fin now)) used"

definition jti_of :: "dict \<Rightarrow> string" where
  "jti_of p = py_str (get_or p ''jti'' (JStr []))"

definition is_used :: "dict \<Rightarrow> ledger \<Rightarrow> bool" where
  "is_used p used \<longleftrightarrow> jti_of p = [] \<or> jti_of p \<in> fst ` set used"

definition expiry_of :: "rat \<Rightarrow> dict \<Rightarrow> pyfloat res" where
  "expiry_of now p = (case map_of p ''exp'' of Some e \<Rightarrow> json_float e | None \<Rightarrow> Inr (fmul (Fin 1) (Fin (now + 3600))))"

section \<open>The message to the agent\<close>

definition callback_prompt :: "string \<Rightarrow> string \<Rightarrow> string" where
  "callback_prompt action ctx =
     ''Robert CONFIRMED the following action via an email action button: '' @ [quote]
     @ action
     @ [quote] @ ''. Context: ''
     @ (if ctx = [] then ''(none)'' else ctx)
     @ ''. This is his explicit approval '' @ [em_dash]
     @ '' proceed within your capabilities and, if the action needs a step you cannot perform yourself, ''
     @ ''prepare it and say exactly what remains. Then notify Robert of the outcome via your notify_rob ''
     @ ''tool.''"

definition callback_message :: "string \<Rightarrow> string \<Rightarrow> json" where
  "callback_message action ctx = JObj
     [(''jsonrpc'', JStr ''2.0''), (''id'', JInt 1), (''method'', JStr ''message/send''),
      (''params'', JObj [(''message'', JObj
         [(''role'', JStr ''user''),
          (''parts'', JList [JObj [(''kind'', JStr ''text''), (''text'', JStr (callback_prompt action ctx))]]),
          (''messageId'', JStr ''email-callback''), (''kind'', JStr ''message'')])])]"

fun percent_s :: "string \<Rightarrow> string \<Rightarrow> bool \<Rightarrow> string res" where
  \<comment> \<open>\<open>base % agent\<close>; the flag says whether the argument has been used\<close>
  "percent_s [] x used = (if used then Inr [] else Inl (TypeError ''not all arguments converted during string formatting''))"
| "percent_s (c # cs) x used =
     (if c \<noteq> CHR 0x25 then rbind (percent_s cs x used) (\<lambda>s. Inr (c # s))
      else (case cs of
          [] \<Rightarrow> Inl (ValueError ''incomplete format'')
        | d # ds \<Rightarrow>
            if d = CHR 0x25 then rbind (percent_s ds x used) (\<lambda>s. Inr (CHR 0x25 # s))
            else if d \<noteq> CHR ''s'' then Inl (ValueError ''unsupported format character'')
            else if used then Inl (TypeError ''not enough arguments for format string'')
            else rbind (percent_s ds x True) (\<lambda>s. Inr (x @ s))))"

record callback_config =
  cc_key :: "nat list"
  cc_base :: string

record callback_call =
  ca_url :: string
  ca_body :: json

definition call_of :: "callback_config \<Rightarrow> dict \<Rightarrow> callback_call res" where
  "call_of cfg p =
     rbind (percent_s (cc_base cfg) (py_str (get_or p ''a'' (JStr []))) False) (\<lambda>url.
       Inr \<lparr>ca_url = url, ca_body = callback_message (py_str (get_or p ''act'' (JStr []))) (py_str (get_or p ''ctx'' (JStr [])))\<rparr>)"

section \<open>Pages\<close>

definition html_escape :: "string \<Rightarrow> string" where
  "html_escape s = concat (map (\<lambda>c.
     if c = CHR ''&'' then ''&amp;'' else if c = CHR ''<'' then ''&lt;'' else if c = CHR ''>'' then ''&gt;''
     else if c = quote then ''&quot;'' else if c = CHR 0x27 then ''&#x27;'' else [c]) s)"

definition themed_page :: "string \<Rightarrow> string \<Rightarrow> string \<Rightarrow> string \<Rightarrow> string" where
  "themed_page title accent heading body =
     ''<!DOCTYPE html><html><head><meta charset='' @ [quote] @ ''utf-8'' @ [quote] @ ''>'' @ [newline]
     @ ''<meta name='' @ [quote] @ ''viewport'' @ [quote] @ '' content='' @ [quote]
     @ ''width=device-width,initial-scale=1'' @ [quote] @ ''><title>''
     @ html_escape title
     @ ''</title></head>'' @ [newline] @ ''<body style='' @ [quote]
     @ ''margin:0;background:#0d1117;color:#c9d1d9;font-family:-apple-system,BlinkMacSystemFont,''
     @ [CHR 0x27] @ ''Segoe UI'' @ [CHR 0x27] @ '',Roboto,Helvetica,Arial,sans-serif'' @ [quote] @ ''>''
     @ [newline] @ ''<div style='' @ [quote] @ ''max-width:520px;margin:8vh auto;padding:0 16px'' @ [quote]
     @ ''>'' @ [newline] @ ''<div style='' @ [quote]
     @ ''background:#161b22;border:1px solid #30363d;border-radius:14px;overflow:hidden'' @ [quote] @ ''>''
     @ [newline] @ ''<div style='' @ [quote] @ ''height:4px;background:''
     @ accent
     @ [quote] @ ''></div>'' @ [newline] @ ''<div style='' @ [quote] @ ''padding:26px 28px'' @ [quote]
     @ ''>'' @ [newline] @ ''<div style='' @ [quote] @ ''color:''
     @ accent
     @ '';font-size:20px;font-weight:800;margin:0 0 10px'' @ [quote] @ ''>''
     @ html_escape heading
     @ ''</div>'' @ [newline]
     @ body
     @ [newline] @ ''</div></div>'' @ [newline] @ ''<div style='' @ [quote]
     @ ''color:#6e7681;font-size:11px;text-align:center;margin-top:14px'' @ [quote] @ ''>agent-callback ''
     @ [CHR 0xB7] @ '' kagent fleet</div>'' @ [newline] @ ''</div></body></html>''"

definition context_block :: "string \<Rightarrow> string" where
  "context_block ctx = ''<div style='' @ [quote] @ ''color:#8b949e;font-size:13px;margin-top:6px'' @ [quote] @ ''>''
     @ ctx
     @ ''</div>''"

definition confirm_body :: "string \<Rightarrow> string \<Rightarrow> string \<Rightarrow> string \<Rightarrow> string \<Rightarrow> string \<Rightarrow> string" where
  "confirm_body token accent agent action ctx label =
     ''<p style='' @ [quote] @ ''font-size:14px;line-height:1.55;color:#c9d1d9'' @ [quote]
     @ ''>You are about to confirm this action to <b style='' @ [quote] @ ''color:#e6edf3'' @ [quote]
     @ ''>''
     @ agent
     @ ''</b>:</p><div style='' @ [quote]
     @ ''background:#0d1117;border:1px solid #30363d;border-radius:8px;padding:12px 14px;margin:10px ''
     @ ''0'' @ [quote] @ ''><div style='' @ [quote] @ ''color:#e6edf3;font-size:15px;font-weight:600''
     @ [quote] @ ''>''
     @ action
     @ ''</div>''
     @ (if ctx = [] then [] else context_block ctx)
     @ ''</div><form method='' @ [quote] @ ''POST'' @ [quote] @ '' action='' @ [quote] @ ''/act'' @ [quote]
     @ '' style='' @ [quote] @ ''margin:16px 0 0'' @ [quote] @ ''><input type='' @ [quote] @ ''hidden''
     @ [quote] @ '' name='' @ [quote] @ ''t'' @ [quote] @ '' value='' @ [quote]
     @ html_escape token
     @ [quote] @ ''><button type='' @ [quote] @ ''submit'' @ [quote] @ '' style='' @ [quote]
     @ ''display:inline-block;padding:11px 22px;border:0;border-radius:8px;font-size:15px;font-weight:700;color:#0d1117;background:''
     @ accent
     @ '';cursor:pointer'' @ [quote] @ ''>''
     @ label
     @ ''</button></form><p style='' @ [quote] @ ''font-size:12px;color:#6e7681;margin:14px 0 0'' @ [quote]
     @ ''>This link is single-use and expires. Nothing happens until you press the button above.</p>''"

definition confirm_page :: "string \<Rightarrow> dict \<Rightarrow> string" where
  "confirm_page token p =
     (let shown = (\<lambda>k d. html_escape (py_str (get_or p k (JStr d)))); accent = ''#f0a020''
      in themed_page ''Confirm action'' accent ''Confirm action''
           (confirm_body token accent (shown ''a'' []) (shown ''act'' []) (shown ''ctx'' []) (shown ''lbl'' ''Confirm'')))"

definition not_found_page :: string where
  "not_found_page = themed_page (''Not found'')
       (''#8b949e'')
       (''Not found'')
       (''<p>Nothing here.</p>'')"

definition invalid_get_page :: string where
  "invalid_get_page = themed_page (''Link invalid'')
       (''#e5534b'')
       (''Link invalid or expired'')
       (''<p style='' @ [CHR 0x27] @ ''font-size:14px;color:#c9d1d9'' @ [CHR 0x27]
       @ ''>This action link is invalid, tampered, or past its expiry. Ask the agent to send a fresh ''
       @ ''one.</p>'')"

definition invalid_post_page :: string where
  "invalid_post_page = themed_page (''Link invalid'')
       (''#e5534b'')
       (''Link invalid or expired'')
       (''<p style='' @ [CHR 0x27] @ ''font-size:14px;color:#c9d1d9'' @ [CHR 0x27]
       @ ''>This action link is invalid or expired.</p>'')"

definition used_page :: string where
  "used_page = themed_page (''Already used'')
       (''#d4a017'')
       (''Already actioned'')
       (''<p style='' @ [CHR 0x27] @ ''font-size:14px;color:#c9d1d9'' @ [CHR 0x27]
       @ ''>This action was already confirmed. Nothing was done a second time.</p>'')"

definition unreachable_page :: "string \<Rightarrow> string" where
  "unreachable_page agent = themed_page (''Couldn'' @ [CHR 0x27] @ ''t reach the agent'')
       (''#e5534b'')
       (''Agent unreachable'')
       (''<p style='' @ [CHR 0x27] @ ''font-size:14px;color:#c9d1d9'' @ [CHR 0x27] @ ''>Confirmed, but ''
       @ html_escape agent
       @ '' could not be reached to carry it out. It'' @ [CHR 0x27] @ ''s safe to click Confirm again.</p>'')"

definition confirmed_page :: "string \<Rightarrow> string" where
  "confirmed_page agent = themed_page (''Confirmed'')
       (''#3fb950'')
       (''Sent to '' @ html_escape agent)
       (''<p style='' @ [CHR 0x27] @ ''font-size:14px;color:#c9d1d9'' @ [CHR 0x27]
       @ ''>Your approval was delivered to <b style='' @ [CHR 0x27] @ ''color:#e6edf3'' @ [CHR 0x27] @ ''>''
       @ html_escape agent
       @ ''</b>. It will carry it out and email you the outcome. You can close this tab.</p>'')"

section \<open>Requests\<close>

text \<open>\<open>urlparse\<close>: the path, without the parameters of its last segment, and the query.\<close>

definition scheme_char :: "char \<Rightarrow> bool" where
  "scheme_char c \<longleftrightarrow> code_point c < 128 \<and> is_alnum c \<or> c \<in> set ''+-.''"

definition drop_scheme :: "string \<Rightarrow> string" where
  "drop_scheme s =
     (let h = before (CHR '':'') s in
      if h \<noteq> [] \<and> h \<noteq> s \<and> scheme_char (hd h) \<and> \<not> is_digit (hd h) \<and> hd h \<notin> set ''+-.'' \<and> list_all scheme_char h
      then drop (Suc (length h)) s else s)"

definition drop_netloc :: "string \<Rightarrow> string" where
  "drop_netloc s = (if startswith s ''//'' then dropWhile (\<lambda>c. c \<notin> set ''/?#'') (drop 2 s) else s)"

definition after_char :: "char \<Rightarrow> string \<Rightarrow> string" where
  "after_char c s = drop (Suc (length (before c s))) s"

definition last_segment :: "string \<Rightarrow> string" where
  "last_segment s = rev (takeWhile (\<lambda>c. c \<noteq> CHR ''/'') (rev s))"

definition url_path :: "string \<Rightarrow> string" where
  "url_path u =
     (let p = before (CHR ''?'') (before (CHR ''#'') (drop_netloc (drop_scheme u))); l = last_segment p
      in take (length p - length l) p @ before (CHR '';'') l)"

definition url_query :: "string \<Rightarrow> string" where
  "url_query u = after_char (CHR ''?'') (before (CHR ''#'') (drop_netloc (drop_scheme u)))"

fun unquote_bytes :: "string \<Rightarrow> nat list" where
  "unquote_bytes [] = []"
| "unquote_bytes (c # cs) =
     (case cs of
        a # b # ds \<Rightarrow>
          (case (hex_val a, hex_val b) of
             (Some x, Some y) \<Rightarrow> if c = CHR 0x25 then (x * 16 + y) # unquote_bytes ds else utf8_char c @ unquote_bytes cs
           | _ \<Rightarrow> utf8_char c @ unquote_bytes cs)
      | _ \<Rightarrow> utf8_char c @ unquote_bytes cs)"

definition unquote_plus :: "string \<Rightarrow> string" where
  "unquote_plus s = utf8_decode (unquote_bytes (map (\<lambda>c. if c = CHR ''+'' then CHR '' '' else c) s))"

definition parse_qs :: "string \<Rightarrow> (string \<times> string) list" where
  \<comment> \<open>the pairs in their order; blank values are dropped\<close>
  "parse_qs q =
     map (\<lambda>f. (unquote_plus (before (CHR ''='') f), unquote_plus (after_char (CHR ''='') f)))
       (filter (\<lambda>f. after_char (CHR ''='') f \<noteq> []) (split_on (CHR ''&'') q))"

definition token_in :: "string \<Rightarrow> string" where
  \<comment> \<open>\<open>parse_qs(q).get("t", [""])[0]\<close>\<close>
  "token_in q = (case map_of (parse_qs q) ''t'' of Some v \<Rightarrow> v | None \<Rightarrow> [])"

record callback_in =
  ci_path :: string
  ci_length :: "string option"
  ci_body :: "string res"

definition callback_GET :: "callback_config \<Rightarrow> rat \<Rightarrow> string \<Rightarrow> (nat \<times> string) res" where
  "callback_GET cfg now path =
     (if path = ''/healthz'' then Inr (200, ''ok'')
      else if url_path path \<noteq> ''/act'' then Inr (404, not_found_page)
      else (let token = token_in (url_query path) in
        rbind (verify (cc_key cfg) now token) (\<lambda>v.
          case v of None \<Rightarrow> Inr (400, invalid_get_page)
          | Some p \<Rightarrow> if p = [] then Inr (400, invalid_get_page) else Inr (200, confirm_page token p))))"

definition post_token :: "callback_in \<Rightarrow> string res" where
  "post_token rq =
     (case parse_int (case ci_length rq of None \<Rightarrow> ''0'' | Some h \<Rightarrow> h) of
        None \<Rightarrow> Inl (ValueError ''invalid literal for int()'')
      | Some n \<Rightarrow> if n = 0 then Inr [] else rbind (ci_body rq) (\<lambda>b. Inr (token_in b)))"

section \<open>Confirming\<close>

record callback_state =
  cs_used :: ledger
  cs_calls :: "(dict \<times> callback_call) list"

text \<open>
  The parts of the handler between which other threads may run. What the agent's end of the request
  does is the argument \<open>outcome\<close>; the log of calls holds every attempt.
\<close>

definition claim :: "rat \<Rightarrow> dict \<Rightarrow> (unit, callback_state) stm" where
  "claim now p st =
     (case expiry_of now p of
        Inl e \<Rightarrow> (Inl e, st)
      | Inr e \<Rightarrow> (Inr (), st\<lparr>cs_used := AList.update (jti_of p) e (cs_used st)\<rparr>))"

definition deliver :: "callback_config \<Rightarrow> unit res \<Rightarrow> dict \<Rightarrow> (nat \<times> string, callback_state) stm" where
  "deliver cfg outcome p st =
     (let agent = py_str (get_or p ''a'' (JStr [])); forget = (\<lambda>s. s\<lparr>cs_used := AList.delete (jti_of p) (cs_used s)\<rparr>) in
      case call_of cfg p of
        Inl _ \<Rightarrow> (Inr (502, unreachable_page agent), forget st)
      | Inr call \<Rightarrow>
          (let st1 = st\<lparr>cs_calls := cs_calls st @ [(p, call)]\<rparr> in
           case outcome of
             Inl _ \<Rightarrow> (Inr (502, unreachable_page agent), forget st1)
           | Inr _ \<Rightarrow> (Inr (200, confirmed_page agent), st1)))"

definition confirm :: "callback_config \<Rightarrow> rat \<Rightarrow> rat \<Rightarrow> unit res \<Rightarrow> dict \<Rightarrow> (nat \<times> string, callback_state) stm" where
  \<comment> \<open>an accepted token, with the clock at the pruning and at the recording\<close>
  "confirm cfg t2 t3 outcome p st =
     (let st1 = st\<lparr>cs_used := prune t2 (cs_used st)\<rparr> in
      if is_used p (cs_used st1) then (Inr (409, used_page), st1)
      else mbind (claim t3 p) (\<lambda>_. deliver cfg outcome p) st1)"

definition act_on :: "callback_config \<Rightarrow> rat \<Rightarrow> rat \<Rightarrow> rat \<Rightarrow> unit res \<Rightarrow> string \<Rightarrow> (nat \<times> string, callback_state) stm" where
  "act_on cfg t1 t2 t3 outcome token st =
     (case verify (cc_key cfg) t1 token of
        Inl e \<Rightarrow> (Inl e, st)
      | Inr None \<Rightarrow> (Inr (400, invalid_post_page), st)
      | Inr (Some p) \<Rightarrow> if p = [] then (Inr (400, invalid_post_page), st) else confirm cfg t2 t3 outcome p st)"

definition callback_POST :: "callback_config \<Rightarrow> rat \<Rightarrow> rat \<Rightarrow> rat \<Rightarrow> unit res \<Rightarrow> callback_in \<Rightarrow> (nat \<times> string, callback_state) stm" where
  "callback_POST cfg t1 t2 t3 outcome rq st =
     (if url_path (ci_path rq) \<noteq> ''/act'' then (Inr (404, not_found_page), st)
      else (case post_token rq of
          Inl e \<Rightarrow> (Inl e, st)
        | Inr token \<Rightarrow> act_on cfg t1 t2 t3 outcome token st))"

section \<open>Signing\<close>

text \<open>What the sender of the buttons makes of a document: base64 without padding, and the signature.\<close>

definition from_std :: "char \<Rightarrow> char" where
  "from_std c = (if c = CHR ''+'' then CHR ''-'' else if c = CHR ''/'' then CHR ''_'' else c)"

definition b64u :: "nat list \<Rightarrow> string" where
  "b64u bs = map from_std (filter (\<lambda>c. c \<noteq> CHR ''='') (b64encode bs))"

definition sign :: "nat list \<Rightarrow> dict \<Rightarrow> string" where
  "sign key p = (let body = b64u (encode (dumps (JObj p))) in body @ ''.'' @ b64u (hmac_sha256 key (encode body)))"

lemma b64_digit_std: "n < 64 \<Longrightarrow> to_std (from_std (b64_digit n)) = b64_digit n"
proof -
  assume "n < 64"
  then have "b64_digit n \<noteq> CHR ''-''" "b64_digit n \<noteq> CHR ''_''"
    using b64_val_digit [of n] by (auto simp: b64_val_def Let_def code_point_def)
  then show ?thesis by (auto simp: to_std_def from_std_def)
qed

lemma b64_digit_not_dot: "n < 64 \<Longrightarrow> from_std (b64_digit n) \<noteq> CHR ''.''"
  using b64_val_digit [of n] by (auto simp: from_std_def b64_val_def Let_def code_point_def)

definition digits :: "string set" where
  "digits = {ds. \<forall>c\<in>set ds. \<exists>n<64. c = b64_digit n}"

lemma digits_simps [simp]: "[] \<in> digits" "n < 64 \<Longrightarrow> b64_digit n # ds \<in> digits \<longleftrightarrow> ds \<in> digits"
  by (auto simp: digits_def)

lemma b64encode_shape:
  assumes "\<forall>b\<in>set bs. b < 256"
  shows "\<exists>ds\<in>digits. b64encode bs = ds @ replicate ((4 - length ds mod 4) mod 4) (CHR ''='')"
  using assms
proof (induction bs rule: b64encode.induct)
  case 1
  show ?case by (rule bexI [of _ "[]"]) simp_all
next
  case (2 a)
  then show ?case using byte_digits [of a 0 0]
    by (intro bexI [of _ "[b64_digit (a div 4), b64_digit (a mod 4 * 16)]"]) (simp_all add: numeral_2_eq_2)
next
  case (3 a b)
  then show ?case using byte_digits [of a b 0]
    by (intro bexI [of _ "[b64_digit (a div 4), b64_digit (a mod 4 * 16 + b div 16), b64_digit (b mod 16 * 4)]"]) simp_all
next
  case (4 a b c bs)
  then obtain ds where ds: "b64encode bs = ds @ replicate ((4 - length ds mod 4) mod 4) (CHR ''='')" "ds \<in> digits" by auto
  show ?case using 4 byte_digits [of a b c] ds
    by (intro bexI [of _ "[b64_digit (a div 4), b64_digit (a mod 4 * 16 + b div 16), b64_digit (b mod 16 * 4 + c div 64), b64_digit (c mod 64)] @ ds"]) simp_all
qed

lemma b64u_digits:
  assumes "\<forall>b\<in>set bs. b < 256"
  obtains ds where "b64u bs = map from_std ds" "b64encode bs = ds @ replicate ((4 - length ds mod 4) mod 4) (CHR ''='')"
    "\<forall>c\<in>set ds. \<exists>n<64. c = b64_digit n"
proof -
  obtain ds where ds: "b64encode bs = ds @ replicate ((4 - length ds mod 4) mod 4) (CHR ''='')" "\<forall>c\<in>set ds. \<exists>n<64. c = b64_digit n"
    using b64encode_shape [OF assms] by (auto simp: digits_def)
  have "filter (\<lambda>c. c \<noteq> CHR ''='') ds = ds" using ds(2) b64_digit_not_pad unfolding filter_id_conv by metis
  then have "b64u bs = map from_std ds" by (simp add: b64u_def ds(1))
  with ds that show thesis by blast
qed

lemma b64d_b64u: "\<forall>b\<in>set bs. b < 256 \<Longrightarrow> b64d (b64u bs) = Inr bs"
proof -
  assume bs: "\<forall>b\<in>set bs. b < 256"
  then obtain ds where ds: "b64u bs = map from_std ds" "b64encode bs = ds @ replicate ((4 - length ds mod 4) mod 4) (CHR ''='')"
    "\<forall>c\<in>set ds. \<exists>n<64. c = b64_digit n" by (rule b64u_digits)
  have "map to_std (map from_std ds) = ds" using ds(3) b64_digit_std by (induction ds) auto
  then have "b64d (b64u bs) = b64decode (b64encode bs)" by (simp add: b64d_def ds(1,2))
  with bs show ?thesis by (simp add: b64decode_encode)
qed

lemma b64u_no_dot: "\<forall>b\<in>set bs. b < 256 \<Longrightarrow> CHR ''.'' \<notin> set (b64u bs)"
  using b64_digit_not_dot by (elim b64u_digits) fastforce

lemma utf8_strict_encode: "utf8_strict (encode s) = Some s"
proof (induction s)
  case (Cons c s)
  have *: "encode (c # s) = utf8_char c @ encode s" by (simp add: encode_def)
  show ?case
  proof (cases "code_point c < 128")
    case True
    with Cons * show ?thesis by (simp add: utf8_char_def)
  next
    case False
    define h l where "h = code_point c div 64" and "l = code_point c mod 64"
    have "char_of (h * 64 + l) = c" by (simp add: h_def l_def)
    moreover have "h = 2 \<or> h = 3"
    proof -
      have "2 \<le> h" using False div_le_mono [of 128 "code_point c" 64] by (simp add: h_def)
      with code_point_lead [of c] show ?thesis by (auto simp: h_def)
    qed
    moreover have "l < 64" by (simp add: l_def)
    moreover have "utf8_char c = [192 + h, 128 + l]" using False by (simp add: utf8_char_def h_def l_def Let_def)
    ultimately show ?thesis using Cons * by (elim disjE) (simp_all add: cont_def)
  qed
qed (simp add: encode_def)

lemma verify_signed:
  assumes "key \<noteq> []" "savable (JObj p)"
  shows "verify key now (sign key p) =
    rbind (json_float (get_or p ''exp'' (JInt 0))) (\<lambda>e.
      Inr (if flt e (Fin now) \<or> \<not> agent_ok (py_str (get_or p ''a'' (JStr []))) then None else Some p))"
proof -
  let ?body = "b64u (encode (dumps (JObj p)))" and ?sig = "b64u (hmac_sha256 key (encode (b64u (encode (dumps (JObj p))))))"
  have bytes: "\<forall>b\<in>set (encode s). b < 256" "\<forall>b\<in>set (hmac_sha256 key m). b < 256" for s m
    using encode_bytes hmac_bytes by blast+
  have tok: "sign key p = ?body @ CHR ''.'' # ?sig" by (simp add: sign_def Let_def)
  have none: "CHR ''.'' \<notin> set ?body" "CHR ''.'' \<notin> set ?sig" using b64u_no_dot bytes by blast+
  then have count: "filter (\<lambda>c. c = CHR ''.'') ?body = []" "filter (\<lambda>c. c = CHR ''.'') ?sig = []"
    by (auto simp: filter_empty_conv)
  have payload: "payload_of ?body = Some p"
    using bytes loads_dumps [OF assms(2)] by (simp add: payload_of_def b64d_b64u utf8_strict_encode del: dumps_by.simps)
  have parts: "before (CHR ''.'') (sign key p) = ?body" "drop (Suc (length ?body)) (sign key p) = ?sig"
    using none by (simp_all add: tok before_append)
  have "length (filter (\<lambda>c. c = CHR ''.'') (sign key p)) = 1" "sign key p \<noteq> []" using count by (simp_all add: tok)
  with assms(1) parts payload bytes show ?thesis by (simp add: verify_def Let_def b64d_b64u)
qed

text \<open>
  A token that the sender signs is the document again: for a key and a document without
  floats, the service's check returns the document when it is not past its expiry and names an agent,
  and rejects it otherwise, whatever else it holds.
\<close>

theorem verify_sign:
  assumes "key \<noteq> []" "savable (JObj p)"
  shows "verify key now (sign key p) =
    rbind (json_float (get_or p ''exp'' (JInt 0))) (\<lambda>e.
      Inr (if flt e (Fin now) \<or> \<not> agent_ok (py_str (get_or p ''a'' (JStr []))) then None else Some p))"
  by (rule verify_signed [OF assms])

section \<open>Single use\<close>

text \<open>
  The abstract service: a set of redeemed token ids. An accepted token whose id is in the set is
  refused; another one is redeemed, unless its agent cannot be reached.
\<close>

datatype redemption = Refused | Unreachable | Redeemed

definition redeem :: "string \<Rightarrow> bool \<Rightarrow> string set \<Rightarrow> redemption \<times> string set" where
  "redeem j reached R =
     (if j = [] \<or> j \<in> R then (Refused, R) else if reached then (Redeemed, insert j R) else (Unreachable, R))"

fun redeem_all :: "(string \<times> bool) list \<Rightarrow> string set \<Rightarrow> redemption list \<times> string set" where
  "redeem_all [] R = ([], R)"
| "redeem_all ((j, b) # xs) R = (let (a, R1) = redeem j b R; (as, R2) = redeem_all xs R1 in (a # as, R2))"

definition answer_code :: "redemption \<Rightarrow> nat" where
  "answer_code a = (case a of Refused \<Rightarrow> 409 | Unreachable \<Rightarrow> 502 | Redeemed \<Rightarrow> 200)"

text \<open>The service on accepted tokens, each with the one clock reading of its request.\<close>

type_synonym confirmation = "rat \<times> unit res \<times> dict"

fun confirm_all :: "callback_config \<Rightarrow> confirmation list \<Rightarrow> callback_state \<Rightarrow> nat res list \<times> callback_state" where
  "confirm_all cfg [] st = ([], st)"
| "confirm_all cfg ((t, outcome, p) # xs) st =
     (let (r, st1) = confirm cfg t t outcome p st; (rs, st2) = confirm_all cfg xs st1
      in (rbind r (\<lambda>x. Inr (fst x)) # rs, st2))"

definition reached :: "callback_config \<Rightarrow> confirmation \<Rightarrow> bool" where
  "reached cfg x = (case x of (t, outcome, p) \<Rightarrow> (case call_of cfg p of Inl _ \<Rightarrow> False | Inr _ \<Rightarrow> (case outcome of Inl _ \<Rightarrow> False | Inr _ \<Rightarrow> True)))"

definition live :: "(string \<Rightarrow> pyfloat) \<Rightarrow> confirmation \<Rightarrow> bool" where
  \<comment> \<open>the token carries the expiry of its id, and has not passed it\<close>
  "live expiry x = (case x of (t, outcome, p) \<Rightarrow> \<exists>e. map_of p ''exp'' = Some e \<and> json_float e = Inr (expiry (jti_of p)) \<and> \<not> flt (expiry (jti_of p)) (Fin t))"

definition ledger_abs :: "(string \<Rightarrow> pyfloat) \<Rightarrow> rat \<Rightarrow> ledger \<Rightarrow> string set \<Rightarrow> bool" where
  \<comment> \<open>the ledger and the redeemed ids agree on every id that can still be presented\<close>
  "ledger_abs expiry t used R \<longleftrightarrow>
     (\<forall>(j, e)\<in>set used. e = expiry j)
     \<and> {j. \<not> flt (expiry j) (Fin t)} \<inter> R = {j. \<not> flt (expiry j) (Fin t)} \<inter> fst ` set used"

lemma flt_later: "\<not> flt e (Fin t') \<Longrightarrow> t \<le> t' \<Longrightarrow> \<not> flt e (Fin t)"
  by (cases e) auto

lemma prune_abs:
  assumes "ledger_abs expiry t used R" "t \<le> t'"
  shows "ledger_abs expiry t' (prune t' used) R"
proof -
  have exps: "e = expiry j" if "(j, e) \<in> set used" for j e using assms(1) that by (auto simp: ledger_abs_def)
  have "j \<in> fst ` set (prune t' used) \<longleftrightarrow> j \<in> R" if "\<not> flt (expiry j) (Fin t')" for j
  proof -
    have "j \<in> R \<longleftrightarrow> j \<in> fst ` set used" using assms(1) flt_later [OF that assms(2)] by (auto simp: ledger_abs_def)
    also have "\<dots> \<longleftrightarrow> j \<in> fst ` set (prune t' used)" using that exps by (force simp: prune_def)
    finally show ?thesis by simp
  qed
  with exps show ?thesis by (auto simp: ledger_abs_def prune_def)
qed

lemma delete_fresh: "k \<notin> fst ` set d \<Longrightarrow> AList.delete k (d @ [(k, v)]) = d"
  by (induction d) auto

text \<open>One confirmation is one step of the abstract service.\<close>

lemma confirm_refines:
  assumes "ledger_abs expiry t (cs_used st) R" "t \<le> t'" "live expiry (t', outcome, p)"
  shows "\<exists>st' r. confirm cfg t' t' outcome p st = (Inr r, st')
    \<and> fst r = answer_code (fst (redeem (jti_of p) (reached cfg (t', outcome, p)) R))
    \<and> ledger_abs expiry t' (cs_used st') (snd (redeem (jti_of p) (reached cfg (t', outcome, p)) R))"
proof -
  let ?j = "jti_of p" and ?used = "prune t' (cs_used st)"
  have abs: "ledger_abs expiry t' ?used R" by (rule prune_abs [OF assms(1,2)])
  have fresh: "\<not> flt (expiry ?j) (Fin t')" using assms(3) by (auto simp: live_def)
  have exp: "expiry_of t' p = Inr (expiry ?j)" using assms(3) by (auto simp: live_def expiry_of_def)
  have used: "?j \<in> R \<longleftrightarrow> ?j \<in> fst ` set ?used" using abs fresh by (auto simp: ledger_abs_def)
  show ?thesis
  proof (cases "?j = [] \<or> ?j \<in> R")
    case True
    with used abs show ?thesis by (simp add: confirm_def is_used_def redeem_def answer_code_def)
  next
    case False
    then have new: "?j \<notin> fst ` set ?used" using used by simp
    let ?st = "st\<lparr>cs_used := ?used @ [(?j, expiry ?j)]\<rparr>"
    have claim: "confirm cfg t' t' outcome p st = deliver cfg outcome p ?st"
      using False new exp by (simp add: confirm_def is_used_def claim_def mbind_def update_fresh)
    have added: "ledger_abs expiry t' (?used @ [(?j, expiry ?j)]) (insert ?j R)"
      using abs by (auto simp: ledger_abs_def)
    note removed = delete_fresh [OF new]
    show ?thesis
    proof (cases "reached cfg (t', outcome, p)")
      case True
      then obtain call where "call_of cfg p = Inr call" "\<exists>u. outcome = Inr u"
        by (auto simp: reached_def split: sum.splits)
      with False True added show ?thesis unfolding claim
        by (auto simp: deliver_def redeem_def answer_code_def Let_def)
    next
      case no: False
      with False removed abs show ?thesis unfolding claim
        by (auto simp: deliver_def redeem_def answer_code_def Let_def reached_def split: sum.splits)
    qed
  qed
qed

lemma confirm_all_refines:
  assumes "ledger_abs expiry t (cs_used st) R" "sorted_wrt (\<le>) (t # map fst xs)" "\<forall>x\<in>set xs. live expiry x"
  shows "fst (confirm_all cfg xs st)
    = map (\<lambda>a. Inr (answer_code a)) (fst (redeem_all (map (\<lambda>x. (jti_of (snd (snd x)), reached cfg x)) xs) R))"
  using assms
proof (induction xs arbitrary: t st R)
  case (Cons x xs)
  obtain t' outcome p where x: "x = (t', outcome, p)" by (cases x)
  obtain st' r where step: "confirm cfg t' t' outcome p st = (Inr r, st')"
      "fst r = answer_code (fst (redeem (jti_of p) (reached cfg x) R))"
      "ledger_abs expiry t' (cs_used st') (snd (redeem (jti_of p) (reached cfg x) R))"
    using confirm_refines [OF Cons.prems(1), of t' outcome p cfg] Cons.prems(2,3) x by auto
  from Cons.IH [OF step(3)] Cons.prems(2,3) x step show ?case
    by (simp add: Let_def case_prod_unfold)
qed simp

lemma redeem_once:
  "length (filter (\<lambda>(x, a). fst x = j \<and> a = Redeemed) (zip xs (fst (redeem_all xs R)))) \<le> (if j \<in> R then 0 else 1)"
proof (induction xs arbitrary: R)
  case (Cons x xs)
  obtain k b where x: "x = (k, b)" by (cases x)
  obtain a R1 where a: "redeem k b R = (a, R1)" by fastforce
  have "a = Redeemed \<Longrightarrow> k \<notin> R \<and> R1 = insert k R" "R \<subseteq> R1" using a by (auto simp: redeem_def split: if_splits)
  with Cons.IH [of R1] x a show ?case by (auto simp: Let_def case_prod_unfold split: if_splits)
qed simp

text \<open>
  Property C13. One after the other, the confirmations of live tokens are answered as the set of redeemed
  ids answers them: 409 for a redeemed id or an empty one, otherwise 200 and the id is redeemed, or 502
  and it is not where the agent is not reached. Forgetting expired ids is not seen, provided that a
  request reads the clock once, the clock does not go back and an id has one expiry. So every id is
  answered with 200 at most once.
\<close>

theorem ledger_refines_set:
  assumes "sorted_wrt (\<le>) (map fst xs)" "\<forall>x\<in>set xs. live expiry x"
  shows "fst (confirm_all cfg xs \<lparr>cs_used = [], cs_calls = calls\<rparr>)
      = map (\<lambda>a. Inr (answer_code a)) (fst (redeem_all (map (\<lambda>x. (jti_of (snd (snd x)), reached cfg x)) xs) {}))
    \<and> length (filter (\<lambda>(x, r). jti_of (snd (snd x)) = j \<and> r = Inr 200) (zip xs (fst (confirm_all cfg xs \<lparr>cs_used = [], cs_calls = calls\<rparr>)))) \<le> 1"
    (is "?r = map _ ?as \<and> _")
proof -
  have eq: "?r = map (\<lambda>a. Inr (answer_code a)) ?as"
  proof (cases xs)
    case (Cons x ys)
    with assms show ?thesis
      by (intro confirm_all_refines [of expiry "fst x"]) (auto simp: ledger_abs_def)
  qed simp
  have code: "answer_code a = 200 \<longleftrightarrow> a = Redeemed" for a by (cases a) (simp_all add: answer_code_def)
  let ?f = "\<lambda>x. (jti_of (snd (snd x)), reached cfg x)"
  have "length (filter (\<lambda>(x, r). jti_of (snd (snd x)) = j \<and> r = Inr 200) (zip xs ?r))
      = length (filter (\<lambda>(x, a). fst x = j \<and> a = Redeemed) (zip (map ?f xs) ?as))"
    unfolding eq by (simp add: zip_map1 zip_map2 filter_map comp_def code case_prod_unfold)
  also have "\<dots> \<le> 1" using redeem_once [of j "map ?f xs" "{}"] by simp
  finally show ?thesis using eq by blast
qed

section \<open>Threads\<close>

text \<open>
  The server handles every request in a thread of its own. Between the test of the ledger and the entry
  in it, and between the entry and the answer of the agent, other threads run.
\<close>

datatype stage = Accepted dict | Unused dict | Claimed dict | Answered nat

record callback_threads =
  ct_state :: callback_state
  ct_threads :: "stage list"

inductive thread_step :: "callback_config \<Rightarrow> callback_threads \<Rightarrow> callback_threads \<Rightarrow> bool" for cfg where
  accept: "verify (cc_key cfg) now token = Inr (Some p) \<Longrightarrow> p \<noteq> []
    \<Longrightarrow> thread_step cfg ts (ts\<lparr>ct_threads := ct_threads ts @ [Accepted p]\<rparr>)"
| test: "i < length (ct_threads ts) \<Longrightarrow> ct_threads ts ! i = Accepted p
    \<Longrightarrow> st = (ct_state ts)\<lparr>cs_used := prune now (cs_used (ct_state ts))\<rparr>
    \<Longrightarrow> thread_step cfg ts \<lparr>ct_state = st, ct_threads = (ct_threads ts)[i := if is_used p (cs_used st) then Answered 409 else Unused p]\<rparr>"
| enter: "i < length (ct_threads ts) \<Longrightarrow> ct_threads ts ! i = Unused p \<Longrightarrow> claim now p (ct_state ts) = (Inr (), st)
    \<Longrightarrow> thread_step cfg ts \<lparr>ct_state = st, ct_threads = (ct_threads ts)[i := Claimed p]\<rparr>"
| send: "i < length (ct_threads ts) \<Longrightarrow> ct_threads ts ! i = Claimed p \<Longrightarrow> deliver cfg outcome p (ct_state ts) = (Inr (code, text), st)
    \<Longrightarrow> thread_step cfg ts \<lparr>ct_state = st, ct_threads = (ct_threads ts)[i := Answered code]\<rparr>"

definition no_threads :: callback_threads where
  "no_threads = \<lparr>ct_state = \<lparr>cs_used = [], cs_calls = []\<rparr>, ct_threads = []\<rparr>"

text \<open>One thread that no other one disturbs does what the handler does as one step.\<close>

lemma thread_alone:
  assumes "ct_threads ts ! i = Accepted p" "i < length (ct_threads ts)" "confirm cfg t2 t3 outcome p (ct_state ts) = (Inr (code, text), st)"
  shows "\<exists>threads. (thread_step cfg)\<^sup>*\<^sup>* ts \<lparr>ct_state = st, ct_threads = threads\<rparr> \<and> threads ! i = Answered code"
proof -
  let ?st = "(ct_state ts)\<lparr>cs_used := prune t2 (cs_used (ct_state ts))\<rparr>"
  note first = thread_step.test [OF assms(2,1) refl, where now = t2]
  show ?thesis
  proof (cases "is_used p (cs_used ?st)")
    case True
    with assms first show ?thesis by (intro exI [of _ "(ct_threads ts)[i := Answered 409]"]) (auto simp: confirm_def Let_def)
  next
    case False
    with assms(3) obtain st1 where claim: "claim t3 p ?st = (Inr (), st1)" "deliver cfg outcome p st1 = (Inr (code, text), st)"
      by (auto simp: confirm_def mbind_def Let_def split: prod.splits sum.splits)
    let ?t1 = "\<lparr>ct_state = ?st, ct_threads = (ct_threads ts)[i := Unused p]\<rparr>"
    let ?t2 = "\<lparr>ct_state = st1, ct_threads = (ct_threads ts)[i := Claimed p]\<rparr>"
    have "thread_step cfg ts ?t1" using first False by simp
    moreover have "thread_step cfg ?t1 ?t2" using thread_step.enter [of i ?t1 p t3 st1 cfg] claim(1) assms(2) by simp
    moreover have "thread_step cfg ?t2 \<lparr>ct_state = st, ct_threads = (ct_threads ts)[i := Answered code]\<rparr>"
      using thread_step.send [of i ?t2 p cfg outcome code "text" st] claim(2) assms(2) by simp
    ultimately show ?thesis using assms(2)
      by (intro exI [of _ "(ct_threads ts)[i := Answered code]"]) (auto intro: converse_rtranclp_into_rtranclp)
  qed
qed

text \<open>
  Property C35. Between threads a token is not single-use: two requests with the same valid token can both
  pass the test before either enters the id, and both are delivered and answered with 200.
\<close>

theorem threads_redeem_twice:
  assumes "verify (cc_key cfg) now token = Inr (Some p)" "jti_of p \<noteq> []" "call_of cfg p = Inr call"
  shows "\<exists>ts. (thread_step cfg)\<^sup>*\<^sup>* no_threads ts \<and> cs_calls (ct_state ts) = [(p, call), (p, call)] \<and> ct_threads ts = [Answered 200, Answered 200]"
proof -
  have p: "p \<noteq> []" using assms(2) by (auto simp: jti_of_def get_or_def)
  obtain e where e: "expiry_of now p = Inr e"
  proof (cases "map_of p ''exp''")
    case None
    with that show thesis by (simp add: expiry_of_def)
  next
    case (Some x)
    with assms(1) that show thesis
      by (auto simp: verify_def expiry_of_def get_or_def rbind_Inr_iff Let_def split: if_splits option.splits)
  qed
  let ?s = "\<lambda>used calls threads. \<lparr>ct_state = \<lparr>cs_used = used, cs_calls = calls\<rparr>, ct_threads = threads\<rparr>"
  let ?u = "[(jti_of p, e)]" and ?c = "(p, call)"
  have steps: "thread_step cfg (?s [] [] []) (?s [] [] [Accepted p])" "thread_step cfg (?s [] [] [Accepted p]) (?s [] [] [Accepted p, Accepted p])"
    using thread_step.accept [OF assms(1) p, of "?s [] [] []"] thread_step.accept [OF assms(1) p, of "?s [] [] [Accepted p]"] by simp_all
  moreover have "thread_step cfg (?s [] [] [Accepted p, Accepted p]) (?s [] [] [Unused p, Accepted p])"
    "thread_step cfg (?s [] [] [Unused p, Accepted p]) (?s [] [] [Unused p, Unused p])"
    using thread_step.test [of 0 "?s [] [] [Accepted p, Accepted p]" p _ now cfg] thread_step.test [of 1 "?s [] [] [Unused p, Accepted p]" p _ now cfg] assms(2)
    by (simp_all add: prune_def is_used_def)
  moreover have "thread_step cfg (?s [] [] [Unused p, Unused p]) (?s ?u [] [Claimed p, Unused p])"
    "thread_step cfg (?s ?u [] [Claimed p, Unused p]) (?s ?u [] [Claimed p, Claimed p])"
    using thread_step.enter [of 0 "?s [] [] [Unused p, Unused p]" p now _ cfg] thread_step.enter [of 1 "?s ?u [] [Claimed p, Unused p]" p now _ cfg] e
    by (simp_all add: claim_def)
  moreover have "thread_step cfg (?s ?u [] [Claimed p, Claimed p]) (?s ?u [?c] [Answered 200, Claimed p])"
    "thread_step cfg (?s ?u [?c] [Answered 200, Claimed p]) (?s ?u [?c, ?c] [Answered 200, Answered 200])"
    using thread_step.send [of 0 "?s ?u [] [Claimed p, Claimed p]" p cfg "Inr ()"] thread_step.send [of 1 "?s ?u [?c] [Answered 200, Claimed p]" p cfg "Inr ()"] assms(3)
    by (simp_all add: deliver_def Let_def)
  ultimately have "(thread_step cfg)\<^sup>*\<^sup>* (?s [] [] []) (?s ?u [?c, ?c] [Answered 200, Answered 200])"
    by (meson converse_rtranclp_into_rtranclp rtranclp.rtrancl_refl)
  then show ?thesis by (intro exI [of _ "?s ?u [?c, ?c] [Answered 200, Answered 200]"]) (simp add: no_threads_def)
qed

text \<open>
  A token is redeemed again after an answer that timed out although the agent had the request, and when
  its expiry passes between the check of the token and the pruning of the ledger.
\<close>

lemma redeemed_again:
  assumes "jti_of p \<noteq> []" "call_of cfg p = Inr call" "map_of p ''exp'' = Some j" "json_float j = Inr e" "t \<le> t'"
  shows "cs_calls (snd (confirm cfg t' t' (Inr ()) p (snd (confirm cfg t t (Inl (OSError ''timed out'')) p \<lparr>cs_used = [], cs_calls = []\<rparr>)))) = [(p, call), (p, call)]"
    and "flt e (Fin t') \<Longrightarrow> cs_calls (snd (confirm cfg t' t' (Inr ()) p (snd (confirm cfg t t (Inr ()) p \<lparr>cs_used = [], cs_calls = []\<rparr>)))) = [(p, call), (p, call)]"
  using assms by (simp_all add: confirm_def prune_def is_used_def claim_def deliver_def mbind_def expiry_of_def Let_def)

section \<open>What a request can do\<close>

lemma split_at: "c \<in> set s \<Longrightarrow> s = before c s @ c # drop (Suc (length (before c s))) s"
proof (induction s)
  case (Cons x s)
  then show ?case by (cases "x = c") (auto simp: before_def)
qed simp

lemma verify_accepts:
  assumes "verify key now token = Inr (Some p)"
  shows "\<exists>body sig e. token = body @ CHR ''.'' # sig \<and> b64d sig = Inr (hmac_sha256 key (encode body)) \<and> payload_of body = Some p
    \<and> json_float (get_or p ''exp'' (JInt 0)) = Inr e \<and> \<not> flt e (Fin now) \<and> agent_ok (py_str (get_or p ''a'' (JStr [])))"
proof -
  let ?body = "before (CHR ''.'') token"
  have one: "length (filter (\<lambda>c. c = CHR ''.'') token) = 1" using assms by (auto simp: verify_def split: if_splits)
  then have "filter (\<lambda>c. c = CHR ''.'') token \<noteq> []" by (metis list.size(3) zero_neq_one)
  then have "CHR ''.'' \<in> set token" by (auto simp: filter_empty_conv)
  then have tok: "token = ?body @ CHR ''.'' # drop (Suc (length ?body)) token" by (rule split_at)
  from assms show ?thesis
    by (intro exI [of _ ?body] exI [of _ "drop (Suc (length ?body)) token"])
      (use tok in \<open>auto simp: verify_def Let_def rbind_Inr_iff split: if_splits option.splits\<close>)
qed

lemma confirm_calls:
  "cs_calls (snd (confirm cfg t2 t3 outcome p st)) = cs_calls st
   \<or> (\<exists>call. call_of cfg p = Inr call \<and> \<not> is_used p (prune t2 (cs_used st)) \<and> cs_calls (snd (confirm cfg t2 t3 outcome p st)) = cs_calls st @ [(p, call)])"
  by (auto simp: confirm_def claim_def deliver_def mbind_def Let_def split: sum.split)

text \<open>
  Property C14. A request makes the service send at most one message, and only a POST of \<open>/act\<close> with a token
  whose signature is the key's HMAC of its body: the message is the one of the signed document, to the
  agent it names, whose name has only harmless characters; the document has not expired and its id is
  not in the ledger.
\<close>

theorem post_sends_signed:
  "cs_calls (snd (callback_POST cfg t1 t2 t3 outcome rq st)) = cs_calls st
   \<or> (\<exists>body sig p e call. url_path (ci_path rq) = ''/act'' \<and> post_token rq = Inr (body @ CHR ''.'' # sig)
        \<and> b64d sig = Inr (hmac_sha256 (cc_key cfg) (encode body)) \<and> payload_of body = Some p
        \<and> json_float (get_or p ''exp'' (JInt 0)) = Inr e \<and> \<not> flt e (Fin t1) \<and> agent_ok (py_str (get_or p ''a'' (JStr [])))
        \<and> jti_of p \<noteq> [] \<and> jti_of p \<notin> fst ` set (prune t2 (cs_used st)) \<and> call_of cfg p = Inr call
        \<and> cs_calls (snd (callback_POST cfg t1 t2 t3 outcome rq st)) = cs_calls st @ [(p, call)])"
proof (cases "url_path (ci_path rq) = ''/act'' \<and> (\<exists>token p. post_token rq = Inr token \<and> verify (cc_key cfg) t1 token = Inr (Some p) \<and> p \<noteq> [])")
  case True
  then obtain token p where tok: "post_token rq = Inr token" "verify (cc_key cfg) t1 token = Inr (Some p)" "p \<noteq> []" "url_path (ci_path rq) = ''/act''"
    by blast
  then have post: "callback_POST cfg t1 t2 t3 outcome rq st = confirm cfg t2 t3 outcome p st" by (simp add: callback_POST_def act_on_def)
  from verify_accepts [OF tok(2)] confirm_calls [of cfg t2 t3 outcome p st] tok(1,4) show ?thesis
    unfolding post is_used_def by blast
next
  case False
  then show ?thesis by (auto simp: callback_POST_def act_on_def split: sum.splits option.splits)
qed

section \<open>Pages\<close>

definition markup :: "string \<Rightarrow> string" where
  \<comment> \<open>the characters of a page that a browser reads as markup\<close>
  "markup s = filter (\<lambda>c. c \<in> {CHR ''<'', CHR ''>'', quote, CHR 0x27}) s"

lemma markup_append: "markup (a @ b) = markup a @ markup b"
  by (simp add: markup_def)

lemma markup_escape: "markup (html_escape s) = []"
  by (induction s) (auto simp: html_escape_def markup_def)

lemma html_escape_Nil: "html_escape s = [] \<longleftrightarrow> s = []"
  by (cases s) (auto simp: html_escape_def)

text \<open>
  The page that asks for the confirmation has the same markup whatever the token and its
  document hold, up to the block for a context, which is there if the context is not empty: no text of the
  document opens or closes a tag or leaves an attribute.
\<close>

theorem confirm_page_markup:
  "markup (confirm_page token p) = markup (confirm_page []
     (if py_str (get_or p ''ctx'' (JStr [])) = [] then [] else [(''ctx'', JStr ''x'')]))"
proof -
  have "html_escape ''x'' \<noteq> []" by (simp add: html_escape_Nil)
  then show ?thesis
    by (simp add: confirm_page_def themed_page_def confirm_body_def context_block_def markup_append markup_escape
        html_escape_Nil get_or_def Let_def del: append_Cons append.simps)
qed

section \<open>An example\<close>

definition demo_callback :: callback_config where
  "demo_callback = \<lparr>cc_key = [107, 101, 121], cc_base = ''http://%s.ai:8080/''\<rparr>"

definition demo_button :: dict where
  "demo_button = [(''a'', JStr ''storage''), (''act'', JStr ''prune''), (''jti'', JStr ''j1''), (''exp'', JInt 1000)]"

definition demo_call :: callback_call where
  "demo_call = \<lparr>ca_url = ''http://storage.ai:8080/'', ca_body = callback_message ''prune'' []\<rparr>"

lemma demo_button_facts:
  "json_float (JInt 1000) = Inr (Fin 1000)" "agent_ok ''storage''" "call_of demo_callback demo_button = Inr demo_call"
  "jti_of demo_button = ''j1''" "savable (JObj demo_button)" "map_of demo_button ''exp'' = Some (JInt 1000)"
  "get_or demo_button ''exp'' (JInt 0) = JInt 1000" "get_or demo_button ''a'' (JStr []) = JStr ''storage''"
proof -
  have "percent_s ''http://%s.ai:8080/'' ''storage'' False = Inr ''http://storage.ai:8080/''" by code_simp
  then show "call_of demo_callback demo_button = Inr demo_call"
    by (simp add: call_of_def demo_callback_def demo_button_def demo_call_def get_or_def)
  show "json_float (JInt 1000) = Inr (Fin 1000)" "agent_ok ''storage''" by code_simp+
qed (simp_all add: demo_button_def jti_of_def get_or_def)

theorem verify_sign_witness:
  "verify [107, 101, 121] 500 (sign [107, 101, 121] demo_button) = Inr (Some demo_button)"
  using verify_sign [of "[107, 101, 121]" demo_button 500] by (simp add: demo_button_facts del: savable.simps)

lemma demo_token: "verify (cc_key demo_callback) 500 (sign [107, 101, 121] demo_button) = Inr (Some demo_button)"
  using verify_signed [of "[107, 101, 121]" demo_button 500] by (simp add: demo_button_facts demo_callback_def del: savable.simps)

theorem ledger_refines_set_witness:
  "fst (confirm_all demo_callback [(500, Inr (), demo_button), (600, Inr (), demo_button)] \<lparr>cs_used = [], cs_calls = []\<rparr>) = [Inr 200, Inr 409]"
proof -
  let ?xs = "[(500, Inr (), demo_button), (600, Inr (), demo_button)] :: confirmation list"
  have "fst (confirm_all demo_callback ?xs \<lparr>cs_used = [], cs_calls = []\<rparr>)
      = map (\<lambda>a. Inr (answer_code a)) (fst (redeem_all (map (\<lambda>x. (jti_of (snd (snd x)), reached demo_callback x)) ?xs) {}))"
    by (rule ledger_refines_set [of ?xs "\<lambda>_. Fin 1000", THEN conjunct1]) (simp_all add: live_def demo_button_facts)
  then show ?thesis by (simp add: reached_def demo_button_facts redeem_def answer_code_def)
qed

theorem threads_redeem_twice_witness:
  "\<exists>ts. (thread_step demo_callback)\<^sup>*\<^sup>* no_threads ts
    \<and> cs_calls (ct_state ts) = [(demo_button, demo_call), (demo_button, demo_call)] \<and> ct_threads ts = [Answered 200, Answered 200]"
  by (rule threads_redeem_twice [OF demo_token]) (simp_all add: demo_button_facts)

end
