(* ===== verification/Medikeep.thy ===== *)
theory Medikeep
  imports PyFloat PyRe PyJson
begin

text \<open>
  The importer of \<open>medikeep-ingest/ingest.py\<close>, without its API client: the configuration, the readings
  and dose rows of two sheets, the periods derived from the doses, and the weight as of a date. The
  sheets, the date parser of \<open>dateutil\<close> and the weight service are parameters.
\<close>

section \<open>Dates\<close>

type_synonym date = "nat \<times> nat \<times> nat"

record datetime =
  dt_date :: date
  dt_time :: "nat \<times> nat \<times> nat \<times> nat"
  dt_tz :: string

definition padded :: "nat \<Rightarrow> nat \<Rightarrow> string" where
  "padded w n = (let s = nat_str n in replicate (w - length s) (CHR ''0'') @ s)"

definition date_iso :: "date \<Rightarrow> string" where
  "date_iso d = (case d of (y, m, dd) \<Rightarrow> padded 4 y @ ''-'' @ padded 2 m @ ''-'' @ padded 2 dd)"

definition datetime_iso :: "datetime \<Rightarrow> string" where
  "datetime_iso t = (case dt_time t of (h, m, s, u) \<Rightarrow>
     date_iso (dt_date t) @ ''T'' @ padded 2 h @ '':'' @ padded 2 m @ '':'' @ padded 2 s
     @ (if u = 0 then [] else ''.'' @ padded 6 u) @ dt_tz t)"

definition naive_key :: "datetime \<Rightarrow> string" where
  "naive_key t = datetime_iso (t\<lparr>dt_tz := []\<rparr>)"

text \<open>
  \<open>dateutil.parser.parse\<close> on a string: the year of the \<open>default\<close>, if one is given, the flag \<open>fuzzy\<close> and
  the text. It raises \<open>ValueError\<close> or \<open>OverflowError\<close> on a text it cannot read.
\<close>

type_synonym date_parser = "nat option \<Rightarrow> bool \<Rightarrow> string \<Rightarrow> datetime res"

fun date_failure :: "exn \<Rightarrow> bool" where
  \<comment> \<open>\<open>except (ValueError, OverflowError)\<close>\<close>
  "date_failure (ValueError _) \<longleftrightarrow> True"
| "date_failure (OverflowError _) \<longleftrightarrow> True"
| "date_failure _ \<longleftrightarrow> False"

definition read_date :: "datetime res \<Rightarrow> datetime option res" where
  "read_date r = (case r of Inr d \<Rightarrow> Inr (Some d) | Inl e \<Rightarrow> if date_failure e then Inr None else Inl e)"

section \<open>Configuration\<close>

record mk_config =
  mc_sa_key :: json
  mc_url :: string
  mc_user :: string
  mc_pass :: string
  mc_readings_id :: string
  mc_dose_id :: string
  mc_treatment_name :: string
  mc_treatment_type :: string
  mc_vitals_source :: string
  mc_dose_source :: string
  mc_patient :: int
  mc_weight_url :: string
  mc_device :: string
  mc_dry_run :: bool

definition required :: "(string \<Rightarrow> string option) \<Rightarrow> string \<Rightarrow> string res" where
  \<comment> \<open>\<open>req\<close>: \<open>sys.exit\<close> with a text where the variable is not set or empty\<close>
  "required env k = (case env k of Some v \<Rightarrow> if v = [] then Inl (SystemExit 1) else Inr v | None \<Rightarrow> Inl (SystemExit 1))"

definition env_or :: "(string \<Rightarrow> string option) \<Rightarrow> string \<Rightarrow> string \<Rightarrow> string" where
  "env_or env k d = (case env k of Some v \<Rightarrow> v | None \<Rightarrow> d)"

definition patient_of :: "string \<Rightarrow> int res" where
  "patient_of s = (case parse_int s of Some i \<Rightarrow> Inr i | None \<Rightarrow> Inl (ValueError (''invalid literal for int() with base 10: '' @ repr_str s)))"

definition from_env :: "(string \<Rightarrow> string option) \<Rightarrow> mk_config res" where
  "from_env env =
     rbind (rbind (required env ''GOOGLE_SA_KEY'') json_loads) (\<lambda>key.
     rbind (required env ''MEDIKEEP_URL'') (\<lambda>url. rbind (required env ''MEDIKEEP_USER'') (\<lambda>user.
     rbind (required env ''MEDIKEEP_PASS'') (\<lambda>pass. rbind (required env ''READINGS_SHEET_ID'') (\<lambda>readings.
     rbind (required env ''DOSE_SHEET_ID'') (\<lambda>dose. rbind (required env ''TREATMENT_NAME'') (\<lambda>name.
     rbind (patient_of (env_or env ''PATIENT_ID'' ''1'')) (\<lambda>patient.
       Inr \<lparr>mc_sa_key = key, mc_url = rstrip_chars ''/'' url, mc_user = user, mc_pass = pass,
            mc_readings_id = readings, mc_dose_id = dose, mc_treatment_name = name,
            mc_treatment_type = env_or env ''TREATMENT_TYPE'' [],
            mc_vitals_source = env_or env ''VITALS_SOURCE'' ''sheet-import'',
            mc_dose_source = env_or env ''DOSE_SOURCE'' ''sheet-import'', mc_patient = patient,
            mc_weight_url = rstrip_chars ''/'' (env_or env ''WEIGHT_SOURCE_URL'' []),
            mc_device = strip (env_or env ''DEVICE_DEFAULT'' []),
            mc_dry_run = (lower (env_or env ''DRY_RUN'' ''true'') \<noteq> ''false'')\<rparr>))))))))"

section \<open>Sheets\<close>

record reading =
  rd_date :: datetime
  rd_systolic :: "int option"
  rd_diastolic :: "int option"
  rd_rate :: "int option"
  rd_notes :: string

definition cell_int :: "string \<Rightarrow> int option res" where
  \<comment> \<open>\<open>_to_int\<close>: a \<open>ValueError\<close> gives \<open>None\<close>, an infinite number raises \<open>OverflowError\<close>\<close>
  "cell_int v0 =
     (let v = strip v0 in
      if v = [] then Inr None
      else (case parse_float v of
          None \<Rightarrow> Inr None
        | Some f \<Rightarrow> (case round_int f of
            Inr i \<Rightarrow> Inr (Some i)
          | Inl (ValueError _) \<Rightarrow> Inr None
          | Inl e \<Rightarrow> Inl e)))"

definition paren_re :: re where
  "paren_re = seqs [Chr (CHR ''(''), Grp 1 (Plus (Cls (\<lambda>c. c \<noteq> CHR '')''))), Chr (CHR '')'')]"

definition parse_dt :: "date_parser \<Rightarrow> string \<Rightarrow> nat \<Rightarrow> datetime option res" where
  \<comment> \<open>\<open>datetime(0, 1, 1)\<close> is a \<open>ValueError\<close> of its own\<close>
  "parse_dt parse raw0 year =
     (let raw = strip raw0; day = (case re_search paren_re raw of Some (_, m) \<Rightarrow> group 1 m | None \<Rightarrow> raw) in
      if raw = [] \<or> year = 0 then Inr None
      else read_date (parse (Some year) True day))"

definition cell_at :: "string list \<Rightarrow> nat \<Rightarrow> int option res" where
  "cell_at row i = (if i < length row then cell_int (row ! i) else Inr None)"

definition row_notes :: "string list \<Rightarrow> string" where
  "row_notes row =
     (let notes = (if 3 < length row then strip (last row) else []) in
      if notes \<noteq> [] \<and> list_all (\<lambda>c. is_digit c \<or> c = CHR ''.'') notes then [] else notes)"

definition parse_row :: "date_parser \<Rightarrow> nat \<Rightarrow> string list \<Rightarrow> reading option res" where
  "parse_row parse year row =
     (if row = [] \<or> strip (hd row) = [] then Inr None
      else (let first = lower (strip (hd row)) in
        if startswith first ''date'' \<or> first \<in> {''average'', ''graph''} then Inr None
        else rbind (parse_dt parse (hd row) year) (\<lambda>found. case found of
            None \<Rightarrow> Inr None
          | Some dt \<Rightarrow>
              rbind (cell_at row 1) (\<lambda>c1. rbind (cell_at row 2) (\<lambda>c2. rbind (cell_at row 3) (\<lambda>c3.
                Inr (if c1 = None \<and> c2 = None then None
                     else Some \<lparr>rd_date = dt, rd_systolic = c1, rd_diastolic = c2, rd_rate = c3, rd_notes = row_notes row\<rparr>)))))))"

definition parse_readings :: "date_parser \<Rightarrow> string list list \<Rightarrow> nat \<Rightarrow> reading list res" where
  "parse_readings parse rows year = rbind (rmap (parse_row parse year) rows) (\<lambda>rs. Inr (List.map_filter id rs))"

definition parse_dose_row :: "date_parser \<Rightarrow> string list \<Rightarrow> (date \<times> int) option res" where
  "parse_dose_row parse row =
     (if row = [] \<or> strip (hd row) = [] \<or> lower (strip (hd row)) = ''day'' then Inr None
      else rbind (read_date (parse None False (strip (hd row)))) (\<lambda>found. case found of
          None \<Rightarrow> Inr None
        | Some d \<Rightarrow>
            (let ml = (if 1 < length row then strip (row ! 1) else []) in
             if ml = [] then Inr None
             else (case parse_float ml of
                 None \<Rightarrow> Inr None
               | Some x \<Rightarrow> rbind (round_int (fmul x (Fin 200))) (\<lambda>mg. Inr (Some (dt_date d, mg)))))))"

definition parse_dose_rows :: "date_parser \<Rightarrow> string list list \<Rightarrow> (date \<times> int) list res" where
  "parse_dose_rows parse rows = rbind (rmap (parse_dose_row parse) rows) (\<lambda>rs. Inr (List.map_filter id rs))"

section \<open>Dose periods\<close>

record period =
  pr_start :: date
  pr_end :: "date option"
  pr_amount :: int
  pr_status :: string

definition open_period :: "date \<Rightarrow> int \<Rightarrow> period" where
  "open_period d amt = \<lparr>pr_start = d, pr_end = None, pr_amount = amt, pr_status = ''active''\<rparr>"

definition close_last :: "date \<Rightarrow> period list \<Rightarrow> period list" where
  "close_last d ps =
     (if ps \<noteq> [] \<and> pr_end (last ps) = None
      then butlast ps @ [(last ps)\<lparr>pr_end := Some d, pr_status := ''completed''\<rparr>] else ps)"

definition add_dose :: "date \<times> int \<Rightarrow> period list \<Rightarrow> period list" where
  "add_dose x ps =
     (case x of (d, amt) \<Rightarrow>
        if ps \<noteq> [] \<and> pr_amount (last ps) = amt \<and> pr_end (last ps) = None then ps
        else close_last d ps @ [open_period d amt])"

definition doses_by_date :: "(date \<times> int) list \<Rightarrow> (date \<times> int) list" where
  \<comment> \<open>the last entry of each date, in the order of the dates\<close>
  "doses_by_date rows = sort (foldl (\<lambda>m (d, amt). AList.update d amt m) [] rows)"

definition derive_dose_periods :: "(date \<times> int) list \<Rightarrow> period list" where
  "derive_dose_periods rows = foldl (\<lambda>ps x. add_dose x ps) [] (doses_by_date rows)"

text \<open>The dose of a date, as the sheets have it: the last row of the latest date not after it.\<close>

definition dose_on :: "(date \<times> int) list \<Rightarrow> date \<Rightarrow> int option" where
  "dose_on rows d =
     (let ds = filter (\<lambda>r. fst r \<le> d) rows in
      if ds = [] then None else map_of (rev rows) (Max (set (map fst ds))))"

definition covers :: "date \<Rightarrow> period \<Rightarrow> bool" where
  "covers d p \<longleftrightarrow> pr_start p \<le> d \<and> (case pr_end p of None \<Rightarrow> True | Some e \<Rightarrow> d < e)"

text \<open>Periods that follow on from each other: closed and different up to the last, which is open.\<close>

fun chained :: "period list \<Rightarrow> bool" where
  "chained [] \<longleftrightarrow> True"
| "chained [p] \<longleftrightarrow> pr_end p = None \<and> pr_status p = ''active''"
| "chained (p # q # ps) \<longleftrightarrow>
     pr_end p = Some (pr_start q) \<and> pr_start p < pr_start q \<and> pr_amount p \<noteq> pr_amount q
     \<and> pr_status p = ''completed'' \<and> chained (q # ps)"

section \<open>Weights and places\<close>

definition clinic_re :: re where
  "clinic_re = seqs [WordB, alts [StrI ''office'', StrI ''clinic'', StrI ''hospital'', StrI ''internal medicine'',
     seqs [StrI ''walk'', Opt (Cls (\<lambda>c. c = CHR ''-'' \<or> c = CHR '' '')), StrI ''in''], StrI ''at dr''], WordB]"

definition is_clinic :: "reading \<Rightarrow> bool" where
  "is_clinic r \<longleftrightarrow> rd_notes r \<noteq> [] \<and> re_search clinic_re (rd_notes r) \<noteq> None"

definition parse_text :: "date_parser \<Rightarrow> json \<Rightarrow> datetime res" where
  "parse_text parse j =
     (case j of
        JStr s \<Rightarrow> parse None False s
      | _ \<Rightarrow> Inl (TypeError ''Parser must be a string or character stream''))"

definition weight_point :: "date_parser \<Rightarrow> json \<Rightarrow> (date \<times> pyfloat) res" where
  "weight_point parse w =
     rbind (value_at w ''date'') (\<lambda>d. rbind (parse_text parse d) (\<lambda>dt.
     rbind (value_at w ''weight_lb'') (\<lambda>x. rbind (json_float x) (\<lambda>f. Inr (dt_date dt, f)))))"

fun weight_failure :: "exn \<Rightarrow> bool" where
  \<comment> \<open>the exceptions that \<open>fetch_weights\<close> catches; those of the request are \<open>OSError\<close> and \<open>HTTPError\<close>\<close>
  "weight_failure (OSError _) \<longleftrightarrow> True"
| "weight_failure (HTTPError _ _) \<longleftrightarrow> True"
| "weight_failure (ValueError _) \<longleftrightarrow> True"
| "weight_failure (KeyError _) \<longleftrightarrow> True"
| "weight_failure (TypeError _) \<longleftrightarrow> True"
| "weight_failure _ \<longleftrightarrow> False"

definition fetch_weights :: "date_parser \<Rightarrow> (string \<Rightarrow> json res) \<Rightarrow> string \<Rightarrow> (date \<times> pyfloat) list res" where
  "fetch_weights parse http url =
     (if url = [] then Inr []
      else (case rbind (http (url @ ''/api/pump/v_weight?order=date.asc'')) (\<lambda>j. rbind (iterate j) (rmap (weight_point parse))) of
          Inr ws \<Rightarrow> Inr (sort_key fst ws)
        | Inl e \<Rightarrow> if weight_failure e then Inr [] else Inl e))"

fun weight_from :: "pyfloat option \<Rightarrow> (date \<times> pyfloat) list \<Rightarrow> date \<Rightarrow> pyfloat option" where
  "weight_from best [] d = best"
| "weight_from best ((wd, w) # ws) d = (if wd \<le> d then weight_from (Some w) ws d else best)"

definition weight_as_of :: "(date \<times> pyfloat) list \<Rightarrow> date \<Rightarrow> pyfloat option" where
  "weight_as_of ws d = weight_from None ws d"

section \<open>The periods say what the sheets say\<close>

lemma map_of_doses: "map_of (foldl (\<lambda>m (d, amt). AList.update d amt m) m rows) = map_of m ++ map_of (rev rows)"
  by (induction rows arbitrary: m) (auto simp: AList.update_conv' map_add_def fun_eq_iff split: option.splits)

lemma distinct_doses: "distinct (map fst m) \<Longrightarrow> distinct (map fst (foldl (\<lambda>m (d, amt). AList.update d amt m) m rows))"
  by (induction rows arbitrary: m) (auto simp: distinct_update)

lemma strictly_sorted: "sorted xs \<Longrightarrow> distinct (map fst xs) \<Longrightarrow> sorted_wrt (\<lambda>x y. fst x < fst y) xs" for xs :: "(date \<times> int) list"
  by (induction xs) (force simp: less_eq_prod_def)+

lemma doses_by_date_facts:
  "distinct (map fst (doses_by_date rows))" "sorted_wrt (\<lambda>x y. fst x < fst y) (doses_by_date rows)" "map_of (doses_by_date rows) = map_of (rev rows)"
proof -
  let ?m = "foldl (\<lambda>m (d, amt). AList.update d amt m) [] rows"
  have d: "distinct (map fst ?m)" by (rule distinct_doses) simp
  then have ds: "distinct (map fst (sort ?m))" by (simp add: distinct_map inj_on_def)
  then show "distinct (map fst (doses_by_date rows))" by (simp add: doses_by_date_def)
  from ds show "sorted_wrt (\<lambda>x y. fst x < fst y) (doses_by_date rows)"
    by (simp add: doses_by_date_def strictly_sorted)
  have "map_of (sort ?m) = map_of ?m" using map_of_inject_set [OF ds d] by simp
  then show "map_of (doses_by_date rows) = map_of (rev rows)"
    by (simp add: doses_by_date_def map_of_doses)
qed

lemma chained_snoc:
  "chained (ps @ [open_period d a]) \<Longrightarrow> d < d' \<Longrightarrow> a \<noteq> a' \<Longrightarrow>
   chained (ps @ [(open_period d a)\<lparr>pr_end := Some d', pr_status := ''completed''\<rparr>, open_period d' a'])"
  by (induction ps rule: induct_list012) (auto simp: open_period_def)

lemma chained_starts: "chained (ps @ [p]) \<Longrightarrow> \<forall>q\<in>set ps. pr_start q < pr_start p"
proof (induction ps)
  case (Cons x ps)
  show ?case
  proof (cases ps)
    case Nil
    with Cons.prems show ?thesis by simp
  next
    case (Cons y zs)
    with Cons.prems have "chained (ps @ [p])" "pr_start x < pr_start y" by auto
    with Cons.IH Cons show ?thesis by (auto intro: less_trans)
  qed
qed simp

lemma chained_ends: "chained (ps @ [p]) \<Longrightarrow> q \<in> set ps \<Longrightarrow> \<exists>e. pr_end q = Some e \<and> e \<le> pr_start p"
proof (induction ps)
  case (Cons x ps)
  show ?case
  proof (cases ps)
    case (Cons y zs)
    moreover have "pr_start y < pr_start p" if "chained (ps @ [p])" using chained_starts [OF that] Cons by simp
    ultimately show ?thesis using Cons.IH Cons.prems by (auto simp del: split_paired_Ex intro: less_imp_le)
  qed (use Cons.prems in auto)
qed simp

definition latest :: "(date \<times> int) list \<Rightarrow> date \<Rightarrow> int list" where
  "latest xs d = (let ys = filter (\<lambda>x. fst x \<le> d) xs in if ys = [] then [] else [snd (last ys)])"

text \<open>One more dose at a later date.\<close>

lemma add_dose_step:
  assumes ps: "ps = qs @ [open_period s a]" and ch: "chained ps" and d0: "s \<le> d0" "d0 < d'"
    and amounts: "\<And>d. map pr_amount (filter (covers d) ps) = latest xs d"
    and last: "xs \<noteq> []" "fst (last xs) = d0" "\<forall>x\<in>set xs. fst x \<le> d0" "snd (last xs) = a"
  obtains qs' s' where "add_dose (d', a') ps = qs' @ [open_period s' a']" "s' \<le> d'"
    "chained (add_dose (d', a') ps)"
    "\<And>d. map pr_amount (filter (covers d) (add_dose (d', a') ps)) = latest (xs @ [(d', a')]) d"
proof -
  have before: "latest (xs @ [(d', a')]) d = latest xs d" if "d < d'" for d
    using that by (auto simp: latest_def dest: leD)
  have after: "latest (xs @ [(d', a')]) d = [a']" if "d' \<le> d" for d
    using that by (simp add: latest_def)
  show thesis
  proof (cases "a' = a")
    case True
    have same: "add_dose (d', a') ps = ps"
      using ps True by (simp add: add_dose_def open_period_def)
    have "latest xs d = [a]" if "d' \<le> d" for d
    proof -
      have "filter (\<lambda>x. fst x \<le> d) xs = xs" using last(3) d0(2) that by (intro filter_True) fastforce
      with last(1,4) show ?thesis by (simp add: latest_def)
    qed
    then have "map pr_amount (filter (covers d) ps) = latest (xs @ [(d', a')]) d" for d
      using amounts [of d] before [of d] after [of d] True by (cases "d < d'") auto
    with that [of qs s] same ps ch d0 True show thesis by auto
  next
    case False
    let ?c = "(open_period s a)\<lparr>pr_end := Some d', pr_status := ''completed''\<rparr>"
    have new: "add_dose (d', a') ps = qs @ [?c, open_period d' a']"
      using ps False by (simp add: add_dose_def close_last_def open_period_def)
    have chain: "chained (qs @ [?c, open_period d' a'])"
      using chained_snoc ch ps d0 False by auto
    have cover: "map pr_amount (filter (covers d) (qs @ [?c, open_period d' a'])) = latest (xs @ [(d', a')]) d" for d
    proof (cases "d < d'")
      case True
      then have "covers d ?c = covers d (open_period s a)" "\<not> covers d (open_period d' a')"
        by (auto simp: covers_def open_period_def)
      with amounts [of d] ps before [OF True] show ?thesis by (auto simp: open_period_def)
    next
      case False
      have "\<not> covers d q" if "q \<in> set qs" for q
        using chained_ends [OF ch [unfolded ps] that] d0 False by (auto simp: covers_def open_period_def)
      moreover have "\<not> covers d ?c" "covers d (open_period d' a')"
        using False by (auto simp: covers_def open_period_def)
      ultimately show ?thesis using after [of d] False by (simp add: open_period_def)
    qed
    show thesis by (rule that [of "qs @ [?c]" d']) (use new chain cover in auto)
  qed
qed

lemma last_Max:
  assumes "sorted_wrt (\<lambda>x y. fst x < fst y) (ys :: (date \<times> int) list)" "ys \<noteq> []"
  shows "fst (last ys) = Max (set (map fst ys))"
  using assms
proof (induction ys rule: rev_induct)
  case (snoc y ys)
  then have "\<forall>x\<in>set ys. fst x < fst y" by (simp add: sorted_wrt_append)
  then show ?case by (intro Max_eqI [symmetric]) (auto intro: less_imp_le)
qed simp

lemma periods_of_sorted:
  assumes "sorted_wrt (\<lambda>x y. fst x < fst y) xs"
  shows "let ps = foldl (\<lambda>ps x. add_dose x ps) [] xs in
     chained ps \<and> (\<forall>d. map pr_amount (filter (covers d) ps) = latest xs d)
     \<and> (xs \<noteq> [] \<longrightarrow> (\<exists>qs s. ps = qs @ [open_period s (snd (last xs))] \<and> s \<le> fst (last xs)))"
  using assms
proof (induction xs rule: rev_induct)
  case Nil
  show ?case by (simp add: latest_def)
next
  case (snoc x xs)
  obtain d' a' where x: "x = (d', a')" by fastforce
  let ?ps = "foldl (\<lambda>ps x. add_dose x ps) [] xs"
  have IH: "chained ?ps" "\<And>d. map pr_amount (filter (covers d) ?ps) = latest xs d"
    "xs \<noteq> [] \<longrightarrow> (\<exists>qs s. ?ps = qs @ [open_period s (snd (last xs))] \<and> s \<le> fst (last xs))"
    using snoc.IH snoc.prems unfolding Let_def by (simp_all add: sorted_wrt_append del: split_paired_Ex split_paired_All)
  show ?case
  proof (cases "xs = []")
    case True
    then show ?thesis
      by (simp add: x add_dose_def close_last_def open_period_def covers_def latest_def del: split_paired_Ex)
  next
    case False
    then obtain qs s where ps: "?ps = qs @ [open_period s (snd (last xs))]" "s \<le> fst (last xs)"
      using IH(3) by blast
    have less: "fst (last xs) < d'" using snoc.prems False by (simp add: x sorted_wrt_append)
    have strict: "sorted_wrt (\<lambda>x y. fst x < fst y) xs" using snoc.prems by (simp add: sorted_wrt_append)
    have upper: "\<forall>y\<in>set xs. fst y \<le> fst (last xs)"
      unfolding last_Max [OF strict False] by (simp add: Max_ge)
    have step: "foldl (\<lambda>ps x. add_dose x ps) [] (xs @ [(d', a')]) = add_dose (d', a') ?ps" by simp
    from add_dose_step [OF ps(1) IH(1) ps(2) less IH(2) False refl upper refl, of a']
    obtain qs' s' where new: "add_dose (d', a') ?ps = qs' @ [open_period s' a']" "s' \<le> d'"
        "chained (add_dose (d', a') ?ps)"
        "\<And>d. map pr_amount (filter (covers d) (add_dose (d', a') ?ps)) = latest (xs @ [(d', a')]) d"
      by blast
    then have "\<exists>qs s. add_dose (d', a') ?ps = qs @ [open_period s (snd (last (xs @ [x])))] \<and> s \<le> fst (last (xs @ [x]))"
      unfolding x last_snoc fst_conv snd_conv by blast
    with new(3,4) show ?thesis unfolding Let_def x step by blast
  qed
qed

lemma latest_rows: "latest (doses_by_date rows) d = (case dose_on rows d of None \<Rightarrow> [] | Some a \<Rightarrow> [a])"
proof -
  let ?m = "doses_by_date rows" and ?ys = "filter (\<lambda>x. fst x \<le> d) (doses_by_date rows)"
  have "dom (map_of ?m) = dom (map_of (rev rows))" by (simp add: doses_by_date_facts)
  then have "fst ` set ?m = fst ` set rows" by (simp add: dom_map_of_conv_image_fst)
  moreover have "set (map fst (filter (\<lambda>x. fst x \<le> d) xs)) = {e \<in> fst ` set xs. e \<le> d}" for xs :: "(date \<times> int) list"
    by (auto simp del: split_paired_Ex split_paired_All)
  ultimately have dates: "set (map fst ?ys) = set (map fst (filter (\<lambda>r. fst r \<le> d) rows))" by (simp only:)
  show ?thesis
  proof (cases "?ys = []")
    case True
    then have "filter (\<lambda>r. fst r \<le> d) rows = []" using dates by (metis list.map_disc_iff list.set(1) set_empty)
    with True show ?thesis by (simp add: latest_def dose_on_def)
  next
    case False
    have strict: "sorted_wrt (\<lambda>x y. fst x < fst y) ?ys" by (intro sorted_wrt_filter doses_by_date_facts)
    from last_Max [OF this False] have "fst (last ?ys) = Max (set (map fst (filter (\<lambda>r. fst r \<le> d) rows)))"
      by (simp only: dates)
    moreover have "distinct (map fst ?m)"
      by (rule doses_by_date_facts(1))
    moreover have "last ?ys \<in> set ?m" using last_in_set [OF False] by simp
    ultimately have found: "map_of (rev rows) (Max (set (map fst (filter (\<lambda>r. fst r \<le> d) rows)))) = Some (snd (last ?ys))"
      by (metis doses_by_date_facts(1,3) map_of_eq_Some_iff prod.collapse)
    have "filter (\<lambda>r. fst r \<le> d) rows \<noteq> []" using dates False by (metis list.map_disc_iff list.set(1) set_empty)
    with False found show ?thesis by (simp add: latest_def dose_on_def)
  qed
qed

text \<open>
  Property C17. The dose periods say of every date what the sheets say: the period that covers a date is
  unique and carries the amount of the last row of the latest date up to it, no period covers a date
  before the first dose, and the periods follow on from each other with changing amounts, all closed
  but the last.
\<close>

theorem dose_periods_spec:
  "chained (derive_dose_periods rows)
   \<and> map pr_amount (filter (covers d) (derive_dose_periods rows)) = (case dose_on rows d of None \<Rightarrow> [] | Some a \<Rightarrow> [a])"
  using periods_of_sorted [OF doses_by_date_facts(2), of rows]
  by (simp add: derive_dose_periods_def Let_def latest_rows del: split_paired_Ex split_paired_All)

text \<open>
  A cell with an infinite number: \<open>_to_int\<close> catches \<open>ValueError\<close> only, so the \<open>OverflowError\<close> of
  \<open>round\<close> leaves \<open>parse_readings\<close>, and with it the run.
\<close>

lemma infinite_cell_raises:
  assumes "parse (Some 2025) True ''5/1'' = Inr t"
  shows "parse_readings parse [[''5/1'', ''inf'']] 2025 = Inl (OverflowError ''cannot convert float infinity to integer'')"
proof -
  have plain: "strip ''5/1'' = ''5/1''" "strip ''inf'' = ''inf''" "lower ''5/1'' = ''5/1''" "re_search paren_re ''5/1'' = None"
    "cell_int ''inf'' = Inl (OverflowError ''cannot convert float infinity to integer'')"
    by code_simp+
  show ?thesis
    by (simp add: parse_readings_def parse_row_def parse_dt_def read_date_def cell_at_def plain assms startswith_def)
qed

end
