(* ===== verification/MedikeepSync.thy ===== *)
theory MedikeepSync
  imports Medikeep
begin

text \<open>
  The API client and the run of \<open>medikeep-ingest/ingest.py\<close>: login, the two reads, the two
  synchronisations and \<open>main\<close>. The state is the session, its bearer token and the requests sent so
  far; what the API answers to a request is a parameter, which may depend on all requests before it.
\<close>

section \<open>The API\<close>

record vital =
  vt_patient :: int
  vt_date :: string
  vt_systolic :: "int option"
  vt_diastolic :: "int option"
  vt_rate :: "int option"
  vt_weight :: "pyfloat option"
  vt_device :: "string option"
  vt_notes :: "string option"
  vt_source :: string

record treatment =
  tr_patient :: int
  tr_name :: string
  tr_mode :: string
  tr_type :: "string option"
  tr_dosage :: string
  tr_frequency :: string
  tr_start :: string
  tr_end :: "string option"
  tr_status :: string
  tr_notes :: string

datatype mk_request =
    Login string string
  | Fetch string
  | PostVital vital
  | PostTreatment treatment
  | PutTreatment string treatment

record medikeep =
  md_bearer :: "string option"
  md_log :: "mk_request list"

text \<open>
  The answer to a request after the requests before it, with the bearer token it carries: the JSON of
  the body, or the exception of the connection, of \<open>raise_for_status\<close> or of \<open>json\<close>.
\<close>

type_synonym mk_api = "mk_request list \<Rightarrow> string option \<Rightarrow> mk_request \<Rightarrow> json res"

definition send :: "mk_api \<Rightarrow> mk_request \<Rightarrow> (json, medikeep) stm" where
  "send api q mk = (api (md_log mk) (md_bearer mk) q, mk\<lparr>md_log := md_log mk @ [q]\<rparr>)"

definition set_bearer :: "json \<Rightarrow> (unit, medikeep) stm" where
  "set_bearer t mk = (Inr (), mk\<lparr>md_bearer := Some (py_str t)\<rparr>)"

definition login :: "mk_api \<Rightarrow> mk_config \<Rightarrow> (unit, medikeep) stm" where
  "login api cfg =
     mbind (send api (Login (mc_user cfg) (mc_pass cfg))) (\<lambda>r.
     mbind (mlift (value_at r ''access_token'')) set_bearer)"

definition list_of :: "json \<Rightarrow> json list res" where
  \<comment> \<open>the loop over what \<open>_get_list\<close> returns\<close>
  "list_of data =
     rbind (case data of
         JList _ \<Rightarrow> Inr data
       | _ \<Rightarrow> rbind (field data ''data'' (JList [])) (\<lambda>d. field data ''items'' d)) iterate"

definition get_list :: "mk_api \<Rightarrow> string \<Rightarrow> (json list, medikeep) stm" where
  "get_list api path = mbind (send api (Fetch path)) (\<lambda>data. mlift (list_of data))"

definition vitals_path :: "mk_config \<Rightarrow> string" where
  "vitals_path cfg = ''/api/v1/vitals/?patient_id='' @ int_str (mc_patient cfg)"

definition treatments_path :: "mk_config \<Rightarrow> string" where
  "treatments_path cfg = ''/api/v1/treatments/?patient_id='' @ int_str (mc_patient cfg)"

definition vital_key :: "date_parser \<Rightarrow> mk_config \<Rightarrow> json \<Rightarrow> string option res" where
  \<comment> \<open>the key that one row of the API adds\<close>
  "vital_key parse cfg v =
     rbind (field v ''import_source'' JNull) (\<lambda>src.
       if src \<noteq> JStr (mc_vitals_source cfg) then Inr None
       else rbind (field v ''recorded_date'' JNull) (\<lambda>d.
         if truthy d then rbind (parse_text parse d) (\<lambda>t. Inr (Some (naive_key t))) else Inr None))"

definition vitals_keys :: "date_parser \<Rightarrow> mk_config \<Rightarrow> json list \<Rightarrow> string list res" where
  "vitals_keys parse cfg vs = rbind (rmap (vital_key parse cfg) vs) (\<lambda>ks. Inr (List.map_filter id ks))"

definition existing_vitals_keys :: "mk_api \<Rightarrow> date_parser \<Rightarrow> mk_config \<Rightarrow> (string list, medikeep) stm" where
  "existing_vitals_keys api parse cfg =
     mbind (get_list api (vitals_path cfg)) (\<lambda>vs. mlift (vitals_keys parse cfg vs))"

definition named :: "mk_config \<Rightarrow> json \<Rightarrow> json option res" where
  "named cfg t = rbind (field t ''treatment_name'' JNull) (\<lambda>n.
     Inr (if n = JStr (mc_treatment_name cfg) then Some t else None))"

definition own_treatments :: "mk_config \<Rightarrow> json list \<Rightarrow> json list res" where
  "own_treatments cfg ts = rbind (rmap (named cfg) ts) (\<lambda>ns. Inr (List.map_filter id ns))"

definition existing_treatments :: "mk_api \<Rightarrow> mk_config \<Rightarrow> (json list, medikeep) stm" where
  "existing_treatments api cfg =
     mbind (get_list api (treatments_path cfg)) (\<lambda>ts. mlift (own_treatments cfg ts))"

section \<open>Readings\<close>

definition or_none :: "string \<Rightarrow> string option" where
  \<comment> \<open>\<open>s or None\<close>\<close>
  "or_none s = (if s = [] then None else Some s)"

definition vital_of :: "mk_config \<Rightarrow> (date \<times> pyfloat) list \<Rightarrow> reading \<Rightarrow> vital" where
  "vital_of cfg weights r =
     \<lparr>vt_patient = mc_patient cfg, vt_date = datetime_iso (rd_date r), vt_systolic = rd_systolic r,
      vt_diastolic = rd_diastolic r, vt_rate = rd_rate r, vt_weight = weight_as_of weights (dt_date (rd_date r)),
      vt_device = (if is_clinic r then None else or_none (mc_device cfg)),
      vt_notes = or_none (rd_notes r), vt_source = mc_vitals_source cfg\<rparr>"

fun same_number :: "json \<Rightarrow> int option \<Rightarrow> bool" where
  \<comment> \<open>\<open>==\<close> of a JSON value and an \<open>int\<close> or \<open>None\<close>\<close>
  "same_number JNull n \<longleftrightarrow> n = None"
| "same_number (JBool b) n \<longleftrightarrow> n = Some (if b then 1 else 0)"
| "same_number (JInt i) n \<longleftrightarrow> n = Some i"
| "same_number (JFloat t) n \<longleftrightarrow> (case (parse_float t, n) of (Some (Fin q), Some i) \<Rightarrow> q = of_int i | _ \<Rightarrow> False)"
| "same_number _ n \<longleftrightarrow> False"

fun fsub :: "pyfloat \<Rightarrow> pyfloat \<Rightarrow> pyfloat" where
  "fsub (Fin a) (Fin b) = dbl (a - b)"
| "fsub (Fin a) (FInf t) = FInf (\<not> t)"
| "fsub (FInf s) (Fin b) = FInf s"
| "fsub (FInf s) (FInf t) = (if s = t then NaN else FInf s)"
| "fsub NaN y = NaN"
| "fsub x NaN = NaN"

fun fabs :: "pyfloat \<Rightarrow> pyfloat" where
  "fabs (Fin a) = Fin \<bar>a\<bar>"
| "fabs (FInf s) = FInf False"
| "fabs NaN = NaN"

text \<open>What the read-back of one reading logs: the vitals agree, the weight agrees, the device agrees.\<close>

record read_back =
  rb_vitals :: bool
  rb_weight :: bool
  rb_device :: bool

definition weight_agrees :: "json \<Rightarrow> pyfloat option \<Rightarrow> bool res" where
  "weight_agrees gw weight =
     (case weight of
        None \<Rightarrow> Inr True
      | Some w \<Rightarrow> if gw = JNull then Inr False
          else rbind (json_float gw) (\<lambda>g. Inr (\<not> flt (dbl (5 / 100)) (fabs (fsub g w)))))"

definition read_back_of :: "vital \<Rightarrow> json \<Rightarrow> read_back res" where
  "read_back_of v created =
     rbind (as_dict created) (\<lambda>d. rbind (weight_agrees (get d ''weight'') (vt_weight v)) (\<lambda>w. Inr
       \<lparr>rb_vitals = (same_number (get d ''systolic_bp'') (vt_systolic v) \<and> same_number (get d ''diastolic_bp'') (vt_diastolic v)
                     \<and> same_number (get d ''heart_rate'') (vt_rate v)),
        rb_weight = w,
        rb_device = (case vt_device v of None \<Rightarrow> True | Some s \<Rightarrow> get d ''device_used'' = JStr s)\<rparr>))"

fun post_readings :: "mk_api \<Rightarrow> vital list \<Rightarrow> (read_back list, medikeep) stm" where
  "post_readings api [] = mlift (Inr [])"
| "post_readings api (v # vs) =
     mbind (send api (PostVital v)) (\<lambda>created. mbind (mlift (read_back_of v created)) (\<lambda>rb.
     mbind (post_readings api vs) (\<lambda>rbs. mlift (Inr (rb # rbs)))))"

definition new_readings :: "string list \<Rightarrow> reading list \<Rightarrow> reading list" where
  "new_readings existing rs = filter (\<lambda>r. naive_key (rd_date r) \<notin> set existing) rs"

definition sync_readings :: "mk_api \<Rightarrow> date_parser \<Rightarrow> mk_config \<Rightarrow> reading list \<Rightarrow> (date \<times> pyfloat) list
    \<Rightarrow> (read_back list, medikeep) stm" where
  "sync_readings api parse cfg rs weights =
     mbind (if mc_dry_run cfg then mlift (Inr []) else existing_vitals_keys api parse cfg) (\<lambda>existing.
       if mc_dry_run cfg then mlift (Inr [])
       else post_readings api (map (vital_of cfg weights) (new_readings existing rs)))"

section \<open>Doses\<close>

fun norm_failure :: "exn \<Rightarrow> bool" where
  \<comment> \<open>\<open>except (ValueError, TypeError)\<close>\<close>
  "norm_failure (ValueError _) \<longleftrightarrow> True"
| "norm_failure (TypeError _) \<longleftrightarrow> True"
| "norm_failure _ \<longleftrightarrow> False"

definition norm_start :: "date_parser \<Rightarrow> json \<Rightarrow> json res" where
  "norm_start parse s =
     (if truthy s
      then (case parse_text parse s of
          Inr t \<Rightarrow> Inr (JStr (date_iso (dt_date t)))
        | Inl e \<Rightarrow> if norm_failure e then Inr s else Inl e)
      else Inr JNull)"

definition start_entry :: "date_parser \<Rightarrow> json \<Rightarrow> (json \<times> json) res" where
  "start_entry parse t =
     rbind (field t ''start_date'' JNull) (\<lambda>s. rbind (norm_start parse s) (\<lambda>k.
       if hashable k then Inr (k, t) else Inl (TypeError (''unhashable type: '' @ repr_str (type_name k)))))"

definition treatment_of :: "mk_config \<Rightarrow> period \<Rightarrow> treatment" where
  "treatment_of cfg p =
     \<lparr>tr_patient = mc_patient cfg, tr_name = mc_treatment_name cfg, tr_mode = ''simple'',
      tr_type = or_none (mc_treatment_type cfg), tr_dosage = int_str (pr_amount p) @ '' mg/week'',
      tr_frequency = ''weekly'', tr_start = date_iso (pr_start p), tr_end = map_option date_iso (pr_end p),
      tr_status = pr_status p, tr_notes = ''source:'' @ mc_dose_source cfg\<rparr>"

definition null_or :: "string option \<Rightarrow> json" where
  "null_or s = (case s of None \<Rightarrow> JNull | Some t \<Rightarrow> JStr t)"

definition up_to_date :: "dict \<Rightarrow> treatment \<Rightarrow> bool" where
  "up_to_date d t \<longleftrightarrow> get d ''end_date'' = null_or (tr_end t) \<and> get d ''status'' = JStr (tr_status t)"

text \<open>One period: \<open>by_start\<close> is the dictionary of the rows, of which the last one with a key counts.\<close>

definition sync_period :: "mk_api \<Rightarrow> mk_config \<Rightarrow> (json \<times> json) list \<Rightarrow> period \<Rightarrow> (unit, medikeep) stm" where
  "sync_period api cfg by_start p =
     (let t = treatment_of cfg p in
      case map_of (rev by_start) (JStr (date_iso (pr_start p))) of
        None \<Rightarrow>
          if mc_dry_run cfg then mlift (Inr ())
          else mbind (send api (PostTreatment t)) (\<lambda>_. mlift (Inr ()))
      | Some m \<Rightarrow> mbind (mlift (as_dict m)) (\<lambda>d.
          if up_to_date d t \<or> mc_dry_run cfg then mlift (Inr ())
          else mbind (mlift (value_at m ''id'')) (\<lambda>i.
               mbind (send api (PutTreatment (py_str i) t)) (\<lambda>_. mlift (Inr ())))))"

fun sync_periods :: "mk_api \<Rightarrow> mk_config \<Rightarrow> (json \<times> json) list \<Rightarrow> period list \<Rightarrow> (unit, medikeep) stm" where
  "sync_periods api cfg by_start [] = mlift (Inr ())"
| "sync_periods api cfg by_start (p # ps) =
     mbind (sync_period api cfg by_start p) (\<lambda>_. sync_periods api cfg by_start ps)"

definition sync_dose :: "mk_api \<Rightarrow> date_parser \<Rightarrow> mk_config \<Rightarrow> period list \<Rightarrow> (unit, medikeep) stm" where
  "sync_dose api parse cfg ps =
     mbind (if mc_dry_run cfg then mlift (Inr []) else existing_treatments api cfg) (\<lambda>existing.
     mbind (mlift (rmap (start_entry parse) existing)) (\<lambda>by_start. sync_periods api cfg by_start ps))"

section \<open>The run\<close>

text \<open>A worksheet is its title and the cells that \<open>get_all_values\<close> returns.\<close>

type_synonym worksheet = "string \<times> string list list res"

record ingest_env =
  ie_parse :: date_parser
  ie_open :: "json \<Rightarrow> string \<Rightarrow> worksheet list res"
  ie_http :: "string \<Rightarrow> json res"
  ie_api :: mk_api

definition year_tab :: "string \<Rightarrow> bool" where
  "year_tab title \<longleftrightarrow> (let t = strip title in length t = 4 \<and> list_all is_digit t)"

definition all_readings :: "date_parser \<Rightarrow> worksheet list \<Rightarrow> reading list res" where
  "all_readings parse wss =
     rbind (rmap (\<lambda>(title, cells). rbind cells (\<lambda>rows. parse_readings parse rows (digits_val (strip title))))
                 (filter (\<lambda>ws. year_tab (fst ws)) wss)) (\<lambda>rss. Inr (concat rss))"

definition all_doses :: "date_parser \<Rightarrow> worksheet list \<Rightarrow> (date \<times> int) list res" where
  "all_doses parse wss =
     rbind (rmap (\<lambda>(title, cells). rbind cells (parse_dose_rows parse)) (filter (\<lambda>ws. year_tab (fst ws)) wss))
       (\<lambda>rss. Inr (concat rss))"

fun dedup :: "string list \<Rightarrow> reading list \<Rightarrow> reading list" where
  \<comment> \<open>the first reading of each key\<close>
  "dedup seen [] = []"
| "dedup seen (r # rs) =
     (if naive_key (rd_date r) \<in> set seen then dedup seen rs
      else r # dedup (naive_key (rd_date r) # seen) rs)"

definition sheet_readings :: "ingest_env \<Rightarrow> mk_config \<Rightarrow> reading list res" where
  "sheet_readings env cfg =
     rbind (rbind (ie_open env (mc_sa_key cfg) (mc_readings_id cfg)) (all_readings (ie_parse env))) (\<lambda>rs. Inr (dedup [] rs))"

definition sheet_doses :: "ingest_env \<Rightarrow> mk_config \<Rightarrow> (date \<times> int) list res" where
  "sheet_doses env cfg = rbind (ie_open env (mc_sa_key cfg) (mc_dose_id cfg)) (all_doses (ie_parse env))"

definition ingest_main :: "ingest_env \<Rightarrow> mk_config \<Rightarrow> (read_back list, medikeep) stm" where
  "ingest_main env cfg =
     mbind (mlift (sheet_readings env cfg)) (\<lambda>rs. mbind (mlift (sheet_doses env cfg)) (\<lambda>rows.
     mbind (mlift (fetch_weights (ie_parse env) (ie_http env) (mc_weight_url cfg))) (\<lambda>weights.
     mbind (if mc_dry_run cfg then mlift (Inr ()) else login (ie_api env) cfg) (\<lambda>_.
     mbind (sync_readings (ie_api env) (ie_parse env) cfg rs weights) (\<lambda>rbs.
     mbind (sync_dose (ie_api env) (ie_parse env) cfg (derive_dose_periods rows)) (\<lambda>_. mlift (Inr rbs)))))))"

definition ingest :: "ingest_env \<Rightarrow> (string \<Rightarrow> string option) \<Rightarrow> (read_back list, medikeep) stm" where
  \<comment> \<open>\<open>main\<close>; a run that ends normally exits with 0\<close>
  "ingest env vars = mbind (mlift (from_env vars)) (ingest_main env)"

section \<open>What a run sends\<close>

lemma send_ok: "send api q mk = (Inr j, mk') \<longleftrightarrow> api (md_log mk) (md_bearer mk) q = Inr j \<and> mk' = mk\<lparr>md_log := md_log mk @ [q]\<rparr>"
  by (auto simp: send_def)

lemma login_ok:
  "login api cfg mk = (Inr u, mk') \<Longrightarrow> md_log mk' = md_log mk @ [Login (mc_user cfg) (mc_pass cfg)]"
  by (auto simp: login_def mbind_ok send_ok set_bearer_def)

lemma get_list_ok:
  "get_list api path mk = (Inr vs, mk') \<longleftrightarrow>
   (\<exists>data. api (md_log mk) (md_bearer mk) (Fetch path) = Inr data \<and> list_of data = Inr vs
      \<and> mk' = mk\<lparr>md_log := md_log mk @ [Fetch path]\<rparr>)"
  by (auto simp: get_list_def mbind_ok send_ok)

lemma post_readings_ok:
  "post_readings api vs mk = (Inr rbs, mk') \<Longrightarrow> mk' = mk\<lparr>md_log := md_log mk @ map PostVital vs\<rparr>"
  by (induction vs arbitrary: mk rbs) (fastforce simp: mbind_ok send_ok)+

text \<open>The write for one period, given the rows that the API has.\<close>

definition period_write :: "mk_config \<Rightarrow> (json \<times> json) list \<Rightarrow> period \<Rightarrow> mk_request list" where
  "period_write cfg by_start p =
     (let t = treatment_of cfg p in
      case map_of (rev by_start) (JStr (tr_start t)) of
        None \<Rightarrow> [PostTreatment t]
      | Some (JObj d) \<Rightarrow> if up_to_date d t then [] else [PutTreatment (py_str (get d ''id'')) t]
      | Some _ \<Rightarrow> [])"

lemma sync_period_ok:
  assumes "\<not> mc_dry_run cfg" "sync_period api cfg by_start p mk = (Inr u, mk')"
  shows "mk' = mk\<lparr>md_log := md_log mk @ period_write cfg by_start p\<rparr>"
proof (cases "map_of (rev by_start) (JStr (date_iso (pr_start p)))")
  case None
  with assms show ?thesis
    by (auto simp: sync_period_def period_write_def treatment_of_def mbind_ok send_ok Let_def)
next
  case (Some m)
  with assms show ?thesis
    by (cases m)
      (auto simp: sync_period_def period_write_def treatment_of_def mbind_ok send_ok Let_def value_at_def get_def
         split: if_splits option.splits)
qed

lemma sync_periods_ok:
  "\<not> mc_dry_run cfg \<Longrightarrow> sync_periods api cfg by_start ps mk = (Inr u, mk') \<Longrightarrow>
   mk' = mk\<lparr>md_log := md_log mk @ concat (map (period_write cfg by_start) ps)\<rparr>"
proof (induction ps arbitrary: mk)
  case (Cons p ps)
  from Cons.prems(2) obtain c1 where "sync_period api cfg by_start p mk = (Inr (), c1)"
      "sync_periods api cfg by_start ps c1 = (Inr u, mk')"
    by (auto simp: mbind_ok)
  with sync_period_ok [OF Cons.prems(1)] Cons.IH [OF Cons.prems(1)] show ?case by force
qed simp

text \<open>What the two lists of the API say to a request with a given token, after given requests.\<close>

definition keys_read :: "mk_api \<Rightarrow> date_parser \<Rightarrow> mk_config \<Rightarrow> mk_request list \<Rightarrow> string option \<Rightarrow> string list res" where
  "keys_read api parse cfg sent b =
     rbind (api sent b (Fetch (vitals_path cfg))) (\<lambda>data. rbind (list_of data) (vitals_keys parse cfg))"

definition starts_read :: "mk_api \<Rightarrow> date_parser \<Rightarrow> mk_config \<Rightarrow> mk_request list \<Rightarrow> string option \<Rightarrow> (json \<times> json) list res" where
  "starts_read api parse cfg sent b =
     rbind (api sent b (Fetch (treatments_path cfg))) (\<lambda>data. rbind (list_of data) (\<lambda>ts.
       rbind (own_treatments cfg ts) (rmap (start_entry parse))))"

lemma sync_readings_ok:
  assumes "\<not> mc_dry_run cfg" "sync_readings api parse cfg rs ws mk = (Inr rbs, mk')"
  obtains keys where "keys_read api parse cfg (md_log mk) (md_bearer mk) = Inr keys"
    "mk' = mk\<lparr>md_log := md_log mk @ Fetch (vitals_path cfg) # map (\<lambda>r. PostVital (vital_of cfg ws r)) (new_readings keys rs)\<rparr>"
  using assms
  by (auto simp: sync_readings_def existing_vitals_keys_def mbind_ok get_list_ok keys_read_def dest!: post_readings_ok)

lemma sync_dose_ok:
  assumes "\<not> mc_dry_run cfg" "sync_dose api parse cfg ps mk = (Inr u, mk')"
  obtains by_start where "starts_read api parse cfg (md_log mk) (md_bearer mk) = Inr by_start"
    "mk' = mk\<lparr>md_log := md_log mk @ Fetch (treatments_path cfg) # concat (map (period_write cfg by_start) ps)\<rparr>"
proof -
  from assms obtain by_start where *: "starts_read api parse cfg (md_log mk) (md_bearer mk) = Inr by_start"
      "sync_periods api cfg by_start ps (mk\<lparr>md_log := md_log mk @ [Fetch (treatments_path cfg)]\<rparr>) = (Inr u, mk')"
    by (auto simp: sync_dose_def existing_treatments_def starts_read_def mbind_ok get_list_ok)
  show thesis
    by (rule that [OF *(1)]) (use sync_periods_ok [OF assms(1) *(2)] in simp)
qed

lemma dedup_keys:
  "distinct (map (\<lambda>r. naive_key (rd_date r)) (dedup seen rs))"
  "(\<lambda>r. naive_key (rd_date r)) ` set (dedup seen rs) = (\<lambda>r. naive_key (rd_date r)) ` set rs - set seen"
  by (induction rs arbitrary: seen) (auto simp: image_iff)

lemma ingest_main_ok:
  assumes "\<not> mc_dry_run cfg" "ingest_main env cfg mk = (Inr rbs, mk')"
  obtains rs doses ws m1 m2 where
    "sheet_readings env cfg = Inr rs" "sheet_doses env cfg = Inr doses"
    "fetch_weights (ie_parse env) (ie_http env) (mc_weight_url cfg) = Inr ws"
    "login (ie_api env) cfg mk = (Inr (), m1)" "sync_readings (ie_api env) (ie_parse env) cfg rs ws m1 = (Inr rbs, m2)"
    "sync_dose (ie_api env) (ie_parse env) cfg (derive_dose_periods doses) m2 = (Inr (), mk')"
  using assms by (auto simp: ingest_main_def mbind_ok)

text \<open>
  Property C18. Every request of a live run that ended normally: the login, the list of the vitals, one
  POST for each reading of the sheets whose key the list does not have, the list of the treatments, and
  for each dose period a POST where no row of the treatment starts on its date, a PUT where its row
  has another end or status, and nothing otherwise. No two of the readings have the same key.
\<close>

theorem live_run_requests:
  assumes "\<not> mc_dry_run cfg" "ingest_main env cfg mk = (Inr rbs, mk')"
  shows "\<exists>rs doses ws b keys sent by_start.
     sheet_readings env cfg = Inr rs \<and> sheet_doses env cfg = Inr doses
     \<and> fetch_weights (ie_parse env) (ie_http env) (mc_weight_url cfg) = Inr ws
     \<and> keys_read (ie_api env) (ie_parse env) cfg (md_log mk @ [Login (mc_user cfg) (mc_pass cfg)]) b = Inr keys
     \<and> sent = md_log mk @ Login (mc_user cfg) (mc_pass cfg)
          # Fetch (vitals_path cfg) # map (\<lambda>r. PostVital (vital_of cfg ws r)) (new_readings keys rs)
     \<and> distinct (map (\<lambda>r. naive_key (rd_date r)) (new_readings keys rs))
     \<and> starts_read (ie_api env) (ie_parse env) cfg sent b = Inr by_start
     \<and> md_log mk' = sent @ Fetch (treatments_path cfg)
          # concat (map (period_write cfg by_start) (derive_dose_periods doses))"
proof -
  obtain rs doses ws m1 m2 where main:
      "sheet_readings env cfg = Inr rs" "sheet_doses env cfg = Inr doses"
      "fetch_weights (ie_parse env) (ie_http env) (mc_weight_url cfg) = Inr ws"
      "login (ie_api env) cfg mk = (Inr (), m1)" "sync_readings (ie_api env) (ie_parse env) cfg rs ws m1 = (Inr rbs, m2)"
      "sync_dose (ie_api env) (ie_parse env) cfg (derive_dose_periods doses) m2 = (Inr (), mk')"
    using ingest_main_ok [OF assms] .
  have distinct: "distinct (map (\<lambda>r. naive_key (rd_date r)) (new_readings keys rs))" for keys
    using main(1) dedup_keys(1) by (auto simp: sheet_readings_def rbind_Inr_iff new_readings_def intro: distinct_map_filter)
  obtain keys where keys: "keys_read (ie_api env) (ie_parse env) cfg (md_log m1) (md_bearer m1) = Inr keys"
      "m2 = m1\<lparr>md_log := md_log m1 @ Fetch (vitals_path cfg) # map (\<lambda>r. PostVital (vital_of cfg ws r)) (new_readings keys rs)\<rparr>"
    using sync_readings_ok [OF assms(1) main(5)] .
  obtain by_start where starts: "starts_read (ie_api env) (ie_parse env) cfg (md_log m2) (md_bearer m2) = Inr by_start"
      "mk' = m2\<lparr>md_log := md_log m2 @ Fetch (treatments_path cfg) # concat (map (period_write cfg by_start) (derive_dose_periods doses))\<rparr>"
    using sync_dose_ok [OF assms(1) main(6)] .
  show ?thesis
    by (rule exI [of _ rs], rule exI [of _ doses], rule exI [of _ ws], rule exI [of _ "md_bearer m1"], rule exI [of _ keys],
        rule exI [of _ "md_log m2"], rule exI [of _ by_start])
      (use main(1-3) login_ok [OF main(4)] distinct keys starts in simp)
qed

text \<open>
  Unless \<open>DRY_RUN\<close> is set to \<open>false\<close>, in whatever case, a run sends no request to the
  API: not even the login.
\<close>

theorem dry_run_is_default:
  assumes "lower (env_or vars ''DRY_RUN'' ''true'') \<noteq> ''false''"
  shows "md_log (snd (ingest env vars mk)) = md_log mk"
proof -
  have dry: "mc_dry_run cfg" if "from_env vars = Inr cfg" for cfg
    using that assms by (auto simp: from_env_def rbind_Inr_iff)
  have period: "sync_period api cfg [] p mk = (Inr (), mk)" if "mc_dry_run cfg" for api cfg p mk
    using that by (simp add: sync_period_def Let_def)
  have periods: "sync_periods api cfg [] ps mk = (Inr (), mk)" if "mc_dry_run cfg" for api cfg ps mk
    by (induction ps) (simp_all add: period [OF that] mbind_def)
  have "snd (ingest_main env cfg mk) = mk" if "mc_dry_run cfg" for cfg
    using that by (simp add: ingest_main_def mbind_def sync_readings_def sync_dose_def periods split: sum.splits)
  with dry show ?thesis
    by (cases "from_env vars") (auto simp: ingest_def mbind_def)
qed

section \<open>A second run\<close>

text \<open>
  What the importer relies on for its idempotence, about the readings of the sheets: the list of the
  vitals can be read, its keys are those after the requests sent so far, a key that is listed stays
  listed, and a reading whose POST was answered is listed from then on.
\<close>

definition remembers :: "ingest_env \<Rightarrow> mk_config \<Rightarrow> reading list \<Rightarrow> (mk_request list \<Rightarrow> string list) \<Rightarrow> bool" where
  "remembers env cfg rs keys \<longleftrightarrow>
     (\<forall>sent b. keys_read (ie_api env) (ie_parse env) cfg sent b = Inr (keys sent))
     \<and> (\<forall>sent q. set (keys sent) \<subseteq> set (keys (sent @ [q])))
     \<and> (\<forall>sent b ws r j. r \<in> set rs \<longrightarrow> ie_api env sent b (PostVital (vital_of cfg ws r)) = Inr j \<longrightarrow>
          naive_key (rd_date r) \<in> set (keys (sent @ [PostVital (vital_of cfg ws r)])))"

lemma remembered: "remembers env cfg rs keys \<Longrightarrow> set (keys sent) \<subseteq> set (keys (sent @ later))"
proof (induction later rule: rev_induct)
  case (snoc q later)
  then show ?case unfolding remembers_def by (metis append_assoc subset_trans)
qed simp

lemma post_readings_remembered:
  assumes "remembers env cfg rs keys" "set new \<subseteq> set rs"
    "post_readings (ie_api env) (map (vital_of cfg ws) new) mk = (Inr rbs, mk')" "r \<in> set new"
  shows "naive_key (rd_date r) \<in> set (keys (md_log mk'))"
  using assms(2-4)
proof (induction new arbitrary: mk rbs)
  case (Cons x new)
  let ?c = "mk\<lparr>md_log := md_log mk @ [PostVital (vital_of cfg ws x)]\<rparr>"
  from Cons.prems(2) obtain j rbs' where post: "ie_api env (md_log mk) (md_bearer mk) (PostVital (vital_of cfg ws x)) = Inr j"
      "post_readings (ie_api env) (map (vital_of cfg ws) new) ?c = (Inr rbs', mk')"
    by (auto simp: mbind_ok send_ok)
  show ?case
  proof (cases "r = x")
    case True
    have "naive_key (rd_date x) \<in> set (keys (md_log ?c))"
      using assms(1) post(1) Cons.prems(1) unfolding remembers_def by (metis list.set_intros(1) medikeep.select_convs(2)
        medikeep.surjective medikeep.update_convs(2) subsetD)
    moreover have "md_log mk' = md_log ?c @ map PostVital (map (vital_of cfg ws) new)"
      using post_readings_ok [OF post(2)] by simp
    ultimately show ?thesis using remembered [OF assms(1)] True by (metis subsetD)
  next
    case False
    with Cons.prems Cons.IH [OF _ post(2)] show ?thesis by auto
  qed
qed simp

lemma no_vital: "PostVital v \<notin> set (period_write cfg by_start p)"
  by (auto simp: period_write_def Let_def split: option.splits json.splits)

text \<open>
  Property C19. With an API that remembers, a live run after a live run that ended normally posts no
  reading, whatever else it does: the readings of the sheets are imported once.
\<close>

theorem second_run_posts_no_reading:
  assumes "\<not> mc_dry_run cfg" "sheet_readings env cfg = Inr rs" "remembers env cfg rs keys"
    "ingest_main env cfg mk = (Inr rbs1, mk1)" "ingest_main env cfg mk1 = (Inr rbs2, mk2)"
  shows "\<exists>new. md_log mk2 = md_log mk1 @ new \<and> (\<forall>v. PostVital v \<notin> set new)"
proof -
  have all: "\<forall>r\<in>set rs. naive_key (rd_date r) \<in> set (keys (md_log mk1))"
  proof -
    obtain rs' doses ws m1 m2 where main: "sheet_readings env cfg = Inr rs'"
        "sync_readings (ie_api env) (ie_parse env) cfg rs' ws m1 = (Inr rbs1, m2)"
        "sync_dose (ie_api env) (ie_parse env) cfg (derive_dose_periods doses) m2 = (Inr (), mk1)"
      using ingest_main_ok [OF assms(1,4)] .
    have rs: "rs' = rs" using main(1) assms(2) by simp
    let ?c = "m1\<lparr>md_log := md_log m1 @ [Fetch (vitals_path cfg)]\<rparr>" and ?old = "keys (md_log m1)"
    have "keys_read (ie_api env) (ie_parse env) cfg (md_log m1) (md_bearer m1) = Inr ?old"
      using assms(3) by (auto simp: remembers_def)
    then have post: "post_readings (ie_api env) (map (vital_of cfg ws) (new_readings ?old rs)) ?c = (Inr rbs1, m2)"
      using main(2) assms(1)
      by (auto simp: rs sync_readings_def existing_vitals_keys_def mbind_ok get_list_ok keys_read_def)
    have "naive_key (rd_date r) \<in> set (keys (md_log m2))" if r: "r \<in> set rs" for r
    proof (cases "naive_key (rd_date r) \<in> set ?old")
      case True
      with remembered [OF assms(3)] post_readings_ok [OF post] show ?thesis by (auto simp: append_assoc)
    next
      case False
      with r have "r \<in> set (new_readings ?old rs)" by (simp add: new_readings_def)
      from post_readings_remembered [OF assms(3) _ post this] show ?thesis by (auto simp: new_readings_def)
    qed
    moreover obtain later where "md_log mk1 = md_log m2 @ later" 
      by (rule sync_dose_ok [OF assms(1) main(3)]) auto
    ultimately show ?thesis using remembered [OF assms(3)] by (metis subsetD)
  qed
  obtain rs' doses ws m1 m2 where main: "sheet_readings env cfg = Inr rs'"
      "login (ie_api env) cfg mk1 = (Inr (), m1)" "sync_readings (ie_api env) (ie_parse env) cfg rs' ws m1 = (Inr rbs2, m2)"
      "sync_dose (ie_api env) (ie_parse env) cfg (derive_dose_periods doses) m2 = (Inr (), mk2)"
    using ingest_main_ok [OF assms(1,5)] .
  have rs: "rs' = rs" using main(1) assms(2) by simp
  obtain ks where ks: "keys_read (ie_api env) (ie_parse env) cfg (md_log m1) (md_bearer m1) = Inr ks"
      "m2 = m1\<lparr>md_log := md_log m1 @ Fetch (vitals_path cfg) # map (\<lambda>r. PostVital (vital_of cfg ws r)) (new_readings ks rs)\<rparr>"
    using sync_readings_ok [OF assms(1) main(3) [unfolded rs]] .
  have "ks = keys (md_log m1)" using ks(1) assms(3) by (auto simp: remembers_def)
  then have "set (keys (md_log mk1)) \<subseteq> set ks"
    using remembered [OF assms(3)] login_ok [OF main(2)] by metis
  with all have "new_readings ks rs = []" by (auto simp: new_readings_def filter_empty_conv)
  moreover obtain by_start where "md_log mk2 = md_log m2 @ Fetch (treatments_path cfg)
      # concat (map (period_write cfg by_start) (derive_dose_periods doses))"
    by (rule sync_dose_ok [OF assms(1) main(4)]) auto
  ultimately show ?thesis
    using ks(2) login_ok [OF main(2)] no_vital by auto
qed

section \<open>An example\<close>

definition demo_time :: datetime where
  "demo_time = \<lparr>dt_date = (2025, 5, 2), dt_time = (7, 30, 0, 0), dt_tz = []\<rparr>"

definition demo_rows :: "mk_request list \<Rightarrow> json list" where
  "demo_rows sent = concat (map (\<lambda>q. case q of
       PostVital v \<Rightarrow> [JObj [(''import_source'', JStr (vt_source v)), (''recorded_date'', JStr (vt_date v))]]
     | _ \<Rightarrow> []) sent)"

definition demo_api :: mk_api where
  "demo_api sent b q =
     (case q of
        Login _ _ \<Rightarrow> Inr (JObj [(''access_token'', JStr ''token'')])
      | Fetch path \<Rightarrow> Inr (JList (if path = ''/api/v1/vitals/?patient_id=1'' then demo_rows sent else []))
      | PostVital v \<Rightarrow> Inr (JObj [(''systolic_bp'', JInt 120), (''diastolic_bp'', JInt 80)])
      | _ \<Rightarrow> Inr (JObj []))"

definition demo_env :: ingest_env where
  "demo_env = \<lparr>ie_parse = (\<lambda>_ _ _. Inr demo_time),
     ie_open = (\<lambda>_ k. Inr [(''2025 '', Inr (if k = ''r'' then [[''Date''], [''5/2'', ''120'', ''80'', ''60.5'', ''at clinic'']] else [[''5/2/2025'', ''0.5'']]))]),
     ie_http = (\<lambda>_. Inr (JList [])), ie_api = demo_api\<rparr>"

definition demo_vars :: "string \<Rightarrow> string option" where
  "demo_vars = map_of [(''GOOGLE_SA_KEY'', ''{}''), (''MEDIKEEP_URL'', ''http://m/''), (''MEDIKEEP_USER'', ''u''), (''MEDIKEEP_PASS'', ''p''),
     (''READINGS_SHEET_ID'', ''r''), (''DOSE_SHEET_ID'', ''d''), (''TREATMENT_NAME'', ''t''), (''DEVICE_DEFAULT'', ''cuff ''), (''DRY_RUN'', ''no'')]"

definition demo_keys_of :: "mk_request list \<Rightarrow> string list" where
  "demo_keys_of sent = concat (map (\<lambda>q. case q of
       PostVital v \<Rightarrow> if vt_source v = ''sheet-import'' \<and> vt_date v \<noteq> [] then [naive_key demo_time] else []
     | _ \<Rightarrow> []) sent)"

definition demo_cfg :: mk_config where
  "demo_cfg = \<lparr>mc_sa_key = JObj [], mc_url = ''http://m'', mc_user = ''u'', mc_pass = ''p'', mc_readings_id = ''r'',
     mc_dose_id = ''d'', mc_treatment_name = ''t'', mc_treatment_type = [], mc_vitals_source = ''sheet-import'',
     mc_dose_source = ''sheet-import'', mc_patient = 1, mc_weight_url = [], mc_device = ''cuff'', mc_dry_run = False\<rparr>"

definition demo_reading :: reading where
  "demo_reading = \<lparr>rd_date = demo_time, rd_systolic = Some 120, rd_diastolic = Some 80, rd_rate = Some 60, rd_notes = ''at clinic''\<rparr>"

definition no_session :: medikeep where
  "no_session = \<lparr>md_bearer = None, md_log = []\<rparr>"

lemma demo_vars_cfg: "from_env (demo_vars(''DRY_RUN'' \<mapsto> ''False'')) = Inr demo_cfg"
  by code_simp

lemma demo_sheet: "sheet_readings demo_env demo_cfg = Inr [demo_reading]"
  by code_simp

lemma demo_doses: "sheet_doses demo_env demo_cfg = Inr [((2025, 5, 2), 100)]"
  by code_simp

lemma demo_clinic: "is_clinic demo_reading"
  by code_simp

lemma demo_weights: "fetch_weights p h (mc_weight_url demo_cfg) = Inr []"
  by (simp add: demo_cfg_def fetch_weights_def)

lemma int_str_one: "int_str 1 = ''1''"
  by code_simp

lemma demo_cfg_simps: "\<not> mc_dry_run demo_cfg" "mc_vitals_source demo_cfg = ''sheet-import''" "mc_patient demo_cfg = 1"
    "vitals_path demo_cfg = ''/api/v1/vitals/?patient_id=1''" "treatments_path demo_cfg = ''/api/v1/treatments/?patient_id=1''"
    "ie_api demo_env = demo_api" "ie_parse demo_env = (\<lambda>_ _ _. Inr demo_time)"
    "login demo_api demo_cfg mk = (Inr (), \<lparr>md_bearer = Some ''token'', md_log = md_log mk @ [Login ''u'' ''p'']\<rparr>)"
  by (simp_all add: demo_cfg_def vitals_path_def treatments_path_def demo_env_def login_def mbind_def send_def demo_api_def
      value_at_def set_bearer_def int_str_one)

lemma datetime_iso_nonempty: "datetime_iso t \<noteq> []"
  by (simp add: datetime_iso_def split: prod.split)

lemma demo_keys: "vitals_keys (\<lambda>_ _ _. Inr demo_time) demo_cfg (demo_rows sent) = Inr (demo_keys_of sent)"
proof (induction sent)
  case (Cons q sent)
  then show ?case
    by (cases q)
      (auto simp: vitals_keys_def demo_rows_def demo_keys_of_def vital_key_def field_def get_or_def parse_text_def
         demo_cfg_simps rbind_Inr_iff List.map_filter_def)
qed (simp add: vitals_keys_def demo_rows_def demo_keys_of_def List.map_filter_def)

lemma demo_remembers: "remembers demo_env demo_cfg rs demo_keys_of" if "set rs \<subseteq> {demo_reading}"
proof -
  have "naive_key (rd_date r) \<in> set (demo_keys_of (sent @ [PostVital (vital_of demo_cfg ws r)]))" if "r = demo_reading" for r sent ws
    using that by (simp add: demo_keys_of_def vital_of_def demo_cfg_simps datetime_iso_nonempty demo_reading_def)
  moreover have "keys_read demo_api (\<lambda>_ _ _. Inr demo_time) demo_cfg sent b = Inr (demo_keys_of sent)" for sent b
    by (simp add: keys_read_def demo_cfg_simps demo_api_def list_of_def demo_keys)
  ultimately show ?thesis
    using that by (auto simp: remembers_def demo_cfg_simps) (auto simp: demo_keys_of_def)
qed

lemma demo_period: "derive_dose_periods [((2025, 5, 2), 100)] = [open_period (2025, 5, 2) 100]"
  by code_simp

lemma demo_read_back: "read_back_of (vital_of demo_cfg [] demo_reading) (JObj [(''systolic_bp'', JInt 120), (''diastolic_bp'', JInt 80)])
    = Inr \<lparr>rb_vitals = False, rb_weight = True, rb_device = True\<rparr>"
  using demo_clinic
  by (simp add: read_back_of_def vital_of_def weight_as_of_def weight_agrees_def get_def) (simp add: demo_reading_def)

lemma demo_dose: "fst (sync_dose demo_api (\<lambda>_ _ _. Inr demo_time) demo_cfg [open_period (2025, 5, 2) 100] mk) = Inr ()"
  by (simp add: sync_dose_def existing_treatments_def get_list_def mbind_def send_def demo_api_def list_of_def own_treatments_def
      demo_cfg_simps List.map_filter_def sync_period_def Let_def)

lemma demo_readings:
  "sync_readings demo_api (\<lambda>_ _ _. Inr demo_time) demo_cfg [demo_reading] [] mk =
     (Inr (if naive_key demo_time \<in> set (demo_keys_of (md_log mk)) then [] else [\<lparr>rb_vitals = False, rb_weight = True, rb_device = True\<rparr>]),
      mk\<lparr>md_log := md_log mk @ Fetch (vitals_path demo_cfg)
         # (if naive_key demo_time \<in> set (demo_keys_of (md_log mk)) then [] else [PostVital (vital_of demo_cfg [] demo_reading)])\<rparr>)"
proof -
  have [simp]: "rd_date demo_reading = demo_time" by (simp add: demo_reading_def)
  show ?thesis
    by (simp add: sync_readings_def existing_vitals_keys_def get_list_def mbind_def send_def list_of_def demo_keys demo_cfg_simps
        new_readings_def demo_read_back demo_api_def)
qed

lemma demo_run: "\<exists>rbs mk'. ingest_main demo_env demo_cfg mk = (Inr rbs, mk')"
proof -
  let ?m1 = "\<lparr>md_bearer = Some ''token'', md_log = md_log mk @ [Login ''u'' ''p'']\<rparr>"
  obtain rbs c1 where rs: "sync_readings demo_api (\<lambda>_ _ _. Inr demo_time) demo_cfg [demo_reading] [] ?m1 = (Inr rbs, c1)"
    by (simp add: demo_readings)
  obtain c2 where "sync_dose demo_api (\<lambda>_ _ _. Inr demo_time) demo_cfg [open_period (2025, 5, 2) 100] c1 = (Inr (), c2)"
    by (metis demo_dose prod.collapse)
  with rs show ?thesis
    by (simp add: ingest_main_def mbind_def demo_sheet demo_doses demo_weights demo_cfg_simps demo_period)
qed

lemma second_run_posts_no_reading_witness:
  "\<exists>rbs1 mk1 rbs2 mk2 new. ingest_main demo_env demo_cfg no_session = (Inr rbs1, mk1)
     \<and> ingest_main demo_env demo_cfg mk1 = (Inr rbs2, mk2) \<and> md_log mk2 = md_log mk1 @ new \<and> (\<forall>v. PostVital v \<notin> set new)"
proof -
  obtain rbs1 mk1 where first: "ingest_main demo_env demo_cfg no_session = (Inr rbs1, mk1)" using demo_run by blast
  obtain rbs2 mk2 where again: "ingest_main demo_env demo_cfg mk1 = (Inr rbs2, mk2)" using demo_run by blast
  from second_run_posts_no_reading [OF demo_cfg_simps(1) demo_sheet demo_remembers first again] first again
  show ?thesis by auto
qed

lemma live_run_requests_witness:
  "\<exists>rbs mk' b keys sent by_start. ingest_main demo_env demo_cfg no_session = (Inr rbs, mk')
     \<and> keys_read demo_api (ie_parse demo_env) demo_cfg [Login ''u'' ''p''] b = Inr keys
     \<and> starts_read demo_api (ie_parse demo_env) demo_cfg sent b = Inr by_start
     \<and> md_log mk' = sent @ Fetch (treatments_path demo_cfg) # period_write demo_cfg by_start (open_period (2025, 5, 2) 100)"
proof -
  obtain rbs mk' where run: "ingest_main demo_env demo_cfg no_session = (Inr rbs, mk')" using demo_run by blast
  have start: "md_log no_session = []" "Login (mc_user demo_cfg) (mc_pass demo_cfg) = Login ''u'' ''p''"
    by (simp_all add: no_session_def demo_cfg_def)
  obtain rs doses ws b keys sent by_start where plan: "sheet_doses demo_env demo_cfg = Inr doses"
      "keys_read demo_api (ie_parse demo_env) demo_cfg [Login ''u'' ''p''] b = Inr keys"
      "starts_read demo_api (ie_parse demo_env) demo_cfg sent b = Inr by_start"
      "md_log mk' = sent @ Fetch (treatments_path demo_cfg) # concat (map (period_write demo_cfg by_start) (derive_dose_periods doses))"
    using live_run_requests [OF demo_cfg_simps(1) run] unfolding demo_cfg_simps(6) start append_Nil by blast
  have "concat (map (period_write demo_cfg by_start) (derive_dose_periods doses)) = period_write demo_cfg by_start (open_period (2025, 5, 2) 100)"
    using plan(1) by (auto simp: demo_doses demo_period)
  with run plan show ?thesis by metis
qed

lemma dry_run_is_default_witness: "md_log (snd (ingest demo_env demo_vars no_session)) = []"
proof -
  have "lower (env_or demo_vars ''DRY_RUN'' ''true'') \<noteq> ''false''" by code_simp
  from dry_run_is_default [OF this, of demo_env no_session] show ?thesis by (simp add: no_session_def)
qed

end
