(* ===== verification/LidarrScan.thy ===== *)
theory LidarrScan
  imports PyFloat PyCodec PyJson
begin

text \<open>
  The queue sweeper \<open>lidarr-sab-autoimport/scan.py\<close>: the API call with its retries, the statistics of
  an album with their cache, the loop over the stuck rows, the deletions and the outcome of a run.
  The server is a parameter, which may answer a request by everything that happened before it; the
  state is the log of the requests and of the naps between them. Album ids are compared as JSON terms: that
  Python takes \<open>1\<close>, \<open>1.0\<close> and \<open>True\<close> for one key is not modelled.
\<close>

section \<open>The API call\<close>

record lidarr_req =
  lq_verb :: string
  lq_path :: string
  lq_params :: "(string \<times> string) list"
  lq_body :: "json option"

datatype lidarr_event = Req lidarr_req | Nap nat

type_synonym lidarr = "lidarr_event list \<Rightarrow> lidarr_req \<Rightarrow> string res"

text \<open>
  The server gives the text of the body, \<open>HTTPError\<close> for a status that is no success, \<open>URLError\<close> when
  it is not reached, or another exception. The query of a URL is \<open>urlencode\<close> of the parameters.
\<close>

definition request_url :: "string \<Rightarrow> lidarr_req \<Rightarrow> string" where
  "request_url base q =
     base @ lq_path q @
     (if lq_params q = [] then []
      else ''?'' @ join ''&'' (map (\<lambda>(k, v). quote_plus k @ ''='' @ quote_plus v) (lq_params q)))"

definition max_attempts :: nat where
  "max_attempts = 4"

definition retry_backoff :: nat where
  "retry_backoff = 2"

definition answer_json :: "string \<Rightarrow> json res" where
  "answer_json raw = (if raw = [] then Inr (JObj []) else json_loads raw)"

definition again :: "nat \<Rightarrow> exn \<Rightarrow> bool" where
  \<comment> \<open>is there another attempt after this exception?\<close>
  "again a e =
     (case e of
        HTTPError c _ \<Rightarrow> \<not> (c < 500 \<or> a = max_attempts)
      | URLError _ \<Rightarrow> a \<noteq> max_attempts
      | _ \<Rightarrow> False)"

fun attempts :: "lidarr \<Rightarrow> lidarr_req \<Rightarrow> nat list \<Rightarrow> (json, lidarr_event list) stm" where
  \<comment> \<open>a loop that ends without a value returns \<open>None\<close>\<close>
  "attempts api q [] tr = (Inr JNull, tr)"
| "attempts api q (a # as) tr =
     (case rbind (api tr q) answer_json of
        Inr j \<Rightarrow> (Inr j, tr @ [Req q])
      | Inl e \<Rightarrow> if again a e then attempts api q as (tr @ [Req q, Nap (retry_backoff * a)]) else (Inl e, tr @ [Req q]))"

definition call_api :: "lidarr \<Rightarrow> lidarr_req \<Rightarrow> (json, lidarr_event list) stm" where
  "call_api api q = attempts api q [1..<max_attempts + 1]"

section \<open>Statistics of an album\<close>

definition queue_req :: lidarr_req where
  "queue_req = \<lparr>lq_verb = ''GET'', lq_path = ''/api/v1/queue'', lq_params = [(''pageSize'', ''100''), (''includeAlbum'', ''true'')], lq_body = None\<rparr>"

definition album_req :: "json \<Rightarrow> lidarr_req" where
  "album_req i = \<lparr>lq_verb = ''GET'', lq_path = ''/api/v1/album/'' @ py_str i, lq_params = [], lq_body = None\<rparr>"

definition scan_req :: "json \<Rightarrow> lidarr_req" where
  "scan_req path = \<lparr>lq_verb = ''POST'', lq_path = ''/api/v1/command'', lq_params = [],
     lq_body = Some (JObj [(''name'', JStr ''DownloadedAlbumsScan''), (''path'', path), (''importMode'', JStr ''auto'')])\<rparr>"

definition drop_req :: "json \<Rightarrow> lidarr_req" where
  "drop_req i = \<lparr>lq_verb = ''DELETE'', lq_path = ''/api/v1/queue/'' @ py_str i,
     lq_params = [(''removeFromClient'', ''false''), (''blocklist'', ''false'')], lq_body = None\<rparr>"

definition json_or :: "json \<Rightarrow> json \<Rightarrow> json" where
  \<comment> \<open>\<open>x or d\<close>\<close>
  "json_or x d = (if truthy x then x else d)"

definition statistics_of :: "json \<Rightarrow> json res" where
  "statistics_of album = rbind (field (json_or album (JObj [])) ''statistics'' JNull) (\<lambda>s. Inr (json_or s (JObj [])))"

text \<open>The loop keeps the log and the cache of the statistics.\<close>

record sweep_state =
  sw_log :: "lidarr_event list"
  sw_cache :: "(json \<times> json) list"
  sw_scans :: "json list"

definition on_log :: "('a, lidarr_event list) stm \<Rightarrow> ('a, sweep_state) stm" where
  "on_log m st = (case m (sw_log st) of (r, tr) \<Rightarrow> (r, st\<lparr>sw_log := tr\<rparr>))"

definition fetch_stats :: "lidarr \<Rightarrow> json \<Rightarrow> (json, lidarr_event list) stm" where
  \<comment> \<open>the \<open>try\<close> block; every exception of it leaves the empty statistics\<close>
  "fetch_stats api i tr =
     (if truthy i
      then (case mbind (call_api api (album_req i)) (\<lambda>album. mlift (statistics_of album)) tr of
          (Inr s, tr') \<Rightarrow> (Inr s, tr')
        | (Inl e, tr') \<Rightarrow> (Inr (JObj []), tr'))
      else (Inr (JObj []), tr))"

definition album_stats :: "lidarr \<Rightarrow> json \<Rightarrow> (json, sweep_state) stm" where
  "album_stats api i st =
     (if \<not> hashable i then (Inl (TypeError (''unhashable type: '' @ repr_str (type_name i))), st)
      else (case map_of (sw_cache st) i of
          Some s \<Rightarrow> (Inr s, st)
        | None \<Rightarrow> (case on_log (fetch_stats api i) st of
            (Inr s, st') \<Rightarrow> (Inr s, st'\<lparr>sw_cache := (i, s) # sw_cache st'\<rparr>)
          | (Inl e, st') \<Rightarrow> (Inl e, st'))))"

fun number_of :: "json \<Rightarrow> pyfloat option" where
  "number_of (JInt i) = Some (Fin (of_int i))"
| "number_of (JBool b) = Some (Fin (if b then 1 else 0))"
| "number_of (JFloat t) = parse_float t"
| "number_of _ = None"

definition compared :: "(pyfloat \<Rightarrow> bool) \<Rightarrow> json \<Rightarrow> bool res" where
  \<comment> \<open>a comparison with a number\<close>
  "compared P x =
     (case number_of x of
        Some f \<Rightarrow> Inr (P f)
      | None \<Rightarrow> Inl (TypeError (''comparison not supported between instances of '' @ repr_str (type_name x) @ '' and '' @ repr_str ''int'')))"

definition imported :: "json \<Rightarrow> bool res" where
  "imported stats =
     rbind (field stats ''percentOfTracks'' JNull) (\<lambda>p.
     rbind (compared (\<lambda>f. flt (Fin 100) f \<or> feq f (Fin 100)) (json_or p (JInt 0))) (\<lambda>full.
       if full
       then rbind (field stats ''trackFileCount'' JNull) (\<lambda>n. compared (flt (Fin 0)) (json_or n (JInt 0)))
       else Inr False))"

section \<open>The sweep\<close>

definition stuck_row :: "json \<Rightarrow> json option res" where
  "stuck_row r =
     rbind (field r ''status'' JNull) (\<lambda>s.
       if s \<noteq> JStr ''completed'' then Inr None
       else rbind (field r ''trackedDownloadState'' JNull) (\<lambda>t. Inr (if t = JStr ''importing'' then Some r else None)))"

definition stuck_rows :: "json \<Rightarrow> json list res" where
  "stuck_rows q =
     rbind (field q ''records'' (JList [])) (\<lambda>rs. rbind (iterate rs) (\<lambda>rows.
     rbind (rmap stuck_row rows) (\<lambda>found. Inr (List.map_filter id found))))"

definition scan_path :: "lidarr \<Rightarrow> json \<Rightarrow> (unit, sweep_state) stm" where
  "scan_path api path st =
     (if \<not> truthy path then (Inr (), st)
      else if \<not> hashable path then (Inl (TypeError (''unhashable type: '' @ repr_str (type_name path))), st)
      else if path \<in> set (sw_scans st) then (Inr (), st)
      else mbind (on_log (call_api api (scan_req path))) (\<lambda>cmd. mlift (rbind (as_dict cmd) (\<lambda>_. Inr ())))
             (st\<lparr>sw_scans := path # sw_scans st\<rparr>))"

definition sweep_row :: "lidarr \<Rightarrow> json \<Rightarrow> (bool, sweep_state) stm" where
  \<comment> \<open>is the row to be dropped?\<close>
  "sweep_row api r =
     mbind (mlift (field r ''albumId'' JNull)) (\<lambda>i.
     mbind (album_stats api i) (\<lambda>stats.
     mbind (mlift (imported stats)) (\<lambda>done_already.
       if done_already then mlift (Inr True)
       else mbind (mlift (field r ''outputPath'' JNull)) (\<lambda>path.
            mbind (scan_path api path) (\<lambda>_. mlift (Inr False))))))"

fun sweep_rows :: "lidarr \<Rightarrow> json list \<Rightarrow> (json list, sweep_state) stm" where
  "sweep_rows api [] = mlift (Inr [])"
| "sweep_rows api (r # rs) =
     mbind (sweep_row api r) (\<lambda>d. mbind (sweep_rows api rs) (\<lambda>drops. mlift (Inr (if d then r # drops else drops))))"

definition row_title :: "json \<Rightarrow> json res" where
  "row_title r = rbind (field r ''album'' JNull) (\<lambda>a. rbind (field (json_or a (JObj [])) ''title'' JNull) (\<lambda>t.
     if truthy t then Inr t else field r ''title'' (JStr ''?'')))"

fun drop_rows :: "lidarr \<Rightarrow> json list \<Rightarrow> (unit, lidarr_event list) stm" where
  "drop_rows api [] = mlift (Inr ())"
| "drop_rows api (r # rs) =
     mbind (mlift (value_at r ''id'')) (\<lambda>i. mbind (mlift (row_title r)) (\<lambda>_.
     mbind (call_api api (drop_req i)) (\<lambda>_. drop_rows api rs)))"

definition sweep :: "lidarr \<Rightarrow> json list \<Rightarrow> (json list, lidarr_event list) stm" where
  "sweep api rows tr =
     (case sweep_rows api rows \<lparr>sw_log = tr, sw_cache = [], sw_scans = []\<rparr> of (r, st) \<Rightarrow> (r, sw_log st))"

definition scan_main :: "lidarr \<Rightarrow> (unit, lidarr_event list) stm" where
  "scan_main api =
     mbind (call_api api queue_req) (\<lambda>q. mbind (mlift (stuck_rows q)) (\<lambda>stuck.
       if stuck = [] then mlift (Inr ())
       else mbind (sweep api stuck) (drop_rows api)))"

text \<open>The outcome of the process: an unreachable or unwell server is a soft exit.\<close>

definition soft_exit :: "exn \<Rightarrow> exn" where
  "soft_exit e =
     (case e of
        HTTPError c _ \<Rightarrow> if 500 \<le> c then SystemExit 0 else e
      | URLError _ \<Rightarrow> SystemExit 0
      | _ \<Rightarrow> e)"

definition run_scan :: "lidarr \<Rightarrow> (unit, lidarr_event list) stm" where
  "run_scan api tr =
     (case scan_main api tr of (Inl e, tr') \<Rightarrow> (Inl (soft_exit e), tr') | (Inr u, tr') \<Rightarrow> (Inr u, tr'))"

section \<open>Retries\<close>

definition tries :: "lidarr_req \<Rightarrow> nat \<Rightarrow> nat \<Rightarrow> lidarr_event list" where
  \<comment> \<open>the failed attempts from the \<open>a\<close>-th on, \<open>k\<close> of them\<close>
  "tries q a k = concat (map (\<lambda>i. [Req q, Nap (retry_backoff * i)]) [a..<a + k])"

lemma tries_0 [simp]: "tries q a 0 = []"
  by (simp add: tries_def)

lemma tries_Suc: "tries q a (Suc k) = Req q # Nap (retry_backoff * a) # tries q (Suc a) k"
  by (simp add: tries_def upt_conv_Cons)

lemma again_max: "again max_attempts e = False"
  by (cases e) (auto simp: again_def)

lemma attempts_spec:
  assumes "a \<le> max_attempts"
  shows "\<exists>k. a + k \<le> max_attempts
     \<and> attempts api q [a..<Suc max_attempts] tr = (rbind (api (tr @ tries q a k) q) answer_json, tr @ tries q a k @ [Req q])
     \<and> (\<forall>i<k. \<exists>e. rbind (api (tr @ tries q a i) q) answer_json = Inl e \<and> again (a + i) e)"
  using assms
proof (induction "max_attempts - a" arbitrary: a tr)
  case 0
  then have "a = max_attempts" by simp
  then show ?case
    by (intro exI [of _ 0]) (auto simp: again_max upt_conv_Cons split: sum.splits)
next
  case (Suc n)
  then have less: "a < max_attempts" by simp
  have list: "[a..<Suc max_attempts] = a # [Suc a..<Suc max_attempts]" using less by (simp add: upt_conv_Cons)
  show ?case
  proof (cases "rbind (api tr q) answer_json")
    case (Inr j)
    then show ?thesis using less unfolding list by (intro exI [of _ 0]) simp
  next
    case (Inl e)
    show ?thesis
    proof (cases "again a e")
      case False
      with Inl show ?thesis using less unfolding list by (intro exI [of _ 0]) simp
    next
      case True
      have "n = max_attempts - Suc a" "Suc a \<le> max_attempts" using Suc.hyps(2) less by simp_all
      from Suc.hyps(1) [OF this, of "tr @ [Req q, Nap (retry_backoff * a)]"]
      obtain k where k: "Suc a + k \<le> max_attempts"
          "attempts api q [Suc a..<Suc max_attempts] (tr @ [Req q, Nap (retry_backoff * a)])
             = (rbind (api ((tr @ [Req q, Nap (retry_backoff * a)]) @ tries q (Suc a) k) q) answer_json,
                (tr @ [Req q, Nap (retry_backoff * a)]) @ tries q (Suc a) k @ [Req q])"
          "\<forall>i<k. \<exists>e. rbind (api ((tr @ [Req q, Nap (retry_backoff * a)]) @ tries q (Suc a) i) q) answer_json = Inl e \<and> again (Suc a + i) e"
        by (elim exE conjE) assumption
      have "\<exists>e. rbind (api (tr @ tries q a i) q) answer_json = Inl e \<and> again (a + i) e" if "i < Suc k" for i
        using that Inl True k(3) by (cases i) (auto simp: tries_Suc)
      with k(1,2) Inl True show ?thesis
        unfolding list by (intro exI [of _ "Suc k"]) (simp add: tries_Suc)
    qed
  qed
qed

lemma call_api_result:
  "\<exists>k<4. call_api api q tr = (rbind (api (tr @ tries q 1 k) q) answer_json, tr @ tries q 1 k @ [Req q])
     \<and> (\<forall>i<k. \<exists>e. rbind (api (tr @ tries q 1 i) q) answer_json = Inl e \<and> again (1 + i) e)"
proof -
  have "(1::nat) \<le> max_attempts" by (simp add: max_attempts_def)
  from attempts_spec [OF this, of api q tr]
  obtain k where k: "1 + k \<le> max_attempts"
      "attempts api q [1..<Suc max_attempts] tr = (rbind (api (tr @ tries q 1 k) q) answer_json, tr @ tries q 1 k @ [Req q])"
      "\<forall>i<k. \<exists>e. rbind (api (tr @ tries q 1 i) q) answer_json = Inl e \<and> again (1 + i) e"
    by (elim exE conjE) assumption
  from k(1) have "k < 4" by (simp add: max_attempts_def)
  with k(2,3) show ?thesis unfolding call_api_def Suc_eq_plus1 by (intro exI [of _ k] conjI)
qed

text \<open>
  Property C22. A call of the API sends its request at most four times, naps two, four and six seconds
  between the attempts, tries again only after a server error or a failed connection, and its outcome
  is that of its last attempt.
\<close>

theorem call_api_spec:
  "\<exists>k<4. call_api api q tr = (rbind (api (tr @ tries q 1 k) q) answer_json, tr @ tries q 1 k @ [Req q])
     \<and> (\<forall>i<k. \<exists>e. rbind (api (tr @ tries q 1 i) q) answer_json = Inl e \<and> again (1 + i) e)"
  by (rule call_api_result)

lemma call_api_spec_witness:
  "\<exists>k<4. call_api (\<lambda>_ _. Inl (HTTPError 503 ''busy'')) queue_req []
     = (Inl (HTTPError 503 ''busy''), tries queue_req 1 k @ [Req queue_req])"
  using call_api_spec [of "\<lambda>_ _. Inl (HTTPError 503 ''busy'')" queue_req "[]"] by (auto simp: rbind_def)

section \<open>What is deleted\<close>

definition quiet :: "lidarr_event list \<Rightarrow> lidarr_event list \<Rightarrow> bool" where
  \<comment> \<open>from the first to the second log nothing was deleted\<close>
  "quiet tr tr' \<longleftrightarrow> (\<exists>new. tr' = tr @ new \<and> (\<forall>q. Req q \<in> set new \<longrightarrow> lq_verb q \<noteq> ''DELETE''))"

lemma quiet_refl [intro]: "quiet tr tr"
  by (auto simp: quiet_def)

lemma quiet_trans [trans]: "quiet a b \<Longrightarrow> quiet b c \<Longrightarrow> quiet a c"
  unfolding quiet_def by (metis Un_iff append_assoc set_append)

lemma tries_events: "x \<in> set (tries q a k) \<Longrightarrow> x = Req q \<or> (\<exists>n. x = Nap n)"
  by (auto simp: tries_def split: if_splits)

lemma call_api_log:
  assumes "call_api api q tr = (r, tr')"
  obtains new where "tr' = tr @ new" "\<And>q'. Req q' \<in> set new \<Longrightarrow> q' = q"
proof -
  obtain k where "call_api api q tr = (rbind (api (tr @ tries q 1 k) q) answer_json, tr @ tries q 1 k @ [Req q])"
    using call_api_result [of api q tr] by blast
  with assms that [of "tries q 1 k @ [Req q]"] show thesis by (auto dest: tries_events)
qed

lemma call_api_ok:
  assumes "call_api api q tr = (Inr j, tr')"
  obtains before where "tr' = before @ [Req q]" "rbind (api before q) answer_json = Inr j"
proof -
  obtain k where "call_api api q tr = (rbind (api (tr @ tries q 1 k) q) answer_json, tr @ tries q 1 k @ [Req q])"
    using call_api_result [of api q tr] by blast
  with assms that [of "tr @ tries q 1 k"] show thesis by simp
qed

lemma call_api_quiet: "call_api api q tr = (r, tr') \<Longrightarrow> lq_verb q \<noteq> ''DELETE'' \<Longrightarrow> quiet tr tr'"
  by (erule call_api_log) (auto simp: quiet_def)

text \<open>The log shows that the server gave these statistics of an album.\<close>

definition shown :: "lidarr \<Rightarrow> lidarr_event list \<Rightarrow> json \<Rightarrow> json \<Rightarrow> bool" where
  "shown api tr i stats \<longleftrightarrow>
     (\<exists>before after. tr = before @ Req (album_req i) # after
        \<and> rbind (rbind (api before (album_req i)) answer_json) statistics_of = Inr stats)"

lemma shown_quiet: "shown api tr i s \<Longrightarrow> quiet tr tr' \<Longrightarrow> shown api tr' i s"
  unfolding shown_def quiet_def by (metis append_Cons append_assoc)

definition cache_ok :: "lidarr \<Rightarrow> sweep_state \<Rightarrow> bool" where
  "cache_ok api st \<longleftrightarrow> (\<forall>(i, s)\<in>set (sw_cache st). s = JObj [] \<or> shown api (sw_log st) i s)"

lemma cache_ok_quiet:
  "cache_ok api st \<Longrightarrow> quiet (sw_log st) (sw_log st') \<Longrightarrow> sw_cache st' = sw_cache st \<Longrightarrow> cache_ok api st'"
  unfolding cache_ok_def by (auto intro: shown_quiet)

lemma fetch_stats_result:
  assumes "fetch_stats api i tr = (r, tr')"
  shows "quiet tr tr' \<and> (\<exists>s. r = Inr s \<and> (s = JObj [] \<or> shown api tr' i s))"
proof (cases "truthy i")
  case False
  with assms show ?thesis by (auto simp: fetch_stats_def)
next
  case True
  obtain a tr1 where call: "call_api api (album_req i) tr = (a, tr1)" by fastforce
  then have quiet: "quiet tr tr1" by (rule call_api_quiet) (simp add: album_req_def)
  show ?thesis
  proof (cases a)
    case (Inl e)
    with call assms True quiet show ?thesis by (auto simp: fetch_stats_def mbind_def)
  next
    case (Inr j)
    obtain before where before: "tr1 = before @ [Req (album_req i)]" "rbind (api before (album_req i)) answer_json = Inr j"
      using call_api_ok [OF call [unfolded Inr]] .
    show ?thesis
    proof (cases "statistics_of j")
      case (Inl e)
      with call Inr assms True quiet show ?thesis by (auto simp: fetch_stats_def mbind_def)
    next
      case (Inr s)
      have "shown api tr1 i s"
        unfolding shown_def before(1) by (rule exI [of _ before], rule exI [of _ "[]"]) (simp add: before(2) Inr)
      moreover have "r = Inr s" "tr' = tr1"
        using call \<open>a = Inr j\<close> Inr assms True by (auto simp: fetch_stats_def mbind_def)
      ultimately show ?thesis using quiet by blast
    qed
  qed
qed

lemma album_stats_result:
  assumes "cache_ok api st" "album_stats api i st = (r, st')"
  shows "quiet (sw_log st) (sw_log st') \<and> cache_ok api st' \<and> (\<forall>s. r = Inr s \<longrightarrow> s = JObj [] \<or> shown api (sw_log st') i s)"
proof (cases "hashable i \<and> map_of (sw_cache st) i = None")
  case False
  with assms show ?thesis
    by (auto simp: album_stats_def cache_ok_def dest: map_of_SomeD split: if_splits option.splits)
next
  case True
  obtain f tr' where f: "fetch_stats api i (sw_log st) = (f, tr')" by fastforce
  from fetch_stats_result [OF this] obtain s where s: "quiet (sw_log st) tr'" "f = Inr s" "s = JObj [] \<or> shown api tr' i s"
    by blast
  have st': "r = Inr s" "st' = st\<lparr>sw_log := tr', sw_cache := (i, s) # sw_cache st\<rparr>"
    using assms(2) True f s(2) by (auto simp: album_stats_def on_log_def)
  have "cache_ok api (st\<lparr>sw_log := tr'\<rparr>)" by (rule cache_ok_quiet [OF assms(1)]) (use s in auto)
  with st' s show ?thesis by (auto simp: cache_ok_def)
qed

lemma scan_path_result:
  assumes "scan_path api path st = (r, st')"
  shows "quiet (sw_log st) (sw_log st') \<and> sw_cache st' = sw_cache st"
proof (cases "truthy path \<and> hashable path \<and> path \<notin> set (sw_scans st)")
  case False
  with assms show ?thesis by (auto simp: scan_path_def split: if_splits)
next
  case True
  obtain a tr' where call: "call_api api (scan_req path) (sw_log st) = (a, tr')" by fastforce
  then have "quiet (sw_log st) tr'" by (rule call_api_quiet) (simp add: scan_req_def)
  with assms True call show ?thesis by (auto simp: scan_path_def mbind_def on_log_def split: sum.splits)
qed

definition confirmed :: "lidarr \<Rightarrow> lidarr_event list \<Rightarrow> json \<Rightarrow> bool" where
  "confirmed api tr r \<longleftrightarrow>
     (\<exists>i stats. field r ''albumId'' JNull = Inr i \<and> shown api tr i stats \<and> imported stats = Inr True)"

lemma confirmed_quiet: "confirmed api tr r \<Longrightarrow> quiet tr tr' \<Longrightarrow> confirmed api tr' r"
  unfolding confirmed_def by (blast intro: shown_quiet)

lemma imported_empty: "imported (JObj []) = Inr False"
  by (simp add: imported_def field_def get_or_def compared_def json_or_def)

lemma sweep_row_result:
  assumes "cache_ok api st" "sweep_row api row st = (r, st')"
  shows "quiet (sw_log st) (sw_log st') \<and> cache_ok api st' \<and> (r = Inr True \<longrightarrow> confirmed api (sw_log st') row)"
proof (cases "field row ''albumId'' JNull")
  case (Inl e)
  with assms show ?thesis by (auto simp: sweep_row_def mbind_def)
next
  case id: (Inr i)
  obtain a st1 where stats: "album_stats api i st = (a, st1)" by fastforce
  note st1 = album_stats_result [OF assms(1) stats]
  show ?thesis
  proof (cases "\<exists>s. a = Inr s \<and> imported s = Inr False")
    case False
    with assms(2) id stats st1 imported_empty show ?thesis
      by (auto simp: sweep_row_def mbind_def confirmed_def split: sum.splits if_splits)
  next
    case True
    then obtain s where s: "a = Inr s" "imported s = Inr False" by blast
    obtain p where p: "field row ''outputPath'' JNull = p" by blast
    show ?thesis
    proof (cases p)
      case (Inl e)
      with assms(2) id stats st1 s p show ?thesis by (auto simp: sweep_row_def mbind_def)
    next
      case (Inr path)
      obtain b st2 where scan: "scan_path api path st1 = (b, st2)" by fastforce
      from scan_path_result [OF this] have st2: "quiet (sw_log st1) (sw_log st2)" "sw_cache st2 = sw_cache st1" by auto
      have "st' = st2" "r \<noteq> Inr True"
        using assms(2) id stats s p Inr scan by (auto simp: sweep_row_def mbind_def split: sum.splits)
      with st1 st2 show ?thesis by (auto intro: quiet_trans cache_ok_quiet)
    qed
  qed
qed

lemma sweep_rows_result:
  assumes "cache_ok api st" "sweep_rows api rows st = (r, st')"
  shows "quiet (sw_log st) (sw_log st')
    \<and> (\<forall>drops. r = Inr drops \<longrightarrow> set drops \<subseteq> set rows \<and> (\<forall>row\<in>set drops. confirmed api (sw_log st') row))"
  using assms
proof (induction rows arbitrary: st r st')
  case (Cons row rows)
  obtain a st1 where row: "sweep_row api row st = (a, st1)" by fastforce
  note st1 = sweep_row_result [OF Cons.prems(1) row]
  obtain b st2 where rows: "sweep_rows api rows st1 = (b, st2)" by fastforce
  from Cons.IH [OF _ this] st1 have IH: "quiet (sw_log st1) (sw_log st2)"
      "\<And>drops. b = Inr drops \<Longrightarrow> set drops \<subseteq> set rows \<and> (\<forall>row\<in>set drops. confirmed api (sw_log st2) row)"
    by auto
  show ?case
  proof (cases a)
    case (Inl e)
    with Cons.prems(2) row st1 show ?thesis by (auto simp: mbind_def)
  next
    case (Inr d)
    with Cons.prems(2) row rows IH st1 show ?thesis
      by (auto simp: mbind_def intro: quiet_trans confirmed_quiet split: sum.splits if_splits)
  qed
qed auto

lemma sweep_result:
  assumes "sweep api rows tr = (r, tr')"
  shows "quiet tr tr' \<and> (\<forall>drops. r = Inr drops \<longrightarrow> set drops \<subseteq> set rows \<and> (\<forall>row\<in>set drops. confirmed api tr' row))"
proof -
  let ?st = "\<lparr>sw_log = tr, sw_cache = [], sw_scans = []\<rparr>"
  obtain st' where st': "sweep_rows api rows ?st = (r, st')" "tr' = sw_log st'"
    using assms by (auto simp: sweep_def split: prod.splits)
  have "cache_ok api ?st" by (simp add: cache_ok_def)
  from sweep_rows_result [OF this st'(1)] st'(2) show ?thesis by simp
qed

lemma drop_rows_result:
  assumes "drop_rows api rows tr = (r, tr')"
  shows "\<exists>new. tr' = tr @ new \<and> (\<forall>q. Req q \<in> set new \<longrightarrow> (\<exists>row\<in>set rows. \<exists>i. value_at row ''id'' = Inr i \<and> q = drop_req i))"
  using assms
proof (induction rows arbitrary: tr)
  case (Cons row rows)
  show ?case
  proof (cases "\<exists>i t. value_at row ''id'' = Inr i \<and> row_title row = Inr t")
    case False
    with Cons.prems show ?thesis by (auto simp: mbind_def split: sum.splits)
  next
    case True
    then obtain i t where i: "value_at row ''id'' = Inr i" "row_title row = Inr t" by blast
    obtain a tr1 where call: "call_api api (drop_req i) tr = (a, tr1)" by fastforce
    then obtain new where new: "tr1 = tr @ new" "\<And>q'. Req q' \<in> set new \<Longrightarrow> q' = drop_req i"
      using call_api_log by metis
    show ?thesis
    proof (cases a)
      case (Inl e)
      with Cons.prems i call have "tr' = tr1" by (simp add: mbind_def)
      with new i(1) show ?thesis by auto
    next
      case (Inr j)
      with Cons.prems i call have "drop_rows api rows tr1 = (r, tr')" by (simp add: mbind_def)
      from Cons.IH [OF this] obtain new' where "tr' = tr1 @ new'"
          "\<forall>q. Req q \<in> set new' \<longrightarrow> (\<exists>row\<in>set rows. \<exists>i. value_at row ''id'' = Inr i \<and> q = drop_req i)"
        by blast
      with new i(1) show ?thesis by (intro exI [of _ "new @ new'"]) auto
    qed
  qed
qed simp

text \<open>
  Property C20. Whatever the server answers, a row is only deleted from the queue if the queue listed it
  in this run as completed and importing, and the statistics that the server gave of its album in this
  run, before the deletion, show all tracks and at least one file.
\<close>

theorem deletions_are_confirmed:
  assumes "Req q \<in> set (snd (scan_main api []))" "lq_verb q = ''DELETE''"
  shows "\<exists>before later listed rows row i. snd (scan_main api []) = before @ later \<and> Req q \<notin> set before
     \<and> q = drop_req i \<and> value_at row ''id'' = Inr i \<and> row \<in> set rows
     \<and> (\<exists>pre. rbind (api pre queue_req) answer_json = Inr listed) \<and> stuck_rows listed = Inr rows
     \<and> confirmed api before row"
proof -
  obtain a tr1 where call: "call_api api queue_req [] = (a, tr1)" by fastforce
  then have tr1: "quiet [] tr1" by (rule call_api_quiet) (simp add: queue_req_def)
  show ?thesis
  proof (cases "\<exists>j rows. a = Inr j \<and> stuck_rows j = Inr rows \<and> rows \<noteq> []")
    case False
    then have "snd (scan_main api []) = tr1"
      using call by (auto simp: scan_main_def mbind_def split: sum.splits)
    with assms tr1 show ?thesis by (auto simp: quiet_def)
  next
    case True
    then obtain j rows where j: "a = Inr j" "stuck_rows j = Inr rows" "rows \<noteq> []" by blast
    obtain pre where pre: "rbind (api pre queue_req) answer_json = Inr j"
      using call_api_ok [OF call [unfolded j(1)]] by blast
    obtain b tr2 where sweep: "sweep api rows tr1 = (b, tr2)" by fastforce
    note tr2 = sweep_result [OF sweep]
    have none: "Req q \<notin> set tr2"
      using quiet_trans [OF tr1 conjunct1 [OF tr2]] assms(2) by (auto simp: quiet_def)
    show ?thesis
    proof (cases b)
      case (Inl e)
      with call j sweep have "snd (scan_main api []) = tr2" by (simp add: scan_main_def mbind_def)
      with assms(1) none show ?thesis by simp
    next
      case (Inr drops)
      obtain r tr3 where drop: "drop_rows api drops tr2 = (r, tr3)" by fastforce
      with call j sweep Inr have log3: "snd (scan_main api []) = tr3" by (simp add: scan_main_def mbind_def)
      from drop_rows_result [OF drop] obtain new where new: "tr3 = tr2 @ new"
          "\<forall>q. Req q \<in> set new \<longrightarrow> (\<exists>row\<in>set drops. \<exists>i. value_at row ''id'' = Inr i \<and> q = drop_req i)"
        by blast
      with assms(1) none log3 obtain row i where row: "row \<in> set drops" "value_at row ''id'' = Inr i" "q = drop_req i"
        by auto
      with tr2 Inr have "row \<in> set rows" "confirmed api tr2 row" by auto
      with row new(1) log3 none pre j(2) show ?thesis by blast
    qed
  qed
qed

text \<open>An example: a queue with a row that is imported and one that is not.\<close>

definition demo_lidarr :: lidarr where
  "demo_lidarr tr q =
     (let row = (\<lambda>i a. JObj [(''id'', JInt i), (''status'', JStr ''completed''), (''trackedDownloadState'', JStr ''importing''),
                    (''albumId'', JInt a), (''outputPath'', JStr ''/x''), (''title'', JStr ''t'')])
      in if lq_path q = ''/api/v1/queue'' then Inr (dumps (JObj [(''records'', JList [row 7 3, row 8 4])]))
         else if lq_path q = ''/api/v1/album/3''
         then Inr (dumps (JObj [(''statistics'', JObj [(''percentOfTracks'', JInt 100), (''trackFileCount'', JInt 5)])]))
         else Inr [])"

lemma demo_scan_log:
  "snd (scan_main demo_lidarr []) = [Req queue_req, Req (album_req (JInt 3)), Req (album_req (JInt 4)), Req (scan_req (JStr ''/x'')), Req (drop_req (JInt 7))]"
  by code_simp

lemma deletions_are_confirmed_witness:
  "\<exists>before later row. snd (scan_main demo_lidarr []) = before @ later \<and> Req (drop_req (JInt 7)) \<notin> set before
     \<and> confirmed demo_lidarr before row"
proof -
  have "Req (drop_req (JInt 7)) \<in> set (snd (scan_main demo_lidarr []))" "lq_verb (drop_req (JInt 7)) = ''DELETE''"
    by (simp_all add: demo_scan_log) (simp add: drop_req_def)
  from deletions_are_confirmed [OF this] show ?thesis by blast
qed

text \<open>The retries of a run and its outcome: \<open>run_scan\<close> never ends with a server error or an unreachable server.\<close>

lemma run_scan_soft: "fst (run_scan api tr) = Inl (HTTPError c m) \<Longrightarrow> c < 500" "fst (run_scan api tr) \<noteq> Inl (URLError m)"
  by (auto simp: run_scan_def soft_exit_def split: prod.splits sum.splits exn.splits if_splits)

end
