(* ===== verification/PyPath.thy ===== *)
theory PyPath
  imports Py
begin

text \<open>
  Paths and a file system: \<open>os.path\<close> on texts, the path that a text resolves to, and the operations of
  \<open>os\<close> and \<open>shutil\<close> that the scripts use on a tree of directories and files. There are no symbolic
  links, and the working directory is the root.
\<close>

section \<open>Paths\<close>

type_synonym path = "string list"

definition path_join :: "string \<Rightarrow> string \<Rightarrow> string" where
  \<comment> \<open>\<open>os.path.join\<close>\<close>
  "path_join a b =
     (if startswith b ''/'' then b
      else if a = [] \<or> endswith a ''/'' then a @ b
      else a @ ''/'' @ b)"

definition path_str :: "path \<Rightarrow> string" where
  "path_str p = ''/'' @ join ''/'' p"

definition path_step :: "path \<Rightarrow> string \<Rightarrow> path" where
  "path_step p c = (if c = [] \<or> c = ''.'' then p else if c = ''..'' then butlast p else p @ [c])"

definition path_of :: "string \<Rightarrow> path" where
  "path_of s = foldl path_step [] (split_on (CHR ''/'') s)"

definition realpath :: "string \<Rightarrow> path res" where
  "realpath s = (if CHR 0x00 \<in> set s then Inl (ValueError ''embedded null byte'') else Inr (path_of s))"

fun common :: "path \<Rightarrow> path \<Rightarrow> nat" where
  "common (x # xs) (y # ys) = (if x = y then Suc (common xs ys) else 0)"
| "common xs ys = 0"

definition relpath :: "path \<Rightarrow> path \<Rightarrow> string" where
  \<comment> \<open>\<open>os.path.relpath\<close> of absolute paths\<close>
  "relpath p q =
     (let i = common p q; cs = replicate (length q - i) ''..'' @ drop i p
      in if cs = [] then ''.'' else join ''/'' cs)"

definition extension :: "string \<Rightarrow> string" where
  \<comment> \<open>\<open>os.path.splitext(f)[1]\<close> of a file name\<close>
  "extension f =
     (let ext = takeWhile (\<lambda>c. c \<noteq> CHR ''.'') (rev f); stem = drop (Suc (length ext)) (rev f)
      in if length ext < length f \<and> (\<exists>c \<in> set stem. c \<noteq> CHR ''.'') then CHR ''.'' # rev ext else [])"

section \<open>The file system\<close>

record file_tree =
  tr_files :: "(path \<times> string) list"
  tr_dirs :: "path list"

definition content :: "file_tree \<Rightarrow> path \<Rightarrow> string option" where
  "content t p = map_of (tr_files t) p"

definition is_file :: "file_tree \<Rightarrow> path \<Rightarrow> bool" where
  "is_file t p \<longleftrightarrow> content t p \<noteq> None"

definition is_dir :: "file_tree \<Rightarrow> path \<Rightarrow> bool" where
  "is_dir t p \<longleftrightarrow> p = [] \<or> p \<in> set (tr_dirs t)"

definition path_exists :: "file_tree \<Rightarrow> path \<Rightarrow> bool" where
  "path_exists t p \<longleftrightarrow> is_file t p \<or> is_dir t p"

definition below :: "path \<Rightarrow> path \<Rightarrow> bool" where
  "below d p \<longleftrightarrow> take (length d) p = d"

definition entries :: "file_tree \<Rightarrow> path \<Rightarrow> string list" where
  "entries t d =
     map last (filter (\<lambda>p. p \<noteq> [] \<and> butlast p = d) (remdups (map fst (tr_files t) @ tr_dirs t)))"

definition no_such :: exn where
  "no_such = OSError ''[Errno 2] No such file or directory''"

definition list_dir :: "file_tree \<Rightarrow> path \<Rightarrow> string list res" where
  "list_dir t d = (if is_dir t d then Inr (entries t d) else Inl no_such)"

text \<open>The changes. One that cannot be made raises and changes nothing.\<close>

definition ancestors :: "path \<Rightarrow> path list" where
  "ancestors p = map (\<lambda>i. take (Suc i) p) [0..<length p]"

definition make_dirs :: "path \<Rightarrow> file_tree \<Rightarrow> file_tree res" where
  \<comment> \<open>\<open>os.makedirs(p, exist_ok=True)\<close>\<close>
  "make_dirs p t =
     (if list_ex (is_file t) (ancestors p) then Inl (OSError ''[Errno 17] File exists'')
      else Inr (t\<lparr>tr_dirs := tr_dirs t @ filter (\<lambda>d. \<not> is_dir t d) (ancestors p)\<rparr>))"

definition put_file :: "path \<Rightarrow> string \<Rightarrow> file_tree \<Rightarrow> file_tree res" where
  \<comment> \<open>a file opened for writing\<close>
  "put_file p s t =
     (if is_dir t p then Inl (OSError ''[Errno 21] Is a directory'')
      else if \<not> is_dir t (butlast p) then Inl no_such
      else Inr (t\<lparr>tr_files := AList.update p s (tr_files t)\<rparr>))"

definition append_file :: "path \<Rightarrow> string \<Rightarrow> file_tree \<Rightarrow> file_tree res" where
  "append_file p s t = put_file p ((case content t p of Some u \<Rightarrow> u | None \<Rightarrow> []) @ s) t"

definition copy_file :: "path \<Rightarrow> path \<Rightarrow> file_tree \<Rightarrow> file_tree res" where
  \<comment> \<open>\<open>shutil.copyfile\<close>\<close>
  "copy_file src dst t =
     (case content t src of
        None \<Rightarrow> Inl no_such
      | Some s \<Rightarrow> if src = dst then Inl (OSError ''are the same file'') else put_file dst s t)"

definition copy_into :: "path \<Rightarrow> path \<Rightarrow> file_tree \<Rightarrow> file_tree res" where
  \<comment> \<open>\<open>shutil.copy2\<close>, which takes a directory as a target\<close>
  "copy_into src dst t = copy_file src (if is_dir t dst then dst @ [last src] else dst) t"

definition replace_file :: "path \<Rightarrow> path \<Rightarrow> file_tree \<Rightarrow> file_tree res" where
  \<comment> \<open>\<open>os.replace\<close> of a file\<close>
  "replace_file src dst t =
     (case content t src of
        None \<Rightarrow> Inl no_such
      | Some s \<Rightarrow> rbind (put_file dst s t) (\<lambda>u. Inr (if src = dst then t else u\<lparr>tr_files := AList.delete src (tr_files u)\<rparr>)))"

definition moved :: "path \<Rightarrow> path \<Rightarrow> path \<Rightarrow> path" where
  "moved src dst p = (if below src p then dst @ drop (length src) p else p)"

definition move_dir :: "path \<Rightarrow> path \<Rightarrow> file_tree \<Rightarrow> file_tree res" where
  \<comment> \<open>\<open>shutil.move\<close> of a directory to a path where nothing is\<close>
  "move_dir src dst t =
     (if below src dst then Inl (OSError ''Cannot move a directory into itself'')
      else if \<not> is_dir t src \<or> \<not> is_dir t (butlast dst) then Inl no_such
      else Inr (t\<lparr>tr_files := map (\<lambda>(p, s). (moved src dst p, s)) (tr_files t), tr_dirs := map (moved src dst) (tr_dirs t)\<rparr>))"

section \<open>Lemmas on names\<close>

lemma last_rstrip_chars: "rstrip_chars cs s \<noteq> [] \<Longrightarrow> last (rstrip_chars cs s) \<notin> set cs"
  using hd_dropWhile [of "\<lambda>c. c \<in> set cs" "rev s"] by (auto simp: rstrip_chars_def last_rev)

lemma set_rstrip_chars: "set (rstrip_chars cs s) \<subseteq> set s"
  by (auto simp: rstrip_chars_def dest: set_dropWhileD)

lemma dropWhile_keeps: "x \<in> set xs \<Longrightarrow> \<not> P x \<Longrightarrow> x \<in> set (dropWhile P xs)"
  by (induction xs) auto

lemma strip_keeps: "x \<in> set s \<Longrightarrow> \<not> is_space x \<Longrightarrow> x \<in> set (strip s)"
  by (simp add: strip_def lstrip_def rstrip_def dropWhile_keeps)

lemma rstrip_chars_keeps: "x \<in> set s \<Longrightarrow> x \<notin> set cs \<Longrightarrow> x \<in> set (rstrip_chars cs s)"
  by (simp add: rstrip_chars_def dropWhile_keeps)

section \<open>Lemmas on paths\<close>

definition plain_name :: "string \<Rightarrow> bool" where
  "plain_name c \<longleftrightarrow> c \<noteq> [] \<and> c \<noteq> ''.'' \<and> c \<noteq> ''..'' \<and> CHR ''/'' \<notin> set c \<and> CHR 0x00 \<notin> set c"

abbreviation plain_path :: "path \<Rightarrow> bool" where
  "plain_path p \<equiv> \<forall>c \<in> set p. plain_name c"

lemma split_on_chars: "x \<in> set (split_on c s) \<Longrightarrow> c \<notin> set x \<and> set x \<subseteq> set s"
proof (induction c s arbitrary: x rule: split_on.induct)
  case (2 c y ys)
  obtain u us where u: "split_on c ys = u # us" using split_on_nonempty [of c ys] by (cases "split_on c ys") auto
  have IH: "c \<notin> set w \<and> set w \<subseteq> set ys" if "w \<in> set (u # us)" for w
    using 2 that u by (cases "y = c") auto
  from 2(3) u have "x = [] \<or> x \<in> set (u # us) \<or> y \<noteq> c \<and> x = y # u" by (auto split: if_splits)
  with IH [of x] IH [of u] show ?case by auto
qed auto

lemma path_step_plain: "plain_path p \<Longrightarrow> CHR ''/'' \<notin> set c \<Longrightarrow> CHR 0x00 \<notin> set c \<Longrightarrow> plain_path (path_step p c)"
  by (auto simp: path_step_def plain_name_def dest: in_set_butlastD)

lemma path_steps_plain:
  "plain_path p \<Longrightarrow> \<forall>c \<in> set cs. CHR ''/'' \<notin> set c \<and> CHR 0x00 \<notin> set c \<Longrightarrow> plain_path (foldl path_step p cs)"
proof (induction cs arbitrary: p)
  case (Cons c cs)
  have "plain_path (path_step p c)" using Cons.prems by (intro path_step_plain) auto
  with Cons show ?case by simp
qed simp

lemma realpath_plain: "realpath s = Inr p \<Longrightarrow> plain_path p"
  using split_on_chars [of _ "CHR ''/''" s] path_steps_plain [of "[]" "split_on (CHR ''/'') s"]
  by (auto simp: realpath_def path_of_def split: if_splits)

lemma path_steps_names: "plain_path q \<Longrightarrow> foldl path_step p q = p @ q"
  by (induction q arbitrary: p) (auto simp: path_step_def plain_name_def)

lemma split_on_join_after:
  "split_on d (s @ d # u) = split_on d s @ split_on d u"
proof (induction s)
  case (Cons x s)
  then show ?case using split_on_nonempty [of d s] by (cases "split_on d s") auto
qed simp

lemma path_of_join: "path_of (s @ CHR ''/'' # u) = foldl path_step (path_of s) (split_on (CHR ''/'') u)"
  by (simp add: path_of_def split_on_join_after)

lemma split_names: "plain_path q \<Longrightarrow> q \<noteq> [] \<Longrightarrow> split_on (CHR ''/'') (join ''/'' q) = q"
  by (rule split_on_join) (auto simp: plain_name_def)

lemma path_of_str: "plain_path p \<Longrightarrow> path_of (path_str p) = p"
  by (cases "p = []") (simp_all add: path_str_def path_of_def split_names path_steps_names path_step_def)

lemma join_no_nul: "plain_path q \<Longrightarrow> CHR 0x00 \<notin> set (join ''/'' q)"
  by (induction q rule: induct_list012) (auto simp: plain_name_def)

lemma realpath_str: "plain_path p \<Longrightarrow> realpath (path_str p) = Inr p"
  using join_no_nul [of p] by (simp add: realpath_def path_of_str) (simp add: path_str_def)

lemma path_of_slash: "path_of (s @ ''/'') = path_of s"
  using path_of_join [of s "[]"] by (simp add: path_step_def)

lemma path_of_path_join:
  assumes "\<not> startswith b ''/''"
  shows "path_of (path_join a b) = foldl path_step (path_of a) (split_on (CHR ''/'') b)"
proof (cases "a \<noteq> [] \<and> endswith a ''/''")
  case True
  then obtain a' where a: "a = a' @ ''/''"
    by (auto simp: endswith_def startswith_def) (metis append_butlast_last_id last_rev rev_is_Nil_conv hd_conv_nth take0 take_Suc list.sel(1) rev_rev_ident)
  then show ?thesis using assms path_of_join [of a' b] path_of_slash [of a']
    by (simp add: path_join_def endswith_def startswith_def)
next
  case False
  have e: "path_of [] = []" by (simp add: path_of_def path_step_def)
  from False assms e show ?thesis
    by (cases "a = []") (auto simp: path_join_def path_of_join, simp_all add: path_of_def)
qed

lemma join_starts: "plain_path q \<Longrightarrow> \<not> startswith (join ''/'' q) ''/''"
proof (cases q)
  case (Cons c cs)
  assume "plain_path q"
  with Cons obtain d ds where "c = d # ds" "d \<noteq> CHR ''/''" by (cases c) (auto simp: plain_name_def)
  with Cons show ?thesis by (cases cs) (auto simp: startswith_def)
qed (simp add: startswith_def)

lemma set_path_join: "set (path_join a b) \<subseteq> insert (CHR ''/'') (set a \<union> set b)"
  by (auto simp: path_join_def)

lemma set_path_join_right: "set b \<subseteq> set (path_join a b)"
  by (auto simp: path_join_def)

lemma set_path_join_left: "\<not> startswith b ''/'' \<Longrightarrow> set a \<subseteq> set (path_join a b)"
  by (auto simp: path_join_def)

lemma realpath_join:
  assumes "realpath a = Inr p" "plain_path q"
  shows "realpath (path_join a (join ''/'' q)) = Inr (p @ q)"
proof -
  have "CHR 0x00 \<notin> set (path_join a (join ''/'' q))"
    using set_path_join [of a "join ''/'' q"] join_no_nul [OF assms(2)] assms(1) by (auto simp: realpath_def split: if_splits)
  moreover have "path_of (path_join a (join ''/'' q)) = p @ q"
    using assms path_of_path_join [OF join_starts [OF assms(2)]]
    by (cases "q = []") (auto simp: realpath_def split_names path_steps_names path_step_def split: if_splits)
  ultimately show ?thesis by (simp add: realpath_def)
qed

lemma realpath_join_name: "realpath a = Inr p \<Longrightarrow> plain_name c \<Longrightarrow> realpath (path_join a c) = Inr (p @ [c])"
  using realpath_join [of a p "[c]"] by simp

lemma common_append [simp]: "common (p @ q) p = length p"
  by (induction p) auto

lemma relpath_append: "relpath (p @ q) p = (if q = [] then ''.'' else join ''/'' q)"
  by (simp add: relpath_def)

lemma realpath_relpath:
  assumes "realpath a = Inr p" "plain_path q"
  shows "realpath (path_join a (relpath (p @ q) p)) = Inr (p @ q)"
proof (cases "q = []")
  case True
  have d: "path_of (path_join a ''.'') = path_of a"
    using path_of_path_join [of "''.''" a] by (simp add: startswith_def path_step_def)
  have "CHR 0x00 \<notin> set (path_join a ''.'')"
    using set_path_join [of a "''.''"] assms(1) by (auto simp: realpath_def split: if_splits)
  moreover have "relpath p p = ''.''" using relpath_append [of p "[]"] by simp
  ultimately show ?thesis using True assms d by (auto simp: realpath_def split: if_splits)
qed (use assms in \<open>simp add: relpath_append realpath_join\<close>)

lemma split_path_str: "plain_path p \<Longrightarrow> split_on (CHR ''/'') (path_str p) = [] # (if p = [] then [[]] else p)"
  by (simp add: path_str_def split_names)

lemma path_str_prefix:
  assumes "plain_path p" "plain_path r" "startswith (path_str p) (path_str r @ ''/'')"
  obtains q where "p = r @ q"
proof -
  obtain u where "path_str p = path_str r @ CHR ''/'' # u" using assms(3) by (auto simp: startswith_iff)
  then have "split_on (CHR ''/'') (path_str p) = split_on (CHR ''/'') (path_str r) @ split_on (CHR ''/'') u"
    by (simp only: split_on_join_after)
  then have *: "(if p = [] then [[]] else p) = (if r = [] then [[]] else r) @ split_on (CHR ''/'') u"
    using assms(1,2) by (simp add: split_path_str)
  have "p \<noteq> []"
  proof
    assume "p = []"
    with * show False using split_on_nonempty [of "CHR ''/''" u] by (auto split: if_splits simp: Cons_eq_append_conv)
  qed
  moreover from this * have "r \<noteq> []" using assms(1) by (auto simp: plain_name_def split: if_splits)
  ultimately show thesis using that * by simp
qed

end
