(* ===== verification/LidarrBridge.thy ===== *)
theory LidarrBridge
  imports LidarrScan PyPath
begin

text \<open>
  The bridge of failed imports \<open>lidarr-bridge/bridge.py\<close>: what it does with one directory, and the loop
  over all of them. The Lidarr API and the file system are parameters, whose answers may depend on
  everything done before; the state is the log of the API calls and of the changes to the file system.
\<close>

section \<open>Names\<close>

definition hostile :: string where
  "hostile = [CHR ''/'', CHR 0x00]"

definition sanitize :: "string list \<Rightarrow> string" where
  \<comment> \<open>the elements that the loop over the name visits; for a string, its characters\<close>
  "sanitize cs =
     (let out = rstrip_chars ''.'' (strip (concat (map (\<lambda>c. if contains hostile c then ''_'' else c) cs)))
      in if out = [] then ''unknown'' else out)"

fun as_text :: "json \<Rightarrow> string res" where
  "as_text (JStr s) = Inr s"
| "as_text j = Inl (TypeError ''requires string as left operand'')"

definition sanitize_value :: "json \<Rightarrow> string res" where
  "sanitize_value name = rbind (iterate name) (\<lambda>cs. rbind (rmap as_text cs) (\<lambda>ts. Inr (sanitize ts)))"

section \<open>The world\<close>

datatype bridge_event =
    Called lidarr_req
  | MadeDirs string
  | Moved string string
  | Chmod string nat
  | Removed string

type_synonym trail = "bridge_event list"

record bridge_env =
  be_api :: "trail \<Rightarrow> lidarr_req \<Rightarrow> json res"
  be_isdir :: "trail \<Rightarrow> string \<Rightarrow> bool"
  be_exists :: "trail \<Rightarrow> string \<Rightarrow> bool"
  be_listdir :: "trail \<Rightarrow> string \<Rightarrow> string list res"
  be_walk :: "trail \<Rightarrow> string \<Rightarrow> (string \<times> string list) list"
  be_change :: "trail \<Rightarrow> bridge_event \<Rightarrow> unit res"
  be_failed_dir :: string
  be_media_root :: string

definition api_call :: "bridge_env \<Rightarrow> lidarr_req \<Rightarrow> (json, trail) stm" where
  "api_call env q tr = (be_api env tr q, tr @ [Called q])"

definition change :: "bridge_env \<Rightarrow> bridge_event \<Rightarrow> (unit, trail) stm" where
  \<comment> \<open>a change that raises may have been made in part\<close>
  "change env e tr = (be_change env tr e, tr @ [e])"

definition listdir :: "bridge_env \<Rightarrow> string \<Rightarrow> (string list, trail) stm" where
  "listdir env p tr = (be_listdir env tr p, tr)"

section \<open>One directory\<close>

definition proposals_req :: "string \<Rightarrow> lidarr_req" where
  "proposals_req dir = \<lparr>lq_verb = ''GET'', lq_path = ''/api/v1/manualimport'',
     lq_params = [(''folder'', dir), (''filterExistingFiles'', ''false'')], lq_body = None\<rparr>"

definition import_req :: "json list \<Rightarrow> lidarr_req" where
  "import_req files = \<lparr>lq_verb = ''POST'', lq_path = ''/api/v1/command'', lq_params = [],
     lq_body = Some (JObj [(''name'', JStr ''ManualImport''), (''files'', JList files), (''importMode'', JStr ''auto'')])\<rparr>"

definition identified :: "json \<Rightarrow> bool res" where
  \<comment> \<open>\<open>p.get("album") and p.get("artist") and p.get("tracks")\<close>\<close>
  "identified p =
     rbind (field p ''album'' JNull) (\<lambda>a. if \<not> truthy a then Inr False
     else rbind (field p ''artist'' JNull) (\<lambda>b. if \<not> truthy b then Inr False
     else rbind (field p ''tracks'' JNull) (\<lambda>t. Inr (truthy t))))"

definition music_of :: "json \<Rightarrow> json list res" where
  "music_of ps =
     rbind (iterate ps) (\<lambda>xs. rbind (rmap (\<lambda>p. rbind (identified p) (\<lambda>b. Inr (p, b))) xs) (\<lambda>ys.
       Inr (map fst (filter snd ys))))"

definition inner :: "json \<Rightarrow> string \<Rightarrow> string \<Rightarrow> json res" where
  \<comment> \<open>\<open>p[a][b]\<close>\<close>
  "inner p a b = rbind (value_at p a) (\<lambda>x. value_at x b)"

definition counted :: "json list \<Rightarrow> string \<Rightarrow> nat res" where
  \<comment> \<open>\<open>len(Counter(p[k]["id"] for p in music))\<close>\<close>
  "counted music k =
     rbind (rmap (\<lambda>p. rbind (inner p k ''id'') (\<lambda>i.
       if hashable i then Inr i else Inl (TypeError (''unhashable type: '' @ repr_str (type_name i))))) music)
     (\<lambda>ids. Inr (length (remdups ids)))"

definition target_of :: "bridge_env \<Rightarrow> json list \<Rightarrow> string res" where
  "target_of env music =
     rbind (rbind (inner (hd music) ''artist'' ''artistName'') sanitize_value) (\<lambda>a.
     rbind (rbind (inner (hd music) ''album'' ''title'') sanitize_value) (\<lambda>b.
       Inr (path_join (path_join (be_media_root env) a) b)))"

fun move_entries :: "bridge_env \<Rightarrow> string \<Rightarrow> string \<Rightarrow> string list \<Rightarrow> (unit, trail) stm" where
  "move_entries env src target [] = mlift (Inr ())"
| "move_entries env src target (x # xs) =
     (\<lambda>tr. if be_exists env tr (path_join target x) then move_entries env src target xs tr
      else mbind (change env (Moved (path_join src x) (path_join target x))) (\<lambda>_. move_entries env src target xs) tr)"

fun changes :: "bridge_env \<Rightarrow> bridge_event list \<Rightarrow> (unit, trail) stm" where
  "changes env [] = mlift (Inr ())"
| "changes env (e # es) = mbind (change env e) (\<lambda>_. changes env es)"

definition readable :: "(string \<times> string list) list \<Rightarrow> bridge_event list" where
  \<comment> \<open>modes \<open>0o775\<close> and \<open>0o664\<close>\<close>
  "readable ws = concat (map (\<lambda>(root, fnames). Chmod root 509 # map (\<lambda>f. Chmod (path_join root f) 436) fnames) ws)"

definition chmod_tree :: "bridge_env \<Rightarrow> string \<Rightarrow> (unit, trail) stm" where
  "chmod_tree env target tr = changes env (readable (be_walk env tr target)) tr"

definition file_entry :: "json \<Rightarrow> json res" where
  "file_entry p =
     rbind (value_at p ''path'') (\<lambda>path. rbind (inner p ''album'' ''id'') (\<lambda>album. rbind (inner p ''artist'' ''id'') (\<lambda>artist.
     rbind (field p ''albumReleaseId'' JNull) (\<lambda>release.
     rbind (rbind (rbind (value_at p ''tracks'') iterate) (rmap (\<lambda>t. value_at t ''id''))) (\<lambda>tracks.
     rbind (value_at p ''quality'') (\<lambda>quality. rbind (field p ''indexerFlags'' (JInt 0)) (\<lambda>flags.
       Inr (JObj [(''path'', path), (''albumId'', album), (''artistId'', artist), (''albumReleaseId'', release),
         (''trackIds'', JList tracks), (''quality'', quality), (''indexerFlags'', flags),
         (''disableReleaseSwitching'', JBool False), (''additionalFile'', JBool False),
         (''replaceExistingFiles'', JBool True)]))))))))"

fun files_payload :: "json list \<Rightarrow> json list res" where
  "files_payload [] = Inr []"
| "files_payload (p # ps) =
     rbind (identified p) (\<lambda>b.
       if \<not> b then files_payload ps
       else rbind (file_entry p) (\<lambda>f. rbind (files_payload ps) (\<lambda>fs. Inr (f # fs))))"

definition remove_source :: "bridge_env \<Rightarrow> string \<Rightarrow> (unit, trail) stm" where
  "remove_source env src tr =
     (case mbind (listdir env src) (\<lambda>xs. if xs = [] then change env (Removed src) else mlift (Inr ())) tr of
        (Inl (OSError _), tr') \<Rightarrow> (Inr (), tr')
      | r \<Rightarrow> r)"

definition import_files :: "bridge_env \<Rightarrow> string \<Rightarrow> string \<Rightarrow> (unit, trail) stm" where
  "import_files env src target =
     mbind (api_call env (proposals_req target)) (\<lambda>ps.
     mbind (mlift (rbind (iterate ps) files_payload)) (\<lambda>files.
       if files = [] then mlift (Inr ())
       else mbind (api_call env (import_req files)) (\<lambda>cmd.
            mbind (mlift (value_at cmd ''id'')) (\<lambda>_. remove_source env src))))"

definition process_dir :: "bridge_env \<Rightarrow> string \<Rightarrow> (unit, trail) stm" where
  "process_dir env src =
     mbind (api_call env (proposals_req src)) (\<lambda>ps. mbind (mlift (music_of ps)) (\<lambda>music.
       if music = [] then mlift (Inr ())
       else mbind (mlift (counted music ''artist'')) (\<lambda>m. mbind (mlift (counted music ''album'')) (\<lambda>n.
         if 1 < m \<or> 1 < n then mlift (Inr ())
         else mbind (mlift (target_of env music)) (\<lambda>target.
              mbind (change env (MadeDirs target)) (\<lambda>_. mbind (listdir env src) (\<lambda>xs.
              mbind (move_entries env src target xs) (\<lambda>_. mbind (chmod_tree env target) (\<lambda>_.
                import_files env src target)))))))))"

section \<open>The run\<close>

definition is_exit :: "exn \<Rightarrow> bool" where
  \<comment> \<open>\<open>SystemExit\<close> is no \<open>Exception\<close>\<close>
  "is_exit e = (case e of SystemExit _ \<Rightarrow> True | _ \<Rightarrow> False)"

fun process_entries :: "bridge_env \<Rightarrow> string list \<Rightarrow> (unit, trail) stm" where
  "process_entries env [] tr = (Inr (), tr)"
| "process_entries env (x # xs) tr =
     (let src = path_join (be_failed_dir env) x in
      if \<not> be_isdir env tr src then process_entries env xs tr
      else (case process_dir env src tr of
          (Inl e, tr') \<Rightarrow> if is_exit e then (Inl e, tr') else process_entries env xs tr'
        | (Inr _, tr') \<Rightarrow> process_entries env xs tr'))"

definition bridge_main :: "bridge_env \<Rightarrow> (unit, trail) stm" where
  "bridge_main env tr =
     (if \<not> be_isdir env tr (be_failed_dir env) then (Inr (), tr)
      else mbind (listdir env (be_failed_dir env)) (\<lambda>xs. process_entries env (sort xs)) tr)"

section \<open>Where files go\<close>

text \<open>One component of a path, which does not lead out of its directory.\<close>

definition one_component :: "string \<Rightarrow> bool" where
  "one_component s \<longleftrightarrow> s \<noteq> [] \<and> CHR ''/'' \<notin> set s \<and> CHR 0x00 \<notin> set s \<and> s \<noteq> ''.'' \<and> s \<noteq> ''..''"

lemma contains_char: "contains hostile [c] \<longleftrightarrow> c = CHR ''/'' \<or> c = CHR 0x00"
  by (auto simp: hostile_def startswith_def)

lemma plain_sanitize: "one_component (sanitize (map (\<lambda>c. [c]) s))"
proof -
  let ?u = "concat (map (\<lambda>c. if contains hostile c then ''_'' else c) (map (\<lambda>c. [c]) s))"
  have u: "CHR ''/'' \<notin> set ?u" "CHR 0x00 \<notin> set ?u" by (auto simp: contains_char)
  let ?o = "rstrip_chars ''.'' (strip ?u)"
  have "set ?o \<subseteq> set ?u" using set_rstrip_chars set_strip_sub by blast
  with u have "CHR ''/'' \<notin> set ?o" "CHR 0x00 \<notin> set ?o" by blast+
  moreover have "?o \<noteq> ''.'' \<and> ?o \<noteq> ''..''" using last_rstrip_chars [of "''.''" "strip ?u"] by force
  ultimately show ?thesis by (simp add: sanitize_def Let_def one_component_def)
qed

lemma as_text_chars: "rmap as_text (map (\<lambda>c. JStr [c]) s) = Inr (map (\<lambda>c. [c]) s)"
  by (induction s) auto

lemma sanitize_value_plain: "sanitize_value (JStr s) = Inr a \<Longrightarrow> one_component a"
  using plain_sanitize [of s] by (auto simp: sanitize_value_def as_text_chars)

lemma sanitize_value_text: "sanitize_value (JStr s) = Inr (sanitize (map (\<lambda>c. [c]) s))"
  by (simp add: sanitize_value_def as_text_chars)

text \<open>
  Lidarr gives an artist a name and an album a title, both texts.
\<close>

definition texts_at :: "json \<Rightarrow> string \<Rightarrow> string \<Rightarrow> bool" where
  "texts_at p k l \<longleftrightarrow> (case inner p k l of Inr (JStr _) \<Rightarrow> True | Inl _ \<Rightarrow> True | _ \<Rightarrow> False)"

definition names_are_texts :: "bridge_env \<Rightarrow> bool" where
  "names_are_texts env \<longleftrightarrow>
     (\<forall>tr q ps. be_api env tr q = Inr (JList ps)
        \<longrightarrow> list_all (\<lambda>p. texts_at p ''artist'' ''artistName'' \<and> texts_at p ''album'' ''title'') ps)"

text \<open>
  What a move rests on: the question about the failed import of which it takes an entry, the answer, whose
  first identified proposal names the artist and the album, the directory made for them, and the listing
  in which the entry is.
\<close>

definition agreed_move :: "bridge_env \<Rightarrow> trail \<Rightarrow> string \<Rightarrow> string \<Rightarrow> bool" where
  "agreed_move env earlier s d \<longleftrightarrow>
     \<not> be_exists env earlier d
     \<and> (\<exists>pre src entry target moves ps p rest artist album xs x.
          earlier = pre @ [Called (proposals_req src), MadeDirs target] @ moves
        \<and> src = path_join (be_failed_dir env) entry
        \<and> be_api env pre (proposals_req src) = Inr ps \<and> music_of ps = Inr (p # rest)
        \<and> inner p ''artist'' ''artistName'' = Inr artist \<and> inner p ''album'' ''title'' = Inr album
        \<and> (\<exists>a b. sanitize_value artist = Inr a \<and> sanitize_value album = Inr b
             \<and> target = path_join (path_join (be_media_root env) a) b)
        \<and> be_listdir env (pre @ [Called (proposals_req src), MadeDirs target]) src = Inr xs \<and> x \<in> set xs
        \<and> s = path_join src x \<and> d = path_join target x)"

definition agreed :: "bridge_env \<Rightarrow> trail \<Rightarrow> bool" where
  "agreed env tr \<longleftrightarrow> (\<forall>before s d after. tr = before @ Moved s d # after \<longrightarrow> agreed_move env before s d)"

lemma agreed_Nil [simp]: "agreed env []"
  by (simp add: agreed_def)

lemma agreed_snoc: "agreed env tr \<Longrightarrow> (\<And>s d. e = Moved s d \<Longrightarrow> agreed_move env tr s d) \<Longrightarrow> agreed env (tr @ [e])"
  unfolding agreed_def by (metis append_butlast_last_id butlast.simps(2) butlast_append butlast_snoc last_snoc last.simps last_append list.distinct(1))

definition tidy :: "bridge_env \<Rightarrow> ('a, trail) stm \<Rightarrow> bool" where
  \<comment> \<open>a computation that makes no other moves\<close>
  "tidy env m \<longleftrightarrow> (\<forall>tr. agreed env tr \<longrightarrow> agreed env (snd (m tr)))"

lemma tidyD: "tidy env m \<Longrightarrow> agreed env tr \<Longrightarrow> agreed env (snd (m tr))"
  by (simp add: tidy_def)

lemma tidy_lift [intro]: "tidy env (mlift r)"
  by (simp add: tidy_def)

lemma tidy_bind [intro]: "tidy env m \<Longrightarrow> (\<And>a. tidy env (f a)) \<Longrightarrow> tidy env (mbind m f)"
  by (fastforce simp: tidy_def mbind_def split: prod.splits sum.splits)

lemma tidy_api_call [intro]: "tidy env (api_call env q)"
  by (auto simp: tidy_def api_call_def intro: agreed_snoc)

lemma tidy_listdir [intro]: "tidy env (listdir env p)"
  by (simp add: tidy_def listdir_def)

lemma tidy_change: "(\<And>s d. e \<noteq> Moved s d) \<Longrightarrow> tidy env (change env e)"
  by (auto simp: tidy_def change_def intro: agreed_snoc)

lemma tidy_changes: "(\<And>e s d. e \<in> set es \<Longrightarrow> e \<noteq> Moved s d) \<Longrightarrow> tidy env (changes env es)"
  by (induction es) (auto intro!: tidy_bind tidy_change)

lemma tidy_chmod_tree [intro]: "tidy env (chmod_tree env target)"
proof -
  have "tidy env (changes env (readable ws))" for ws by (rule tidy_changes) (auto simp: readable_def)
  then show ?thesis by (simp add: tidy_def chmod_tree_def)
qed

lemma tidy_remove_source [intro]: "tidy env (remove_source env src)"
proof -
  have "tidy env (mbind (listdir env src) (\<lambda>xs. if xs = [] then change env (Removed src) else mlift (Inr ())))"
    by (auto intro!: tidy_bind tidy_change)
  then show ?thesis
    unfolding tidy_def remove_source_def by (fastforce split: prod.splits sum.splits exn.splits)
qed

lemma tidy_import_files [intro]: "tidy env (import_files env src target)"
  unfolding import_files_def by (intro tidy_bind) auto

lemma agreed_moves:
  assumes "\<And>x moves. x \<in> set xs \<Longrightarrow> \<not> be_exists env (t0 @ moves) (path_join target x)
      \<Longrightarrow> agreed_move env (t0 @ moves) (path_join src x) (path_join target x)"
  shows "set ys \<subseteq> set xs \<Longrightarrow> agreed env (t0 @ moves)
     \<Longrightarrow> agreed env (snd (move_entries env src target ys (t0 @ moves))) "
proof (induction ys arbitrary: moves)
  case (Cons y ys)
  show ?case
  proof (cases "be_exists env (t0 @ moves) (path_join target y)")
    case True
    with Cons show ?thesis by simp
  next
    case False
    let ?e = "Moved (path_join src y) (path_join target y)"
    from False Cons.prems assms have "agreed env (t0 @ (moves @ [?e]))"
      using agreed_snoc [of env "t0 @ moves" ?e] by auto
    with Cons False show ?thesis
      by (cases "be_change env (t0 @ moves) ?e") (auto simp: mbind_def change_def)
  qed
qed simp

lemma agreed_process_dir:
  assumes "agreed env tr" "src = path_join (be_failed_dir env) entry"
  shows "agreed env (snd (process_dir env src tr))"
proof -
  let ?q = "Called (proposals_req src)"
  have q: "agreed env (tr @ [?q])" using assms(1) by (intro agreed_snoc) auto
  show ?thesis
  proof (cases "\<exists>ps music target. be_api env tr (proposals_req src) = Inr ps \<and> music_of ps = Inr music \<and> music \<noteq> [] \<and> target_of env music = Inr target")
    case False
    with q show ?thesis
      by (auto simp: process_dir_def mbind_def api_call_def split: sum.splits)
  next
    case True
    then obtain ps p rest target where ps: "be_api env tr (proposals_req src) = Inr ps" "music_of ps = Inr (p # rest)"
        "target_of env (p # rest) = Inr target"
      by (metis list.exhaust)
    let ?t0 = "tr @ [?q, MadeDirs target]"
    have t0: "agreed env ?t0" using q agreed_snoc [of env "tr @ [?q]" "MadeDirs target"] by simp
    from ps(3) obtain artist album a b where names: "inner p ''artist'' ''artistName'' = Inr artist" "inner p ''album'' ''title'' = Inr album"
        "sanitize_value artist = Inr a" "sanitize_value album = Inr b" "target = path_join (path_join (be_media_root env) a) b"
      by (auto simp: target_of_def rbind_Inr_iff)
    have moves: "agreed env (snd (move_entries env src target xs ?t0))" if "be_listdir env ?t0 src = Inr xs" for xs
    proof -
      have "agreed env (snd (move_entries env src target xs (?t0 @ [])))"
      proof (rule agreed_moves)
        fix x ms
        assume "x \<in> set xs" "\<not> be_exists env (?t0 @ ms) (path_join target x)"
        with that ps names assms(2) show "agreed_move env (?t0 @ ms) (path_join src x) (path_join target x)"
          unfolding agreed_move_def by (intro conjI exI) (assumption, simp_all)
      qed (use t0 in simp_all)
      then show ?thesis by simp
    qed
    have rest: "agreed env (snd (mbind (move_entries env src target xs) (\<lambda>_. mbind (chmod_tree env target) (\<lambda>_.
        import_files env src target)) ?t0))" if "be_listdir env ?t0 src = Inr xs" for xs
    proof -
      obtain r tr' where r: "move_entries env src target xs ?t0 = (r, tr')" by fastforce
      with moves [OF that] have "agreed env tr'" by simp
      moreover have "tidy env (mbind (chmod_tree env target) (\<lambda>_. import_files env src target))" by blast
      ultimately show ?thesis using r by (cases r) (auto simp: mbind_def [of "move_entries env src target xs"] tidyD)
    qed
    from ps q t0 rest show ?thesis
      by (auto simp: process_dir_def mbind_def [of "api_call env _"] mbind_def [of "mlift _"] api_call_def
          mbind_def [of "change env _"] mbind_def [of "listdir env _"] change_def listdir_def split: sum.splits)
  qed
qed

lemma agreed_process_entries: "agreed env tr \<Longrightarrow> agreed env (snd (process_entries env xs tr))"
proof (induction env xs tr rule: process_entries.induct)
  case (2 env x xs tr)
  let ?src = "path_join (be_failed_dir env) x"
  obtain r tr' where p: "process_dir env ?src tr = (r, tr')" by fastforce
  with agreed_process_dir [OF 2(4) refl, of x] have "agreed env tr'" by simp
  with p 2 show ?case by (cases r) (auto simp: Let_def)
qed simp

lemma music_first:
  assumes "music_of ps = Inr (p # rest)"
  obtains xs where "ps = JList xs" "find (\<lambda>x. identified x = Inr True) xs = Some p"
proof -
  have ids: "rmap (\<lambda>p. rbind (identified p) (\<lambda>b. Inr (p, b))) xs = Inr ys \<Longrightarrow> map fst (filter snd ys) = p # rest
      \<Longrightarrow> find (\<lambda>x. identified x = Inr True) xs = Some p" for xs ys
    by (induction xs arbitrary: ys) (auto simp: rbind_Inr_iff split: if_splits)
  have texts: "rmap (\<lambda>p. rbind (identified p) (\<lambda>b. Inr (p, b))) (map JStr us) = Inr ys \<Longrightarrow> ys = []" for us ys
    by (cases us) (auto simp: identified_def field_def)
  have objs: "map (JStr \<circ> f) us = map JStr (map f us)" for f :: "'a \<Rightarrow> string" and us by simp
  show thesis
  proof (cases ps)
    case (JList xs)
    with assms ids show thesis by (intro that [OF JList]) (auto simp: music_of_def rbind_Inr_iff)
  next
    case (JStr u)
    with assms texts [of "map (\<lambda>c. [c]) u"] show thesis by (auto simp: music_of_def rbind_Inr_iff comp_def)
  next
    case (JObj u)
    with assms texts [of "map fst u"] show thesis by (auto simp: music_of_def rbind_Inr_iff comp_def)
  qed (use assms in \<open>auto simp: music_of_def\<close>)
qed

definition clean :: "string \<Rightarrow> string" where
  "clean s = sanitize (map (\<lambda>c. [c]) s)"

text \<open>
  Property C21. If the names of artists and the titles of albums are texts, then whatever else Lidarr and the
  file system answer, each move of a run takes an entry that was listed in the directory of a failed
  import to a path that does not exist at that time, two levels below the media root: the levels are the
  sanitized artist and album of the first proposal that identifies music in Lidarr's answer for this very
  directory, and each of them is a single path component, neither empty nor \<open>.\<close> nor \<open>..\<close>.
\<close>

theorem moves_stay_below_media_root:
  assumes "names_are_texts env" "snd (bridge_main env []) = earlier @ Moved s d # later"
  shows "\<not> be_exists env earlier d
     \<and> (\<exists>pre src entry target moves ps p artist album xs x.
          earlier = pre @ [Called (proposals_req src), MadeDirs target] @ moves
        \<and> src = path_join (be_failed_dir env) entry
        \<and> be_api env pre (proposals_req src) = Inr (JList ps) \<and> find (\<lambda>q. identified q = Inr True) ps = Some p
        \<and> inner p ''artist'' ''artistName'' = Inr (JStr artist) \<and> inner p ''album'' ''title'' = Inr (JStr album)
        \<and> one_component (clean artist) \<and> one_component (clean album)
        \<and> target = path_join (path_join (be_media_root env) (clean artist)) (clean album)
        \<and> be_listdir env (pre @ [Called (proposals_req src), MadeDirs target]) src = Inr xs \<and> x \<in> set xs
        \<and> s = path_join src x \<and> d = path_join target x)"
proof -
  have "agreed env (snd (bridge_main env []))"
    by (auto simp: bridge_main_def mbind_def listdir_def agreed_process_entries split: sum.splits)
  with assms(2) have "agreed_move env earlier s d" by (simp add: agreed_def)
  then obtain pre src entry target moves js p rest artist album xs x a b where m:
      "\<not> be_exists env earlier d" "earlier = pre @ [Called (proposals_req src), MadeDirs target] @ moves"
      "src = path_join (be_failed_dir env) entry" "be_api env pre (proposals_req src) = Inr js" "music_of js = Inr (p # rest)"
      "inner p ''artist'' ''artistName'' = Inr artist" "inner p ''album'' ''title'' = Inr album"
      "sanitize_value artist = Inr a" "sanitize_value album = Inr b" "target = path_join (path_join (be_media_root env) a) b"
      "be_listdir env (pre @ [Called (proposals_req src), MadeDirs target]) src = Inr xs" "x \<in> set xs"
      "s = path_join src x" "d = path_join target x"
    unfolding agreed_move_def by blast
  from music_first [OF m(5)] obtain ps where ps: "js = JList ps" "find (\<lambda>q. identified q = Inr True) ps = Some p" by blast
  then have "p \<in> set ps" by (auto simp: find_Some_iff)
  with assms(1) m(4,6,7) ps(1) have "(\<exists>u. artist = JStr u) \<and> (\<exists>v. album = JStr v)"
    by (fastforce simp: names_are_texts_def list_all_iff texts_at_def split: json.splits)
  then obtain u v where uv: "artist = JStr u" "album = JStr v" by blast
  with m(8,9) have "a = clean u" "b = clean v" by (simp_all add: sanitize_value_text clean_def)
  with m ps uv plain_sanitize show ?thesis unfolding clean_def by blast
qed

section \<open>An example\<close>

text \<open>
  One failed import with one track. The server identifies the files of a directory that still has
  them; when \<open>flaky\<close>, it does not answer the second question.
\<close>

definition demo_proposal :: json where
  "demo_proposal = JObj [(''path'', JStr ''/m/a_b/c/t''), (''album'', JObj [(''id'', JInt 2), (''title'', JStr ''c.'')]),
     (''artist'', JObj [(''id'', JInt 1), (''artistName'', JStr ''a/b'')]), (''tracks'', JList [JObj [(''id'', JInt 3)]]), (''quality'', JObj [])]"

definition demo_bridge_env :: "bool \<Rightarrow> bridge_env" where
  "demo_bridge_env flaky =
     (let gone = (\<lambda>tr. Moved ''/f/x/t'' ''/m/a_b/c/t'' \<in> set tr) in
      \<lparr>be_api = (\<lambda>tr q. if q = proposals_req ''/f/x'' then Inr (JList (if gone tr then [] else [demo_proposal]))
                   else if flaky then Inl (OSError ''timed out'')
                   else if q = proposals_req ''/m/a_b/c'' then Inr (JList [demo_proposal]) else Inr (JObj [(''id'', JInt 9)])),
       be_isdir = (\<lambda>tr p. True), be_exists = (\<lambda>tr p. p = ''/m/a_b/c/t'' \<and> gone tr),
       be_listdir = (\<lambda>tr p. Inr (if p = ''/f'' then [''x''] else if gone tr then [] else [''t''])),
       be_walk = (\<lambda>tr p. [(p, [''t''])]), be_change = (\<lambda>tr e. Inr ()), be_failed_dir = ''/f'', be_media_root = ''/m''\<rparr>)"

lemma demo_bridge_run:
  "snd (bridge_main (demo_bridge_env False) []) =
     [Called (proposals_req ''/f/x''), MadeDirs ''/m/a_b/c''] @ Moved ''/f/x/t'' ''/m/a_b/c/t''
     # [Chmod ''/m/a_b/c'' 509, Chmod ''/m/a_b/c/t'' 436, Called (proposals_req ''/m/a_b/c''),
        Called (import_req [JObj [(''path'', JStr ''/m/a_b/c/t''), (''albumId'', JInt 2), (''artistId'', JInt 1), (''albumReleaseId'', JNull),
          (''trackIds'', JList [JInt 3]), (''quality'', JObj []), (''indexerFlags'', JInt 0), (''disableReleaseSwitching'', JBool False),
          (''additionalFile'', JBool False), (''replaceExistingFiles'', JBool True)]]), Removed ''/f/x'']"
  by code_simp

lemma demo_names: "names_are_texts (demo_bridge_env False)"
proof -
  have "texts_at demo_proposal ''artist'' ''artistName'' \<and> texts_at demo_proposal ''album'' ''title''" by code_simp
  then show ?thesis by (auto simp: names_are_texts_def demo_bridge_env_def Let_def split: if_splits)
qed

lemma moves_stay_below_media_root_witness:
  "\<exists>entry x artist album. ''/f/x/t'' = path_join (path_join ''/f'' entry) x
     \<and> one_component (clean artist) \<and> one_component (clean album)
     \<and> ''/m/a_b/c/t'' = path_join (path_join (path_join ''/m'' (clean artist)) (clean album)) x"
proof -
  have dirs: "be_failed_dir (demo_bridge_env False) = ''/f''" "be_media_root (demo_bridge_env False) = ''/m''"
    by (simp_all add: demo_bridge_env_def Let_def)
  show ?thesis using moves_stay_below_media_root [OF demo_names demo_bridge_run] unfolding dirs by blast
qed

text \<open>
  A run that breaks off between the move and the import leaves files in the library that Lidarr does
  not know; the next run finds no music in the source and leaves it at that.
\<close>

lemma interrupted_import_is_lost:
  "snd (bridge_main (demo_bridge_env True) []) =
     [Called (proposals_req ''/f/x''), MadeDirs ''/m/a_b/c'', Moved ''/f/x/t'' ''/m/a_b/c/t'',
      Chmod ''/m/a_b/c'' 509, Chmod ''/m/a_b/c/t'' 436, Called (proposals_req ''/m/a_b/c'')]"
  "Moved ''/f/x/t'' ''/m/a_b/c/t'' \<in> set tr \<Longrightarrow>
     bridge_main (demo_bridge_env False) tr = (Inr (), tr @ [Called (proposals_req ''/f/x'')])"
  subgoal by code_simp
  subgoal
    by (simp add: bridge_main_def demo_bridge_env_def Let_def mbind_def listdir_def process_dir_def api_call_def music_of_def path_join_def
        startswith_def endswith_def)
  done

end
