(* ===== verification/Lint.thy ===== *)
theory Lint
  imports PyRe
begin

text \<open>
  The three manifest linters of \<open>tools/\<close>: \<open>lint-envsubst-shell-vars.py\<close> and
  \<open>lint-esphome-config-substitutions.py\<close>, which look for braced references that Flux would substitute,
  and \<open>lint-cnp-empty-rules.py\<close>. The text of a file and the YAML parser are parameters; a parsed
  document is a JSON value, so keys that are no strings and cyclic aliases are out of the model.
\<close>

section \<open>Unescaped references\<close>

definition id_start :: "char \<Rightarrow> bool" where
  "id_start c \<longleftrightarrow> (let n = code_point c in 65 \<le> n \<and> n \<le> 90 \<or> 97 \<le> n \<and> n \<le> 122 \<or> n = 95)"

definition id_char :: "char \<Rightarrow> bool" where
  "id_char c \<longleftrightarrow> id_start c \<or> is_digit c"

definition unescaped_braced :: re where
  "unescaped_braced = seqs [NotAfter (\<lambda>c. c = CHR ''$''), Chr (CHR ''$''), Chr (CHR ''{''),
     Grp 1 (Cat (Cls id_start) (Star (Cls id_char))), Chr (CHR ''}'')]"

definition references :: "string \<Rightarrow> string list" where
  \<comment> \<open>the first group of every match of \<open>finditer\<close>\<close>
  "references s = findall1 unescaped_braced [] s"

section \<open>Shell variables in containers\<close>

definition container_keys :: "string list" where
  "container_keys = [''containers'', ''initContainers'']"

definition script_fields :: "string list" where
  "script_fields = [''command'', ''args'']"

fun listed_containers :: "string \<Rightarrow> json \<Rightarrow> json list" where
  "listed_containers k (JList xs) = (if k \<in> set container_keys then filter is_dict xs else [])"
| "listed_containers k v = []"

fun iter_containers :: "json \<Rightarrow> json list"
  and iter_members :: "dict \<Rightarrow> json list"
  and iter_items :: "json list \<Rightarrow> json list" where
  "iter_containers (JObj kvs) = iter_members kvs"
| "iter_containers (JList xs) = iter_items xs"
| "iter_containers j = []"
| "iter_members [] = []"
| "iter_members ((k, v) # kvs) = listed_containers k v @ iter_containers v @ iter_members kvs"
| "iter_items [] = []"
| "iter_items (x # xs) = iter_containers x @ iter_items xs"

definition members :: "json \<Rightarrow> dict" where
  \<comment> \<open>a container is a dictionary\<close>
  "members c = (case c of JObj d \<Rightarrow> d | _ \<Rightarrow> [])"

definition container_name :: "json \<Rightarrow> string" where
  "container_name c = (case get (members c) ''name'' of JStr s \<Rightarrow> s | _ \<Rightarrow> ''<unnamed>'')"

definition script_texts :: "json \<Rightarrow> string list" where
  \<comment> \<open>the entries of a field that are strings\<close>
  "script_texts value =
     (if \<not> truthy value then []
      else concat (map (\<lambda>e. case e of JStr s \<Rightarrow> [s] | _ \<Rightarrow> []) (case value of JList xs \<Rightarrow> xs | _ \<Rightarrow> [value])))"

definition first_seen :: "string list \<Rightarrow> string list" where
  "first_seen ns = rev (remdups (rev ns))"

definition shell_message :: "string \<Rightarrow> json \<Rightarrow> string \<Rightarrow> string list \<Rightarrow> string" where
  "shell_message path c fld seen =
     path @ '': container '' @ sq (container_name c) @ '' '' @ fld @ '' contains unescaped ''
     @ join '', '' (map (\<lambda>v. ''${'' @ v @ ''}'') seen) @ '' '' @ [em_dash]
     @ '' Flux postBuild envsubst will consume these and fail the Kustomization in strict mode. Write them as ''
     @ join '', '' (map (\<lambda>v. ''$${'' @ v @ ''}'') seen) @ '' instead.''"

definition lint_container :: "string \<Rightarrow> json \<Rightarrow> string list" where
  "lint_container path c =
     concat (map (\<lambda>fld. concat (map (\<lambda>entry.
       let seen = first_seen (references entry) in if seen = [] then [] else [shell_message path c fld seen])
       (script_texts (get (members c) fld)))) script_fields)"

text \<open>A file that cannot be read or parsed has no documents.\<close>

type_synonym yaml_parser = "string \<Rightarrow> json list option"

definition yaml_docs :: "yaml_parser \<Rightarrow> string option \<Rightarrow> json list" where
  "yaml_docs load text = (case Option.bind text load of None \<Rightarrow> [] | Some ds \<Rightarrow> ds)"

definition lint_shell_file :: "yaml_parser \<Rightarrow> string \<Rightarrow> string option \<Rightarrow> string list" where
  "lint_shell_file load path text =
     concat (map (\<lambda>doc. if truthy doc then concat (map (lint_container path) (iter_containers doc)) else [])
       (yaml_docs load text))"

section \<open>Substitutions in ESPHome configurations\<close>

definition has_lower :: "string \<Rightarrow> bool" where
  "has_lower s \<longleftrightarrow> list_ex (\<lambda>c. let n = code_point c in 97 \<le> n \<and> n \<le> 122) s"

definition esphome_message :: "string \<Rightarrow> nat \<Rightarrow> string \<Rightarrow> string" where
  "esphome_message path lineno v =
     path @ '':'' @ nat_str lineno @ '': unescaped ESPHome substitution ${'' @ v @ ''} '' @ [em_dash]
     @ '' Flux postBuild envsubst runs in strict mode over the esphome-devices ConfigMap and will fail the Kustomization. Write it as $${''
     @ v @ ''} instead.''"

definition lint_esphome_file :: "string \<Rightarrow> string option \<Rightarrow> string list" where
  "lint_esphome_file path text =
     (case text of
        None \<Rightarrow> []
      | Some t \<Rightarrow> concat (map (\<lambda>(lineno, line). map (esphome_message path lineno) (filter has_lower (references line)))
                         (enumerate 1 (splitlines t))))"

section \<open>Cilium policies without rules\<close>

definition is_cnp :: "json \<Rightarrow> bool res" where
  \<comment> \<open>the test in a set raises on a value that cannot be hashed\<close>
  "is_cnp doc =
     (case doc of
        JObj d \<Rightarrow>
          if \<not> hashable (get d ''kind'') then Inl (TypeError (''unhashable type: '' @ repr_str (type_name (get d ''kind''))))
          else Inr (get d ''kind'' \<in> {JStr ''CiliumNetworkPolicy'', JStr ''CiliumClusterwideNetworkPolicy''}
            \<and> (case get d ''apiVersion'' of JStr s \<Rightarrow> startswith s ''cilium.io/'' | _ \<Rightarrow> False))
      | _ \<Rightarrow> Inr False)"

definition has_endpoint_selector :: "dict \<Rightarrow> bool" where
  "has_endpoint_selector spec \<longleftrightarrow>
     truthy (get spec ''nodeSelector'')
     \<or> (case get spec ''endpointSelector'' of
          JNull \<Rightarrow> False
        | JObj es \<Rightarrow> es = [] \<or> truthy (get es ''matchLabels'') \<or> truthy (get es ''matchExpressions'')
        | _ \<Rightarrow> True)"

definition has_rules :: "dict \<Rightarrow> bool" where
  "has_rules spec \<longleftrightarrow>
     list_ex (\<lambda>k. case get spec k of JList xs \<Rightarrow> xs \<noteq> [] | _ \<Rightarrow> False) [''ingress'', ''egress'', ''ingressDeny'', ''egressDeny'']"

definition meta_text :: "dict \<Rightarrow> string \<Rightarrow> string \<Rightarrow> string" where
  "meta_text d k dflt = (case get d ''metadata'' of JObj m \<Rightarrow> py_str (get_or m k (JStr dflt)) | _ \<Rightarrow> dflt)"

definition cnp_message :: "string \<Rightarrow> nat \<Rightarrow> nat \<Rightarrow> dict \<Rightarrow> string" where
  "cnp_message path n idx d =
     path @ (if 1 < n then '' (doc '' @ nat_str idx @ '')'' else []) @ '': '' @ py_str (get d ''kind'') @ '' ''
     @ meta_text d ''namespace'' ''<no-ns>'' @ ''/'' @ meta_text d ''name'' ''<unnamed>''
     @ '' selects endpoints but has no ingress/egress rules '' @ [em_dash] @ '' Cilium 1.19 will reject with ''
     @ sq ''spec.ingress: Required value'' @ ''. Either delete the CNP (baseline allows still apply) or add the minimal explicit ingress rule for the dominant flow.''"

definition lint_cnp_doc :: "string \<Rightarrow> nat \<Rightarrow> nat \<times> json \<Rightarrow> string list res" where
  "lint_cnp_doc path n x =
     (case x of (idx, doc) \<Rightarrow> rbind (is_cnp doc) (\<lambda>cnp.
        if \<not> cnp then Inr []
        else (case get (members doc) ''spec'' of
            JObj spec \<Rightarrow> Inr (if has_endpoint_selector spec \<and> \<not> has_rules spec then [cnp_message path n idx (members doc)] else [])
          | _ \<Rightarrow> Inr [])))"

definition lint_cnp_file :: "yaml_parser \<Rightarrow> string \<Rightarrow> string option \<Rightarrow> string list res" where
  "lint_cnp_file load path text =
     (let docs = yaml_docs load text in
      rbind (rmap (lint_cnp_doc path (length docs)) (enumerate 0 docs)) (\<lambda>es. Inr (concat es)))"

text \<open>The exit code of each linter over its files.\<close>

definition lint_exit :: "(string \<Rightarrow> string option \<Rightarrow> string list res) \<Rightarrow> (string \<times> string option) list \<Rightarrow> nat res" where
  "lint_exit lint files =
     rbind (rmap (\<lambda>(path, text). lint path text) files) (\<lambda>es. Inr (if concat es \<noteq> [] then 1 else 0))"

section \<open>What is found\<close>

definition is_ident :: "string \<Rightarrow> bool" where
  "is_ident n \<longleftrightarrow> n \<noteq> [] \<and> id_start (hd n) \<and> (\<forall>c\<in>set (tl n). id_char c)"

definition braced :: "string \<Rightarrow> string" where
  "braced n = ''${'' @ n @ ''}''"

lemma group_matches:
  "m \<in> set (matches (Grp k r) (p, s, c)) \<longleftrightarrow>
     (\<exists>p' s' c'. (p', s', c') \<in> set (matches r (p, s, c)) \<and> m = (p', s', AList.update k (take (length s - length s') s) c'))"
  by force

lemma ident_matches:
  "m \<in> set (matches (Grp 1 (Cat (Cls id_start) (Star (Cls id_char)))) (p, s, [])) \<longleftrightarrow>
     (\<exists>n u. s = n @ u \<and> is_ident n \<and> m = (rev n @ p, u, [(1, n)]))"
proof -
  have *: "m1 \<in> set (matches (Cat (Cls id_start) (Star (Cls id_char))) (p, s, [])) \<longleftrightarrow>
      (\<exists>n u. s = n @ u \<and> is_ident n \<and> m1 = (rev n @ p, u, []))" for m1
  proof (cases s)
    case (Cons x xs)
    have "m1 \<in> set (matches (Cat (Cls id_start) (Star (Cls id_char))) (p, s, [])) \<longleftrightarrow>
        id_start x \<and> m1 \<in> set (matches (Star (Cls id_char)) (x # p, xs, []))"
      by (simp add: Cons)
    also have "\<dots> \<longleftrightarrow> (\<exists>n u. s = n @ u \<and> is_ident n \<and> m1 = (rev n @ p, u, []))"
      by (subst star_class) (auto simp: Cons is_ident_def Cons_eq_append_conv)
    finally show ?thesis .
  qed (simp add: is_ident_def)
  show ?thesis unfolding group_matches * by auto
qed

lemma braced_matches:
  "m \<in> set (matches unescaped_braced (p, s, [])) \<longleftrightarrow>
     (p = [] \<or> hd p \<noteq> CHR ''$'')
     \<and> (\<exists>n u. s = braced n @ u \<and> is_ident n \<and> m = (rev (braced n) @ p, u, [(1, n)]))"
proof -
  let ?g = "Grp 1 (Cat (Cls id_start) (Star (Cls id_char)))"
  have "m \<in> set (matches unescaped_braced (p, s, [])) \<longleftrightarrow>
      (p = [] \<or> hd p \<noteq> CHR ''$'') \<and> (\<exists>t m1. s = CHR ''$'' # CHR ''{'' # t \<and> m1 \<in> set (matches ?g (CHR ''{'' # CHR ''$'' # p, t, []))
        \<and> m \<in> set (matches (Chr (CHR ''}'')) m1))"
    unfolding unescaped_braced_def
    by (cases s; cases "tl s") (auto simp del: matches.simps(7) split: if_splits)
  also have "\<dots> \<longleftrightarrow> (p = [] \<or> hd p \<noteq> CHR ''$'')
     \<and> (\<exists>n u. s = braced n @ u \<and> is_ident n \<and> m = (rev (braced n) @ p, u, [(1, n)]))"
    unfolding ident_matches by (auto simp: braced_def split: list.splits if_splits)
  finally show ?thesis .
qed

text \<open>Where a reference stands: not after a dollar sign.\<close>

definition refers :: "string \<Rightarrow> string \<Rightarrow> bool" where
  "refers s n \<longleftrightarrow> is_ident n \<and> (\<exists>t u. s = t @ braced n @ u \<and> (t = [] \<or> last t \<noteq> CHR ''$''))"

lemma braced_inj:
  assumes "braced n @ u = braced n' @ u'" "is_ident n" "is_ident n'"
  shows "n = n' \<and> u = u'"
proof -
  have brace: "CHR ''}'' \<notin> set n" if "is_ident n" for n
    using that by (cases n) (auto simp: is_ident_def id_char_def id_start_def is_digit_def code_point_def)
  from assms(1) have "n @ CHR ''}'' # u = n' @ CHR ''}'' # u'" by (simp add: braced_def)
  moreover have "takeWhile (\<lambda>c. c \<noteq> CHR ''}'') (n @ CHR ''}'' # u) = n" if "is_ident n" for n u
    using brace [OF that] by (subst takeWhile_append2) auto
  ultimately have "n = n'" using assms(2,3) by metis
  with assms(1) show ?thesis by simp
qed

lemma dollar_in_braced:
  assumes "braced n = x @ CHR ''$'' # y" "is_ident n"
  shows "x = []"
proof (rule ccontr)
  assume "x \<noteq> []"
  with assms(1) have "CHR ''$'' \<in> set (CHR ''{'' # n @ ''}'')"
    by (cases x) (auto simp: braced_def)
  with assms(2) show False
    by (cases n) (auto simp: is_ident_def id_char_def id_start_def is_digit_def code_point_def)
qed

lemma findall_references:
  "set (findall1 unescaped_braced p s) =
     {n. is_ident n \<and> (\<exists>t u. s = t @ braced n @ u \<and> (rev t @ p = [] \<or> hd (rev t @ p) \<noteq> CHR ''$''))}"
  (is "_ = ?R p s")
proof (induction "unescaped_braced" p s rule: findall1.induct)
  case (1 p s)
  show ?case
  proof (cases "re_search_from unescaped_braced p s")
    case None
    have "n \<notin> ?R p s" for n
    proof
      assume "n \<in> ?R p s"
      then obtain t u where n: "is_ident n" "s = t @ braced n @ u" "rev t @ p = [] \<or> hd (rev t @ p) \<noteq> CHR ''$''" by blast
      then have "(rev (braced n) @ rev t @ p, u, [(1, n)]) \<in> set (matches unescaped_braced (rev t @ p, braced n @ u, []))"
        unfolding braced_matches by blast
      with re_search_from_None [OF None n(2)] show False by simp
    qed
    then have "?R p s = {}" by blast
    with None show ?thesis by (simp add: findall1.simps)
  next
    case (Some im)
    obtain i m where im: "im = (i, m)" by (cases im)
    from re_search_from_Some [OF Some [unfolded im]] obtain t w where
        t: "s = t @ w" "i = length p + length t" "m \<in> set (matches unescaped_braced (rev t @ p, w, []))"
      by blast
    then obtain n u where n: "w = braced n @ u" "is_ident n" "m = (rev (braced n) @ rev t @ p, u, [(1, n)])"
        "rev t @ p = [] \<or> hd (rev t @ p) \<noteq> CHR ''$''"
      unfolding braced_matches by blast
    have len: "length (pos_rest m) < length s" using t(1) n by (simp add: braced_def)
    have list: "findall1 unescaped_braced p s = n # findall1 unescaped_braced (rev (braced n) @ rev t @ p) u"
      using Some im len n(3) by (subst findall1.simps) (simp add: group_def)
    have IH: "set (findall1 unescaped_braced (rev (braced n) @ rev t @ p) u) = ?R (rev (braced n) @ rev t @ p) u"
      using 1 [OF Some [unfolded im] refl len] n(3) by simp
    have "n' \<in> ?R p s \<longleftrightarrow> n' = n \<or> n' \<in> ?R (rev (braced n) @ rev t @ p) u" for n'
    proof
      assume "n' = n \<or> n' \<in> ?R (rev (braced n) @ rev t @ p) u"
      then show "n' \<in> ?R p s"
      proof
        assume "n' = n"
        with t(1) n(1,2,4) show ?thesis by blast
      next
        assume "n' \<in> ?R (rev (braced n) @ rev t @ p) u"
        then obtain t' u' where "is_ident n'" "u = t' @ braced n' @ u'"
            "hd (rev t' @ rev (braced n) @ rev t @ p) \<noteq> CHR ''$''"
          by (auto simp: braced_def)
        then show ?thesis
          using t(1) n(1) by (intro CollectI conjI exI [of _ "t @ braced n @ t'"] exI [of _ u']) auto
      qed
    next
      assume "n' \<in> ?R p s"
      then obtain t' u' where n': "is_ident n'" "s = t' @ braced n' @ u'" "rev t' @ p = [] \<or> hd (rev t' @ p) \<noteq> CHR ''$''"
        by blast
      then have "matches unescaped_braced (rev t' @ p, braced n' @ u', []) \<noteq> []"
        using braced_matches [of _ "rev t' @ p" "braced n' @ u'"] by fastforce
      with re_search_from_earliest [OF Some [unfolded im] n'(2)] t(2) have "length t \<le> length t'" by simp
      then obtain x where x: "t' = t @ x"
        using t(1) n'(2) by (metis append_eq_append_conv_if append_take_drop_id)
      have eq: "braced n @ u = x @ braced n' @ u'" using t(1) n(1) n'(2) x by simp
      from eq obtain us where "braced n = x @ us \<and> us @ u = braced n' @ u' \<or> braced n @ us = x \<and> u = us @ braced n' @ u'"
        unfolding append_eq_append_conv2 by blast
      then have "(\<exists>y. braced n = x @ y \<and> y \<noteq> [] \<and> y @ u = braced n' @ u') \<or> (\<exists>z. x = braced n @ z \<and> u = z @ braced n' @ u')"
        by (cases "us = []") auto
      then consider y where "braced n = x @ y" "y \<noteq> []" "y @ u = braced n' @ u'"
        | z where "x = braced n @ z" "u = z @ braced n' @ u'"
        by blast
      then show "n' = n \<or> n' \<in> ?R (rev (braced n) @ rev t @ p) u"
      proof cases
        case (1 y)
        then obtain y' where y: "y = CHR ''$'' # y'" by (cases y) (auto simp: braced_def)
        have "x = []" using dollar_in_braced [OF _ n(2)] 1(1) y by blast
        with eq have "braced n @ u = braced n' @ u'" by simp
        with braced_inj n(2) n'(1) have "n = n'" by blast
        then show ?thesis by simp
      next
        case z: (2 z)
        have "hd (rev z @ rev (braced n) @ rev t @ p) \<noteq> CHR ''$''"
          using n'(3) x z(1) by (auto simp: braced_def)
        with n'(1) z(2) show ?thesis by blast
      qed
    qed
    then show ?thesis unfolding list using IH by auto
  qed
qed

lemma set_references: "set (references s) = {n. refers s n}"
  unfolding references_def findall_references refers_def by (auto simp: hd_rev)

section \<open>The linter of shell variables\<close>

text \<open>A container of a document: a dictionary in a list under a key of containers, at any depth.\<close>

inductive within :: "json \<Rightarrow> json \<Rightarrow> bool" where
  here: "within v v"
| member: "(k, w) \<in> set kvs \<Longrightarrow> within v w \<Longrightarrow> within v (JObj kvs)"
| item: "w \<in> set xs \<Longrightarrow> within v w \<Longrightarrow> within v (JList xs)"

inductive_simps within_simps:
  "within v (JObj kvs)" "within v (JList xs)" "within v JNull" "within v (JBool b)" "within v (JInt i)"
  "within v (JFloat t)" "within v (JStr s)"

definition container_in :: "json \<Rightarrow> json \<Rightarrow> bool" where
  "container_in c doc \<longleftrightarrow>
     (\<exists>kvs k xs. within (JObj kvs) doc \<and> k \<in> set container_keys \<and> (k, JList xs) \<in> set kvs \<and> c \<in> set xs \<and> is_dict c)"

lemma listed_iff: "c \<in> set (listed_containers k v) \<longleftrightarrow> (\<exists>xs. v = JList xs \<and> k \<in> set container_keys \<and> c \<in> set xs \<and> is_dict c)"
  by (cases v) auto

lemma container_in_obj:
  "container_in c (JObj kvs) \<longleftrightarrow> (\<exists>k v. (k, v) \<in> set kvs \<and> (c \<in> set (listed_containers k v) \<or> container_in c v))"
proof
  assume "container_in c (JObj kvs)"
  then obtain kvs' k xs where c: "within (JObj kvs') (JObj kvs)" "k \<in> set container_keys" "(k, JList xs) \<in> set kvs'" "c \<in> set xs" "is_dict c"
    unfolding container_in_def by blast
  from c(1) show "\<exists>k v. (k, v) \<in> set kvs \<and> (c \<in> set (listed_containers k v) \<or> container_in c v)"
  proof cases
    case here
    with c show ?thesis unfolding listed_iff by blast
  next
    case (member k w)
    with c show ?thesis unfolding container_in_def by blast
  qed
next
  assume "\<exists>k v. (k, v) \<in> set kvs \<and> (c \<in> set (listed_containers k v) \<or> container_in c v)"
  then show "container_in c (JObj kvs)"
    unfolding container_in_def listed_iff by (blast intro: within.intros)
qed

lemma container_in_list: "container_in c (JList xs) \<longleftrightarrow> (\<exists>v\<in>set xs. container_in c v)"
  unfolding container_in_def within_simps by blast

lemma iter_containers_iff:
  "c \<in> set (iter_containers doc) \<longleftrightarrow> container_in c doc"
  "c \<in> set (iter_members kvs) \<longleftrightarrow> (\<exists>(k, v)\<in>set kvs. c \<in> set (listed_containers k v) \<or> container_in c v)"
  "c \<in> set (iter_items xs) \<longleftrightarrow> (\<exists>v\<in>set xs. container_in c v)"
proof (induction doc and kvs and xs rule: iter_containers_iter_members_iter_items.induct)
  case (1 kvs)
  then show ?case by (auto simp: container_in_obj)
next
  case (2 xs)
  then show ?case by (simp add: container_in_list)
qed (auto simp: container_in_def within_simps)

lemma concat_map_nonempty: "concat (map f xs) \<noteq> [] \<longleftrightarrow> (\<exists>x\<in>set xs. f x \<noteq> [])"
  by (induction xs) auto

text \<open>
  Property C23. The linter of shell variables finds something in a file exactly if a document of it has,
  at any depth, a container whose command or arguments have a text with a braced reference that does
  not follow a dollar sign.
\<close>

theorem lint_shell_finds:
  "lint_shell_file load path text \<noteq> [] \<longleftrightarrow>
     (\<exists>doc c fld entry n. doc \<in> set (yaml_docs load text) \<and> container_in c doc \<and> fld \<in> {''command'', ''args''}
        \<and> entry \<in> set (script_texts (get (members c) fld)) \<and> refers entry n)"
proof -
  have seen: "first_seen (references e) = [] \<longleftrightarrow> (\<nexists>n. refers e n)" for e
    using set_references [of e] by (auto simp: first_seen_def set_empty [symmetric] simp del: set_empty)
  have truthy: "truthy doc" if "container_in c doc" for c doc
    using that by (cases doc) (auto simp: container_in_def within_simps)
  have "lint_shell_file load path text \<noteq> [] \<longleftrightarrow>
      (\<exists>doc\<in>set (yaml_docs load text). truthy doc \<and> (\<exists>c. container_in c doc \<and> lint_container path c \<noteq> []))"
    unfolding lint_shell_file_def concat_map_nonempty iter_containers_iff(1) [symmetric]
    by (auto simp: concat_map_nonempty simp del: concat_eq_Nil_conv)
  also have "\<dots> \<longleftrightarrow> (\<exists>doc c. doc \<in> set (yaml_docs load text) \<and> container_in c doc \<and> lint_container path c \<noteq> [])"
    using truthy by blast
  also have "\<dots> \<longleftrightarrow> (\<exists>doc c fld entry n. doc \<in> set (yaml_docs load text) \<and> container_in c doc \<and> fld \<in> {''command'', ''args''}
        \<and> entry \<in> set (script_texts (get (members c) fld)) \<and> refers entry n)"
    unfolding lint_container_def script_fields_def concat_map_nonempty Let_def by (simp add: seen) blast
  finally show ?thesis .
qed

text \<open>
  The linter of ESPHome substitutions, line by line.
\<close>

lemma lint_esphome_finds:
  "lint_esphome_file path (Some t) \<noteq> [] \<longleftrightarrow> (\<exists>line\<in>set (splitlines t). \<exists>n. refers line n \<and> has_lower n)"
proof -
  have "filter has_lower (references line) = [] \<longleftrightarrow> (\<nexists>n. refers line n \<and> has_lower n)" for line
    using set_references [of line] by (auto simp: filter_empty_conv)
  moreover have "(\<exists>x\<in>set (enumerate 1 ls). P (snd x)) \<longleftrightarrow> (\<exists>l\<in>set ls. P l)" for ls :: "string list" and P
    by (metis (no_types) image_iff list.set_map map_snd_enumerate)
  ultimately show ?thesis
    by (simp add: lint_esphome_file_def case_prod_beta)
qed

end
