(* ===== verification/RickTags.thy ===== *)
theory RickTags
  imports PyRe PyPath
begin

text \<open>
  The names and the tags of \<open>rick-library-mcp/server.py\<close>: the two normal forms of an artist name, the
  relation of names, the reading of the four tags of a track, and the change of the album artist.
  The library \<open>mutagen\<close>, which opens a file and writes its tags back, is a parameter.
\<close>

section \<open>Names\<close>

text \<open>
  \<open>NFKD\<close> without the combining characters, of the characters of the model. The fraction slash of a
  vulgar fraction stands at a control code.
\<close>

definition base_letters :: "(nat \<times> nat \<times> string) list" where
  "base_letters = [(0xC0, 0xC5, ''A''), (0xC7, 0xC7, ''C''), (0xC8, 0xCB, ''E''), (0xCC, 0xCF, ''I''), (0xD1, 0xD1, ''N''),
     (0xD2, 0xD6, ''O''), (0xD9, 0xDC, ''U''), (0xDD, 0xDD, ''Y''), (0xE0, 0xE5, ''a''), (0xE7, 0xE7, ''c''), (0xE8, 0xEB, ''e''),
     (0xEC, 0xEF, ''i''), (0xF1, 0xF1, ''n''), (0xF2, 0xF6, ''o''), (0xF9, 0xFC, ''u''), (0xFD, 0xFD, ''y''), (0xFF, 0xFF, ''y''),
     (0xA0, 0xA0, '' ''), (0xA8, 0xA8, '' ''), (0xAA, 0xAA, ''a''), (0xAF, 0xAF, '' ''), (0xB2, 0xB2, ''2''), (0xB3, 0xB3, ''3''),
     (0xB4, 0xB4, '' ''), (0xB8, 0xB8, '' ''), (0xB9, 0xB9, ''1''), (0xBA, 0xBA, ''o''), (0x96, 0x96, ''...''),
     (0xBC, 0xBC, [CHR ''1'', CHR 0x91, CHR ''4'']), (0xBD, 0xBD, [CHR ''1'', CHR 0x91, CHR ''2'']),
     (0xBE, 0xBE, [CHR ''3'', CHR 0x91, CHR ''4''])]"

definition base_form :: "char \<Rightarrow> string" where
  "base_form c =
     (let n = code_point c in
      if n < 128 then [c]
      else case find (\<lambda>(lo, hi, s). lo \<le> n \<and> n \<le> hi) base_letters of Some (_, _, s) \<Rightarrow> s | None \<Rightarrow> [c])"

definition unaccented :: "string \<Rightarrow> string" where
  "unaccented s = concat (map base_form s)"

definition collaborator_re :: re where
  "collaborator_re = seqs [WordB, Grp 1 (alts [Cat (Str ''feat'') (Opt (Chr (CHR ''.''))), Cat (Str ''ft'') (Opt (Chr (CHR ''.''))),
     Str ''featuring'', Str ''&'', Str '','', Str ''with'', Str ''presents'', Cat (Str ''pres'') (Opt (Chr (CHR ''.''))),
     Cat (Str ''vs'') (Opt (Chr (CHR ''.''))), Str ''x '']), WordB]"

definition first_part :: "re \<Rightarrow> string \<Rightarrow> string" where
  \<comment> \<open>\<open>re.split(r, s)[0]\<close>\<close>
  "first_part r s = (case re_search r s of None \<Rightarrow> s | Some (i, _) \<Rightarrow> take i s)"

definition lower_alnum :: "char \<Rightarrow> bool" where
  "lower_alnum c \<longleftrightarrow> (let n = code_point c in 97 \<le> n \<and> n \<le> 122 \<or> 48 \<le> n \<and> n \<le> 57)"

definition alnum_form :: "string \<Rightarrow> string" where
  \<comment> \<open>\<open>_norm\<close>\<close>
  "alnum_form s = filter lower_alnum (first_part collaborator_re (lower (unaccented s)))"

fun one_space :: "string \<Rightarrow> string" where
  \<comment> \<open>\<open>re.sub(r"\s+", " ", s)\<close>\<close>
  "one_space [] = []"
| "one_space (c # cs) =
     (if is_space c then (case cs of [] \<Rightarrow> '' '' | d # _ \<Rightarrow> if is_space d then one_space cs else CHR '' '' # one_space cs)
      else c # one_space cs)"

definition case_form :: "string \<Rightarrow> string" where
  \<comment> \<open>\<open>_casenorm\<close>\<close>
  "case_form s = one_space (lower (strip (unaccented s)))"

definition related :: "string \<Rightarrow> string \<Rightarrow> bool" where
  "related a b \<longleftrightarrow>
     case_form a \<noteq> [] \<and> case_form a = case_form b
     \<or> (let na = alnum_form a; nb = alnum_form b in
          na \<noteq> [] \<and> nb \<noteq> [] \<and> (na = nb \<or> contains nb na \<or> contains na nb))"

definition various_names :: "string list" where
  "various_names = [''various'', ''variousartists'', ''va'', ''compilation'', ''compilations'', ''ost'', ''soundtrack'']"

definition various_re :: re where
  "various_re = seqs [Bol, Star Space, Grp 1 (Alt (StrI ''va'') (StrI ''various'')), WordB]"

definition is_various :: "string \<Rightarrow> bool" where
  "is_various name \<longleftrightarrow> alnum_form name \<in> set various_names \<or> re_match various_re name \<noteq> None"

section \<open>Tags\<close>

text \<open>
  A value of the tags is a list or text, or a frame with its \<open>text\<close> (\<open>None\<close> if it has none) and
  its \<open>str\<close>. The tags of a file have a class, and may be missing.
\<close>

datatype tag_value = Plain json | Frame json string

type_synonym tagging = "string \<times> (string \<times> tag_value) list"

record mutagen =
  mg_easy :: "path \<Rightarrow> string \<Rightarrow> dict option res"
  mg_open :: "path \<Rightarrow> string \<Rightarrow> tagging option option res"
  mg_add_tags :: "path \<Rightarrow> string \<Rightarrow> tagging res"
  mg_save :: "path \<Rightarrow> string \<Rightarrow> (string \<times> tag_value) list \<Rightarrow> string res"

text \<open>\<open>_first\<close>, of a JSON-like value: the first of a list, and nothing for a false value.\<close>

definition first_value :: "json \<Rightarrow> string option" where
  "first_value v =
     (let w = (case v of JList [] \<Rightarrow> JNull | JList (x # _) \<Rightarrow> x | _ \<Rightarrow> v)
      in if truthy w then Some (py_str w) else None)"

fun first_of :: "tag_value \<Rightarrow> string option" where
  \<comment> \<open>a frame is an object, and true\<close>
  "first_of (Plain v) = first_value v"
| "first_of (Frame _ s) = Some s"

definition frame_text :: "tag_value \<Rightarrow> string option" where
  \<comment> \<open>\<open>_first(getattr(v, "text", None) or v)\<close>\<close>
  "frame_text v = (case v of Frame t s \<Rightarrow> if truthy t then first_value t else Some s | Plain j \<Rightarrow> first_value j)"

definition frame_only :: "tag_value \<Rightarrow> string option" where
  \<comment> \<open>\<open>_first(getattr(v, "text", None))\<close>\<close>
  "frame_only v = (case v of Frame t s \<Rightarrow> first_value t | Plain j \<Rightarrow> None)"

record track_tags =
  tt_artist :: "string option"
  tt_album_artist :: "string option"
  tt_artist_id :: "string option"
  tt_album_artist_id :: "string option"

definition or_tag :: "'a option \<Rightarrow> 'a option \<Rightarrow> 'a option" where
  "or_tag x y = (case x of None \<Rightarrow> y | Some _ \<Rightarrow> x)"

definition easy_tags :: "mutagen \<Rightarrow> path \<Rightarrow> string \<Rightarrow> dict" where
  \<comment> \<open>no tags where the file cannot be opened or has none\<close>
  "easy_tags mg path body = (case mg_easy mg path body of Inr (Some d) \<Rightarrow> d | _ \<Rightarrow> [])"

definition raw_tags :: "mutagen \<Rightarrow> path \<Rightarrow> string \<Rightarrow> (string \<times> tag_value) list" where
  "raw_tags mg path body =
     (case mg_open mg path body of Inr (Some (Some (_, ts))) \<Rightarrow> ts | _ \<Rightarrow> [])"

fun raw_get :: "(string \<times> tag_value) list \<Rightarrow> string list \<Rightarrow> string option" where
  \<comment> \<open>\<open>_rawget\<close>: the first candidate that is a key, up to case; of two such keys the later one\<close>
  "raw_get ts [] = None"
| "raw_get ts (c # cs) =
     (case map_of (rev (map (\<lambda>(k, v). (lower k, v)) ts)) c of Some v \<Rightarrow> first_of v | None \<Rightarrow> raw_get ts cs)"

definition raw_tag :: "(string \<times> tag_value) list \<Rightarrow> string list \<Rightarrow> string \<Rightarrow> (tag_value \<Rightarrow> string option) \<Rightarrow> string option" where
  \<comment> \<open>the candidates, then the frame of the given name\<close>
  "raw_tag ts cands frame f =
     (case raw_get ts cands of
        Some s \<Rightarrow> Some s
      | None \<Rightarrow> (case map_of ts frame of Some v \<Rightarrow> f v | None \<Rightarrow> None))"

definition first_id :: "string option \<Rightarrow> string option" where
  "first_id x =
     (let t = strip (before (CHR '';'') (case x of None \<Rightarrow> [] | Some s \<Rightarrow> s)) in if t = [] then None else Some t)"

definition read_tags :: "mutagen \<Rightarrow> path \<Rightarrow> string \<Rightarrow> track_tags" where
  "read_tags mg path body =
     (let e = (\<lambda>k. first_value (get (easy_tags mg path body) k)); raw = raw_tags mg path body in
      \<lparr>tt_artist = or_tag (e ''artist'') (raw_tag raw [''artist''] ''TPE1'' frame_text),
       tt_album_artist = or_tag (e ''albumartist'') (raw_tag raw [''album_artist'', ''album artist'', ''albumartist''] ''TPE2'' frame_text),
       tt_artist_id = first_id (or_tag (e ''musicbrainz_artistid'')
         (raw_tag raw [''musicbrainz_artistid'', ''musicbrainz artist id''] ''TXXX:MusicBrainz Artist Id'' frame_only)),
       tt_album_artist_id = first_id (or_tag (e ''musicbrainz_albumartistid'')
         (raw_tag raw [''musicbrainz_albumartistid'', ''musicbrainz album artist id''] ''TXXX:MusicBrainz Album Artist Id'' frame_only))\<rparr>)"

definition with_album_artist :: "string \<Rightarrow> string \<Rightarrow> (string \<times> tag_value) list \<Rightarrow> (string \<times> tag_value) list" where
  "with_album_artist cls v ts =
     (let new = Plain (JList [JStr v]) in
      if contains (lower cls) ''id3'' then AList.update ''TPE2'' (Frame (JList [JStr v]) v) ts
      else if contains (lower cls) ''mp4'' then AList.update ''aART'' new ts
      else AList.update ''album_artist'' new (AList.update ''albumartist'' new
             (filter (\<lambda>(k, _). lower k \<notin> {''albumartist'', ''album_artist'', ''album artist''}) ts)))"

definition write_album_artist :: "mutagen \<Rightarrow> path \<Rightarrow> string \<Rightarrow> string \<Rightarrow> string res" where
  \<comment> \<open>the new content of the file\<close>
  "write_album_artist mg path body v =
     rbind (mg_open mg path body) (\<lambda>f. case f of
         None \<Rightarrow> Inl (RuntimeError ''unreadable audio file'')
       | Some tags \<Rightarrow> rbind (case tags of Some x \<Rightarrow> Inr x | None \<Rightarrow> mg_add_tags mg path body) (\<lambda>(cls, ts).
           mg_save mg path body (with_album_artist cls v ts)))"

end
