(* ===== verification/RickLibrary.thy ===== *)
theory RickLibrary
  imports RickTags PyCodec PyJson
begin

text \<open>
  The assessment of an album by \<open>rick-library-mcp/server.py\<close>: the rate-limited and cached access to
  MusicBrainz, the identity of an album and of a folder from the ids that the tracks embed, and the
  action that follows from them. Parameters are MusicBrainz, the library of the tags, the writability of
  a file, its directory's modification time, and the failures of the file system.
\<close>

section \<open>The state\<close>

datatype file_op =
    Listing path
  | MakingDirs path
  | Writing path
  | Appending path
  | Copying path path
  | Replacing path path
  | Moving path path

record rick_env =
  rk_media :: string
  rk_backup :: string
  rk_mutagen :: mutagen
  rk_http :: "(int \<times> string) list \<Rightarrow> string \<Rightarrow> string res \<times> nat"
  rk_writable :: "file_tree \<Rightarrow> path \<Rightarrow> bool"
  rk_mtime :: "file_tree \<Rightarrow> path \<Rightarrow> nat option"
  rk_fault :: "file_tree \<Rightarrow> file_op \<Rightarrow> string option"

text \<open>
  The clock counts microseconds. An answer of MusicBrainz comes with the time it took; what was asked is
  kept with the time of the request. The cache of the identities maps a path to the modification time of
  the directory, the identity, and the time at which it was found.
\<close>

record shelf =
  sh_tree :: file_tree
  sh_cache :: dict
  sh_idents :: "(path \<times> nat \<times> string option \<times> int) list"
  sh_clock :: int
  sh_last :: int
  sh_asked :: "(int \<times> string) list"

definition guarded :: "rick_env \<Rightarrow> file_op \<Rightarrow> (file_tree \<Rightarrow> file_tree res) \<Rightarrow> (unit, shelf) stm" where
  \<comment> \<open>a change of the file system, which may fail and then changes nothing\<close>
  "guarded env x f s =
     (case rk_fault env (sh_tree s) x of
        Some m \<Rightarrow> (Inl (OSError m), s)
      | None \<Rightarrow> (case f (sh_tree s) of Inl e \<Rightarrow> (Inl e, s) | Inr t \<Rightarrow> (Inr (), s\<lparr>sh_tree := t\<rparr>)))"

definition listing :: "rick_env \<Rightarrow> file_tree \<Rightarrow> path \<Rightarrow> string list res" where
  "listing env t d =
     (case rk_fault env t (Listing d) of Some m \<Rightarrow> Inl (OSError m) | None \<Rightarrow> list_dir t d)"

section \<open>MusicBrainz\<close>

definition wait :: "int \<Rightarrow> shelf \<Rightarrow> shelf" where
  "wait n s = s\<lparr>sh_clock := sh_clock s + n\<rparr>"

definition mb_request :: "rick_env \<Rightarrow> string \<Rightarrow> (string, shelf) stm" where
  \<comment> \<open>one attempt, at least 1.1 seconds after the last one\<close>
  "mb_request env url s =
     (let dt = sh_clock s - sh_last s;
          s1 = (if dt < 1100000 then wait (1100000 - dt) s else s);
          (r, took) = rk_http env (sh_asked s1) url
      in (r, s1\<lparr>sh_last := sh_clock s1, sh_asked := sh_asked s1 @ [(sh_clock s1, url)], sh_clock := sh_clock s1 + int took\<rparr>))"

definition body_json :: "string res \<Rightarrow> json" where
  \<comment> \<open>\<open>None\<close> for every failure\<close>
  "body_json r = (case r of Inl _ \<Rightarrow> JNull | Inr b \<Rightarrow> (case loads b of Some j \<Rightarrow> j | None \<Rightarrow> JNull))"

definition mb_get :: "rick_env \<Rightarrow> string \<Rightarrow> shelf \<Rightarrow> json \<times> shelf" where
  "mb_get env url s =
     (case mb_request env url s of
        (Inl (HTTPError c m), s1) \<Rightarrow>
          (if c = 503 then (let (r, s2) = mb_request env url (wait 2000000 s1) in (body_json r, s2)) else (JNull, s1))
      | (r, s1) \<Rightarrow> (body_json r, s1))"

definition mb_cache_path :: "rick_env \<Rightarrow> string" where
  "mb_cache_path env = path_join (rk_backup env) ''mb-cache.json''"

definition load_mb_cache :: "rick_env \<Rightarrow> file_tree \<Rightarrow> json" where
  "load_mb_cache env t =
     (case content t (path_of (mb_cache_path env)) of
        Some b \<Rightarrow> (case loads b of Some j \<Rightarrow> j | None \<Rightarrow> JObj [])
      | None \<Rightarrow> JObj [])"

definition save_mb_cache :: "rick_env \<Rightarrow> shelf \<Rightarrow> shelf" where
  "save_mb_cache env s =
     (let p = path_of (mb_cache_path env); q = path_of (mb_cache_path env @ ''.tmp'') in
      snd (mbind (guarded env (Writing q) (put_file q (dumps_unicode (JObj (sh_cache s))))) (\<lambda>_.
             guarded env (Replacing q p) (replace_file q p)) s))"

definition remember :: "rick_env \<Rightarrow> string \<Rightarrow> json \<Rightarrow> shelf \<Rightarrow> shelf" where
  "remember env k v s = save_mb_cache env (s\<lparr>sh_cache := AList.update k v (sh_cache s)\<rparr>)"

definition case_form_of :: "json \<Rightarrow> string res" where
  \<comment> \<open>\<open>_casenorm\<close> of a value that came from outside\<close>
  "case_form_of j =
     (case j of
        JStr s \<Rightarrow> Inr (case_form s)
      | _ \<Rightarrow> if truthy j then Inl (TypeError (''normalize() argument 2 must be str, not '' @ type_name j)) else Inr (case_form []))"

fun first_exact :: "string \<Rightarrow> json list \<Rightarrow> json res" where
  "first_exact want [] = Inr JNull"
| "first_exact want (a # as) =
     rbind (field a ''id'' JNull) (\<lambda>i.
       if \<not> truthy i then first_exact want as
       else rbind (rbind (field a ''name'' (JStr [])) case_form_of) (\<lambda>f.
              if f = want then Inr i else first_exact want as))"

definition member_or :: "json \<Rightarrow> string \<Rightarrow> json \<Rightarrow> json res" where
  \<comment> \<open>\<open>(d or {}).get(k, default)\<close>\<close>
  "member_or d k dflt = (if truthy d then field d k dflt else Inr dflt)"

definition exact_match :: "string \<Rightarrow> json \<Rightarrow> json res" where
  "exact_match want d =
     rbind (member_or d ''artists'' (JList [])) (\<lambda>as. if truthy as then rbind (iterate as) (first_exact want) else Inr JNull)"

definition mb_api :: string where
  "mb_api = ''https://musicbrainz.org/ws/2/artist''"

definition search_url :: "string \<Rightarrow> string" where
  "search_url name = mb_api @ ''?query='' @ quote_plus (''artist:'' @ [quote] @ name @ [quote]) @ ''&fmt=json&limit=5''"

definition lookup_url :: "string \<Rightarrow> string" where
  "lookup_url mbid = mb_api @ ''/'' @ quote_url mbid @ ''?fmt=json''"

definition mb_name_to_mbid :: "rick_env \<Rightarrow> string \<Rightarrow> (json, shelf) stm" where
  "mb_name_to_mbid env name s =
     (let want = case_form name; key = ''n:'' @ want in
      if want = [] then (Inr JNull, s)
      else (case map_of (sh_cache s) key of
          Some v \<Rightarrow> (Inr v, s)
        | None \<Rightarrow> (let (d, s1) = mb_get env (search_url name) s in
            case exact_match want d of
              Inl e \<Rightarrow> (Inl e, s1)
            | Inr m \<Rightarrow> (Inr m, remember env key m s1))))"

definition mb_mbid_to_name :: "rick_env \<Rightarrow> string \<Rightarrow> (json, shelf) stm" where
  "mb_mbid_to_name env mbid s =
     (let key = ''i:'' @ mbid in
      if mbid = [] then (Inr JNull, s)
      else (case map_of (sh_cache s) key of
          Some v \<Rightarrow> (Inr v, s)
        | None \<Rightarrow> (let (d, s1) = mb_get env (lookup_url mbid) s in
            case member_or d ''name'' JNull of
              Inl e \<Rightarrow> (Inl e, s1)
            | Inr n \<Rightarrow> (Inr n, remember env key n s1))))"

section \<open>Identities\<close>

definition in_order :: "'a list \<Rightarrow> 'a list" where
  \<comment> \<open>the distinct elements by their first occurrence\<close>
  "in_order xs = rev (remdups (rev xs))"

fun most :: "('a \<Rightarrow> nat) \<Rightarrow> 'a list \<Rightarrow> 'a option" where
  \<comment> \<open>\<open>max(xs, key=f)\<close>: the first of the largest\<close>
  "most f [] = None"
| "most f (x # xs) = (case most f xs of None \<Rightarrow> Some x | Some y \<Rightarrow> if f x < f y then Some y else Some x)"

definition dominant :: "string option list \<Rightarrow> string option" where
  "dominant ms =
     (let xs = concat (map (\<lambda>m. case m of Some x \<Rightarrow> if x = [] then [] else [x] | None \<Rightarrow> []) ms)
      in most (count_list xs) (in_order xs))"

definition audio_exts :: "string list" where
  "audio_exts = [''.flac'', ''.mp3'', ''.m4a'', ''.opus'', ''.ogg'', ''.wav'', ''.aac'']"

definition audio_files :: "rick_env \<Rightarrow> file_tree \<Rightarrow> path \<Rightarrow> string list" where
  "audio_files env t d =
     (case listing env t d of
        Inl _ \<Rightarrow> []
      | Inr fs \<Rightarrow> sort (filter (\<lambda>f. lower (extension f) \<in> set audio_exts \<and> is_file t (d @ [f])) fs))"

definition tags_at :: "rick_env \<Rightarrow> file_tree \<Rightarrow> path \<Rightarrow> track_tags" where
  "tags_at env t p = read_tags (rk_mutagen env) p (case content t p of Some b \<Rightarrow> b | None \<Rightarrow> [])"

definition tracks_of :: "rick_env \<Rightarrow> file_tree \<Rightarrow> path \<Rightarrow> track_tags list" where
  "tracks_of env t d = map (\<lambda>f. tags_at env t (d @ [f])) (audio_files env t d)"

definition content_mbid :: "track_tags list \<Rightarrow> string option" where
  "content_mbid ts = or_tag (dominant (map tt_artist_id ts)) (dominant (map tt_album_artist_id ts))"

definition album_identity :: "rick_env \<Rightarrow> path \<Rightarrow> shelf \<Rightarrow> string option \<times> shelf" where
  "album_identity env d s =
     (let mt = (case rk_mtime env (sh_tree s) d of Some n \<Rightarrow> n | None \<Rightarrow> 0);
          fresh = (let i = content_mbid (tracks_of env (sh_tree s) d)
                   in (i, s\<lparr>sh_idents := AList.update d (mt, i, sh_clock s) (sh_idents s)\<rparr>))
      in case map_of (sh_idents s) d of
           Some (mt', i, at) \<Rightarrow> if mt' = mt \<and> sh_clock s - at < 3600000000 then (i, s) else fresh
         | None \<Rightarrow> fresh)"

fun peek :: "rick_env \<Rightarrow> path \<Rightarrow> path \<Rightarrow> string list \<Rightarrow> shelf \<Rightarrow> string option \<times> shelf" where
  "peek env ex sub [] s = (None, s)"
| "peek env ex sub (d # ds) s =
     (if is_dir (sh_tree s) (sub @ [d]) \<and> sub @ [d] \<noteq> ex
      then (case album_identity env (sub @ [d]) s of
              (Some i, s1) \<Rightarrow> (Some i, s1)
            | (None, s1) \<Rightarrow> peek env ex sub ds s1)
      else peek env ex sub ds s)"

fun sample_siblings :: "rick_env \<Rightarrow> path \<Rightarrow> path \<Rightarrow> string list \<Rightarrow> string list \<Rightarrow> shelf \<Rightarrow> string list \<times> shelf" where
  \<comment> \<open>the identities of at most six siblings; a directory that cannot be listed ends the walk\<close>
  "sample_siblings env ex dir [] ms s = (ms, s)"
| "sample_siblings env ex dir (n # ns) ms s =
     (let sub = dir @ [n];
          next_one = (\<lambda>(i, s1). case i of
              None \<Rightarrow> sample_siblings env ex dir ns ms s1
            | Some m \<Rightarrow> if 6 \<le> length (ms @ [m]) then (ms @ [m], s1) else sample_siblings env ex dir ns (ms @ [m]) s1)
      in if \<not> is_dir (sh_tree s) sub \<or> sub = ex then sample_siblings env ex dir ns ms s
         else (case album_identity env sub s of
             (Some m, s1) \<Rightarrow> next_one (Some m, s1)
           | (None, s1) \<Rightarrow>
               (case listing env (sh_tree s1) sub of
                  Inl _ \<Rightarrow> (ms, s1)
                | Inr ds \<Rightarrow> next_one (peek env ex sub (sort ds) s1))))"

definition folder_mbid :: "rick_env \<Rightarrow> string \<Rightarrow> path \<Rightarrow> shelf \<Rightarrow> string option \<times> shelf" where
  "folder_mbid env folder ex s =
     (let dir = path_of (path_join (rk_media env) folder) in
      case listing env (sh_tree s) dir of
        Inl _ \<Rightarrow> (None, s)
      | Inr ns \<Rightarrow> (let (ms, s1) = sample_siblings env ex dir (sort ns) [] s in (dominant (map Some ms), s1)))"

section \<open>The assessment\<close>

definition texts_json :: "string list \<Rightarrow> json" where
  "texts_json xs = JList (map JStr xs)"

definition distinct_texts :: "string option list \<Rightarrow> string list" where
  \<comment> \<open>the set of the true ones, sorted\<close>
  "distinct_texts xs = sort (remdups (concat (map (\<lambda>x. case x of Some s \<Rightarrow> if s = [] then [] else [s] | None \<Rightarrow> []) xs)))"

definition the_only :: "'a list \<Rightarrow> 'a option" where
  "the_only xs = (case xs of [x] \<Rightarrow> Some x | _ \<Rightarrow> None)"

definition mbid_json :: "string option \<Rightarrow> json" where
  "mbid_json x = (case x of Some s \<Rightarrow> JStr s | None \<Rightarrow> JNull)"

definition advice :: "string \<Rightarrow> string \<Rightarrow> string \<Rightarrow> dict" where
  "advice action confidence reason = [(''action'', JStr action), (''confidence'', JStr confidence), (''reason'', JStr reason)]"

definition retag_to :: "string \<Rightarrow> string \<Rightarrow> dict" where
  "retag_to folder reason =
     [(''action'', JStr ''retag''), (''target'', JStr folder), (''confidence'', JStr ''HIGH''),
      (''recommend'', JObj [(''set_album_artist'', JStr folder)]), (''reason'', JStr reason)]"

definition relocate_to :: "string \<Rightarrow> dict" where
  "relocate_to target =
     [(''action'', JStr ''relocate''), (''target'', JStr target), (''confidence'', JStr ''HIGH''),
      (''reason'', JStr (''content MBID differs from the folder''@ [CHR 0x27] @ ''s MBID; relocate to '' @ target))]"

definition folder_agrees :: "string list \<Rightarrow> string \<Rightarrow> bool" where
  \<comment> \<open>\<open>folder_matches_artist\<close>\<close>
  "folder_agrees arts folder \<longleftrightarrow> arts \<noteq> [] \<and> list_all (\<lambda>a. related a folder) arts"

definition relates_to :: "json \<Rightarrow> string \<Rightarrow> bool res" where
  \<comment> \<open>\<open>_related\<close> of a value that came from outside\<close>
  "relates_to j folder =
     (case j of
        JStr s \<Rightarrow> Inr (related s folder)
      | _ \<Rightarrow> rbind (case_form_of j) (\<lambda>_. Inr (related [] folder)))"

definition holds_for :: "('a \<Rightarrow> bool) \<Rightarrow> 'a option \<Rightarrow> bool" where
  "holds_for P x \<longleftrightarrow> (case x of Some a \<Rightarrow> P a | None \<Rightarrow> False)"

definition other_artist :: "rick_env \<Rightarrow> string \<Rightarrow> string option \<Rightarrow> string \<Rightarrow> (dict, shelf) stm" where
  \<comment> \<open>the content is another artist than the folder\<close>
  "other_artist env mbid artist folder =
     mbind (mb_mbid_to_name env mbid) (\<lambda>n.
       let target = (if truthy n then n else mbid_json artist);
           unresolved = advice ''leave'' ''PROPOSE'' ''content differs from folder by MBID but the target name could not be resolved''
       in if \<not> truthy target then mlift (Inr unresolved)
          else mbind (mlift (relates_to target folder)) (\<lambda>r.
                 mlift (Inr (if r then unresolved else relocate_to (py_str target)))))"

definition by_mbid :: "rick_env \<Rightarrow> json \<Rightarrow> string \<Rightarrow> string option \<Rightarrow> string option \<Rightarrow> string \<Rightarrow> (dict, shelf) stm" where
  "by_mbid env fm cm album_artist artist folder =
     (if fm = JStr cm
      then mlift (Inr (if holds_for (\<lambda>a. related a folder) album_artist
             then advice ''leave'' ''SUPPRESS'' ''content, folder and album_artist agree (MBID-confirmed)''
             else retag_to folder ''MBID says the content is the folder artist; album_artist is corrupt -> retag to folder''))
      else other_artist env cm artist folder)"

definition by_text :: "string list \<Rightarrow> string option \<Rightarrow> string \<Rightarrow> dict" where
  "by_text arts album_artist folder =
     (if folder_agrees arts folder \<and> holds_for (\<lambda>a. \<not> related a folder) album_artist
      then retag_to folder ''text fallback: ARTIST agrees with folder, album_artist is the odd one -> retag''
      else advice ''leave'' ''PROPOSE'' ''could not reliably identify (no usable MBID, no clear text signal); left unchanged'')"

definition folder_identity :: "rick_env \<Rightarrow> string \<Rightarrow> path \<Rightarrow> (json, shelf) stm" where
  \<comment> \<open>from the sibling albums, else from the search by name\<close>
  "folder_identity env folder album s =
     (case folder_mbid env folder album s of
        (Some m, s1) \<Rightarrow> (Inr (JStr m), s1)
      | (None, s1) \<Rightarrow> mb_name_to_mbid env folder s1)"

definition album_base :: "string \<Rightarrow> string \<Rightarrow> string list \<Rightarrow> dict" where
  "album_base rel folder files =
     [(''path'', JStr rel), (''artist_folder'', JStr folder), (''track_count'', JInt (int (length files)))]"

definition assess :: "rick_env \<Rightarrow> path \<Rightarrow> string \<Rightarrow> string \<Rightarrow> (dict, shelf) stm" where
  "assess env album rel folder s =
     (let files = audio_files env (sh_tree s) album; base = album_base rel folder files in
      if files = [] then (Inr (base @ advice ''skip'' ''SKIP'' ''no audio files in directory''), s)
      else if is_various folder then (Inr (base @ advice ''leave'' ''SUPPRESS'' ''various-artists / compilation bucket''), s)
      else (let tracks = tracks_of env (sh_tree s) album;
                arts = distinct_texts (map tt_artist tracks); aas = distinct_texts (map tt_album_artist tracks);
                aa = the_only aas; art = the_only arts; cm = content_mbid tracks;
                base1 = base @ [(''distinct_artist_tags'', texts_json arts), (''distinct_album_artist_tags'', texts_json aas)] in
        if holds_for is_various aa
        then (Inr (base1 @ advice ''leave'' ''SUPPRESS'' ''compilation album_artist''), s)
        else mbind (folder_identity env folder album) (\<lambda>fm.
          let base2 = base1 @ [(''mb'', JObj [(''folder_mbid'', fm), (''content_mbid'', mbid_json cm)])] in
          case cm of
            Some m \<Rightarrow> (if truthy fm then mbind (by_mbid env fm m aa art folder) (\<lambda>v. mlift (Inr (base2 @ v)))
                       else mlift (Inr (base2 @ by_text arts aa folder)))
          | None \<Rightarrow> mlift (Inr (base2 @ by_text arts aa folder))) s))"

section \<open>The entry points that read\<close>

definition safe_album :: "rick_env \<Rightarrow> string \<Rightarrow> (path \<times> string \<times> string) res" where
  "safe_album env p =
     rbind (realpath (if startswith p ''/'' then p else path_join (rk_media env) p)) (\<lambda>ap.
     rbind (realpath (rk_media env)) (\<lambda>root.
       if ap \<noteq> root \<and> \<not> startswith (path_str ap) (path_str root @ ''/'') then Inl (ValueError ''path escapes MEDIA_ROOT'')
       else let rel = relpath ap root in Inr (ap, rel, before (CHR ''/'') rel)))"

definition not_a_directory :: "string \<Rightarrow> dict" where
  "not_a_directory rel = [(''error'', JStr ''not a directory''), (''path'', JStr rel)]"

definition evaluate :: "rick_env \<Rightarrow> string \<Rightarrow> (dict, shelf) stm" where
  "evaluate env p s =
     (case safe_album env p of
        Inl e \<Rightarrow> (Inl e, s)
      | Inr (album, rel, folder) \<Rightarrow>
          if is_dir (sh_tree s) album then assess env album rel folder s else (Inr (not_a_directory rel), s))"

definition propose :: "rick_env \<Rightarrow> string \<Rightarrow> (dict, shelf) stm" where
  "propose env p = evaluate env p"

section \<open>What the assessment changes\<close>

lemma path_of_name: "plain_name c \<Longrightarrow> path_of (path_join a c) = path_of a @ [c]"
  using path_of_path_join [of c a] join_starts [of "[c]"]
  by (simp add: split_on_none plain_name_def path_step_def)

lemma guarded_cases:
  obtains e where "guarded env x f s = (Inl e, s)"
  | t where "f (sh_tree s) = Inr t" "guarded env x f s = (Inr (), s\<lparr>sh_tree := t\<rparr>)"
  by (cases "rk_fault env (sh_tree s) x"; cases "f (sh_tree s)") (auto simp: guarded_def)

lemma put_file_content:
  "put_file p b t = Inr u \<Longrightarrow> content u q = (if q = p then Some b else content t q)"
  "put_file p b t = Inr u \<Longrightarrow> tr_dirs u = tr_dirs t"
  by (auto simp: put_file_def content_def update_conv' split: if_splits)

lemma replace_file_content:
  "replace_file p q t = Inr u \<Longrightarrow> r \<noteq> p \<Longrightarrow> r \<noteq> q \<Longrightarrow> content u r = content t r"
  "replace_file p q t = Inr u \<Longrightarrow> tr_dirs u = tr_dirs t"
proof -
  assume u: "replace_file p q t = Inr u"
  then obtain b v where "put_file q b t = Inr v" "u = (if p = q then t else v\<lparr>tr_files := AList.delete p (tr_files v)\<rparr>)"
    by (auto simp: replace_file_def rbind_Inr_iff split: option.splits)
  then show "r \<noteq> p \<Longrightarrow> r \<noteq> q \<Longrightarrow> content u r = content t r" "tr_dirs u = tr_dirs t"
    using put_file_content [of q b t v] by (auto simp: content_def delete_conv')
qed

text \<open>The requests so far are apart, and the last of them is remembered.\<close>

definition apart :: "(int \<times> string) list \<Rightarrow> bool" where
  "apart xs \<longleftrightarrow> sorted_wrt (\<lambda>x y. fst x + 1100000 \<le> fst y) xs"

definition paced :: "shelf \<Rightarrow> bool" where
  "paced s \<longleftrightarrow> apart (sh_asked s) \<and> sh_last s \<le> sh_clock s \<and> (\<forall>x \<in> set (sh_asked s). fst x \<le> sh_last s)"

definition cache_files :: "rick_env \<Rightarrow> path set" where
  "cache_files env = {path_of (mb_cache_path env), path_of (mb_cache_path env @ ''.tmp'')}"

definition calm :: "rick_env \<Rightarrow> shelf \<Rightarrow> shelf \<Rightarrow> bool" where
  \<comment> \<open>nothing but the cache of MusicBrainz changes, and the pace is kept\<close>
  "calm env s s' \<longleftrightarrow>
     (\<forall>p. p \<notin> cache_files env \<longrightarrow> content (sh_tree s') p = content (sh_tree s) p)
     \<and> tr_dirs (sh_tree s') = tr_dirs (sh_tree s) \<and> (paced s \<longrightarrow> paced s')"

lemma paced_tree [simp]: "paced (s\<lparr>sh_tree := t\<rparr>) = paced s"
  by (simp add: paced_def)

lemma calm_refl [simp, intro]: "calm env s s"
  by (simp add: calm_def)

lemma calm_trans [trans]: "calm env s s' \<Longrightarrow> calm env s' s'' \<Longrightarrow> calm env s s''"
  by (simp add: calm_def)

lemma calm_wait: "0 \<le> n \<Longrightarrow> calm env s (wait n s)"
  by (simp add: calm_def wait_def paced_def)

lemma calm_mb_request: "calm env s (snd (mb_request env url s))"
  by (auto simp: calm_def mb_request_def wait_def paced_def apart_def sorted_wrt_append Let_def split: prod.splits)

lemma calm_mb_get: "calm env s (snd (mb_get env url s))"
proof -
  obtain r s1 where r: "mb_request env url s = (r, s1)" by fastforce
  obtain r2 s2 where r2: "mb_request env url (wait 2000000 s1) = (r2, s2)" by fastforce
  have "calm env s s1" "calm env s1 s2"
    using calm_mb_request [of env s url] calm_trans [OF calm_wait [of 2000000 env s1], of s2]
      calm_mb_request [of env "wait 2000000 s1" url] by (simp_all add: r r2)
  with r r2 show ?thesis
    by (auto simp: mb_get_def Let_def split: sum.splits exn.splits intro: calm_trans)
qed

lemma calm_tree:
  assumes "\<And>p. p \<notin> cache_files env \<Longrightarrow> content t p = content (sh_tree s) p" "tr_dirs t = tr_dirs (sh_tree s)"
  shows "calm env s (s\<lparr>sh_tree := t\<rparr>)"
  using assms by (auto simp: calm_def paced_def)

lemma calm_save: "calm env s (save_mb_cache env s)"
proof -
  let ?p = "path_of (mb_cache_path env)" and ?q = "path_of (mb_cache_path env @ ''.tmp'')"
  have "calm env s (snd (mbind (guarded env (Writing ?q) (put_file ?q b)) (\<lambda>_. guarded env (Replacing ?q ?p) (replace_file ?q ?p)) s))" for b
  proof (cases rule: guarded_cases [where env = env and x = "Writing ?q" and f = "put_file ?q b" and s = s])
    case (2 t)
    then have t: "calm env s (s\<lparr>sh_tree := t\<rparr>)"
      by (intro calm_tree) (auto simp: cache_files_def put_file_content)
    have "calm env (s\<lparr>sh_tree := t\<rparr>) (snd (guarded env (Replacing ?q ?p) (replace_file ?q ?p) (s\<lparr>sh_tree := t\<rparr>)))"
    proof (cases rule: guarded_cases [where env = env and x = "Replacing ?q ?p" and f = "replace_file ?q ?p" and s = "s\<lparr>sh_tree := t\<rparr>"])
      case (2 u)
      then have "calm env (s\<lparr>sh_tree := t\<rparr>) (s\<lparr>sh_tree := t\<rparr>\<lparr>sh_tree := u\<rparr>)"
        by (intro calm_tree) (auto simp: cache_files_def replace_file_content)
      with 2 show ?thesis by simp
    qed simp
    with t 2 show ?thesis by (simp add: mbind_def calm_trans)
  qed (simp add: mbind_def)
  then show ?thesis unfolding save_mb_cache_def Let_def .
qed

lemma calm_remember: "calm env s (remember env k v s)"
proof -
  have "calm env s (s\<lparr>sh_cache := c\<rparr>)" for c by (simp add: calm_def paced_def)
  then show ?thesis unfolding remember_def by (rule calm_trans) (rule calm_save)
qed

lemma calm_names:
  "calm env s (snd (mb_name_to_mbid env name s))"
  "calm env s (snd (mb_mbid_to_name env mbid s))"
  using calm_mb_get [of env s "search_url name"] calm_mb_get [of env s "lookup_url mbid"]
  by (auto simp: mb_name_to_mbid_def mb_mbid_to_name_def Let_def split: option.splits prod.splits sum.splits
      intro: calm_trans calm_remember)

lemma calm_identity: "calm env s (snd (album_identity env d s))"
  by (auto simp: album_identity_def calm_def paced_def Let_def split: option.splits prod.splits)

lemma calm_peek: "calm env s (snd (peek env ex sub ds s))"
proof (induction env ex sub ds s rule: peek.induct)
  case (2 env ex sub d ds s)
  then show ?case using calm_identity [of env s "sub @ [d]"]
    by (auto split: prod.splits option.splits intro: calm_trans)
qed simp

lemma calm_sample: "calm env s (snd (sample_siblings env ex dir ns ms s))"
proof (induction ns arbitrary: ms s)
  case (Cons n ns)
  have more: "calm env s1 (snd (case r of (i, s2) \<Rightarrow> (case i of
        None \<Rightarrow> sample_siblings env ex dir ns ms s2
      | Some m \<Rightarrow> if 6 \<le> length (ms @ [m]) then (ms @ [m], s2) else sample_siblings env ex dir ns (ms @ [m]) s2)))"
    if "calm env s1 (snd r)" for s1 r
    using that Cons by (auto split: prod.splits option.splits intro: calm_trans)
  obtain i s1 where i: "album_identity env (dir @ [n]) s = (i, s1)" by fastforce
  then have s1: "calm env s s1" using calm_identity [of env s "dir @ [n]"] by simp
  show ?case
  proof (cases "\<not> is_dir (sh_tree s) (dir @ [n]) \<or> dir @ [n] = ex")
    case False
    show ?thesis
    proof (cases i)
      case None
      show ?thesis
      proof (cases "listing env (sh_tree s1) (dir @ [n])")
        case (Inr ds)
        from more [OF calm_peek] have "calm env s1 (snd (sample_siblings env ex dir (n # ns) ms s))"
          using False i None Inr by simp
        then show ?thesis by (rule calm_trans [OF s1])
      qed (use False i None s1 in simp)
    next
      case (Some m)
      with more [of s "(Some m, s1)"] s1 False i show ?thesis by simp
    qed
  qed (use Cons in auto)
qed simp

lemma calm_folder: "calm env s (snd (folder_mbid env folder ex s))"
  using calm_sample by (auto simp: folder_mbid_def Let_def split: sum.splits prod.splits) (metis snd_conv)

lemma calm_folder_identity: "calm env s (snd (folder_identity env folder album s))"
  using calm_folder [of env s folder album] calm_names(1)
  by (auto simp: folder_identity_def split: prod.splits option.splits intro: calm_trans)

lemma calm_bind:
  assumes "calm env s (snd (m s))" "\<And>a s'. m s = (Inr a, s') \<Longrightarrow> calm env s' (snd (f a s'))"
  shows "calm env s (snd (mbind m f s))"
  using assms by (cases "m s") (auto simp: mbind_def split: sum.splits intro: calm_trans)

lemma calm_lift [simp, intro]: "calm env s (snd (mlift r s))"
  by (simp add: mlift_def)

lemma calm_assess: "calm env s (snd (assess env album rel folder s))"
proof -
  have by_mbid: "calm env s' (snd (by_mbid env fm cm aa art folder s'))" for fm cm aa art s'
    unfolding by_mbid_def other_artist_def
    by (auto simp: Let_def intro!: calm_bind calm_names split: sum.splits)
  show ?thesis
    by (auto simp: assess_def Let_def intro!: calm_bind calm_folder_identity by_mbid split: option.splits)
qed

section \<open>When the assessment says relocate\<close>

lemma get_append: "get (xs @ ys) k = (if k \<in> fst ` set xs then get xs k else get ys k)"
  by (auto simp: get_def map_add_def dom_map_of_conv_image_fst [symmetric] split: option.splits)

lemma get_Cons: "get ((k', v) # d) k = (if k' = k then v else get d k)"
  by (simp add: get_def)

lemma advice_action [simp]: "get (advice x c r) ''action'' = JStr x" "get (retag_to f r) ''action'' = JStr ''retag''"
  by (simp_all add: advice_def retag_to_def get_Cons)

lemma by_text_action: "get (by_text arts aa folder) ''action'' \<noteq> JStr ''relocate''"
  by (simp add: by_text_def)

lemma other_artist_target:
  assumes "other_artist env m art folder s = (Inr v, s')" "get v ''action'' = JStr ''relocate''"
  obtains t where "v = relocate_to t" "\<not> related t folder"
proof -
  obtain n s1 where n: "mb_mbid_to_name env m s = (Inr n, s1)"
    using assms(1) by (cases "mb_mbid_to_name env m s"; cases "fst (mb_mbid_to_name env m s)") (auto simp: other_artist_def mbind_def)
  let ?t = "if truthy n then n else mbid_json art"
  have t: "truthy ?t" using assms n by (auto simp: other_artist_def mbind_def mlift_def Let_def split: if_splits)
  then obtain r where r: "relates_to ?t folder = Inr r" "\<not> r" "v = relocate_to (py_str ?t)"
    using assms n by (cases "relates_to ?t folder") (auto simp: other_artist_def mbind_def mlift_def Let_def split: if_splits)
  with t obtain u where "?t = JStr u" by (cases ?t) (auto simp: relates_to_def case_form_of_def rbind_def)
  with r that [of u] show thesis by (auto simp: relates_to_def)
qed

lemma assess_relocates:
  assumes "assess env album rel folder s = (Inr a, s')" "get a ''action'' = JStr ''relocate''"
  obtains fm cm t where "content_mbid (tracks_of env (sh_tree s) album) = Some cm"
    "fst (folder_identity env folder album s) = Inr fm" "truthy fm" "fm \<noteq> JStr cm"
    "get a ''mb'' = JObj [(''folder_mbid'', fm), (''content_mbid'', JStr cm)]"
    "get a ''target'' = JStr t" "\<not> related t folder"
proof -
  let ?files = "audio_files env (sh_tree s) album" and ?tracks = "tracks_of env (sh_tree s) album"
  let ?arts = "distinct_texts (map tt_artist ?tracks)" and ?aas = "distinct_texts (map tt_album_artist ?tracks)"
  let ?base = "\<lambda>fm. album_base rel folder ?files @ [(''distinct_artist_tags'', texts_json ?arts),
      (''distinct_album_artist_tags'', texts_json ?aas)] @ [(''mb'', JObj [(''folder_mbid'', fm), (''content_mbid'', mbid_json (content_mbid ?tracks))])]"
  have base: "get (?base fm @ v) k = (if k = ''mb'' then JObj [(''folder_mbid'', fm), (''content_mbid'', mbid_json (content_mbid ?tracks))] else get v k)"
    if "k \<in> {''action'', ''mb'', ''target''}" for fm v k
    using that by (auto simp: album_base_def get_Cons)
  note parts = assess_def Let_def mbind_def mlift_def
  have act: "get (album_base rel folder ?files @ v) ''action'' = get v ''action''"
    "get ((album_base rel folder ?files @ [(''distinct_artist_tags'', x), (''distinct_album_artist_tags'', y)]) @ v) ''action'' = get v ''action''" for v x y
    by (simp_all add: album_base_def get_Cons)
  have go: "?files \<noteq> []" "\<not> is_various folder" "\<not> holds_for is_various (the_only ?aas)"
    using assms act by (auto simp: parts split: if_splits)
  then obtain fm s1 where fm: "folder_identity env folder album s = (Inr fm, s1)"
    using assms(1) by (cases "folder_identity env folder album s"; cases "fst (folder_identity env folder album s)") (auto simp: parts)
  obtain cm where cm: "content_mbid ?tracks = Some cm"
    using assms go fm base [of "''action''" fm] by_text_action by (cases "content_mbid ?tracks") (auto simp: parts)
  have t: "truthy fm"
    using assms go fm cm base [of "''action''" fm] by_text_action by (cases "truthy fm") (auto simp: parts)
  obtain v where v: "by_mbid env fm cm (the_only ?aas) (the_only ?arts) folder s1 = (Inr v, s')" "a = ?base fm @ v"
    using assms(1) go fm cm t
    by (cases "by_mbid env fm cm (the_only ?aas) (the_only ?arts) folder s1";
        cases "fst (by_mbid env fm cm (the_only ?aas) (the_only ?arts) folder s1)") (auto simp: parts)
  have va: "get v ''action'' = JStr ''relocate''" using assms(2) base [of "''action''" fm v] v(2) by simp
  then have ne: "fm \<noteq> JStr cm" using v(1) by (auto simp: by_mbid_def mlift_def split: if_splits)
  with v(1) have "other_artist env cm (the_only ?arts) folder s1 = (Inr v, s')" by (simp add: by_mbid_def)
  from this va obtain u where u: "v = relocate_to u" "\<not> related u folder" by (rule other_artist_target)
  show thesis
    by (rule that [OF cm _ t ne _ _ u(2)]) (use fm v(2) u base [of _ fm v] cm in \<open>auto simp: mbid_json_def relocate_to_def get_Cons\<close>)
qed

end
