(* ===== verification/RickChanges.thy ===== *)
theory RickChanges
  imports RickLibrary
begin

text \<open>
  The changes of \<open>rick-library-mcp/server.py\<close>: the ledger, the new album artist of an album, the move of
  an album to another artist, and the reversal of both. An id and a time stamp of a change are arguments.
\<close>

section \<open>The ledger\<close>

definition backup_path :: "rick_env \<Rightarrow> string \<Rightarrow> string" where
  "backup_path env x = path_join (rk_backup env) x"

definition ledger_path :: "rick_env \<Rightarrow> path" where
  "ledger_path env = path_of (backup_path env ''ledger.jsonl'')"

definition append_ledger :: "rick_env \<Rightarrow> dict \<Rightarrow> (unit, shelf) stm" where
  "append_ledger env entry =
     mbind (guarded env (MakingDirs (path_of (rk_backup env))) (make_dirs (path_of (rk_backup env)))) (\<lambda>_.
     guarded env (Appending (ledger_path env)) (append_file (ledger_path env) (dumps_unicode (JObj entry) @ [newline])))"

definition ledger_lines :: "string \<Rightarrow> json list" where
  \<comment> \<open>a line that is no JSON is skipped\<close>
  "ledger_lines text =
     concat (map (\<lambda>l. let t = strip l in if t = [] then [] else (case loads t of Some j \<Rightarrow> [j] | None \<Rightarrow> []))
       (split_on newline (universal_newlines text)))"

definition read_ledger :: "rick_env \<Rightarrow> file_tree \<Rightarrow> json list res" where
  "read_ledger env t =
     (case content t (ledger_path env) of
        Some b \<Rightarrow> Inr (ledger_lines b)
      | None \<Rightarrow> if is_dir t (ledger_path env) then Inl (OSError ''[Errno 21] Is a directory'') else Inr [])"

definition unwritable :: "rick_env \<Rightarrow> file_tree \<Rightarrow> path \<Rightarrow> string list \<Rightarrow> string list" where
  "unwritable env t album files = filter (\<lambda>f. \<not> rk_writable env t (album @ [f])) files"

section \<open>A new album artist\<close>

definition blocked :: "string \<Rightarrow> string list \<Rightarrow> string list \<Rightarrow> string \<Rightarrow> dict" where
  "blocked rel bad files reason =
     [(''blocked'', JBool True), (''path'', JStr rel),
      (''reason'', JStr (nat_str (length bad) @ '' of '' @ nat_str (length files) @ reason)),
      (''unwritable'', texts_json (take 10 bad))]"

definition write_tags :: "rick_env \<Rightarrow> path \<Rightarrow> string \<Rightarrow> (unit, shelf) stm" where
  \<comment> \<open>\<open>_write_album_artist\<close> of a path\<close>
  "write_tags env p v s =
     (case content (sh_tree s) p of
        None \<Rightarrow> (Inl no_such, s)
      | Some b \<Rightarrow> (case write_album_artist (rk_mutagen env) p b v of
            Inl e \<Rightarrow> (Inl e, s)
          | Inr b' \<Rightarrow> guarded env (Writing p) (put_file p b') s))"

definition back_up :: "rick_env \<Rightarrow> path \<Rightarrow> path \<Rightarrow> string \<Rightarrow> (unit, shelf) stm" where
  "back_up env album dir f =
     guarded env (Copying (album @ [f]) (dir @ [f])) (copy_into (album @ [f]) (dir @ [f]))"

definition old_artist :: "rick_env \<Rightarrow> file_tree \<Rightarrow> path \<Rightarrow> string \<Rightarrow> dict" where
  "old_artist env t album f =
     [(''file'', JStr f), (''old_album_artist'', mbid_json (tt_album_artist (tags_at env t (album @ [f]))))]"

fun retag_files :: "rick_env \<Rightarrow> path \<Rightarrow> path \<Rightarrow> string \<Rightarrow> string list \<Rightarrow> (json list, shelf) stm" where
  "retag_files env album dir v [] s = (Inr [], s)"
| "retag_files env album dir v (f # fs) s =
     (let change = JObj (old_artist env (sh_tree s) album f @ [(''new_album_artist'', JStr v)]) in
      mbind (back_up env album dir f) (\<lambda>_. mbind (write_tags env (album @ [f]) v) (\<lambda>_.
      mbind (retag_files env album dir v fs) (\<lambda>cs. mlift (Inr (change # cs))))) s)"

fun text_of :: "json \<Rightarrow> string res" where
  "text_of (JStr s) = Inr s"
| "text_of j = Inl (TypeError (''expected str, not '' @ type_name j))"

definition recommended :: "dict \<Rightarrow> string res" where
  \<comment> \<open>\<open>(assessment.get("recommend") or {}).get("set_album_artist", "")\<close>\<close>
  "recommended a = rbind (member_or (get a ''recommend'') ''set_album_artist'' (JStr [])) text_of"

definition refused :: "string \<Rightarrow> dict \<Rightarrow> dict" where
  "refused reason a = [(''refused'', JStr reason), (''assessment'', JObj a)]"

definition retag_entry :: "string \<Rightarrow> string \<Rightarrow> string \<Rightarrow> string \<Rightarrow> string \<Rightarrow> dict \<Rightarrow> bool \<Rightarrow> string \<Rightarrow> json list \<Rightarrow> dict" where
  "retag_entry cid now rel folder v a confirmed dir changed =
     [(''change_id'', JStr cid), (''ts'', JStr now), (''op'', JStr ''set_album_artist''), (''path'', JStr rel),
      (''artist_folder'', JStr folder), (''new_album_artist'', JStr v), (''confidence'', get a ''confidence''),
      (''reason'', get a ''reason''), (''confirmed'', JBool confirmed), (''backup_dir'', JStr dir),
      (''files'', JList changed), (''reverted'', JBool False)]"

definition retag_album :: "rick_env \<Rightarrow> string \<Rightarrow> string \<Rightarrow> path \<Rightarrow> string \<Rightarrow> string \<Rightarrow> string \<Rightarrow> dict \<Rightarrow> bool \<Rightarrow> (dict, shelf) stm" where
  \<comment> \<open>from the test of the files to the entry of the ledger\<close>
  "retag_album env cid now album rel folder v a confirmed s =
     (let files = audio_files env (sh_tree s) album; bad = unwritable env (sh_tree s) album files;
          dir = backup_path env cid in
      if bad \<noteq> [] then (Inr (blocked rel bad files
        '' files are not writable (likely mode 644 owned by another uid); permission normalization needed''), s)
      else mbind (guarded env (MakingDirs (path_of dir)) (make_dirs (path_of dir))) (\<lambda>_.
           mbind (retag_files env album (path_of dir) v files) (\<lambda>changed.
           mbind (append_ledger env (retag_entry cid now rel folder v a confirmed dir changed)) (\<lambda>_.
             mlift (Inr [(''applied'', JBool True), (''change_id'', JStr cid), (''files_changed'', JInt (int (length changed))),
               (''new_album_artist'', JStr v), (''backup_dir'', JStr dir),
               (''note'', JStr ''call rescan to surface the change in the player'')])))) s)"

definition apply_album :: "rick_env \<Rightarrow> string \<Rightarrow> string \<Rightarrow> string \<Rightarrow> string \<Rightarrow> bool \<Rightarrow> (dict, shelf) stm" where
  "apply_album env cid now p set_to confirmed s =
     (case safe_album env p of
        Inl e \<Rightarrow> (Inl e, s)
      | Inr (album, rel, folder) \<Rightarrow>
          if \<not> is_dir (sh_tree s) album then (Inr (not_a_directory rel), s)
          else mbind (assess env album rel folder) (\<lambda>a.
               mbind (if strip set_to \<noteq> [] then mlift (Inr (strip set_to)) else mlift (recommended a)) (\<lambda>v.
                 if v = [] then mlift (Inr [(''error'', JStr ''no album_artist to set and none recommended''), (''assessment'', JObj a)])
                 else if get a ''distinct_album_artist_tags'' = JList [JStr v]
                 then mlift (Inr [(''noop'', JBool True), (''path'', JStr rel), (''album_artist'', JStr v),
                   (''reason'', JStr ''every track already has this album_artist; nothing to change'')])
                 else if get a ''confidence'' \<noteq> JStr ''HIGH'' \<and> \<not> confirmed
                 then mlift (Inr (refused ''assessment is not HIGH confidence; pass confirmed=true to override'' a))
                 else retag_album env cid now album rel folder v a confirmed)) s)"

section \<open>A move to another artist\<close>

definition artist_dir_name :: "string \<Rightarrow> string" where
  \<comment> \<open>\<open>target_artist.replace("/", "_").strip().strip(".") or target_artist\<close>\<close>
  "artist_dir_name a =
     (let u = rstrip_chars ''.'' (dropWhile (\<lambda>c. c = CHR ''.'') (strip (map (\<lambda>c. if c = CHR ''/'' then CHR ''_'' else c) a)))
      in if u = [] then a else u)"

fun back_up_files :: "rick_env \<Rightarrow> path \<Rightarrow> path \<Rightarrow> string list \<Rightarrow> (json list, shelf) stm" where
  "back_up_files env album dir [] s = (Inr [], s)"
| "back_up_files env album dir (f # fs) s =
     (let change = JObj (old_artist env (sh_tree s) album f) in
      mbind (back_up env album dir f) (\<lambda>_. mbind (back_up_files env album dir fs) (\<lambda>cs. mlift (Inr (change # cs)))) s)"

fun retag_moved :: "rick_env \<Rightarrow> path \<Rightarrow> string \<Rightarrow> string list \<Rightarrow> shelf \<Rightarrow> shelf" where
  \<comment> \<open>as far as possible\<close>
  "retag_moved env dir v [] s = s"
| "retag_moved env dir v (f # fs) s = retag_moved env dir v fs (snd (write_tags env (dir @ [f]) v s))"

definition move_entry :: "string \<Rightarrow> string \<Rightarrow> string \<Rightarrow> string \<Rightarrow> string \<Rightarrow> string \<Rightarrow> string \<Rightarrow> json list \<Rightarrow> dict" where
  "move_entry cid now rel new_rel folder artist dir changed =
     [(''change_id'', JStr cid), (''ts'', JStr now), (''op'', JStr ''relocate''), (''path'', JStr rel),
      (''new_path'', JStr new_rel), (''artist_folder'', JStr folder), (''new_artist'', JStr artist),
      (''backup_dir'', JStr dir), (''files'', JList changed), (''reverted'', JBool False)]"

definition move_album :: "rick_env \<Rightarrow> string \<Rightarrow> string \<Rightarrow> path \<Rightarrow> string \<Rightarrow> string \<Rightarrow> string \<Rightarrow> path \<Rightarrow> path \<Rightarrow> (dict, shelf) stm" where
  "move_album env cid now album rel folder artist new_dir new s =
     (let files = audio_files env (sh_tree s) album; bad = unwritable env (sh_tree s) album files; dir = backup_path env cid;
          new_rel = relpath new (path_of (rk_media env)) in
      if bad \<noteq> [] then (Inr (blocked rel bad files '' files not writable; permission normalization needed''), s)
      else mbind (guarded env (MakingDirs (path_of dir)) (make_dirs (path_of dir))) (\<lambda>_.
           mbind (back_up_files env album (path_of dir) files) (\<lambda>changed.
           mbind (guarded env (MakingDirs new_dir) (make_dirs new_dir)) (\<lambda>_.
           mbind (guarded env (Moving album new) (move_dir album new)) (\<lambda>_.
           mbind (\<lambda>s1. (Inr (), retag_moved env new artist files s1)) (\<lambda>_.
           mbind (append_ledger env (move_entry cid now rel new_rel folder artist dir changed)) (\<lambda>_.
             mlift (Inr [(''relocated'', JBool True), (''change_id'', JStr cid), (''from'', JStr rel), (''to'', JStr new_rel),
               (''new_album_artist'', JStr artist), (''files_moved'', JInt (int (length files))),
               (''note'', JStr ''call rescan to surface the move in the player'')]))))))) s)"

definition to_artist_dir :: "rick_env \<Rightarrow> string \<Rightarrow> string \<Rightarrow> string \<Rightarrow> path \<Rightarrow> string \<Rightarrow> string \<Rightarrow> string \<Rightarrow> (dict, shelf) stm" where
  \<comment> \<open>from the directory of the artist on\<close>
  "to_artist_dir env cid now p album rel folder artist s =
     (let new_dir = path_join (rk_media env) (artist_dir_name artist);
          name = (if album = [] then [] else last album) in
      case realpath (path_join new_dir name) of
        Inl e \<Rightarrow> (Inl e, s)
      | Inr new \<Rightarrow>
          if new = album then (Inr [(''noop'', JBool True), (''path'', JStr rel), (''reason'', JStr ''already under the target artist'')], s)
          else if path_exists (sh_tree s) new
          then (Inr [(''error'', JStr ''target already exists; not overwriting''),
                  (''target'', JStr (relpath new (path_of (rk_media env))))], s)
          else move_album env cid now album rel folder artist (path_of new_dir) new s)"

definition relocate_album :: "rick_env \<Rightarrow> string \<Rightarrow> string \<Rightarrow> string \<Rightarrow> string \<Rightarrow> bool \<Rightarrow> (dict, shelf) stm" where
  "relocate_album env cid now p to_artist confirmed s =
     (case safe_album env p of
        Inl e \<Rightarrow> (Inl e, s)
      | Inr (album, rel, folder) \<Rightarrow>
          if \<not> is_dir (sh_tree s) album then (Inr (not_a_directory rel), s)
          else mbind (assess env album rel folder) (\<lambda>a.
               mbind (if strip to_artist \<noteq> [] then mlift (Inr (strip to_artist))
                      else mlift (text_of (get_or a ''target'' (JStr [])))) (\<lambda>artist.
                 if artist = [] then mlift (Inr [(''error'', JStr ''no target artist and none recommended''), (''assessment'', JObj a)])
                 else if get a ''action'' \<noteq> JStr ''relocate'' \<and> \<not> confirmed
                 then mlift (Inr (refused ''assessment does not recommend a relocate; pass confirmed=true to override'' a))
                 else to_artist_dir env cid now p album rel folder artist)) s)"

section \<open>The reversal\<close>

fun change_of :: "string \<Rightarrow> json list \<Rightarrow> json option res" where
  \<comment> \<open>the first entry of the change in the reversed ledger\<close>
  "change_of cid [] = Inr None"
| "change_of cid (e # es) =
     rbind (field e ''change_id'' JNull) (\<lambda>c.
       if c = JStr cid
       then rbind (field e ''op'' JNull) (\<lambda>x. if x \<noteq> JStr ''revert'' then Inr (Some e) else change_of cid es)
       else change_of cid es)"

definition text_at :: "json \<Rightarrow> string \<Rightarrow> string res" where
  "text_at j k = rbind (value_at j k) text_of"

definition media_path :: "rick_env \<Rightarrow> json \<Rightarrow> string \<Rightarrow> path res" where
  \<comment> \<open>\<open>os.path.realpath(os.path.join(MEDIA_ROOT, entry[k]))\<close>\<close>
  "media_path env e k = rbind (text_at e k) (\<lambda>x. realpath (path_join (rk_media env) x))"

definition file_at :: "file_tree \<Rightarrow> string \<Rightarrow> bool" where
  \<comment> \<open>\<open>os.path.isfile\<close>\<close>
  "file_at t x \<longleftrightarrow> (case realpath x of Inr p \<Rightarrow> is_file t p | Inl _ \<Rightarrow> False)"

definition restore_file :: "rick_env \<Rightarrow> json \<Rightarrow> path \<Rightarrow> bool \<Rightarrow> json \<Rightarrow> (string list, shelf) stm" where
  \<comment> \<open>with the flag only onto a file that is there; the name of the file if it was restored\<close>
  "restore_file env dir dst present f =
     mbind (mlift (rbind (text_at f ''file'') (\<lambda>n. rbind (text_of dir) (\<lambda>d. Inr (n, path_join d n))))) (\<lambda>(n, bak) s.
       let to = path_join (path_str dst) n in
       if file_at (sh_tree s) bak \<and> (present \<longrightarrow> file_at (sh_tree s) to)
       then mbind (mlift (realpath to)) (\<lambda>q. mbind (guarded env (Copying (path_of bak) q) (copy_file (path_of bak) q)) (\<lambda>_.
              mlift (Inr [n]))) s
       else (Inr [], s))"

fun restore_files :: "rick_env \<Rightarrow> json \<Rightarrow> path \<Rightarrow> bool \<Rightarrow> json list \<Rightarrow> (string list, shelf) stm" where
  "restore_files env dir dst present [] = mlift (Inr [])"
| "restore_files env dir dst present (f # fs) =
     mbind (restore_file env dir dst present f) (\<lambda>ns. mbind (restore_files env dir dst present fs) (\<lambda>ms. mlift (Inr (ns @ ms))))"

definition files_of :: "json \<Rightarrow> json list res" where
  "files_of e = rbind (field e ''files'' (JList [])) iterate"

definition revert_entry :: "string \<Rightarrow> string \<Rightarrow> string list \<Rightarrow> dict \<Rightarrow> json \<Rightarrow> dict" where
  "revert_entry cid now restored move_back p =
     [(''change_id'', JStr cid), (''ts'', JStr now), (''op'', JStr ''revert''), (''restored'', texts_json restored)]
       @ move_back @ [(''path'', p)]"

definition move_back :: "rick_env \<Rightarrow> path \<Rightarrow> path \<Rightarrow> (bool, shelf) stm" where
  "move_back env new old s =
     (if is_dir (sh_tree s) new \<and> \<not> path_exists (sh_tree s) old
      then mbind (guarded env (MakingDirs (butlast old)) (make_dirs (butlast old))) (\<lambda>_.
           mbind (guarded env (Moving new old) (move_dir new old)) (\<lambda>_. mlift (Inr True))) s
      else (Inr False, s))"

definition revert_move :: "rick_env \<Rightarrow> string \<Rightarrow> string \<Rightarrow> json \<Rightarrow> json \<Rightarrow> (dict, shelf) stm" where
  "revert_move env cid now e dir =
     mbind (mlift (media_path env e ''new_path'')) (\<lambda>new. mbind (mlift (media_path env e ''path'')) (\<lambda>old.
     mbind (move_back env new old) (\<lambda>m. mbind (mlift (files_of e)) (\<lambda>fs.
     mbind (restore_files env dir old True fs) (\<lambda>restored. mbind (mlift (value_at e ''path'')) (\<lambda>p.
     mbind (append_ledger env (revert_entry cid now restored [(''moved_back'', JBool m)] p)) (\<lambda>_.
       mlift (Inr [(''reverted'', JBool True), (''change_id'', JStr cid), (''moved_back'', JBool m),
         (''files_restored'', JInt (int (length restored)))]))))))))"

definition revert_retag :: "rick_env \<Rightarrow> string \<Rightarrow> string \<Rightarrow> json \<Rightarrow> json \<Rightarrow> (dict, shelf) stm" where
  "revert_retag env cid now e dir =
     mbind (mlift (media_path env e ''path'')) (\<lambda>album. mbind (mlift (files_of e)) (\<lambda>fs.
     mbind (restore_files env dir album False fs) (\<lambda>restored. mbind (mlift (value_at e ''path'')) (\<lambda>p.
     mbind (append_ledger env (revert_entry cid now restored [] p)) (\<lambda>_.
       mlift (Inr [(''reverted'', JBool True), (''change_id'', JStr cid), (''files_restored'', JInt (int (length restored)))]))))))"

definition revert :: "rick_env \<Rightarrow> string \<Rightarrow> string \<Rightarrow> (dict, shelf) stm" where
  "revert env cid now s =
     mbind (mlift (rbind (read_ledger env (sh_tree s)) (\<lambda>es. change_of cid (rev es)))) (\<lambda>found.
       case found of
         None \<Rightarrow> mlift (Inr [(''error'', JStr ''unknown change_id''), (''change_id'', JStr cid)])
       | Some e \<Rightarrow>
           mbind (mlift (field e ''backup_dir'' (JStr []))) (\<lambda>dir.
           mbind (mlift (field e ''op'' JNull)) (\<lambda>x.
             if x = JStr ''relocate'' then revert_move env cid now e dir else revert_retag env cid now e dir))) s"

section \<open>The history\<close>

definition history :: "rick_env \<Rightarrow> file_tree \<Rightarrow> int \<Rightarrow> string \<Rightarrow> json list res" where
  "history env t limit folder =
     rbind (read_ledger env t) (\<lambda>rows.
     rbind (if folder = [] then Inr rows
            else rbind (rmap (\<lambda>r. rbind (field r ''artist_folder'' JNull) (\<lambda>a. Inr (r, a = JStr folder))) rows) (\<lambda>rs.
                   Inr (map fst (filter snd rs)))) (\<lambda>kept.
       Inr (slice_from (- max 1 (min limit 500)) kept)))"

section \<open>What the entry points keep\<close>

text \<open>
  Property C16. An assessment changes nothing: whatever MusicBrainz, the tags and the file system answer,
  every file but the two of the cache keeps its content, and no directory is made.
\<close>

theorem evaluate_changes_nothing:
  "(p \<in> cache_files env \<or> content (sh_tree (snd (evaluate env a s))) p = content (sh_tree s) p)
     \<and> tr_dirs (sh_tree (snd (evaluate env a s))) = tr_dirs (sh_tree s)"
proof (cases "safe_album env a")
  case (Inr x)
  obtain album rel folder where x: "x = (album, rel, folder)" by (cases x)
  from calm_assess [of env s album rel folder] Inr x show ?thesis
    by (auto simp: evaluate_def calm_def)
qed (simp add: evaluate_def)

text \<open>A sequence of calls of the server, with time that passes between them.\<close>

datatype server_call =
    Pause nat
  | Evaluate string
  | Apply string string string string bool
  | Relocate string string string string bool
  | Revert string string

fun serve :: "rick_env \<Rightarrow> server_call \<Rightarrow> shelf \<Rightarrow> shelf" where
  "serve env (Pause n) s = wait (int n) s"
| "serve env (Evaluate p) s = snd (evaluate env p s)"
| "serve env (Apply cid now p v c) s = snd (apply_album env cid now p v c s)"
| "serve env (Relocate cid now p a c) s = snd (relocate_album env cid now p a c s)"
| "serve env (Revert cid now) s = snd (revert env cid now s)"

definition steady :: "('a, shelf) stm \<Rightarrow> bool" where
  \<comment> \<open>keeps the pace\<close>
  "steady m \<longleftrightarrow> (\<forall>s. paced s \<longrightarrow> paced (snd (m s)))"

lemma steady_bind [intro]: "steady m \<Longrightarrow> (\<And>a. steady (f a)) \<Longrightarrow> steady (mbind m f)"
  by (fastforce simp: steady_def mbind_def split: prod.splits sum.splits)

lemma steady_if [intro]: "(P \<Longrightarrow> steady m) \<Longrightarrow> (\<not> P \<Longrightarrow> steady n) \<Longrightarrow> steady (if P then m else n)"
  by simp

lemma steady_state: "(\<And>s. steady (m s)) \<Longrightarrow> steady (\<lambda>s. m s s)"
  by (simp add: steady_def)

lemma steady_lift [intro]: "steady (mlift r)"
  by (simp add: steady_def mlift_def)

lemma steady_guarded [intro]: "steady (guarded env x f)"
  unfolding steady_def by (metis guarded_cases snd_conv paced_tree)

lemma steady_assess [intro]: "steady (assess env album rel folder)"
  using calm_assess by (simp add: steady_def calm_def)

lemma steady_write_tags [intro]: "steady (write_tags env p v)"
  using steady_guarded by (auto simp: steady_def write_tags_def split: option.splits sum.splits)

lemma steady_append_ledger [intro]: "steady (append_ledger env entry)"
  by (auto simp: append_ledger_def)

lemma steadyD: "steady m \<Longrightarrow> paced s \<Longrightarrow> paced (snd (m s))"
  by (simp add: steady_def)

lemma steady_back_up [intro]: "steady (back_up env album dir f)"
  by (auto simp: back_up_def)

lemma steady_retag_files [intro]: "steady (retag_files env album dir v fs)"
proof (induction fs)
  case (Cons f fs)
  show ?case
    unfolding steady_def retag_files.simps Let_def
    by (intro allI impI steadyD [of "mbind _ _"] steady_bind) (auto intro: Cons)
qed (simp add: steady_def)

lemma steady_back_up_files [intro]: "steady (back_up_files env album dir fs)"
proof (induction fs)
  case (Cons f fs)
  show ?case
    unfolding steady_def back_up_files.simps Let_def
    by (intro allI impI steadyD [of "mbind _ _"] steady_bind) (auto intro: Cons)
qed (simp add: steady_def)

lemma steady_retag_moved [intro]: "paced s \<Longrightarrow> paced (retag_moved env dir v fs s)"
  by (induction env dir v fs s rule: retag_moved.induct) (auto intro: steadyD [OF steady_write_tags])

lemma steady_retag_album [intro]: "steady (retag_album env cid now album rel folder v a confirmed)"
  unfolding steady_def retag_album_def Let_def
  by (auto intro!: steadyD [of "mbind _ _"])

lemma steady_move_album [intro]: "steady (move_album env cid now album rel folder artist new_dir new)"
proof -
  have moved: "steady (\<lambda>s1. (Inr (), retag_moved env new artist fs s1))" for fs
    using steady_retag_moved by (auto simp: steady_def)
  show ?thesis
    unfolding steady_def move_album_def Let_def
    by (auto intro!: steadyD [of "mbind _ _"] steady_bind moved)
qed

lemma steady_to_artist_dir [intro]: "steady (to_artist_dir env cid now p album rel folder artist)"
  using steady_move_album by (auto simp: steady_def to_artist_dir_def Let_def split: sum.splits)

lemma steady_case [intro]: "steady m \<Longrightarrow> (\<And>a. steady (f a)) \<Longrightarrow> steady (case x of None \<Rightarrow> m | Some a \<Rightarrow> f a)"
  by (cases x) auto

lemma paced_apply: "paced s \<Longrightarrow> paced (snd (apply_album env cid now p v c s))"
  by (auto simp: apply_album_def split: sum.splits intro!: steadyD [of "mbind _ _"] steady_bind steady_if)

lemma paced_relocate: "paced s \<Longrightarrow> paced (snd (relocate_album env cid now p a c s))"
  by (auto simp: relocate_album_def split: sum.splits intro!: steadyD [of "mbind _ _"] steady_bind steady_if)

lemma steady_restore_file [intro]: "steady (restore_file env dir dst present f)"
proof -
  have "steady (\<lambda>s. let to = path_join (path_str dst) n in
       if file_at (sh_tree s) bak \<and> (present \<longrightarrow> file_at (sh_tree s) to)
       then mbind (mlift (realpath to)) (\<lambda>q. mbind (guarded env (Copying (path_of bak) q) (copy_file (path_of bak) q)) (\<lambda>_.
              mlift (Inr [n]))) s
       else (Inr [], s))" for n bak
    unfolding steady_def Let_def by (auto intro!: steadyD [of "mbind _ _"] steady_bind)
  then show ?thesis unfolding restore_file_def by (intro steady_bind) (auto split: prod.split)
qed

lemma steady_restore_files [intro]: "steady (restore_files env dir dst present fs)"
  by (induction fs) (simp_all only: restore_files.simps steady_lift steady_bind steady_restore_file)

lemma steady_move_back [intro]: "steady (move_back env new old)"
  unfolding steady_def move_back_def by (auto intro!: steadyD [of "mbind _ _"])

lemma steady_reversals [intro]:
  "steady (revert_move env cid now e dir)" "steady (revert_retag env cid now e dir)"
  unfolding revert_move_def revert_retag_def
  by (intro steady_bind steady_lift steady_move_back steady_restore_files steady_append_ledger)+

lemma paced_revert: "paced s \<Longrightarrow> paced (snd (revert env cid now s))"
  unfolding revert_def
  by (intro steadyD [of "mbind _ _"] steady_bind steady_lift steady_case steady_if steady_reversals)

lemma paced_serve: "paced s \<Longrightarrow> paced (serve env c s)"
proof (induction c)
  case (Evaluate p)
  then show ?case
    using calm_assess by (auto simp: evaluate_def calm_def split: sum.splits)
next
  case (Pause n)
  then show ?case using calm_wait by (auto simp: calm_def)
qed (auto intro: paced_apply paced_relocate paced_revert)

text \<open>
  Property C7. Of a server that starts with an empty record of requests, any two successive requests to
  MusicBrainz are at least 1.1 seconds apart, whatever sequence of calls it serves and whatever
  MusicBrainz answers.
\<close>

theorem requests_are_apart:
  "apart (sh_asked (foldl (\<lambda>s c. serve env c s) \<lparr>sh_tree = t, sh_cache = cache, sh_idents = [], sh_clock = int now,
     sh_last = 0, sh_asked = []\<rparr> calls))"
proof -
  have "paced s \<Longrightarrow> paced (foldl (\<lambda>s c. serve env c s) s calls)" for s
    by (induction calls arbitrary: s) (auto intro: paced_serve)
  then show ?thesis by (simp add: paced_def apart_def)
qed

section \<open>When an album is moved\<close>

lemma mbind_InrE:
  assumes "mbind m f s = (Inr b, s')"
  obtains a s1 where "m s = (Inr a, s1)" "f a s1 = (Inr b, s')"
  using assms by (cases "m s"; cases "fst (m s)") (auto simp: mbind_def)

lemma relocatedE:
  assumes "relocate_album env cid now p to_artist confirmed s = (Inr r, s')" "get r ''relocated'' = JBool True"
  obtains album rel folder a s1 artist new
  where "safe_album env p = Inr (album, rel, folder)" "is_dir (sh_tree s) album"
    "assess env album rel folder s = (Inr a, s1)" "confirmed \<or> get a ''action'' = JStr ''relocate''"
    "artist = (if strip to_artist \<noteq> [] then strip to_artist else artist)" "artist \<noteq> []"
    "realpath (path_join (path_join (rk_media env) (artist_dir_name artist)) (if album = [] then [] else last album)) = Inr new"
    "new \<noteq> album" "\<not> path_exists (sh_tree s1) new"
    "move_album env cid now album rel folder artist (path_of (path_join (rk_media env) (artist_dir_name artist))) new s1 = (Inr r, s')"
proof -
  obtain album rel folder where safe: "safe_album env p = Inr (album, rel, folder)"
    using assms(1) by (cases "safe_album env p") (auto simp: relocate_album_def)
  have dir: "is_dir (sh_tree s) album"
    using assms safe by (auto simp: relocate_album_def not_a_directory_def get_Cons get_def split: if_splits)
  note run = assms(1) [unfolded relocate_album_def safe sum.case prod.case]
  obtain a s1 where a: "assess env album rel folder s = (Inr a, s1)"
    using run dir by (auto elim!: mbind_InrE)
  let ?artist = "if strip to_artist \<noteq> [] then mlift (Inr (strip to_artist)) else mlift (text_of (get_or a ''target'' (JStr [])))"
  obtain artist where artist: "?artist s1 = (Inr artist, s1)"
    using run dir a by (auto simp: mlift_def mbind_def split: if_splits sum.splits)
  let ?go = "to_artist_dir env cid now p album rel folder artist s1"
  have *: "artist \<noteq> []" "confirmed \<or> get a ''action'' = JStr ''relocate''" "?go = (Inr r, s')"
    using run dir a artist assms(2)
    by (auto simp: mbind_def mlift_def refused_def get_Cons get_def split: if_splits)
  have "artist = (if strip to_artist \<noteq> [] then strip to_artist else artist)"
    using artist by (auto simp: mlift_def split: if_splits)
  moreover obtain new where
    "realpath (path_join (path_join (rk_media env) (artist_dir_name artist)) (if album = [] then [] else last album)) = Inr new"
    using *(3) by (cases "realpath (path_join (path_join (rk_media env) (artist_dir_name artist)) (if album = [] then [] else last album))")
      (auto simp: to_artist_dir_def)
  moreover from this have "new \<noteq> album" "\<not> path_exists (sh_tree s1) new"
    "move_album env cid now album rel folder artist (path_of (path_join (rk_media env) (artist_dir_name artist))) new s1 = (Inr r, s')"
    using *(3) assms(2) by (auto simp: to_artist_dir_def get_def split: if_splits)
  ultimately show thesis using that [OF safe dir a *(2) _ *(1)] by blast
qed

text \<open>
  Property C6. Without a confirmation an album is moved only if its tracks embed an id of their artist,
  the folder has an identity, from its other albums or from an exact match of its name, and the two
  differ: never on a guess from text.
\<close>

theorem relocates_on_two_ids:
  assumes "relocate_album env cid now p to_artist False s = (Inr r, s')" "get r ''relocated'' = JBool True"
  shows "\<exists>album rel folder cm fm. safe_album env p = Inr (album, rel, folder)
     \<and> content_mbid (tracks_of env (sh_tree s) album) = Some cm
     \<and> fst (folder_identity env folder album s) = Inr fm \<and> truthy fm \<and> fm \<noteq> JStr cm"
  using assms by (elim relocatedE) (auto elim!: assess_relocates)

text \<open>Where the album goes.\<close>

lemma artist_dir_name_cases:
  assumes "a \<noteq> []" "CHR 0x00 \<notin> set a"
  shows "plain_name (artist_dir_name a) \<or> a = ''.'' \<or> a = ''..''"
proof -
  let ?r = "map (\<lambda>c. if c = CHR ''/'' then CHR ''_'' else c) a"
  let ?t = "dropWhile (\<lambda>c. c = CHR ''.'') (strip ?r)" let ?u = "rstrip_chars ''.'' ?t"
  have r: "CHR ''/'' \<notin> set ?r" "CHR 0x00 \<notin> set ?r" using assms by auto
  have sub: "set ?u \<subseteq> set ?r" using set_rstrip_chars [of "''.''" ?t] set_dropWhileD [of _ "\<lambda>c. c = CHR ''.''" "strip ?r"] set_strip_sub [of ?r] by blast
  show ?thesis
  proof (cases "?u = []")
    case False
    then have "last ?u \<noteq> CHR ''.''" using last_rstrip_chars [of "''.''" ?t] by simp
    with False sub r show ?thesis by (auto simp: artist_dir_name_def plain_name_def Let_def)
  next
    case True
    have "CHR ''/'' \<notin> set a"
    proof
      assume "CHR ''/'' \<in> set a"
      then have "CHR ''_'' \<in> set ?r" by force
      then have "CHR ''_'' \<in> set ?u" by (intro rstrip_chars_keeps dropWhile_keeps strip_keeps) (simp_all add: is_space_code)
      with True show False by simp
    qed
    with True assms show ?thesis by (auto simp: artist_dir_name_def plain_name_def Let_def)
  qed
qed

lemma artist_dir_name_nul:
  assumes "CHR 0x00 \<in> set a"
  shows "CHR 0x00 \<in> set (artist_dir_name a)"
proof -
  have "CHR 0x00 \<in> set (map (\<lambda>c. if c = CHR ''/'' then CHR ''_'' else c) a)" using assms by force
  then have "CHR 0x00 \<in> set (rstrip_chars ''.'' (dropWhile (\<lambda>c. c = CHR ''.'') (strip (map (\<lambda>c. if c = CHR ''/'' then CHR ''_'' else c) a))))"
    by (intro rstrip_chars_keeps dropWhile_keeps strip_keeps) (simp_all add: is_space_code)
  with assms show ?thesis by (auto simp: artist_dir_name_def Let_def)
qed

lemma safe_albumE:
  assumes "safe_album env p = Inr (album, rel, folder)"
  obtains root q where "realpath (rk_media env) = Inr root" "album = root @ q" "plain_path album"
    "rel = relpath album root" "folder = before (CHR ''/'') rel"
proof -
  define given where "given = (if startswith p ''/'' then p else path_join (rk_media env) p)"
  obtain root where root: "realpath (rk_media env) = Inr root"
    using assms by (cases "realpath (rk_media env)") (auto simp: safe_album_def rbind_Inr_iff)
  have al: "realpath given = Inr album" and rel: "rel = relpath album root" "folder = before (CHR ''/'') rel"
    and sub: "album = root \<or> startswith (path_str album) (path_str root @ ''/'')"
    using assms root by (auto simp: safe_album_def given_def [symmetric] rbind_Inr_iff Let_def split: if_splits)
  have "\<exists>q. album = root @ q"
    using sub path_str_prefix [OF realpath_plain [OF al] realpath_plain [OF root]] by (metis append_Nil2)
  with that root rel realpath_plain [OF al] show thesis by blast
qed

lemma move_albumE:
  assumes "move_album env cid now album rel folder artist new_dir new s = (Inr r, s')" "get r ''relocated'' = JBool True"
  obtains s1 changed s2 s3 s4 where
    "guarded env (MakingDirs (path_of (backup_path env cid))) (make_dirs (path_of (backup_path env cid))) s = (Inr (), s1)"
    "back_up_files env album (path_of (backup_path env cid)) (audio_files env (sh_tree s) album) s1 = (Inr changed, s2)"
    "guarded env (MakingDirs new_dir) (make_dirs new_dir) s2 = (Inr (), s3)"
    "guarded env (Moving album new) (move_dir album new) s3 = (Inr (), s4)"
    "append_ledger env (move_entry cid now rel (relpath new (path_of (rk_media env))) folder artist (backup_path env cid) changed)
       (retag_moved env new artist (audio_files env (sh_tree s) album) s4) = (Inr (), s')"
    "get r ''to'' = JStr (relpath new (path_of (rk_media env)))"
proof -
  have ok: "unwritable env (sh_tree s) album (audio_files env (sh_tree s) album) = []"
    using assms by (auto simp: move_album_def Let_def blocked_def get_def split: if_splits)
  from assms(1) show thesis
    unfolding move_album_def Let_def ok
    by (simp, elim mbind_InrE) (clarsimp simp: mlift_def, erule (4) that, simp add: get_def)
qed

lemma new_place:
  assumes "realpath (rk_media env) = Inr root" "plain_path album" "album \<noteq> []" "artist \<notin> {[], ''.'', ''..''}"
    "realpath (path_join (path_join (rk_media env) (artist_dir_name artist)) (if album = [] then [] else last album)) = Inr new"
  shows "plain_name (artist_dir_name artist)" "new = root @ [artist_dir_name artist, last album]"
proof -
  let ?name = "artist_dir_name artist"
  have "\<not> startswith (last album) ''/''"
    using assms(2,3) join_starts [of "[last album]"] by auto
  then have "CHR 0x00 \<notin> set ?name"
    using assms(3,5) set_path_join_right [of ?name] set_path_join_left [of "last album" "path_join (rk_media env) ?name"]
    by (auto simp: realpath_def split: if_splits)
  then have "CHR 0x00 \<notin> set artist" using artist_dir_name_nul by blast
  with assms(4) show name: "plain_name ?name" using artist_dir_name_cases [of artist] by auto
  show "new = root @ [?name, last album]"
    using assms(2,3,5) realpath_join_name [OF realpath_join_name [OF assms(1) name], of "last album"] by simp
qed

text \<open>
  Where a moved album goes: unless the artist is one or two dots, to the directory of one
  name below the media root, where it keeps its own name, and nothing was there when it was assessed.
\<close>

theorem moved_album_stays_below_media_root:
  assumes "relocate_album env cid now p to_artist confirmed s = (Inr r, s')" "get r ''relocated'' = JBool True"
    "safe_album env p = Inr (album, rel, folder)" "strip to_artist \<notin> {[], ''.'', ''..''}"
  shows "\<exists>root name. realpath (rk_media env) = Inr root \<and> plain_name name \<and> name = artist_dir_name (strip to_artist)
     \<and> get r ''to'' = JStr (name @ ''/'' @ last album)
     \<and> \<not> path_exists (sh_tree (snd (assess env album rel folder s))) (root @ [name, last album])"
proof -
  let ?name = "artist_dir_name (strip to_artist)"
  from assms(1,2) show ?thesis
  proof (rule relocatedE)
    fix album' rel' folder' a s1 artist new
    assume r: "safe_album env p = Inr (album', rel', folder')" "assess env album' rel' folder' s = (Inr a, s1)"
      "artist = (if strip to_artist \<noteq> [] then strip to_artist else artist)"
      "realpath (path_join (path_join (rk_media env) (artist_dir_name artist)) (if album' = [] then [] else last album')) = Inr new"
      "\<not> path_exists (sh_tree s1) new"
      "move_album env cid now album' rel' folder' artist (path_of (path_join (rk_media env) (artist_dir_name artist))) new s1 = (Inr r, s')"
    from r assms have eq: "album' = album" "rel' = rel" "folder' = folder" "artist = strip to_artist" by auto
    obtain root where root: "realpath (rk_media env) = Inr root" "plain_path album"
      using assms(3) by (elim safe_albumE)
    obtain s3 s4 where mv: "guarded env (Moving album new) (move_dir album new) s3 = (Inr (), s4)"
      and to: "get r ''to'' = JStr (relpath new (path_of (rk_media env)))"
      using r(6) assms(2) unfolding eq by (elim move_albumE)
    have "\<not> below album new" using mv by (auto simp: guarded_def move_dir_def split: option.splits sum.splits if_splits)
    then have "album \<noteq> []" by (auto simp: below_def)
    note new = new_place [OF root this assms(4) r(4) [unfolded eq]]
    have "path_of (rk_media env) = root" using root(1) by (auto simp: realpath_def split: if_splits)
    then have "relpath new (path_of (rk_media env)) = ?name @ ''/'' @ last album" by (simp add: new(2) relpath_append)
    with root new to r(2,5) eq show ?thesis by auto
  qed
qed

section \<open>Examples\<close>

text \<open>
  A library of two albums of one artist, whose tracks embed different ids, and a server of MusicBrainz that
  knows the name of every id. The content of a track is the id; the content \<open>bad\<close> cannot be read.
\<close>

definition demo_mutagen :: mutagen where
  "demo_mutagen = \<lparr>mg_easy = (\<lambda>p b. Inr (Some [(''artist'', JList [JStr ''Ay'']), (''musicbrainz_artistid'', JList [JStr b])])),
     mg_open = (\<lambda>p b. Inr (if b = ''bad'' then None else Some (Some (''VCFLACDict'', [])))),
     mg_add_tags = (\<lambda>p b. Inl (RuntimeError ''not supported'')), mg_save = (\<lambda>p b ts. Inr (b @ ''!''))\<rparr>"

definition demo_rick :: rick_env where
  "demo_rick = \<lparr>rk_media = ''/m'', rk_backup = ''/b'', rk_mutagen = demo_mutagen,
     rk_http = (\<lambda>log url. (Inr (dumps (JObj [(''name'', JStr ''Bee'')])), 5)), rk_writable = (\<lambda>t p. True),
     rk_mtime = (\<lambda>t p. Some 7), rk_fault = (\<lambda>t x. None)\<rparr>"

definition demo_shelf :: "string \<Rightarrow> shelf" where
  "demo_shelf b2 = \<lparr>sh_tree = \<lparr>tr_files = [([''m'', ''A'', ''One'', ''1.flac''], ''i2''), ([''m'', ''A'', ''One'', ''2.aac''], b2),
       ([''m'', ''A'', ''Two'', ''1.flac''], ''i1'')],
       tr_dirs = [[''m''], [''m'', ''A''], [''m'', ''A'', ''One''], [''m'', ''A'', ''Two''], [''b'']]\<rparr>,
     sh_cache = [], sh_idents = [], sh_clock = 0, sh_last = 0, sh_asked = []\<rparr>"

abbreviation demo_move :: "dict res \<times> shelf" where
  "demo_move \<equiv> relocate_album demo_rick ''c1'' ''now'' ''A/One'' [] False (demo_shelf ''i2'')"

lemma demo_moves: "case fst demo_move of Inr r \<Rightarrow> get r ''relocated'' = JBool True | Inl _ \<Rightarrow> False"
  by code_simp

lemma relocates_on_two_ids_witness:
  "\<exists>album rel folder cm fm. safe_album demo_rick ''A/One'' = Inr (album, rel, folder)
     \<and> content_mbid (tracks_of demo_rick (sh_tree (demo_shelf ''i2'')) album) = Some cm
     \<and> fst (folder_identity demo_rick folder album (demo_shelf ''i2'')) = Inr fm \<and> truthy fm \<and> fm \<noteq> JStr cm"
proof -
  obtain r s' where "demo_move = (Inr r, s')" "get r ''relocated'' = JBool True"
    using demo_moves by (cases demo_move) (auto split: sum.splits)
  then show ?thesis by (rule relocates_on_two_ids)
qed

abbreviation demo_named :: "dict res \<times> shelf" where
  "demo_named \<equiv> relocate_album demo_rick ''c1'' ''now'' ''A/One'' ''Cee'' True (demo_shelf ''i2'')"

lemma demo_named_moves: "case fst demo_named of Inr r \<Rightarrow> get r ''relocated'' = JBool True | Inl _ \<Rightarrow> False"
  by code_simp

lemma moved_album_stays_below_media_root_witness:
  "\<exists>r s'. demo_named = (Inr r, s') \<and> (\<exists>root name. realpath ''/m'' = Inr root \<and> plain_name name \<and> name = artist_dir_name ''Cee''
     \<and> get r ''to'' = JStr (name @ ''/'' @ ''One'')
     \<and> \<not> path_exists (sh_tree (snd (assess demo_rick [''m'', ''A'', ''One''] ''A/One'' ''A'' (demo_shelf ''i2'')))) (root @ [name, ''One'']))"
proof -
  have *: "rk_media demo_rick = ''/m''" "strip ''Cee'' = ''Cee''" "last [''m'', ''A'', ''One''] = ''One''" by (simp add: demo_rick_def, code_simp, simp)
  have safe: "safe_album demo_rick ''A/One'' = Inr ([''m'', ''A'', ''One''], ''A/One'', ''A'')" by code_simp
  obtain r s' where r: "demo_named = (Inr r, s')" "get r ''relocated'' = JBool True"
    using demo_named_moves by (cases demo_named) (auto split: sum.splits)
  from moved_album_stays_below_media_root [OF r safe] r(1) show ?thesis unfolding * by auto
qed

text \<open>
  The artist may also be two dots: the album is then moved out of the library. A track whose tags cannot be
  written ends a change of the album artist after the tracks before it were changed; there is no entry of the
  ledger, and a reversal finds no such change.
\<close>

lemma dots_leave_the_library:
  "case relocate_album demo_rick ''c1'' ''now'' ''A/One'' ''..'' True (demo_shelf ''i2'') of
     (Inr r, s) \<Rightarrow> get r ''to'' = JStr ''../One'' \<and> content (sh_tree s) [''One'', ''1.flac''] = Some ''i2!''
   | _ \<Rightarrow> False"
  by code_simp

lemma interrupted_retag_is_lost:
  "case apply_album demo_rick ''c1'' ''now'' ''A/One'' ''X'' True (demo_shelf ''bad'') of
     (Inl e, s) \<Rightarrow> e = RuntimeError ''unreadable audio file'' \<and> content (sh_tree s) [''m'', ''A'', ''One'', ''1.flac''] = Some ''i2!''
       \<and> read_ledger demo_rick (sh_tree s) = Inr []
       \<and> fst (revert demo_rick ''c1'' ''later'' s) = Inr [(''error'', JStr ''unknown change_id''), (''change_id'', JStr ''c1'')]
   | _ \<Rightarrow> False"
  by code_simp

text \<open>A collaborator is cut off after \<open>feat.\<close>, but not after an ampersand or a comma, next to which there is a space.\<close>

lemma ampersand_is_no_collaborator:
  "alnum_form ''Ay feat. Bee'' = ''ay''" "alnum_form ''Ay & Bee'' = ''aybee''" "alnum_form ''Ay, Bee'' = ''aybee''"
  by code_simp+

end
