(* ===== verification/RickRevert.thy ===== *)
theory RickRevert
  imports RickChanges
begin

text \<open>
  That a change of \<open>rick-library-mcp/server.py\<close> can be undone: what a successful change leaves in the
  backup and in the ledger, and what \<open>revert\<close> makes of it.
\<close>

section \<open>The steps of the file system\<close>

lemma guarded_ok:
  "guarded env x f s = (Inr (), s') \<longleftrightarrow> rk_fault env (sh_tree s) x = None \<and> (\<exists>t. f (sh_tree s) = Inr t \<and> s' = s\<lparr>sh_tree := t\<rparr>)"
  by (auto simp: guarded_def split: option.splits sum.splits)

lemma is_dir_cong: "tr_dirs u = tr_dirs t \<Longrightarrow> is_dir u p = is_dir t p"
  by (simp add: is_dir_def)

lemma is_file_cong: "content u p = content t p \<Longrightarrow> is_file u p = is_file t p"
  by (simp add: is_file_def)

lemma set_ancestors: "set (ancestors p) = {q. q \<noteq> [] \<and> below q p}"
proof -
  have "q \<in> (\<lambda>i. take (Suc i) p) ` {0..<length p}" if "q \<noteq> []" "take (length q) p = q" for q
  proof
    show "q = take (Suc (length q - 1)) p" using that by (cases q) auto
    have "length q \<le> length p" using that(2) by (metis length_take min.cobounded1)
    then show "length q - 1 \<in> {0..<length p}" using that by (cases q) auto
  qed
  then show ?thesis by (auto simp: ancestors_def below_def)
qed

lemma make_dirs_ok:
  assumes "make_dirs p t = Inr u"
  shows "content u q = content t q" "is_dir u q \<longleftrightarrow> is_dir t q \<or> below q p" "below q p \<Longrightarrow> q \<noteq> [] \<Longrightarrow> \<not> is_file t q" "is_dir u p"
proof -
  have u: "\<not> list_ex (is_file t) (ancestors p)" "u = t\<lparr>tr_dirs := tr_dirs t @ filter (\<lambda>d. \<not> is_dir t d) (ancestors p)\<rparr>"
    using assms by (auto simp: make_dirs_def split: if_splits)
  show "content u q = content t q" by (simp add: u content_def)
  show d: "is_dir u q \<longleftrightarrow> is_dir t q \<or> below q p" for q using set_ancestors [of p] by (auto simp: u is_dir_def)
  show "below q p \<Longrightarrow> q \<noteq> [] \<Longrightarrow> \<not> is_file t q" using u(1) set_ancestors [of p] by (auto simp: list_ex_iff)
  show "is_dir u p" by (simp add: d below_def)
qed

lemma make_dirs_again:
  assumes "is_dir t p" "\<And>q. below q p \<Longrightarrow> is_dir t q" "\<And>q. below q p \<Longrightarrow> q \<noteq> [] \<Longrightarrow> \<not> is_file t q"
  shows "make_dirs p t = Inr t"
  using assms set_ancestors [of p] by (auto simp: make_dirs_def list_ex_iff filter_empty_conv)

lemma put_file_ok: "put_file p b t = Inr u \<Longrightarrow> \<not> is_dir t p \<and> is_dir t (butlast p)"
  by (auto simp: put_file_def split: if_splits)

lemma put_file_possible: "\<not> is_dir t p \<Longrightarrow> is_dir t (butlast p) \<Longrightarrow> \<exists>u. put_file p b t = Inr u"
  by (simp add: put_file_def)

lemma copy_file_ok:
  assumes "copy_file src dst t = Inr u"
  shows "\<exists>b. content t src = Some b \<and> put_file dst b t = Inr u"
  using assms by (auto simp: copy_file_def split: option.splits if_splits)

section \<open>The backup\<close>

definition backed_up :: "path \<Rightarrow> path \<Rightarrow> string list \<Rightarrow> file_tree \<Rightarrow> file_tree \<Rightarrow> bool" where
  \<comment> \<open>the files of the album are in the directory with the content they had; others are untouched\<close>
  "backed_up album dir fs t u \<longleftrightarrow>
     tr_dirs u = tr_dirs t
     \<and> (\<forall>f \<in> set fs. content t (album @ [f]) \<noteq> None \<and> content u (dir @ [f]) = content t (album @ [f]) \<and> content u (album @ [f]) \<noteq> None)
     \<and> (\<forall>q. q \<notin> (\<lambda>f. dir @ [f]) ` set fs \<longrightarrow> q \<notin> (\<lambda>f. album @ [f]) ` set fs \<longrightarrow> content u q = content t q)"

lemma back_up_ok:
  assumes "back_up env album dir f s = (Inr (), s')" "\<not> is_dir (sh_tree s) (dir @ [f])"
  obtains b u where "content (sh_tree s) (album @ [f]) = Some b" "put_file (dir @ [f]) b (sh_tree s) = Inr u" "s' = s\<lparr>sh_tree := u\<rparr>"
  using assms by (auto simp: back_up_def guarded_ok copy_into_def dest!: copy_file_ok)

lemma write_tags_ok:
  assumes "write_tags env p v s = (Inr (), s')"
  obtains b u where "put_file p b (sh_tree s) = Inr u" "s' = s\<lparr>sh_tree := u\<rparr>"
  using assms by (auto simp: write_tags_def guarded_ok split: option.splits sum.splits)

lemma old_artist_facts:
  "text_at (JObj (old_artist env t album f @ d)) ''file'' = Inr f"
  "savable (JObj (old_artist env t album f))" "savable (JObj (old_artist env t album f @ [(''new_album_artist'', JStr v)]))"
  by (auto simp: text_at_def value_at_def old_artist_def rbind_def mbid_json_def split: option.splits)

lemma backed_up_step:
  assumes "content t (album @ [f]) = Some b" "f \<notin> set fs" "dir \<noteq> album" "tr_dirs w = tr_dirs t"
    "\<And>q. content w q = (if q = album @ [f] then Some b' else if q = dir @ [f] then Some b else content t q)"
    "backed_up album dir fs w u"
  shows "backed_up album dir (f # fs) t u"
proof -
  have ne: "dir @ [x] \<noteq> album @ [y]" for x y using assms(3) by simp
  have keep: "content u q = content w q" if "q \<notin> (\<lambda>f. dir @ [f]) ` set fs" "q \<notin> (\<lambda>f. album @ [f]) ` set fs" for q
    using assms(6) that unfolding backed_up_def by blast
  have here: "content u (dir @ [f]) = Some b" "content u (album @ [f]) = Some b'"
    using keep [of "dir @ [f]"] keep [of "album @ [f]"] assms(2,3,5) ne by auto
  have others: "content u (dir @ [g]) = content t (album @ [g])" "content t (album @ [g]) \<noteq> None" "content u (album @ [g]) \<noteq> None"
    if g: "g \<in> set fs" for g
  proof -
    have "content w (album @ [g]) = content t (album @ [g])" using g assms(2,3,5) by auto
    then show "content u (dir @ [g]) = content t (album @ [g])" "content t (album @ [g]) \<noteq> None" "content u (album @ [g]) \<noteq> None"
      using assms(6) g unfolding backed_up_def by (metis, metis, metis)
  qed
  have rest: "content u q = content t q" if "q \<notin> (\<lambda>f. dir @ [f]) ` set (f # fs)" "q \<notin> (\<lambda>f. album @ [f]) ` set (f # fs)" for q
    using keep [of q] that assms(5) by auto
  have "tr_dirs u = tr_dirs t" using assms(4,6) by (simp add: backed_up_def)
  with here others rest assms(1) show ?thesis unfolding backed_up_def by simp
qed

lemma retag_files_backed_up:
  assumes "retag_files env album dir v fs s = (Inr cs, s')" "distinct fs" "dir \<noteq> album"
    "\<forall>f \<in> set fs. \<not> is_dir (sh_tree s) (dir @ [f])"
  shows "backed_up album dir fs (sh_tree s) (sh_tree s')
    \<and> (\<forall>f \<in> set fs. is_dir (sh_tree s) album \<and> \<not> is_dir (sh_tree s) (album @ [f]))
    \<and> map (\<lambda>c. text_at c ''file'') cs = map Inr fs \<and> (\<forall>c \<in> set cs. savable c)"
  using assms
proof (induction fs arbitrary: s cs)
  case (Cons f fs)
  from Cons.prems(1) obtain s1 s2 cs' where
    1: "back_up env album dir f s = (Inr (), s1)" "write_tags env (album @ [f]) v s1 = (Inr (), s2)"
    and rec: "retag_files env album dir v fs s2 = (Inr cs', s')"
    and cs: "cs = JObj (old_artist env (sh_tree s) album f @ [(''new_album_artist'', JStr v)]) # cs'"
    by (auto elim!: mbind_InrE simp: mlift_def)
  obtain b t1 where b: "content (sh_tree s) (album @ [f]) = Some b" "put_file (dir @ [f]) b (sh_tree s) = Inr t1" "s1 = s\<lparr>sh_tree := t1\<rparr>"
    using back_up_ok [OF 1(1)] Cons.prems(4) by auto
  obtain b' t2 where b': "put_file (album @ [f]) b' t1 = Inr t2" "s2 = s1\<lparr>sh_tree := t2\<rparr>"
    using write_tags_ok [OF 1(2)] b(3) by auto
  have dirs: "tr_dirs t2 = tr_dirs (sh_tree s)" using put_file_content(2) [OF b(2)] put_file_content(2) [OF b'(1)] by simp
  have IH: "backed_up album dir fs t2 (sh_tree s')" "\<forall>g \<in> set fs. is_dir t2 album \<and> \<not> is_dir t2 (album @ [g])"
    "map (\<lambda>c. text_at c ''file'') cs' = map Inr fs" "\<forall>c \<in> set cs'. savable c"
    using Cons.IH [OF rec] Cons.prems(2-4) b'(2) is_dir_cong [OF dirs] by auto
  have "backed_up album dir (f # fs) (sh_tree s) (sh_tree s')"
    using put_file_content(1) [OF b(2)] put_file_content(1) [OF b'(1)] Cons.prems(2,3)
    by (intro backed_up_step [OF b(1) _ _ dirs _ IH(1)]) auto
  moreover have "is_dir (sh_tree s) album \<and> \<not> is_dir (sh_tree s) (album @ [f])"
    using put_file_ok [OF b'(1)] is_dir_cong [OF put_file_content(2) [OF b(2)]] by simp
  ultimately show ?case
    using IH cs is_dir_cong [OF dirs] old_artist_facts(1,3) by auto
qed (simp add: backed_up_def)

lemma back_up_files_backed_up:
  assumes "back_up_files env album dir fs s = (Inr cs, s')" "distinct fs" "dir \<noteq> album"
    "\<forall>f \<in> set fs. \<not> is_dir (sh_tree s) (dir @ [f])"
  shows "backed_up album dir fs (sh_tree s) (sh_tree s') \<and> (\<forall>f \<in> set fs. content (sh_tree s') (album @ [f]) = content (sh_tree s) (album @ [f]))
    \<and> map (\<lambda>c. text_at c ''file'') cs = map Inr fs \<and> (\<forall>c \<in> set cs. savable c)"
  using assms
proof (induction fs arbitrary: s cs)
  case (Cons f fs)
  from Cons.prems(1) obtain s1 cs' where
    1: "back_up env album dir f s = (Inr (), s1)" and rec: "back_up_files env album dir fs s1 = (Inr cs', s')"
    and cs: "cs = JObj (old_artist env (sh_tree s) album f) # cs'"
    by (auto elim!: mbind_InrE simp: mlift_def)
  obtain b t1 where b: "content (sh_tree s) (album @ [f]) = Some b" "put_file (dir @ [f]) b (sh_tree s) = Inr t1" "s1 = s\<lparr>sh_tree := t1\<rparr>"
    using back_up_ok [OF 1] Cons.prems(4) by auto
  have dirs: "tr_dirs t1 = tr_dirs (sh_tree s)" using put_file_content(2) [OF b(2)] .
  have IH: "backed_up album dir fs t1 (sh_tree s')" "\<forall>g \<in> set fs. content (sh_tree s') (album @ [g]) = content t1 (album @ [g])"
    "map (\<lambda>c. text_at c ''file'') cs' = map Inr fs" "\<forall>c \<in> set cs'. savable c"
    using Cons.IH [OF rec] Cons.prems(2-4) b(3) is_dir_cong [OF dirs] by auto
  have t1: "content t1 q = (if q = album @ [f] then Some b else if q = dir @ [f] then Some b else content (sh_tree s) q)" for q
    using put_file_content(1) [OF b(2), of q] b(1) Cons.prems(3) by auto
  have "backed_up album dir (f # fs) (sh_tree s) (sh_tree s')"
    using Cons.prems(2,3) by (intro backed_up_step [OF b(1) _ _ dirs t1 IH(1)]) auto
  moreover have "content (sh_tree s') (album @ [f]) = content (sh_tree s) (album @ [f])"
  proof -
    have "content (sh_tree s') (album @ [f]) = content t1 (album @ [f])"
      using IH(1) Cons.prems(2,3) unfolding backed_up_def by auto
    with t1 b(1) show ?thesis by simp
  qed
  ultimately show ?case
    using IH cs t1 Cons.prems(2,3) old_artist_facts(1) [of env "sh_tree s" album f "[]"] old_artist_facts(2) by auto
qed (simp add: backed_up_def)

section \<open>The ledger is read back\<close>

lemma universal_newlines_append: "universal_newlines (a @ newline # b) = universal_newlines (a @ [newline]) @ universal_newlines b"
proof (induction a rule: universal_newlines.induct)
  case (2 c cs)
  show ?case
  proof (cases "c = CHR 0x0D")
    case True
    show ?thesis
    proof (cases cs)
      case (Cons a list)
      with True 2(1) show ?thesis
        by (cases "a = newline") (simp_all del: universal_newlines.simps add: universal_newlines.simps(2) [of "CHR 0x0D"])
    qed (simp add: True)
  qed (use 2 in simp)
qed simp

lemma universal_newlines_last: "\<exists>c. universal_newlines (a @ [newline]) = c @ [newline]"
proof (induction a rule: universal_newlines.induct)
  case (2 c cs)
  show ?case
  proof (cases "c = CHR 0x0D")
    case True
    show ?thesis
    proof (cases cs)
      case (Cons a list)
      with True 2(1) show ?thesis
        by (cases "a = newline") (auto simp del: universal_newlines.simps simp add: universal_newlines.simps(2) [of "CHR 0x0D"])
    qed (simp add: True)
  qed (use 2 in auto)
qed simp

lemma universal_newlines_none: "CHR 0x0D \<notin> set a \<Longrightarrow> universal_newlines a = a"
  by (induction a rule: universal_newlines.induct) auto

definition one_line :: "string \<Rightarrow> bool" where
  "one_line s \<longleftrightarrow> newline \<notin> set s \<and> CHR 0x0D \<notin> set s"

lemma one_line_simps [simp]:
  "one_line []" "one_line (c # s) \<longleftrightarrow> c \<noteq> newline \<and> c \<noteq> CHR 0x0D \<and> one_line s" "one_line (s @ u) \<longleftrightarrow> one_line s \<and> one_line u"
  by (auto simp: one_line_def)

lemma one_line_esc: "one_line (esc_char_unicode c)"
proof -
  have "48 \<le> code_point (hex_digit m)" if "m < 16" for m
    using that by (auto simp: hex_digit_def)
  then have "hex_digit m \<noteq> newline \<and> hex_digit m \<noteq> CHR 0x0D" if "m < 16" for m
    using that by (fastforce simp: code_point_def)
  then have "one_line (hex2 n)" for n by (simp add: hex2_def)
  then show ?thesis by (auto simp: esc_char_unicode_def esc_char_def Let_def code_point_def)
qed

lemma one_line_str: "one_line (dumps_str_by esc_char_unicode s)"
  using one_line_esc by (induction s) (auto simp: dumps_str_by_def)

lemma one_line_int: "one_line (int_str i)"
proof -
  have "one_line (nat_str n)" for n
    using nat_str_digits [of newline n] nat_str_digits [of "CHR 0x0D" n]
    by (auto simp: one_line_def is_digit_def code_point_def)
  then show ?thesis by (simp add: int_str_def)
qed

lemma one_line_join: "one_line sep \<Longrightarrow> (\<And>x. x \<in> set xs \<Longrightarrow> one_line x) \<Longrightarrow> one_line (join sep xs)"
  by (induction sep xs rule: join.induct) auto

lemma one_line_dumps: "savable j \<Longrightarrow> one_line (dumps_unicode j)"
  "\<forall>x \<in> set xs. savable x \<Longrightarrow> x' \<in> set (dumps_list esc_char_unicode xs) \<Longrightarrow> one_line x'"
  "\<forall>kv \<in> set kvs. savable (snd kv) \<Longrightarrow> y' \<in> set (dumps_items esc_char_unicode kvs) \<Longrightarrow> one_line y'"
proof (induction esc_char_unicode j and esc_char_unicode xs and esc_char_unicode kvs
    arbitrary: and x' and y' rule: dumps_by_dumps_list_dumps_items.induct)
qed (auto simp: one_line_str one_line_int intro!: one_line_join)

lemma dumps_dict_ends:
  "hd (dumps_unicode (JObj d)) = CHR ''{''" "last (dumps_unicode (JObj d)) = CHR ''}''" "dumps_unicode (JObj d) \<noteq> []"
  by simp_all

lemma strip_dumps_dict: "strip (dumps_unicode (JObj d)) = dumps_unicode (JObj d)"
proof (rule strip_no_space)
  show "dumps_unicode (JObj d) = [] \<or> \<not> is_space (hd (dumps_unicode (JObj d))) \<and> \<not> is_space (last (dumps_unicode (JObj d)))"
    by (simp add: is_space_code)
qed

definition whole_lines :: "string \<Rightarrow> bool" where
  "whole_lines b \<longleftrightarrow> b = [] \<or> last b = newline"

text \<open>An entry that was appended to whole lines is the last one that is read, and leaves whole lines.\<close>

lemma ledger_lines_append:
  assumes "whole_lines b" "savable (JObj d)"
  shows "ledger_lines (b @ dumps_unicode (JObj d) @ [newline]) = ledger_lines b @ [JObj d]"
    and "whole_lines (b @ dumps_unicode (JObj d) @ [newline])"
proof -
  let ?d = "dumps_unicode (JObj d)"
  have one: "one_line ?d" using one_line_dumps(1) [OF assms(2)] .
  have blank: "strip [] = []" by (simp add: strip_def lstrip_def rstrip_def)
  define lines where "lines = (\<lambda>ls. concat (map (\<lambda>l. let t = strip l in if t = [] then [] else case loads t of Some j \<Rightarrow> [j] | None \<Rightarrow> []) ls))"
  have lines: "ledger_lines x = lines (split_on newline (universal_newlines x))" "lines (xs @ ys) = lines xs @ lines ys" for x xs ys
    by (simp_all add: ledger_lines_def lines_def)
  have end_line: "universal_newlines (?d @ [newline]) = ?d @ [newline]"
    using universal_newlines_none [of "?d @ [newline]"] one by (simp add: one_line_def del: dumps_by.simps)
  have new: "lines (split_on newline (?d @ [newline])) = [JObj d]"
  proof -
    have "split_on newline (?d @ [newline]) = [?d, []]"
      using one split_on_append [of newline ?d "[]"] by (simp add: one_line_def del: dumps_by.simps)
    then show ?thesis
      using strip_dumps_dict [of d] unicode.loads_by [OF assms(2)] dumps_dict_ends(3) [of d]
      by (simp add: lines_def blank del: dumps_by.simps)
  qed
  show "ledger_lines (b @ ?d @ [newline]) = ledger_lines b @ [JObj d]"
  proof (cases "b = []")
    case True
    have "ledger_lines [] = []" by (simp add: ledger_lines_def blank)
    with True new end_line lines(1) show ?thesis by (simp del: dumps_by.simps)
  next
    case False
    then obtain a where a: "b = a @ [newline]" using assms(1) by (metis append_butlast_last_id whole_lines_def)
    obtain c where c: "universal_newlines (a @ [newline]) = c @ [newline]"
      using universal_newlines_last by blast
    have "universal_newlines (b @ ?d @ [newline]) = c @ newline # ?d @ [newline]"
      using universal_newlines_append [of a "?d @ [newline]"] end_line a c by (simp del: dumps_by.simps)
    then have "ledger_lines (b @ ?d @ [newline]) = lines (split_on newline c) @ [JObj d]"
      using new lines by (simp add: split_on_join_after del: dumps_by.simps)
    moreover have "ledger_lines b = lines (split_on newline c)"
      using a c lines by (simp add: split_on_join_after) (simp add: lines_def blank)
    ultimately show ?thesis by simp
  qed
  show "whole_lines (b @ ?d @ [newline])" by (simp add: whole_lines_def)
qed

lemma append_ledger_ok:
  assumes "append_ledger env d s = (Inr (), s')"
  obtains t where "make_dirs (path_of (rk_backup env)) (sh_tree s) = Inr t"
    "append_file (ledger_path env) (dumps_unicode (JObj d) @ [newline]) t = Inr (sh_tree s')"
  using assms by (auto simp: append_ledger_def guarded_ok elim!: mbind_InrE)

definition ledger_text :: "rick_env \<Rightarrow> file_tree \<Rightarrow> string" where
  "ledger_text env t = (case content t (ledger_path env) of Some b \<Rightarrow> b | None \<Rightarrow> [])"

lemma append_ledger_tree:
  assumes "append_ledger env d s = (Inr (), s')"
  shows "content (sh_tree s') q = (if q = ledger_path env then Some (ledger_text env (sh_tree s) @ dumps_unicode (JObj d) @ [newline]) else content (sh_tree s) q)"
    and "is_dir (sh_tree s') q \<longleftrightarrow> is_dir (sh_tree s) q \<or> below q (path_of (rk_backup env))"
proof -
  obtain t where t: "make_dirs (path_of (rk_backup env)) (sh_tree s) = Inr t"
    "put_file (ledger_path env) (ledger_text env t @ dumps_unicode (JObj d) @ [newline]) t = Inr (sh_tree s')"
    using append_ledger_ok [OF assms] by (auto simp: append_file_def ledger_text_def)
  show "content (sh_tree s') q = (if q = ledger_path env then Some (ledger_text env (sh_tree s) @ dumps_unicode (JObj d) @ [newline]) else content (sh_tree s) q)"
    using put_file_content(1) [OF t(2), of q] make_dirs_ok(1) [OF t(1)] by (simp add: ledger_text_def)
  show "is_dir (sh_tree s') q \<longleftrightarrow> is_dir (sh_tree s) q \<or> below q (path_of (rk_backup env))"
    using is_dir_cong [OF put_file_content(2) [OF t(2)], of q] make_dirs_ok(2) [OF t(1)] by simp
qed

lemma read_ledger_append:
  assumes "append_ledger env d s = (Inr (), s')" "whole_lines (ledger_text env (sh_tree s))" "savable (JObj d)"
  shows "read_ledger env (sh_tree s') = Inr (ledger_lines (ledger_text env (sh_tree s)) @ [JObj d])"
  using append_ledger_tree(1) [OF assms(1), of "ledger_path env"] ledger_lines_append(1) [OF assms(2,3)]
  by (simp add: read_ledger_def del: dumps_by.simps)

section \<open>The reversal of a change\<close>

text \<open>
  The server as it should be set up: no fault of the file system, and a backup directory that is not
  inside the library nor around it.
\<close>

definition sound_setup :: "rick_env \<Rightarrow> path \<Rightarrow> path \<Rightarrow> bool" where
  "sound_setup env media backup \<longleftrightarrow>
     realpath (rk_media env) = Inr media \<and> realpath (rk_backup env) = Inr backup
     \<and> \<not> below media backup \<and> \<not> below backup media \<and> (\<forall>t x. rk_fault env t x = None)"

lemma restore_file_ok:
  assumes "\<forall>t x. rk_fault env t x = None" "text_at c ''file'' = Inr f" "plain_name f" "realpath dirtext = Inr dir" "plain_path album"
    "content (sh_tree s) (dir @ [f]) = Some b" "dir \<noteq> album" "is_dir (sh_tree s) album" "\<not> is_dir (sh_tree s) (album @ [f])"
    "present \<longrightarrow> content (sh_tree s) (album @ [f]) \<noteq> None"
  obtains u where "put_file (album @ [f]) b (sh_tree s) = Inr u"
    "restore_file env (JStr dirtext) album present c s = (Inr [f], s\<lparr>sh_tree := u\<rparr>)"
proof -
  have bak: "realpath (path_join dirtext f) = Inr (dir @ [f])" and to: "realpath (path_join (path_str album) f) = Inr (album @ [f])"
    using assms(3-5) realpath_join_name realpath_str by blast+
  then have bak': "path_of (path_join dirtext f) = dir @ [f]" by (simp add: realpath_def split: if_splits)
  obtain u where u: "put_file (album @ [f]) b (sh_tree s) = Inr u"
    using put_file_possible assms(8,9) by (metis butlast_snoc)
  then have "copy_file (dir @ [f]) (album @ [f]) (sh_tree s) = Inr u" using assms(6,7) by (simp add: copy_file_def)
  then have "restore_file env (JStr dirtext) album present c s = (Inr [f], s\<lparr>sh_tree := u\<rparr>)"
    using assms(1,2,6,10) bak bak' to
    by (simp add: restore_file_def mbind_def mlift_def rbind_def Let_def file_at_def is_file_def guarded_def)
  with u that show thesis by blast
qed

lemma restore_files_ok:
  assumes "\<forall>t x. rk_fault env t x = None" "map (\<lambda>c. text_at c ''file'') cs = map Inr fs" "\<forall>f \<in> set fs. plain_name f"
    "realpath dirtext = Inr dir" "plain_path album" "dir \<noteq> album"
    "\<forall>f \<in> set fs. content (sh_tree s) (dir @ [f]) \<noteq> None \<and> is_dir (sh_tree s) album \<and> \<not> is_dir (sh_tree s) (album @ [f])
       \<and> content (sh_tree s) (album @ [f]) \<noteq> None"
  obtains u where "restore_files env (JStr dirtext) album present cs s = (Inr fs, s\<lparr>sh_tree := u\<rparr>)"
    "tr_dirs u = tr_dirs (sh_tree s)"
    "\<And>q. content u q = (if \<exists>f \<in> set fs. q = album @ [f] then content (sh_tree s) (dir @ [last q]) else content (sh_tree s) q)"
proof -
  have "\<exists>u. restore_files env (JStr dirtext) album present cs s = (Inr fs, s\<lparr>sh_tree := u\<rparr>) \<and> tr_dirs u = tr_dirs (sh_tree s)
    \<and> (\<forall>q. content u q = (if \<exists>f \<in> set fs. q = album @ [f] then content (sh_tree s) (dir @ [last q]) else content (sh_tree s) q))"
    using assms(2,3,7)
  proof (induction fs arbitrary: cs s)
    case Nil
    then show ?case by (auto simp: mlift_def intro!: exI [of _ "sh_tree s"])
  next
    case (Cons f fs)
    then obtain c cs' where cs: "cs = c # cs'" "text_at c ''file'' = Inr f" "map (\<lambda>c. text_at c ''file'') cs' = map Inr fs"
      by (cases cs) auto
    obtain b where b: "content (sh_tree s) (dir @ [f]) = Some b" using Cons.prems(3) by auto
    obtain t where t: "put_file (album @ [f]) b (sh_tree s) = Inr t"
      "restore_file env (JStr dirtext) album present c s = (Inr [f], s\<lparr>sh_tree := t\<rparr>)"
      using restore_file_ok [OF assms(1) cs(2) _ assms(4,5) b assms(6)] Cons.prems by auto
    note eq = put_file_content(1) [OF t(1)] and dirs = put_file_content(2) [OF t(1)]
    have "\<forall>g \<in> set fs. content t (dir @ [g]) \<noteq> None \<and> is_dir t album \<and> \<not> is_dir t (album @ [g]) \<and> content t (album @ [g]) \<noteq> None"
      using Cons.prems(3) eq is_dir_cong [OF dirs] assms(6) by auto
    with Cons.IH [OF cs(3), of "s\<lparr>sh_tree := t\<rparr>"] Cons.prems(2) obtain u where
      u: "restore_files env (JStr dirtext) album present cs' (s\<lparr>sh_tree := t\<rparr>) = (Inr fs, s\<lparr>sh_tree := t\<rparr>\<lparr>sh_tree := u\<rparr>)"
        "tr_dirs u = tr_dirs t" "\<And>q. content u q = (if \<exists>f \<in> set fs. q = album @ [f] then content t (dir @ [last q]) else content t q)"
      by auto
    show ?case
      using u t(2) cs(1) dirs eq b assms(6)
      by (intro exI [of _ u]) (auto simp: mbind_def mlift_def)
  qed
  then show thesis using that by blast
qed

lemma below_refl [simp]: "below p p" "below p (p @ q)" "below [] p"
  by (simp_all add: below_def)

lemma below_iff: "below a p \<longleftrightarrow> (\<exists>q. p = a @ q)"
  by (metis append_take_drop_id append_eq_conv_conj below_def)

lemma below_trans: "below a b \<Longrightarrow> below b c \<Longrightarrow> below a c"
  by (auto simp: below_iff)

lemma below_linear: "below a c \<Longrightarrow> below b c \<Longrightarrow> below a b \<or> below b a"
  by (auto simp: below_iff append_eq_append_conv2)

lemma outside_backup: "\<not> below media backup \<Longrightarrow> \<not> below backup media \<Longrightarrow> \<not> below backup (media @ x)"
  using below_linear [of backup "media @ x" media] by auto

lemma distinct_audio_files: "distinct (audio_files env t d)"
proof -
  have "distinct (entries t d)"
    unfolding entries_def by (intro iffD2 [OF distinct_map] conjI distinct_filter distinct_remdups inj_onI)
      (metis (mono_tags, lifting) append_butlast_last_id mem_Collect_eq set_filter)
  then show ?thesis by (auto simp: audio_files_def listing_def list_dir_def split: sum.splits option.splits if_splits)
qed

lemma audio_files_are_files: "f \<in> set (audio_files env t d) \<Longrightarrow> is_file t (d @ [f])"
  by (auto simp: audio_files_def split: sum.splits)

lemma append_ledger_roots:
  assumes "append_ledger env d s = (Inr (), s1)" "ledger_path env = path_of (rk_backup env) @ [x]"
  shows "\<not> is_dir (sh_tree s1) (ledger_path env)"
    and "below q (path_of (rk_backup env)) \<Longrightarrow> is_dir (sh_tree s1) q"
    and "below q (path_of (rk_backup env)) \<Longrightarrow> q \<noteq> [] \<Longrightarrow> \<not> is_file (sh_tree s1) q"
proof -
  obtain t where t: "make_dirs (path_of (rk_backup env)) (sh_tree s) = Inr t"
    "put_file (ledger_path env) (ledger_text env t @ dumps_unicode (JObj d) @ [newline]) t = Inr (sh_tree s1)"
    using append_ledger_ok [OF assms(1)] by (auto simp: append_file_def ledger_text_def)
  show "\<not> is_dir (sh_tree s1) (ledger_path env)"
    using put_file_ok [OF t(2)] is_dir_cong [OF put_file_content(2) [OF t(2)]] by simp
  assume q: "below q (path_of (rk_backup env))"
  then show "is_dir (sh_tree s1) q" using append_ledger_tree(2) [OF assms(1)] by simp
  assume "q \<noteq> []"
  moreover have "q \<noteq> ledger_path env" using q assms(2) by (auto simp: below_iff)
  ultimately show "\<not> is_file (sh_tree s1) q"
    using make_dirs_ok(3) [OF t(1) q] append_ledger_tree(1) [OF assms(1), of q] by (simp add: is_file_def)
qed

lemma append_ledger_possible:
  assumes "\<forall>t x. rk_fault env t x = None" "\<not> is_dir u (ledger_path env)" "ledger_path env = path_of (rk_backup env) @ [x]"
    "\<And>q. below q (path_of (rk_backup env)) \<Longrightarrow> is_dir u q \<and> (q \<noteq> [] \<longrightarrow> \<not> is_file u q)"
  shows "\<exists>s2. append_ledger env d (s\<lparr>sh_tree := u\<rparr>) = (Inr (), s2)"
proof -
  have "make_dirs (path_of (rk_backup env)) u = Inr u" using assms(4) by (intro make_dirs_again) auto
  moreover have "\<exists>w. append_file (ledger_path env) (dumps_unicode (JObj d) @ [newline]) u = Inr w"
    using assms(2-4) put_file_possible by (simp add: append_file_def del: dumps_by.simps)
  ultimately show ?thesis using assms(1)
    by (auto simp: append_ledger_def mbind_def guarded_def simp del: dumps_by.simps)
qed

text \<open>An assessment has a confidence and a reason.\<close>

definition worded :: "dict \<Rightarrow> bool" where
  "worded v \<longleftrightarrow> (\<exists>c r. get v ''confidence'' = JStr c \<and> get v ''reason'' = JStr r)"

lemma worded_parts [simp]:
  "worded (advice x c r)" "worded (retag_to f r)" "worded (relocate_to t)" "worded (by_text arts aa folder)"
  by (auto simp: worded_def by_text_def advice_def retag_to_def relocate_to_def get_def)

lemma worded_Cons [simp]: "k \<noteq> ''confidence'' \<Longrightarrow> k \<noteq> ''reason'' \<Longrightarrow> worded ((k, v) # d) = worded d"
  by (simp add: worded_def get_Cons)

lemma worded_by_mbid: "by_mbid env fm m aa art folder s = (Inr v, s') \<Longrightarrow> worded v"
  by (auto simp: by_mbid_def other_artist_def mlift_def Let_def elim!: mbind_InrE split: if_splits)

lemma worded_assess: "assess env album rel folder s = (Inr a, s') \<Longrightarrow> worded a"
  by (auto simp: assess_def Let_def mlift_def album_base_def elim!: mbind_InrE
      split: if_splits option.splits) (erule worded_by_mbid)

subsection \<open>Of a new album artist\<close>

lemma appliedE:
  assumes "apply_album env cid now p v confirmed s = (Inr r, s')" "get r ''applied'' = JBool True"
  obtains album rel folder a s1 w
  where "safe_album env p = Inr (album, rel, folder)" "assess env album rel folder s = (Inr a, s1)"
    "retag_album env cid now album rel folder w a confirmed s1 = (Inr r, s')"
proof -
  obtain album rel folder where safe: "safe_album env p = Inr (album, rel, folder)"
    using assms(1) by (cases "safe_album env p") (auto simp: apply_album_def)
  have dir: "is_dir (sh_tree s) album"
    using assms safe by (auto simp: apply_album_def not_a_directory_def get_def split: if_splits)
  note run = assms(1) [unfolded apply_album_def safe sum.case prod.case]
  obtain a s1 where a: "assess env album rel folder s = (Inr a, s1)"
    using run dir by (auto elim!: mbind_InrE)
  let ?w = "if strip v \<noteq> [] then mlift (Inr (strip v)) else mlift (recommended a)"
  obtain w where w: "?w s1 = (Inr w, s1)"
    using run dir a by (auto simp: mlift_def mbind_def split: if_splits sum.splits)
  have "retag_album env cid now album rel folder w a confirmed s1 = (Inr r, s')"
    using run dir a w assms(2)
    by (auto simp: mbind_def mlift_def refused_def get_def split: if_splits)
  with that [OF safe a] show thesis by blast
qed

lemma retag_albumE:
  assumes "retag_album env cid now album rel folder w a confirmed s = (Inr r, s')" "get r ''applied'' = JBool True"
  obtains s1 changed s2 where
    "guarded env (MakingDirs (path_of (backup_path env cid))) (make_dirs (path_of (backup_path env cid))) s = (Inr (), s1)"
    "retag_files env album (path_of (backup_path env cid)) w (audio_files env (sh_tree s) album) s1 = (Inr changed, s2)"
    "append_ledger env (retag_entry cid now rel folder w a confirmed (backup_path env cid) changed) s2 = (Inr (), s')"
proof -
  have ok: "unwritable env (sh_tree s) album (audio_files env (sh_tree s) album) = []"
    using assms by (auto simp: retag_album_def Let_def blocked_def get_def split: if_splits)
  from assms(1) show thesis
    unfolding retag_album_def Let_def ok
    by (simp, elim mbind_InrE) (clarsimp simp: mlift_def, erule (2) that)
qed

text \<open>What is assumed of the tree before a change: proper names, a fresh id, and a ledger of whole lines.\<close>

definition ready :: "rick_env \<Rightarrow> path \<Rightarrow> string \<Rightarrow> file_tree \<Rightarrow> bool" where
  "ready env backup cid t \<longleftrightarrow>
     plain_name cid \<and> cid \<noteq> ''ledger.jsonl'' \<and> (\<forall>p \<in> fst ` set (tr_files t). plain_path p)
     \<and> (\<forall>q. below (backup @ [cid]) q \<longrightarrow> \<not> path_exists t q) \<and> whole_lines (ledger_text env t)"

lemma backup_names:
  assumes "sound_setup env media backup"
  shows "path_of (rk_backup env) = backup" "ledger_path env = backup @ [''ledger.jsonl'']"
    "cache_files env = {backup @ [''mb-cache.json''], backup @ [''mb-cache.json.tmp'']}"
    "plain_name cid \<Longrightarrow> path_of (backup_path env cid) = backup @ [cid]"
    "plain_name cid \<Longrightarrow> realpath (backup_path env cid) = Inr (backup @ [cid])"
    "path_of (rk_media env) = media"
proof -
  have r: "realpath (rk_backup env) = Inr backup" "realpath (rk_media env) = Inr media" using assms by (simp_all add: sound_setup_def)
  then show b: "path_of (rk_backup env) = backup" "path_of (rk_media env) = media" by (auto simp: realpath_def split: if_splits)
  have tmp: "mb_cache_path env @ ''.tmp'' = path_join (rk_backup env) ''mb-cache.json.tmp''"
    by (simp add: mb_cache_path_def path_join_def startswith_def)
  have "plain_name ''ledger.jsonl''" "plain_name ''mb-cache.json''" "plain_name ''mb-cache.json.tmp''" by (simp_all add: plain_name_def)
  then show "ledger_path env = backup @ [''ledger.jsonl'']" "cache_files env = {backup @ [''mb-cache.json''], backup @ [''mb-cache.json.tmp'']}"
    unfolding ledger_path_def backup_path_def cache_files_def tmp unfolding mb_cache_path_def by (simp_all add: path_of_name b)
  show "plain_name cid \<Longrightarrow> path_of (backup_path env cid) = backup @ [cid]" by (simp add: backup_path_def path_of_name b)
  show "plain_name cid \<Longrightarrow> realpath (backup_path env cid) = Inr (backup @ [cid])"
    using realpath_join_name [OF r(1)] by (simp add: backup_path_def)
qed

lemma assessed:
  assumes "sound_setup env media backup" "assess env album rel folder s = (Inr a, s1)" "ready env backup cid (sh_tree s)"
  shows "\<not> below backup q \<Longrightarrow> content (sh_tree s1) q = content (sh_tree s) q" "is_dir (sh_tree s1) q = is_dir (sh_tree s) q"
    "ledger_text env (sh_tree s1) = ledger_text env (sh_tree s)"
    "album = media @ x \<Longrightarrow> f \<in> set (audio_files env (sh_tree s1) album) \<Longrightarrow> plain_name f"
proof -
  have calm: "calm env s s1" using calm_assess [of env s album rel folder] assms(2) by simp
  have cache: "cache_files env = {backup @ [''mb-cache.json''], backup @ [''mb-cache.json.tmp'']}"
    and ledger: "ledger_path env = backup @ [''ledger.jsonl'']" using backup_names [OF assms(1)] by blast+
  show same: "content (sh_tree s1) q = content (sh_tree s) q" if "\<not> below backup q" for q
  proof -
    have "q \<notin> cache_files env" using that unfolding cache by auto
    then show ?thesis using calm unfolding calm_def by blast
  qed
  show "is_dir (sh_tree s1) q = is_dir (sh_tree s) q" using calm by (auto simp: calm_def is_dir_def)
  show "ledger_text env (sh_tree s1) = ledger_text env (sh_tree s)"
  proof -
    have "ledger_path env \<notin> cache_files env" by (simp add: cache ledger)
    then have "content (sh_tree s1) (ledger_path env) = content (sh_tree s) (ledger_path env)" using calm unfolding calm_def by blast
    then show ?thesis by (simp add: ledger_text_def)
  qed
  assume f: "album = media @ x" "f \<in> set (audio_files env (sh_tree s1) album)"
  have "\<not> below backup (album @ [f])" using outside_backup assms(1) f(1) by (simp add: sound_setup_def)
  then have "content (sh_tree s) (album @ [f]) \<noteq> None"
    using audio_files_are_files [OF f(2)] same [of "album @ [f]"] by (simp add: is_file_def)
  then have "album @ [f] \<in> fst ` set (tr_files (sh_tree s))" by (simp add: content_def map_of_eq_None_iff)
  with assms(3) show "plain_name f" by (auto simp: ready_def)
qed

text \<open>
  Property C5. A new album artist can be undone. After a change that ended normally, with a fresh id and
  in a sound setup, the reversal of its id ends normally, and every file outside the backup directory,
  those of the album and all others, has the content it had before the change.
\<close>

theorem apply_then_revert_restores:
  assumes "sound_setup env media backup" "ready env backup cid (sh_tree s)"
    "apply_album env cid now p v confirmed s = (Inr r, s1)" "get r ''applied'' = JBool True"
  shows "\<exists>r2 s2. revert env cid now2 s1 = (Inr r2, s2) \<and> get r2 ''reverted'' = JBool True
     \<and> (\<forall>q. below backup q \<or> content (sh_tree s2) q = content (sh_tree s) q)"
proof -
  from assms(3,4) obtain album rel folder a s0 w where safe: "safe_album env p = Inr (album, rel, folder)"
    and a: "assess env album rel folder s = (Inr a, s0)"
    and run: "retag_album env cid now album rel folder w a confirmed s0 = (Inr r, s1)" by (rule appliedE)
  let ?fs = "audio_files env (sh_tree s0) album" and ?dir = "backup @ [cid]"
  have sound: "realpath (rk_media env) = Inr media" "\<not> below media backup" "\<not> below backup media" "\<forall>t x. rk_fault env t x = None"
    and cid: "plain_name cid" using assms(1,2) by (simp_all add: sound_setup_def ready_def)
  note names = backup_names [OF assms(1)] and same = assessed [OF assms(1) a assms(2)]
  obtain q0 where album: "album = media @ q0" "plain_path album" "rel = relpath album media"
    using safe sound(1) by (elim safe_albumE) auto
  have out: "\<not> below backup (album @ x)" for x using outside_backup [OF sound(2,3)] album(1) by simp
  then have ne: "?dir \<noteq> album" using out [of "[]"] by (auto simp: below_iff)
  from run assms(4) obtain sm cs sr where
    "guarded env (MakingDirs (path_of (backup_path env cid))) (make_dirs (path_of (backup_path env cid))) s0 = (Inr (), sm)" (is ?mk)
    and re': "retag_files env album (path_of (backup_path env cid)) w ?fs sm = (Inr cs, sr)"
    and ap: "append_ledger env (retag_entry cid now rel folder w a confirmed (backup_path env cid) cs) sr = (Inr (), s1)"
    by (rule retag_albumE)
  from \<open>?mk\<close> have mk: "make_dirs ?dir (sh_tree s0) = Inr (sh_tree sm)"
    unfolding names(4) [OF cid] guarded_ok by (elim conjE exE) simp
  have re: "retag_files env album ?dir w ?fs sm = (Inr cs, sr)"
    using re' unfolding names(4) [OF cid] .
  let ?e = "retag_entry cid now rel folder w a confirmed (backup_path env cid) cs"
  have "\<not> is_dir (sh_tree sm) (?dir @ [f])" for f
    using make_dirs_ok(2) [OF mk, of "?dir @ [f]"] same(2) assms(2) by (auto simp: ready_def path_exists_def below_def)
  from retag_files_backed_up [OF re distinct_audio_files ne] this
  have b: "backed_up album ?dir ?fs (sh_tree sm) (sh_tree sr)" "\<forall>f \<in> set ?fs. is_dir (sh_tree sm) album \<and> \<not> is_dir (sh_tree sm) (album @ [f])"
    "map (\<lambda>c. text_at c ''file'') cs = map Inr ?fs" "\<forall>c \<in> set cs. savable c" by auto
  have lt: "ledger_text env (sh_tree sr) = ledger_text env (sh_tree s)"
  proof -
    have "ledger_path env \<notin> (\<lambda>f. ?dir @ [f]) ` set ?fs" "ledger_path env \<notin> (\<lambda>f. album @ [f]) ` set ?fs"
      using names(2) out by (auto simp: below_iff)
    then have "content (sh_tree sr) (ledger_path env) = content (sh_tree s0) (ledger_path env)"
      using b(1) make_dirs_ok(1) [OF mk] unfolding backed_up_def by metis
    with same(3) show ?thesis by (simp add: ledger_text_def)
  qed
  have "savable (JObj ?e)"
    using worded_assess [OF a] b(4) by (auto simp: retag_entry_def worded_def)
  then have led: "read_ledger env (sh_tree s1) = Inr (ledger_lines (ledger_text env (sh_tree s)) @ [JObj ?e])"
    using read_ledger_append [OF ap] lt assms(2) by (simp add: ready_def)
  note s1 = append_ledger_tree [OF ap]
  have far: "album @ [f] \<noteq> ledger_path env" "?dir @ [f] \<noteq> ledger_path env" for f
    using names(2) out [of "[f]"] by (auto simp: below_iff)
  have dirs: "is_dir (sh_tree s1) q = is_dir (sh_tree sm) q" for q
    using s1(2) [of q] b(1) make_dirs_ok(2) [OF mk] names(1) by (auto simp: backed_up_def is_dir_def below_iff)
  have ready: "\<forall>f \<in> set ?fs. content (sh_tree s1) (?dir @ [f]) \<noteq> None \<and> is_dir (sh_tree s1) album
      \<and> \<not> is_dir (sh_tree s1) (album @ [f]) \<and> content (sh_tree s1) (album @ [f]) \<noteq> None"
    using b(1,2) s1(1) far dirs unfolding backed_up_def by auto
  obtain u where u: "restore_files env (JStr (backup_path env cid)) album False cs s1 = (Inr ?fs, s1\<lparr>sh_tree := u\<rparr>)"
    "tr_dirs u = tr_dirs (sh_tree s1)"
    "\<And>q. content u q = (if \<exists>f \<in> set ?fs. q = album @ [f] then content (sh_tree s1) (?dir @ [last q]) else content (sh_tree s1) q)"
    using restore_files_ok [OF sound(4) b(3) _ names(5) [OF cid] album(2) ne ready] same(4) [OF album(1)] by blast
  have "is_file u q \<Longrightarrow> is_file (sh_tree s1) q" for q
    using u(3) [of q] ready by (auto simp: is_file_def split: if_splits)
  moreover note roots = append_ledger_roots [OF ap names(2) [folded names(1)]]
  ultimately have "\<exists>s2. append_ledger env (revert_entry cid now2 ?fs [] (JStr rel)) (s1\<lparr>sh_tree := u\<rparr>) = (Inr (), s2)"
    using is_dir_cong [OF u(2)] by (intro append_ledger_possible [OF sound(4) _ names(2) [folded names(1)]]) auto
  then obtain s2 where s2: "append_ledger env (revert_entry cid now2 ?fs [] (JStr rel)) (s1\<lparr>sh_tree := u\<rparr>) = (Inr (), s2)"
    by blast
  have e: "get_or ?e ''change_id'' JNull = JStr cid" "get_or ?e ''op'' JNull = JStr ''set_album_artist''"
    "get_or ?e ''backup_dir'' (JStr []) = JStr (backup_path env cid)" "get_or ?e ''files'' (JList []) = JList cs"
    "value_at (JObj ?e) ''path'' = Inr (JStr rel)"
    by (simp_all add: retag_entry_def get_or_def value_at_def)
  have old: "realpath (path_join (rk_media env) rel) = Inr album"
    using realpath_relpath [OF sound(1), of q0] album by simp
  have "revert env cid now2 s1 = revert_retag env cid now2 (JObj ?e) (JStr (backup_path env cid)) s1"
    using led e by (simp add: revert_def mbind_def mlift_def field_def rbind_def)
  also have "\<dots> = (Inr [(''reverted'', JBool True), (''change_id'', JStr cid), (''files_restored'', JInt (int (length ?fs)))], s2)"
    using e old u(1) s2
    by (simp add: revert_retag_def media_path_def text_at_def files_of_def mbind_def mlift_def field_def rbind_def)
  finally have rev: "revert env cid now2 s1 = \<dots>" .
  have "below backup q \<or> content (sh_tree s2) q = content (sh_tree s) q" for q
  proof (cases "below backup q")
    case False
    then have q: "q \<noteq> ledger_path env" "q \<notin> (\<lambda>f. ?dir @ [f]) ` set ?fs" using names(2) by (auto simp: below_iff)
    have tm: "content (sh_tree sm) x = content (sh_tree s0) x" for x using make_dirs_ok(1) [OF mk] .
    have "content (sh_tree s2) q = content u q" using append_ledger_tree(1) [OF s2] q by simp
    also have "\<dots> = content (sh_tree s0) q"
    proof (cases "\<exists>f \<in> set ?fs. q = album @ [f]")
      case True
      then obtain f where f: "f \<in> set ?fs" "q = album @ [f]" by blast
      then have "content u q = content (sh_tree s1) (?dir @ [f])" using u(3) [of q] by auto
      also have "\<dots> = content (sh_tree sr) (?dir @ [f])" using s1(1) far by simp
      also have "\<dots> = content (sh_tree sm) q" using b(1) f by (simp add: backed_up_def)
      finally show ?thesis using tm by simp
    next
      case none: False
      then have "content u q = content (sh_tree sr) q" using u(3) [of q] s1(1) [of q] q by simp
      also have "\<dots> = content (sh_tree sm) q" using b(1) none q unfolding backed_up_def by blast
      finally show ?thesis using tm by simp
    qed
    finally show ?thesis using same(1) [OF False] by simp
  qed simp
  then show ?thesis using rev by (auto simp: get_def)
qed

subsection \<open>Of a move\<close>

lemma map_of_renamed:
  assumes "\<And>p b. (p, b) \<in> set fs \<Longrightarrow> g p = q \<longleftrightarrow> p = r"
  shows "map_of (map (\<lambda>(p, b). (g p, b)) fs) q = map_of fs r"
  using assms
proof (induction fs)
  case (Cons x fs)
  obtain p b where x: "x = (p, b)" by (cases x)
  with Cons.prems [of p b] Cons show ?case by auto
qed simp

lemma moved_below: "below src p \<Longrightarrow> below dst (moved src dst p)"
  by (simp add: moved_def)

lemma moved_eq:
  assumes "\<not> below src dst" "\<not> below dst src" "\<not> below dst p"
  shows "moved src dst p = q \<longleftrightarrow> (if below dst q then p = src @ drop (length dst) q else if below src q then False else p = q)"
proof (cases "below src p")
  case True
  then obtain x where "p = src @ x" by (auto simp: below_iff)
  moreover have "\<not> below src (dst @ x)" for x
    using below_linear [of src "dst @ x" dst] assms(1,2) by auto
  ultimately show ?thesis using True by (auto simp: moved_def below_iff)
next
  case False
  with assms(3) show ?thesis by (auto simp: moved_def below_iff)
qed

lemma move_dir_ok:
  assumes "move_dir src dst t = Inr u" "\<And>q. below dst q \<Longrightarrow> \<not> path_exists t q" "\<not> below dst src"
  shows "content u q = (if below dst q then content t (src @ drop (length dst) q) else if below src q then None else content t q)"
    and "q \<noteq> [] \<Longrightarrow> is_dir u q \<longleftrightarrow> (if below dst q then is_dir t (src @ drop (length dst) q) else if below src q then False else is_dir t q)"
proof -
  have u: "u = t\<lparr>tr_files := map (\<lambda>(p, s). (moved src dst p, s)) (tr_files t), tr_dirs := map (moved src dst) (tr_dirs t)\<rparr>"
    and src: "\<not> below src dst" using assms(1) by (auto simp: move_dir_def split: if_splits)
  have f: "\<not> below dst p" if "(p, b) \<in> set (tr_files t)" for p b
    using assms(2) [of p] that by (auto simp: path_exists_def is_file_def content_def map_of_eq_None_iff) (metis fst_conv image_eqI option.distinct(1) map_of_eq_None_iff)
  have d: "\<not> below dst p" if "p \<in> set (tr_dirs t)" for p
    using assms(2) [of p] that by (auto simp: path_exists_def is_dir_def)
  note eq = moved_eq [OF src assms(3) f] and deq = moved_eq [OF src assms(3) d]
  show "content u q = (if below dst q then content t (src @ drop (length dst) q) else if below src q then None else content t q)"
  proof (cases "below dst q \<or> \<not> below src q")
    case True
    then have "map_of (map (\<lambda>(p, b). (moved src dst p, b)) (tr_files t)) q = map_of (tr_files t) (if below dst q then src @ drop (length dst) q else q)"
      using eq by (intro map_of_renamed) auto
    with True show ?thesis by (auto simp: u content_def)
  next
    case False
    then have "moved src dst p \<noteq> q" if "(p, b) \<in> set (tr_files t)" for p b
      using eq [OF that, of q] by simp
    then have "q \<notin> fst ` set (map (\<lambda>(p, b). (moved src dst p, b)) (tr_files t))" by force
    with False show ?thesis by (auto simp: u content_def map_of_eq_None_iff)
  qed
  assume "q \<noteq> []"
  have "src \<noteq> []" using src by auto
  have "q \<in> moved src dst ` set (tr_dirs t) \<longleftrightarrow> (if below dst q then src @ drop (length dst) q \<in> set (tr_dirs t) else if below src q then False else q \<in> set (tr_dirs t))"
    using deq by (auto simp: image_iff) (metis)+
  then show "is_dir u q \<longleftrightarrow> (if below dst q then is_dir t (src @ drop (length dst) q) else if below src q then False else is_dir t q)"
    using \<open>q \<noteq> []\<close> \<open>src \<noteq> []\<close> by (simp add: u is_dir_def)
qed

lemma move_dir_other:
  assumes "move_dir src dst t = Inr u" "\<not> below dst q" "\<not> below src q"
  shows "content u q = content t q"
proof -
  have "u = t\<lparr>tr_files := map (\<lambda>(p, s). (moved src dst p, s)) (tr_files t), tr_dirs := map (moved src dst) (tr_dirs t)\<rparr>"
    using assms(1) by (auto simp: move_dir_def split: if_splits)
  moreover have "moved src dst p = q \<longleftrightarrow> p = q" for p using assms(2,3) by (auto simp: moved_def)
  ultimately show ?thesis by (simp add: content_def map_of_renamed)
qed

definition proper_tree :: "file_tree \<Rightarrow> bool" where
  \<comment> \<open>what contains something is a directory, and a directory is no file\<close>
  "proper_tree t \<longleftrightarrow>
     (\<forall>p a. path_exists t p \<longrightarrow> below a p \<longrightarrow> a \<noteq> p \<longrightarrow> is_dir t a) \<and> (\<forall>p. is_dir t p \<longrightarrow> \<not> is_file t p)"

lemma retag_moved_tree:
  shows "tr_dirs (sh_tree (retag_moved env dir v fs s)) = tr_dirs (sh_tree s)"
    and "is_file (sh_tree (retag_moved env dir v fs s)) q = is_file (sh_tree s) q"
    and "q \<notin> (\<lambda>f. dir @ [f]) ` set fs \<Longrightarrow> content (sh_tree (retag_moved env dir v fs s)) q = content (sh_tree s) q"
proof -
  have one: "tr_dirs (sh_tree (snd (write_tags env p v s))) = tr_dirs (sh_tree s)
      \<and> is_file (sh_tree (snd (write_tags env p v s))) q = is_file (sh_tree s) q
      \<and> (q \<noteq> p \<longrightarrow> content (sh_tree (snd (write_tags env p v s))) q = content (sh_tree s) q)" for p s q
    by (auto simp: write_tags_def guarded_def is_file_def put_file_content split: option.splits sum.splits)
  show "tr_dirs (sh_tree (retag_moved env dir v fs s)) = tr_dirs (sh_tree s)"
    "is_file (sh_tree (retag_moved env dir v fs s)) q = is_file (sh_tree s) q"
    "q \<notin> (\<lambda>f. dir @ [f]) ` set fs \<Longrightarrow> content (sh_tree (retag_moved env dir v fs s)) q = content (sh_tree s) q"
    using one by (induction fs arbitrary: s) auto
qed

text \<open>What a move leaves: the album at the new place, its old files in the backup, the rest as it was.\<close>

definition moved_album :: "path \<Rightarrow> path \<Rightarrow> path \<Rightarrow> string list \<Rightarrow> path \<Rightarrow> file_tree \<Rightarrow> file_tree \<Rightarrow> bool" where
  "moved_album album new dir fs backup t u \<longleftrightarrow>
     (\<forall>q. \<not> below backup q \<longrightarrow> q \<notin> (\<lambda>f. new @ [f]) ` set fs \<longrightarrow>
        content u q = (if below new q then content t (album @ drop (length new) q) else if below album q then None else content t q))
     \<and> (\<forall>f \<in> set fs. content u (new @ [f]) \<noteq> None \<and> content u (dir @ [f]) = content t (album @ [f]) \<and> content t (album @ [f]) \<noteq> None)
     \<and> (\<forall>q. (below new q \<longrightarrow> is_dir u q = is_dir t (album @ drop (length new) q)) \<and> (below album q \<longrightarrow> \<not> is_dir u q)
          \<and> (\<not> below new q \<longrightarrow> \<not> below album q \<longrightarrow> is_dir t q \<longrightarrow> is_dir u q))"

lemma move_tree:
  assumes roots: "\<not> below media backup" "\<not> below backup media" "below media album" "below media new" "dir = backup @ [cid]"
    and free: "\<And>q. below new q \<Longrightarrow> \<not> path_exists t q" "below nd new" "nd \<noteq> new" "\<And>q. below dir q \<Longrightarrow> \<not> is_dir t q" "\<not> below new album"
    and mk: "make_dirs dir t = Inr t1" and bu: "backed_up album dir fs t1 t2" "\<forall>f \<in> set fs. content t2 (album @ [f]) = content t1 (album @ [f])"
    and mn: "make_dirs nd t2 = Inr t3" and mv: "move_dir album new t3 = Inr t4"
    and rt: "\<And>q. is_dir t5 q = is_dir t4 q" "\<And>q. is_file t5 q = is_file t4 q" "\<And>q. q \<notin> (\<lambda>f. new @ [f]) ` set fs \<Longrightarrow> content t5 q = content t4 q"
    and ap: "\<And>q. \<not> below backup q \<Longrightarrow> content u q = content t5 q" "\<And>q. below dir q \<Longrightarrow> content u q = content t5 q"
      "\<And>q. is_dir u q \<longleftrightarrow> is_dir t5 q \<or> below q backup"
  shows "moved_album album new dir fs backup t u"
proof -
  have nl: "\<not> below album new" "album \<noteq> []" using mv by (auto simp: move_dir_def split: if_splits)
  have ne: "new \<noteq> []" using free(2,3) by (auto simp: below_iff)
  have off: "\<not> below (media @ x) (dir @ y)" "\<not> below (dir @ y) (media @ x)" "\<not> below backup (media @ x)" "\<not> below (media @ x) backup" for x y
  proof -
    have m: "\<not> below media (backup @ z)" and b: "\<not> below backup (media @ x)" for z
      using outside_backup roots(1,2) by blast+
    show "\<not> below (media @ x) (dir @ y)" "\<not> below (media @ x) backup"
      using m [of "cid # y"] m [of "[]"] below_trans [OF below_refl(2) [of media x]] by (auto simp: roots(5))
    show "\<not> below (dir @ y) (media @ x)" "\<not> below backup (media @ x)"
      using b below_trans [OF below_refl(2) [of backup "cid # y"]] by (auto simp: roots(5))
  qed
  obtain xa xn where al: "album = media @ xa" and nw: "new = media @ xn" using roots(3,4) by (auto simp: below_iff)
  have dir_names: "q \<in> (\<lambda>f. dir @ [f]) ` set fs \<Longrightarrow> below dir q" for q by auto
  have t3: "content t3 q = (if q \<in> (\<lambda>f. dir @ [f]) ` set fs then content t (album @ [last q]) else content t q)" for q
    using bu make_dirs_ok(1) [OF mk] make_dirs_ok(1) [OF mn] unfolding backed_up_def by (cases "q \<in> (\<lambda>f. album @ [f]) ` set fs") auto
  have d3: "is_dir t3 q \<longleftrightarrow> is_dir t q \<or> below q dir \<or> below q nd" for q
    using make_dirs_ok(2) [OF mn] make_dirs_ok(2) [OF mk] is_dir_cong [of t2 t1] bu(1) by (auto simp: backed_up_def)
  have nn: "\<not> below new nd" using free(2,3) by (auto simp: below_iff)
  have apart: "\<not> path_exists t3 q" if q: "below new q" for q
  proof -
    have "\<not> below q dir" using off(1) [of xn "[]"] below_trans [OF q] by (auto simp: nw)
    moreover have "\<not> below q nd" using nn below_trans [OF q] by blast
    moreover have "\<not> below dir q" using off below_linear [OF q, of dir] by (metis append_Nil2 nw)
    ultimately show ?thesis using free(1) [OF q] t3 [of q] d3 [of q] dir_names by (auto simp: path_exists_def is_file_def)
  qed
  note moved = move_dir_ok [OF mv apart free(5)]
  have in_media: "\<not> below dir q \<and> \<not> below backup q \<and> \<not> below q dir \<and> \<not> below q backup" if "below album q \<or> below new q" for q
  proof -
    have "below media q" using that roots(3,4) below_trans by blast
    then obtain x where "q = media @ x" by (auto simp: below_iff)
    with off(1) [of x "[]"] off(2) [of "[]" x] off(3,4) [of x] show ?thesis by auto
  qed
  have files: "content u q = (if below new q then content t (album @ drop (length new) q) else if below album q then None else content t q)"
    if "\<not> below backup q" "q \<notin> (\<lambda>f. new @ [f]) ` set fs" for q
  proof -
    let ?x = "album @ drop (length new) q"
    have "q \<notin> (\<lambda>f. dir @ [f]) ` set fs" using that(1) roots(5) by (auto simp: below_iff)
    then have q: "content t3 q = content t q" using t3 [of q] by simp
    have "?x \<notin> (\<lambda>f. dir @ [f]) ` set fs" using in_media [of ?x] dir_names [of ?x] by auto
    then have x: "content t3 ?x = content t ?x" using t3 [of ?x] by simp
    have "content u q = content t4 q" using ap(1) [OF that(1)] rt(3) [OF that(2)] by simp
    also have "\<dots> = (if below new q then content t3 ?x else if below album q then None else content t3 q)" by (rule moved(1))
    finally show ?thesis unfolding q x .
  qed
  have "content u (new @ [f]) \<noteq> None \<and> content u (dir @ [f]) = content t (album @ [f]) \<and> content t (album @ [f]) \<noteq> None" if f: "f \<in> set fs" for f
  proof -
    have src: "content t (album @ [f]) \<noteq> None" using bu(1) f make_dirs_ok(1) [OF mk] by (auto simp: backed_up_def)
    have "album @ [f] \<notin> (\<lambda>f. dir @ [f]) ` set fs" using in_media [of "album @ [f]"] dir_names by fastforce
    then have "is_file t5 (new @ [f])" using rt(2) moved(1) [of "new @ [f]"] t3 src by (simp add: is_file_def)
    then have "content u (new @ [f]) \<noteq> None" using ap(1) [of "new @ [f]"] in_media [of "new @ [f]"] by (simp add: is_file_def)
    moreover have "content u (dir @ [f]) = content t (album @ [f])"
    proof -
      have far: "\<not> below new (dir @ [f])" "\<not> below album (dir @ [f])" using off(1) [of _ "[f]"] by (auto simp: al nw)
      then have "dir @ [f] \<notin> (\<lambda>f. new @ [f]) ` set fs" by auto
      then show ?thesis using ap(2) [of "dir @ [f]"] rt(3) moved(1) [of "dir @ [f]"] far t3 f by auto
    qed
    ultimately show ?thesis using src by blast
  qed
  moreover have "(below new q \<longrightarrow> is_dir u q = is_dir t (album @ drop (length new) q)) \<and> (below album q \<longrightarrow> \<not> is_dir u q)
      \<and> (\<not> below new q \<longrightarrow> \<not> below album q \<longrightarrow> is_dir t q \<longrightarrow> is_dir u q)" for q
  proof -
    have both: "\<not> (below new q \<and> below album q)" using below_linear [of new q album] nl(1) free(5) by blast
    have "is_dir t3 (album @ x) = is_dir t (album @ x)" for x
      using d3 [of "album @ x"] in_media [of "album @ x"] below_trans [of album "album @ x" nd] below_trans [OF _ free(2), of album] nl(1) by auto
    then show ?thesis
      using both ap(3) [of q] rt(1) [of q] moved(2) [of q] in_media [of q] d3 [of q] ne nl(2)
      by (cases "q = []") (auto simp: below_iff is_dir_def)
  qed
  ultimately show ?thesis unfolding moved_album_def using files by blast
qed

lemma moved_album_cong:
  assumes "moved_album album new dir fs backup t u" "\<And>q. \<not> below backup q \<Longrightarrow> content t q = content t' q"
    "\<And>q. is_dir t q = is_dir t' q" "\<And>x. \<not> below backup (album @ x)"
  shows "moved_album album new dir fs backup t' u"
  using assms unfolding moved_album_def by simp

lemma move_undone:
  assumes m: "moved_album album new dir fs backup t (sh_tree s)"
    and roots: "\<not> below media backup" "\<not> below backup media" "below media album" "below media new" "dir = backup @ [cid]"
    and t: "proper_tree t" "is_dir t album" "\<And>q. below new q \<Longrightarrow> \<not> path_exists t q" "\<not> below new album" "\<not> below album new" "album \<noteq> []"
    and env: "\<forall>t x. rk_fault env t x = None"
    and names: "map (\<lambda>c. text_at c ''file'') cs = map Inr fs" "\<forall>f \<in> set fs. plain_name f" "realpath dirtext = Inr dir" "plain_path album"
  obtains v u where "move_back env new album s = (Inr True, s\<lparr>sh_tree := v\<rparr>)"
    "restore_files env (JStr dirtext) album True cs (s\<lparr>sh_tree := v\<rparr>) = (Inr fs, s\<lparr>sh_tree := u\<rparr>)"
    "\<And>q. \<not> below backup q \<Longrightarrow> content u q = content t q"
    "\<And>q. \<not> below album q \<Longrightarrow> \<not> below new q \<Longrightarrow> is_dir u q = is_dir (sh_tree s) q \<and> content u q = content (sh_tree s) q"
proof -
  have files: "content (sh_tree s) q = (if below new q then content t (album @ drop (length new) q) else if below album q then None else content t q)"
    if "\<not> below backup q" "q \<notin> (\<lambda>f. new @ [f]) ` set fs" for q
    using m that unfolding moved_album_def by blast
  have backs: "content (sh_tree s) (new @ [f]) \<noteq> None" "content (sh_tree s) (dir @ [f]) = content t (album @ [f])" "content t (album @ [f]) \<noteq> None"
    if "f \<in> set fs" for f
    using m that unfolding moved_album_def by blast+
  have dirs: "below new q \<Longrightarrow> is_dir (sh_tree s) q = is_dir t (album @ drop (length new) q)" "below album q \<Longrightarrow> \<not> is_dir (sh_tree s) q"
    "\<not> below new q \<Longrightarrow> \<not> below album q \<Longrightarrow> is_dir t q \<Longrightarrow> is_dir (sh_tree s) q" for q
    using m unfolding moved_album_def by blast+
  have out: "\<not> below backup q" if "below album q \<or> below new q" for q
  proof -
    have "below media q" using that roots(3,4) below_trans by blast
    then show ?thesis using outside_backup [OF roots(1,2)] by (auto simp: below_iff [of media])
  qed
  have both: "\<not> (below new q \<and> below album q)" for q using below_linear [of new q album] t(4,5) by blast
  have gone: "\<not> path_exists (sh_tree s) q" if q: "below album q" for q
  proof -
    have n: "\<not> below new q" using both q by blast
    then have "q \<notin> (\<lambda>f. new @ [f]) ` set fs" by auto
    then have "content (sh_tree s) q = None" using files [of q] out [of q] q n by auto
    then show ?thesis using dirs(2) [OF q] by (simp add: path_exists_def is_file_def)
  qed
  have parents: "is_dir (sh_tree s) q \<and> \<not> is_file (sh_tree s) q" if q: "below q (butlast album)" for q
  proof -
    obtain z where "butlast album = q @ z" using q by (auto simp: below_iff)
    then have "album = q @ z @ [last album]" using append_butlast_last_id [OF t(6)] by simp
    then have qa: "below q album" "q \<noteq> album" by (metis below_refl(2), metis append_self_conv snoc_eq_iff_butlast)
    have "\<not> below new q" using below_trans [OF _ qa(1), of new] t(4) by blast
    moreover have "\<not> below album q" using qa by (auto simp: below_iff)
    moreover have "is_dir t q" using t(1,2) qa unfolding proper_tree_def path_exists_def by blast
    moreover from this have "\<not> is_file t q" using t(1) unfolding proper_tree_def by blast
    moreover have "\<not> below backup q" using below_trans [OF _ qa(1), of backup] out [of album] by auto
    moreover have "q \<notin> (\<lambda>f. new @ [f]) ` set fs" using \<open>\<not> below new q\<close> by auto
    ultimately show ?thesis using dirs(3) [of q] files [of q] by (simp add: is_file_def)
  qed
  have same: "make_dirs (butlast album) (sh_tree s) = Inr (sh_tree s)" using parents by (intro make_dirs_again) auto
  have here: "is_dir (sh_tree s) new" using dirs(1) [of new] t(2) by simp
  obtain v where v: "move_dir new album (sh_tree s) = Inr v"
    using here parents [of "butlast album"] t(4) by (simp add: move_dir_def)
  note undo = move_dir_ok [OF v gone t(5)]
  have mb: "move_back env new album s = (Inr True, s\<lparr>sh_tree := v\<rparr>)"
    using here gone [of album] same v env by (simp add: move_back_def mbind_def mlift_def guarded_def)
  have far: "\<not> below album (dir @ x)" "\<not> below new (dir @ x)" for x
    using outside_backup [OF roots(2,1)] roots(3,4) below_trans by (metis append.assoc roots(5))+
  have ready: "\<forall>f \<in> set fs. content v (dir @ [f]) \<noteq> None \<and> is_dir v album \<and> \<not> is_dir v (album @ [f]) \<and> content v (album @ [f]) \<noteq> None"
  proof
    fix f assume f: "f \<in> set fs"
    have "\<not> is_dir t (album @ [f])" using t(1) backs(3) [OF f] by (auto simp: proper_tree_def is_file_def)
    then show "content v (dir @ [f]) \<noteq> None \<and> is_dir v album \<and> \<not> is_dir v (album @ [f]) \<and> content v (album @ [f]) \<noteq> None"
      using undo(1) [of "dir @ [f]"] undo(1) [of "album @ [f]"] undo(2) [of album] undo(2) [of "album @ [f]"] far backs [OF f] here t(6) dirs(1) [of "new @ [f]"]
      by simp
  qed
  have "dir \<noteq> album" using far(1) [of "[]"] by auto
  have ready': "\<forall>f \<in> set fs. content (sh_tree (s\<lparr>sh_tree := v\<rparr>)) (dir @ [f]) \<noteq> None \<and> is_dir (sh_tree (s\<lparr>sh_tree := v\<rparr>)) album
      \<and> \<not> is_dir (sh_tree (s\<lparr>sh_tree := v\<rparr>)) (album @ [f]) \<and> content (sh_tree (s\<lparr>sh_tree := v\<rparr>)) (album @ [f]) \<noteq> None"
    using ready by simp
  obtain u where u0: "restore_files env (JStr dirtext) album True cs (s\<lparr>sh_tree := v\<rparr>) = (Inr fs, s\<lparr>sh_tree := v\<rparr>\<lparr>sh_tree := u\<rparr>)"
      "tr_dirs u = tr_dirs (sh_tree (s\<lparr>sh_tree := v\<rparr>))"
      "\<And>q. content u q = (if \<exists>f \<in> set fs. q = album @ [f] then content (sh_tree (s\<lparr>sh_tree := v\<rparr>)) (dir @ [last q])
         else content (sh_tree (s\<lparr>sh_tree := v\<rparr>)) q)"
    using restore_files_ok [OF env names \<open>dir \<noteq> album\<close> ready'] by blast
  then have u: "restore_files env (JStr dirtext) album True cs (s\<lparr>sh_tree := v\<rparr>) = (Inr fs, s\<lparr>sh_tree := u\<rparr>)" "tr_dirs u = tr_dirs v"
      "\<And>q. content u q = (if \<exists>f \<in> set fs. q = album @ [f] then content v (dir @ [last q]) else content v q)" by simp_all
  have "content u q = content t q" if q: "\<not> below backup q" for q
  proof (cases "\<exists>f \<in> set fs. q = album @ [f]")
    case True
    then obtain f where f: "f \<in> set fs" "q = album @ [f]" by blast
    then show ?thesis using u(3) [of q] undo(1) [of "dir @ [f]"] far backs(2) [OF f(1)] by auto
  next
    case False
    then have *: "content u q = content v q" using u(3) by auto
    show ?thesis
    proof (cases "below album q")
      case True
      then obtain x where x: "q = album @ x" by (auto simp: below_iff)
      with False have "new @ x \<notin> (\<lambda>f. new @ [f]) ` set fs" by auto
      then have "content (sh_tree s) (new @ x) = content t q" using files [of "new @ x"] out [of "new @ x"] x by auto
      then show ?thesis using * undo(1) [of q] True x by simp
    next
      case no: False
      show ?thesis
      proof (cases "below new q")
        case True
        then show ?thesis using * undo(1) [of q] no t(3) [of q] by (auto simp: path_exists_def is_file_def)
      next
        case out_new: False
        then have "q \<notin> (\<lambda>f. new @ [f]) ` set fs" by auto
        then show ?thesis using * undo(1) [of q] no out_new files [OF q] by auto
      qed
    qed
  qed
  moreover have "is_dir u q = is_dir (sh_tree s) q \<and> content u q = content (sh_tree s) q" if "\<not> below album q" "\<not> below new q" for q
  proof -
    have "content u q = content v q" using u(3) [of q] that by auto
    moreover have "is_dir v q = is_dir (sh_tree s) q" using undo(2) [of q] that by (cases "q = []") (auto simp: is_dir_def)
    ultimately show ?thesis using is_dir_cong [OF u(2)] undo(1) [of q] that by simp
  qed
  ultimately show thesis using that mb u(1) by blast
qed

text \<open>What a move that ended normally leaves.\<close>

lemma relocate_leaves:
  assumes "sound_setup env media backup" "ready env backup cid (sh_tree s)" "proper_tree (sh_tree s)"
    "strip to_artist \<notin> {[], ''.'', ''..''}"
    "relocate_album env cid now p to_artist confirmed s = (Inr r, s1)" "get r ''relocated'' = JBool True"
  obtains album new fs cs rel e sr where
    "plain_path album" "album \<noteq> []" "is_dir (sh_tree s) album" "below media album" "below media new" "\<forall>f \<in> set fs. plain_name f"
    "\<And>q. below new q \<Longrightarrow> \<not> path_exists (sh_tree s) q" "\<not> below new album" "\<not> below album new"
    "moved_album album new (backup @ [cid]) fs backup (sh_tree s) (sh_tree s1)" "map (\<lambda>c. text_at c ''file'') cs = map Inr fs"
    "append_ledger env e sr = (Inr (), s1)" "read_ledger env (sh_tree s1) = Inr (ledger_lines (ledger_text env (sh_tree s)) @ [JObj e])"
    "get_or e ''change_id'' JNull = JStr cid" "get_or e ''op'' JNull = JStr ''relocate''"
    "get_or e ''backup_dir'' (JStr []) = JStr (backup_path env cid)" "get_or e ''files'' (JList []) = JList cs"
    "value_at (JObj e) ''path'' = Inr (JStr rel)" "value_at (JObj e) ''new_path'' = Inr (JStr (relpath new media))"
    "realpath (path_join (rk_media env) rel) = Inr album" "realpath (path_join (rk_media env) (relpath new media)) = Inr new"
proof -
  from assms(5,6) obtain album rel folder a s0 artist new where safe: "safe_album env p = Inr (album, rel, folder)"
    and isd: "is_dir (sh_tree s) album"
    and a: "assess env album rel folder s = (Inr a, s0)"
    and artist: "artist = (if strip to_artist \<noteq> [] then strip to_artist else artist)"
    and new0: "realpath (path_join (path_join (rk_media env) (artist_dir_name artist)) (if album = [] then [] else last album)) = Inr new"
    and fresh: "\<not> path_exists (sh_tree s0) new"
    and run: "move_album env cid now album rel folder artist (path_of (path_join (rk_media env) (artist_dir_name artist))) new s0 = (Inr r, s1)"
    by (rule relocatedE)
  let ?fs = "audio_files env (sh_tree s0) album" and ?dir = "backup @ [cid]" and ?name = "artist_dir_name artist"
  have sound: "realpath (rk_media env) = Inr media" "\<not> below media backup" "\<not> below backup media" "\<forall>t x. rk_fault env t x = None"
    and cid: "plain_name cid" using assms(1,2) by (simp_all add: sound_setup_def ready_def)
  note names = backup_names [OF assms(1)] and same = assessed [OF assms(1) a assms(2)]
  obtain q0 where album: "album = media @ q0" "plain_path album" "rel = relpath album media"
    using safe sound(1) by (elim safe_albumE) auto
  have out: "\<not> below backup (media @ x)" for x using outside_backup [OF sound(2,3)] .
  let ?nd = "path_of (path_join (rk_media env) ?name)"
  from run assms(6) obtain sm cs sb sn sv where
    "guarded env (MakingDirs (path_of (backup_path env cid))) (make_dirs (path_of (backup_path env cid))) s0 = (Inr (), sm)" (is ?mk)
    and "back_up_files env album (path_of (backup_path env cid)) ?fs sm = (Inr cs, sb)" (is ?bu)
    and "guarded env (MakingDirs ?nd) (make_dirs ?nd) sb = (Inr (), sn)" (is ?mn)
    and "guarded env (Moving album new) (move_dir album new) sn = (Inr (), sv)" (is ?mv)
    and ap: "append_ledger env (move_entry cid now rel (relpath new (path_of (rk_media env))) folder artist (backup_path env cid) cs)
       (retag_moved env new artist ?fs sv) = (Inr (), s1)"
    by (rule move_albumE)
  from \<open>?mk\<close> have mk: "make_dirs ?dir (sh_tree s0) = Inr (sh_tree sm)"
    unfolding names(4) [OF cid] guarded_ok by (elim conjE exE) simp
  from \<open>?bu\<close> have bu: "back_up_files env album ?dir ?fs sm = (Inr cs, sb)" unfolding names(4) [OF cid] .
  from \<open>?mn\<close> have mn: "make_dirs ?nd (sh_tree sb) = Inr (sh_tree sn)" unfolding guarded_ok by (elim conjE exE) simp
  from \<open>?mv\<close> have mv: "move_dir album new (sh_tree sn) = Inr (sh_tree sv)" unfolding guarded_ok by (elim conjE exE) simp
  have nl: "\<not> below album new" "album \<noteq> []" using mv by (auto simp: move_dir_def split: if_splits)
  have artist': "artist = strip to_artist" using artist assms(4) by simp
  have place: "plain_name ?name" "new = media @ [?name, last album]"
    using new_place [OF sound(1) album(2) nl(2) _ new0] assms(4) artist' by simp_all
  have nd: "?nd = media @ [?name]" using path_of_name [OF place(1), of "rk_media env"] names(6) by simp
  have exists_same: "path_exists (sh_tree s0) q = path_exists (sh_tree s) q" if "\<not> below backup q" for q
    using same(1) [OF that] same(2) by (simp add: path_exists_def is_file_def)
  have free: "\<not> path_exists (sh_tree s) q" if q: "below new q" for q
  proof
    assume "path_exists (sh_tree s) q"
    then have "path_exists (sh_tree s) new"
      using assms(3) q unfolding proper_tree_def path_exists_def by (cases "new = q") blast+
    then show False using fresh exists_same [of new] out place(2) by simp
  qed
  have no_new: "\<not> below new album" using free isd by (auto simp: path_exists_def)
  have free0: "\<not> path_exists (sh_tree s0) q" if "below new q" for q
    using free [OF that] exists_same [of q] out that place(2) by (auto simp: below_iff)
  have dir_free: "\<not> is_dir (sh_tree s0) q" if "below ?dir q" for q
    using assms(2) that same(2) by (auto simp: ready_def path_exists_def)
  have "\<forall>f \<in> set ?fs. \<not> is_dir (sh_tree sm) (?dir @ [f])"
    using make_dirs_ok(2) [OF mk] dir_free by (auto simp: below_def)
  moreover have ne: "?dir \<noteq> album" using out [of q0] album(1) by (metis below_refl(2))
  ultimately have b: "backed_up album ?dir ?fs (sh_tree sm) (sh_tree sb)" "\<forall>f \<in> set ?fs. content (sh_tree sb) (album @ [f]) = content (sh_tree sm) (album @ [f])"
    "map (\<lambda>c. text_at c ''file'') cs = map Inr ?fs" "\<forall>c \<in> set cs. savable c"
    using back_up_files_backed_up [OF bu distinct_audio_files] by blast+
  let ?sr = "retag_moved env new artist ?fs sv"
  note rt = retag_moved_tree [where env = env and dir = new and v = artist and fs = ?fs and s = sv] and s1 = append_ledger_tree [OF ap]
  have led_dir: "\<not> below ?dir (ledger_path env)" "below backup (ledger_path env)" using names(2) assms(2) by (auto simp: below_iff ready_def)
  have "moved_album album new ?dir ?fs backup (sh_tree s0) (sh_tree s1)"
  proof (rule move_tree [OF sound(2,3) _ _ refl free0 _ _ dir_free no_new mk b(1,2) mn mv])
    show "below media album" "below media new" "below ?nd new" "?nd \<noteq> new"
      using album(1) place(2) nd by (auto simp: below_iff)
    show "is_dir (sh_tree ?sr) q = is_dir (sh_tree sv) q" for q using rt(1) by (simp add: is_dir_def)
    show "is_file (sh_tree ?sr) q = is_file (sh_tree sv) q" for q by (rule rt(2))
    show "q \<notin> (\<lambda>f. new @ [f]) ` set ?fs \<Longrightarrow> content (sh_tree ?sr) q = content (sh_tree sv) q" for q by (rule rt(3))
    show "\<not> below backup q \<Longrightarrow> content (sh_tree s1) q = content (sh_tree ?sr) q" for q using s1(1) [of q] led_dir(2) by auto
    show "below ?dir q \<Longrightarrow> content (sh_tree s1) q = content (sh_tree ?sr) q" for q using s1(1) [of q] led_dir(1) by auto
    show "is_dir (sh_tree s1) q \<longleftrightarrow> is_dir (sh_tree ?sr) q \<or> below q backup" for q using s1(2) names(1) by simp
  qed
  then have m: "moved_album album new ?dir ?fs backup (sh_tree s) (sh_tree s1)"
    by (rule moved_album_cong) (use same(1,2) out album(1) in auto)
  have off: "\<not> below album q \<and> \<not> below new q" if "below q (ledger_path env)" for q
  proof -
    have "\<not> below media (ledger_path env)" using outside_backup [OF sound(3,2)] names(2) by simp
    then show ?thesis using that below_trans below_refl(2) [of media] album(1) place(2) by metis
  qed
  let ?e = "move_entry cid now rel (relpath new media) folder artist (backup_path env cid) cs"
  have ap': "append_ledger env ?e ?sr = (Inr (), s1)" using ap names(6) by simp
  have "ledger_text env (sh_tree ?sr) = ledger_text env (sh_tree s)"
  proof -
    have far: "\<not> below album (ledger_path env)" "\<not> below new (ledger_path env)" using off by auto
    then have "ledger_path env \<notin> (\<lambda>f. new @ [f]) ` set ?fs" "ledger_path env \<notin> (\<lambda>f. album @ [f]) ` set ?fs"
      "ledger_path env \<notin> (\<lambda>f. ?dir @ [f]) ` set ?fs"
      using led_dir(1) names(2) by auto
    then have "content (sh_tree ?sr) (ledger_path env) = content (sh_tree s0) (ledger_path env)"
      using rt(3) move_dir_other [OF mv far(2,1)] make_dirs_ok(1) [OF mn] make_dirs_ok(1) [OF mk] b(1) unfolding backed_up_def by metis
    with same(3) show ?thesis by (simp add: ledger_text_def)
  qed
  then have led: "read_ledger env (sh_tree s1) = Inr (ledger_lines (ledger_text env (sh_tree s)) @ [JObj ?e])"
    using read_ledger_append [OF ap'] assms(2) b(4) by (simp add: ready_def move_entry_def del: dumps_by.simps)
  have e: "get_or ?e ''change_id'' JNull = JStr cid" "get_or ?e ''op'' JNull = JStr ''relocate''"
    "get_or ?e ''backup_dir'' (JStr []) = JStr (backup_path env cid)" "get_or ?e ''files'' (JList []) = JList cs"
    "value_at (JObj ?e) ''path'' = Inr (JStr rel)" "value_at (JObj ?e) ''new_path'' = Inr (JStr (relpath new media))"
    by (simp_all add: move_entry_def get_or_def value_at_def)
  have old: "realpath (path_join (rk_media env) rel) = Inr album" "realpath (path_join (rk_media env) (relpath new media)) = Inr new"
  proof -
    show "realpath (path_join (rk_media env) rel) = Inr album" using realpath_relpath [OF sound(1), of q0] album by simp
    have "plain_name (last album)" using album(2) nl(2) last_in_set by blast
    then show "realpath (path_join (rk_media env) (relpath new media)) = Inr new"
      using realpath_relpath [OF sound(1), of "[?name, last album]"] place by simp
  qed
  have "below media album" "below media new" using album(1) place(2) by auto
  moreover have "\<forall>f \<in> set ?fs. plain_name f" using same(4) [OF album(1)] by blast
  ultimately show thesis
    using that [OF album(2) nl(2) isd _ _ _ free no_new nl(1) m b(3) ap' led e old] by blast
qed

text \<open>
  Property C4. A move to a named artist can be undone. After a move that ended normally, with a fresh id,
  in a sound setup and a tree whose directories exist, the reversal of its id ends normally, and every
  file outside the backup directory is where it was, with the content it had before the move.
\<close>

theorem relocate_then_revert_restores:
  assumes "sound_setup env media backup" "ready env backup cid (sh_tree s)" "proper_tree (sh_tree s)"
    "strip to_artist \<notin> {[], ''.'', ''..''}"
    "relocate_album env cid now p to_artist confirmed s = (Inr r, s1)" "get r ''relocated'' = JBool True"
  shows "\<exists>r2 s2. revert env cid now2 s1 = (Inr r2, s2) \<and> get r2 ''moved_back'' = JBool True
     \<and> (\<forall>q. below backup q \<or> content (sh_tree s2) q = content (sh_tree s) q)"
proof -
  from assms obtain album new fs cs rel e sr where
    album: "plain_path album" "album \<noteq> []" "is_dir (sh_tree s) album" "below media album" "below media new" "\<forall>f \<in> set fs. plain_name f"
    and free: "\<And>q. below new q \<Longrightarrow> \<not> path_exists (sh_tree s) q" and no_new: "\<not> below new album" and nl: "\<not> below album new"
    and m: "moved_album album new (backup @ [cid]) fs backup (sh_tree s) (sh_tree s1)" and cs: "map (\<lambda>c. text_at c ''file'') cs = map Inr fs"
    and ap: "append_ledger env e sr = (Inr (), s1)"
    and led: "read_ledger env (sh_tree s1) = Inr (ledger_lines (ledger_text env (sh_tree s)) @ [JObj e])"
    and e: "get_or e ''change_id'' JNull = JStr cid" "get_or e ''op'' JNull = JStr ''relocate''"
      "get_or e ''backup_dir'' (JStr []) = JStr (backup_path env cid)" "get_or e ''files'' (JList []) = JList cs"
      "value_at (JObj e) ''path'' = Inr (JStr rel)" "value_at (JObj e) ''new_path'' = Inr (JStr (relpath new media))"
    and old: "realpath (path_join (rk_media env) rel) = Inr album" "realpath (path_join (rk_media env) (relpath new media)) = Inr new"
    by (rule relocate_leaves) (rule that; assumption)
  have sound: "\<not> below media backup" "\<not> below backup media" "\<forall>t x. rk_fault env t x = None" and cid: "plain_name cid"
    using assms(1,2) by (simp_all add: sound_setup_def ready_def)
  note names = backup_names [OF assms(1)] and roots = append_ledger_roots [OF ap names(2) [folded names(1)]]
  obtain v u where
    mb: "move_back env new album s1 = (Inr True, s1\<lparr>sh_tree := v\<rparr>)" and
    rs: "restore_files env (JStr (backup_path env cid)) album True cs (s1\<lparr>sh_tree := v\<rparr>) = (Inr fs, s1\<lparr>sh_tree := u\<rparr>)" and
    uc: "\<And>q. \<not> below backup q \<Longrightarrow> content u q = content (sh_tree s) q" and
    ud: "\<And>q. \<not> below album q \<Longrightarrow> \<not> below new q \<Longrightarrow> is_dir u q = is_dir (sh_tree s1) q \<and> content u q = content (sh_tree s1) q"
    by (rule move_undone [OF m sound(1,2) album(4,5) refl assms(3) album(3) free no_new nl album(2) sound(3) cs album(6) names(5) [OF cid] album(1)];
      (assumption | (rule that; assumption)))
  have off: "\<not> below album q \<and> \<not> below new q" if "below q (ledger_path env)" for q
  proof -
    have "\<not> below media (ledger_path env)" using outside_backup [OF sound(2,1)] names(2) by simp
    then show ?thesis using below_trans [OF below_trans [OF album(4)] that] below_trans [OF below_trans [OF album(5)] that] by blast
  qed
  let ?r = "revert_entry cid now2 fs [(''moved_back'', JBool True)] (JStr rel)"
  have "\<exists>s2. append_ledger env ?r (s1\<lparr>sh_tree := u\<rparr>) = (Inr (), s2)"
  proof (rule append_ledger_possible [OF sound(3) _ names(2) [folded names(1)]])
    show "\<not> is_dir u (ledger_path env)" using ud [of "ledger_path env"] off roots(1) by simp
    fix q assume q: "below q (path_of (rk_backup env))"
    then have "below q (ledger_path env)" using names(1,2) below_trans by auto
    then show "is_dir u q \<and> (q \<noteq> [] \<longrightarrow> \<not> is_file u q)" using ud [of q] off [of q] roots(2,3) [OF q] by (simp add: is_file_def)
  qed
  then obtain s2 where s2: "append_ledger env ?r (s1\<lparr>sh_tree := u\<rparr>) = (Inr (), s2)" by blast
  have "revert env cid now2 s1 = revert_move env cid now2 (JObj e) (JStr (backup_path env cid)) s1"
    using led e by (simp add: revert_def mbind_def mlift_def field_def rbind_def)
  also have "\<dots> = (Inr [(''reverted'', JBool True), (''change_id'', JStr cid), (''moved_back'', JBool True), (''files_restored'', JInt (int (length fs)))], s2)"
    using e old mb rs s2
    by (simp add: revert_move_def media_path_def text_at_def files_of_def mbind_def mlift_def field_def rbind_def)
  finally have rev: "revert env cid now2 s1 = \<dots>" .
  have "below backup q \<or> content (sh_tree s2) q = content (sh_tree s) q" for q
    using append_ledger_tree(1) [OF s2, of q] uc [of q] names(2) by auto
  then show ?thesis using rev by (auto simp: get_def)
qed

section \<open>Examples\<close>

lemma demo_setup: "sound_setup demo_rick [''m''] [''b'']"
proof -
  have "realpath ''/m'' = Inr [''m'']" "realpath ''/b'' = Inr [''b'']" by code_simp+
  then show ?thesis by (simp add: sound_setup_def demo_rick_def below_def)
qed

lemma demo_ready: "ready demo_rick [''b''] ''c1'' (sh_tree (demo_shelf ''i2''))"
proof -
  have "ledger_text demo_rick (sh_tree (demo_shelf ''i2'')) = []" by code_simp
  then show ?thesis
    by (auto simp: ready_def plain_name_def whole_lines_def demo_shelf_def below_def path_exists_def is_file_def is_dir_def content_def
        split: if_splits)
qed

lemma proper_treeI:
  assumes "list_all (\<lambda>p. list_all (\<lambda>i. take i p \<in> set (tr_dirs t)) [1..<length p]) (map fst (tr_files t) @ tr_dirs t)"
    "list_all (\<lambda>p. p \<noteq> [] \<and> p \<notin> set (tr_dirs t)) (map fst (tr_files t))"
  shows "proper_tree t"
proof -
  have here: "p = [] \<or> p \<in> set (map fst (tr_files t) @ tr_dirs t)" if "path_exists t p" for p
    using that by (auto simp: path_exists_def is_file_def is_dir_def content_def map_of_eq_None_iff)
  have "is_dir t a" if p: "path_exists t p" "below a p" "a \<noteq> p" for a p
  proof -
    obtain x where x: "p = a @ x" "x \<noteq> []" using p(2,3) by (auto simp: below_iff)
    then have "length a \<in> set [1..<length p]" if "a \<noteq> []"
      using that x(2) by (simp add: x(1) Suc_le_eq)
    moreover have "p \<in> set (map fst (tr_files t) @ tr_dirs t)" using here [OF p(1)] x by auto
    ultimately have "take (length a) p \<in> set (tr_dirs t)" if "a \<noteq> []"
      using assms(1) that unfolding list_all_iff by blast
    then show ?thesis using x(1) by (cases "a = []") (auto simp: is_dir_def)
  qed
  moreover have "\<not> is_file t p" if "is_dir t p" for p
    using that assms(2) by (force simp: is_dir_def is_file_def content_def map_of_eq_None_iff list_all_iff)
  ultimately show ?thesis unfolding proper_tree_def by blast
qed

lemma demo_proper_tree: "proper_tree (sh_tree (demo_shelf ''i2''))"
  by (rule proper_treeI) code_simp+

lemma relocate_then_revert_restores_witness:
  "\<exists>r s1 r2 s2. demo_named = (Inr r, s1) \<and> revert demo_rick ''c1'' ''later'' s1 = (Inr r2, s2) \<and> get r2 ''moved_back'' = JBool True
     \<and> (\<forall>q. below [''b''] q \<or> content (sh_tree s2) q = content (sh_tree (demo_shelf ''i2'')) q)"
proof -
  have "strip ''Cee'' \<notin> {[], ''.'', ''..''}" by code_simp
  moreover obtain r s' where "demo_named = (Inr r, s')" "get r ''relocated'' = JBool True"
    using demo_named_moves by (cases demo_named) (auto split: sum.splits)
  ultimately show ?thesis
    using relocate_then_revert_restores [OF demo_setup demo_ready demo_proper_tree] by blast
qed

abbreviation demo_retag :: "dict res \<times> shelf" where
  "demo_retag \<equiv> apply_album demo_rick ''c1'' ''now'' ''A/One'' ''Cee'' True (demo_shelf ''i2'')"

lemma demo_retags: "case fst demo_retag of Inr r \<Rightarrow> get r ''applied'' = JBool True | Inl _ \<Rightarrow> False"
  by code_simp

lemma apply_then_revert_restores_witness:
  "\<exists>r s1 r2 s2. demo_retag = (Inr r, s1) \<and> revert demo_rick ''c1'' ''later'' s1 = (Inr r2, s2) \<and> get r2 ''reverted'' = JBool True
     \<and> (\<forall>q. below [''b''] q \<or> content (sh_tree s2) q = content (sh_tree (demo_shelf ''i2'')) q)"
proof -
  obtain r s' where "demo_retag = (Inr r, s')" "get r ''applied'' = JBool True"
    using demo_retags by (cases demo_retag) (auto split: sum.splits)
  then show ?thesis using apply_then_revert_restores [OF demo_setup demo_ready] by blast
qed

end
