(* ===== verification/Calendar.thy ===== *)
theory Calendar
  imports PyJson PyCodec
begin

text \<open>
  The calendar tools of \<open>calendar-mcp/calendar_mcp.py\<close>: the guarded access of several personas to one
  shared calendar. The calendar API and the credentials of Google are parameters: functions of what
  happened so far. The tools are called one after the other.
\<close>

section \<open>The environment and the state\<close>

record cal_request =
  cq_method :: string
  cq_url :: string
  cq_token :: string
  cq_body :: "string option"

text \<open>
  What the server does to the outside: a refresh of its credentials, and a request. The log also keeps
  the time of each write that the rate limit let pass. Times are in microseconds.
\<close>

datatype cal_event =
    Refreshed
  | Granted int
  | Requested cal_request

datatype cal_reply =
    Body string
  | Status nat string
  | Unreached exn

record cal_env =
  ce_dry_run :: bool
  ce_cap :: int
  ce_id :: string
  ce_valid :: "cal_event list \<Rightarrow> bool"
  ce_refresh :: "cal_event list \<Rightarrow> unit res"
  ce_token :: "cal_event list \<Rightarrow> string"
  ce_api :: "cal_event list \<Rightarrow> cal_request \<Rightarrow> cal_reply"
  ce_took :: "cal_event list \<Rightarrow> nat"

record agenda =
  ag_clock :: int
  ag_writes :: "int list"
  ag_log :: "cal_event list"

definition cal_settings :: "(string \<Rightarrow> string option) \<Rightarrow> (bool \<times> int \<times> string \<times> json) res" where
  \<comment> \<open>\<open>DRY_RUN\<close>, \<open>MAX_WRITES_PER_HOUR\<close>, \<open>CAL_ID\<close> and the key of the service account\<close>
  "cal_settings var =
     (let or_default = (\<lambda>k d. case var k of Some v \<Rightarrow> v | None \<Rightarrow> d);
          needed = (\<lambda>k. case var k of Some v \<Rightarrow> Inr v | None \<Rightarrow> Inl (key_error k));
          limit = or_default ''MAX_WRITES_PER_HOUR'' ''50'' in
      rbind (case parse_int limit of
          Some i \<Rightarrow> Inr i
        | None \<Rightarrow> Inl (ValueError (''invalid literal for int() with base 10: '' @ repr_str limit))) (\<lambda>cap.
      rbind (needed ''CALENDAR_ID'') (\<lambda>cal. rbind (rbind (needed ''GOOGLE_SA_KEY'') json_loads) (\<lambda>key.
        Inr (lower (or_default ''DRY_RUN'' ''true'') = ''true'', cap, cal, key)))))"

definition happens :: "cal_env \<Rightarrow> cal_event \<Rightarrow> agenda \<Rightarrow> agenda" where
  \<comment> \<open>an event, and the time it takes\<close>
  "happens env x s = s\<lparr>ag_clock := ag_clock s + int (ce_took env (ag_log s @ [x])), ag_log := ag_log s @ [x]\<rparr>"

section \<open>The API\<close>

definition token :: "cal_env \<Rightarrow> (string, agenda) stm" where
  "token env s =
     (if ce_valid env (ag_log s) then (Inr (ce_token env (ag_log s)), s)
      else (let s1 = happens env Refreshed s in
        case ce_refresh env (ag_log s) of Inl e \<Rightarrow> (Inl e, s1) | Inr _ \<Rightarrow> (Inr (ce_token env (ag_log s1)), s1)))"

definition cal_api :: string where
  "cal_api = ''https://www.googleapis.com/calendar/v3''"

definition api_error :: "string \<Rightarrow> string \<Rightarrow> nat \<Rightarrow> string \<Rightarrow> exn" where
  "api_error method path code detail =
     RuntimeError (''calendar API '' @ method @ '' '' @ before (CHR ''?'') path @ '' -> '' @ nat_str code @ '' '' @ take 300 detail)"

definition api :: "cal_env \<Rightarrow> string \<Rightarrow> string \<Rightarrow> json option \<Rightarrow> bool \<Rightarrow> (json, agenda) stm" where
  "api env method path body ok404 =
     mbind (token env) (\<lambda>tok s.
       let q = \<lparr>cq_method = method, cq_url = cal_api @ path, cq_token = tok, cq_body = map_option dumps body\<rparr> in
       (case ce_api env (ag_log s) q of
          Body raw \<Rightarrow> if raw = [] then Inr (JObj []) else json_loads raw
        | Status code detail \<Rightarrow>
            if ok404 \<and> (code = 404 \<or> code = 410) then Inr JNull else Inl (api_error method path code detail)
        | Unreached e \<Rightarrow> Inl e, happens env (Requested q) s))"

definition quote_whole :: "string \<Rightarrow> string" where
  \<comment> \<open>\<open>urllib.parse.quote(s, safe='')\<close>\<close>
  "quote_whole s = concat (map (\<lambda>c. if url_safe c then [c] else percent c) s)"

definition cal :: "cal_env \<Rightarrow> string \<Rightarrow> string" where
  "cal env path = ''/calendars/'' @ quote_whole (ce_id env) @ path"

section \<open>Guards\<close>

definition hour :: int where
  "hour = 3600 * 1000000"

definition rate_ok :: "cal_env \<Rightarrow> agenda \<Rightarrow> bool \<times> agenda" where
  "rate_ok env s =
     (let now = ag_clock s; recent = filter (\<lambda>t. now - t < hour) (ag_writes s) in
      if ce_cap env \<le> int (length recent) then (False, s\<lparr>ag_writes := recent\<rparr>)
      else (True, s\<lparr>ag_writes := recent @ [now], ag_log := ag_log s @ [Granted now]\<rparr>))"

definition moment :: "string \<Rightarrow> bool \<Rightarrow> json" where
  "moment v all_day =
     JObj (if all_day then [(''date'', JStr v)] else [(''dateTime'', JStr v), (''timeZone'', JStr ''America/New_York'')])"

definition persona_of :: "string \<Rightarrow> string" where
  "persona_of p = lower (strip p)"

definition private_persona :: "json \<Rightarrow> json \<Rightarrow> json res" where
  \<comment> \<open>\<open>ev.get("extendedProperties", {}).get("private", {}).get("persona", default)\<close>\<close>
  "private_persona ev dflt =
     rbind (field ev ''extendedProperties'' (JObj [])) (\<lambda>x. rbind (field x ''private'' (JObj [])) (\<lambda>y. field y ''persona'' dflt))"

definition owns :: "json \<Rightarrow> string \<Rightarrow> bool res" where
  "owns ev p = rbind (private_persona ev (JStr [])) (\<lambda>w. Inr (w = JStr p))"

definition capital :: "char \<Rightarrow> string" where
  \<comment> \<open>the two letters whose capital lies beyond the model stay\<close>
  "capital c =
     (let n = code_point c in
      if 97 \<le> n \<and> n \<le> 122 \<or> 224 \<le> n \<and> n \<le> 254 \<and> n \<noteq> 247 then [char_of (n - 32)]
      else if n = 223 then ''Ss'' else [c])"

definition capitalize :: "string \<Rightarrow> string" where
  "capitalize s = (case s of [] \<Rightarrow> [] | c # cs \<Rightarrow> capital c @ lower cs)"

definition heading :: "string \<Rightarrow> string \<Rightarrow> string" where
  "heading p title = ''['' @ capitalize p @ ''] '' @ title"

definition failure :: "string \<Rightarrow> dict" where
  "failure m = [(''error'', JStr m)]"

definition guarded_write :: "cal_env \<Rightarrow> (dict, agenda) stm \<Rightarrow> (dict, agenda) stm" where
  \<comment> \<open>only below the cap\<close>
  "guarded_write env m s =
     (case rate_ok env s of
        (False, s1) \<Rightarrow> (Inr (failure (''write cap reached ('' @ int_str (ce_cap env) @ ''/hour) '' @ [em_dash] @ '' refusing'')), s1)
      | (True, s1) \<Rightarrow> m s1)"

section \<open>Times\<close>

text \<open>
  \<open>isoformat\<close> of an aware time in UTC, of the proleptic Gregorian calendar: the year by the 400-year
  cycle, whose years start in March.
\<close>

definition padded_int :: "nat \<Rightarrow> int \<Rightarrow> string" where
  "padded_int w i = (let s = nat_str (nat i) in replicate (w - length s) (CHR ''0'') @ s)"

definition civil :: "int \<Rightarrow> int \<times> int \<times> int" where
  \<comment> \<open>year, month and day of a number of days since 1970\<close>
  "civil d =
     (let z = d + 719468; era = z div 146097; doe = z mod 146097;
          yoe = (doe - doe div 1460 + doe div 36524 - doe div 146096) div 365;
          doy = doe - (365 * yoe + yoe div 4 - yoe div 100); mp = (5 * doy + 2) div 153;
          m = (if mp < 10 then mp + 3 else mp - 9)
      in (yoe + era * 400 + (if m \<le> 2 then 1 else 0), m, doy - (153 * mp + 2) div 5 + 1))"

definition iso_utc :: "int \<Rightarrow> string res" where
  \<comment> \<open>of microseconds since 1970, in the years 1 to 9999\<close>
  "iso_utc t =
     (let d = t div 86400000000; u = t mod 86400000000; (y, m, dd) = civil d; sec = u div 1000000; us = u mod 1000000 in
      if y < 1 \<or> 9999 < y then Inl (OverflowError ''date value out of range'')
      else Inr (padded_int 4 y @ ''-'' @ padded_int 2 m @ ''-'' @ padded_int 2 dd @ ''T'' @ padded_int 2 (sec div 3600) @ '':''
        @ padded_int 2 (sec div 60 mod 60) @ '':'' @ padded_int 2 (sec mod 60)
        @ (if us = 0 then [] else ''.'' @ padded_int 6 us) @ ''+00:00''))"

definition days_ahead :: "int \<Rightarrow> int \<Rightarrow> string res" where
  "days_ahead t days =
     (if 999999999 < abs days then Inl (OverflowError (''days='' @ int_str days @ ''; must have magnitude <= 999999999''))
      else iso_utc (t + days * 86400000000))"

section \<open>The tools\<close>

fun listed :: "string \<Rightarrow> json list \<Rightarrow> json list res" where
  "listed want [] = Inr []"
| "listed want (ev # evs) =
     rbind (private_persona ev (JStr ''-'')) (\<lambda>who.
       if want \<noteq> [] \<and> who \<noteq> JStr want then listed want evs
       else rbind (field ev ''start'' (JObj [])) (\<lambda>b. rbind (value_at ev ''id'') (\<lambda>i.
            rbind (field b ''dateTime'' JNull) (\<lambda>t. rbind (if truthy t then Inr t else field b ''date'' JNull) (\<lambda>at.
            rbind (field ev ''summary'' (JStr [])) (\<lambda>summary. rbind (listed want evs) (\<lambda>out.
              Inr (JObj [(''id'', i), (''start'', at), (''persona'', who), (''summary'', summary)] # out))))))))"

definition list_events :: "cal_env \<Rightarrow> int \<Rightarrow> string \<Rightarrow> (json list, agenda) stm" where
  "list_events env days persona s =
     mbind (mlift (iso_utc (ag_clock s))) (\<lambda>a. mbind (mlift (days_ahead (ag_clock s) days)) (\<lambda>b.
     mbind (api env ''GET'' (cal env (''/events?timeMin='' @ quote_plus a @ ''&timeMax='' @ quote_plus b
         @ ''&singleEvents=true&orderBy=startTime&maxResults=250'')) None False) (\<lambda>r.
       mlift (rbind (if truthy r then field r ''items'' (JList []) else Inr (JList [])) (\<lambda>is. rbind (iterate is)
         (listed (persona_of persona))))))) s"

definition event_body :: "string \<Rightarrow> string \<Rightarrow> string \<Rightarrow> string \<Rightarrow> string \<Rightarrow> bool \<Rightarrow> dict" where
  "event_body p title start until description all_day =
     [(''summary'', JStr (heading p title)), (''description'', JStr description), (''start'', moment start all_day),
      (''end'', moment (if until = [] then start else until) all_day),
      (''extendedProperties'', JObj [(''private'', JObj [(''persona'', JStr p)])])]"

definition add_event :: "cal_env \<Rightarrow> string \<Rightarrow> string \<Rightarrow> string \<Rightarrow> string \<Rightarrow> string \<Rightarrow> bool \<Rightarrow> (dict, agenda) stm" where
  "add_event env persona title start until description all_day =
     (let p = persona_of persona; body = event_body p title start until description all_day in
      if p = [] then mlift (Inr (failure ''persona is required''))
      else if title = [] \<or> start = [] then mlift (Inr (failure ''title and start are required''))
      else if ce_dry_run env
      then mlift (Inr [(''dry_run'', JBool True), (''would_create'', get body ''summary''), (''start'', JStr start)])
      else guarded_write env (mbind (api env ''POST'' (cal env ''/events'') (Some (JObj body)) False) (\<lambda>ev.
             mlift (rbind (value_at ev ''id'') (\<lambda>i. rbind (field ev ''summary'' JNull) (\<lambda>t. rbind (field ev ''htmlLink'' JNull) (\<lambda>l.
               Inr [(''created'', i), (''summary'', t), (''link'', l)])))))))"

definition event_path :: "cal_env \<Rightarrow> string \<Rightarrow> string" where
  "event_path env eid = cal env (''/events/'' @ quote_url eid)"

definition own_event :: "cal_env \<Rightarrow> string \<Rightarrow> string \<Rightarrow> (dict, agenda) stm \<Rightarrow> (dict, agenda) stm" where
  \<comment> \<open>the tests with which a change begins\<close>
  "own_event env p eid m =
     mbind (api env ''GET'' (event_path env eid) None True) (\<lambda>ev.
       if ev = JNull then mlift (Inr (failure ''event not found''))
       else mbind (mlift (owns ev p)) (\<lambda>mine.
              if mine then m else mlift (Inr (failure ''refused: event belongs to a different persona''))))"

definition changed_fields :: "string \<Rightarrow> string \<Rightarrow> string \<Rightarrow> string \<Rightarrow> string \<Rightarrow> bool \<Rightarrow> dict" where
  "changed_fields p title start until description all_day =
     (if title = [] then [] else [(''summary'', JStr (heading p title))])
       @ (if description = [] then [] else [(''description'', JStr description)])
       @ (if start = [] then [] else [(''start'', moment start all_day)])
       @ (if until = [] then [] else [(''end'', moment until all_day)])"

definition update_event :: "cal_env \<Rightarrow> string \<Rightarrow> string \<Rightarrow> string \<Rightarrow> string \<Rightarrow> string \<Rightarrow> string \<Rightarrow> bool \<Rightarrow> (dict, agenda) stm" where
  "update_event env persona eid title start until description all_day =
     (let p = persona_of persona; body = changed_fields p title start until description all_day in
      own_event env p eid
        (if body = [] then mlift (Inr (failure ''nothing to update''))
         else if ce_dry_run env
         then mlift (Inr [(''dry_run'', JBool True), (''would_update'', JStr eid), (''fields'', JList (map (JStr \<circ> fst) body))])
         else guarded_write env (mbind (api env ''PATCH'' (event_path env eid) (Some (JObj body)) False) (\<lambda>r.
                mlift (rbind (value_at r ''id'') (\<lambda>i. Inr [(''updated'', i)]))))))"

definition delete_event :: "cal_env \<Rightarrow> string \<Rightarrow> string \<Rightarrow> (dict, agenda) stm" where
  "delete_event env persona eid =
     own_event env (persona_of persona) eid
       (if ce_dry_run env then mlift (Inr [(''dry_run'', JBool True), (''would_delete'', JStr eid)])
        else guarded_write env (mbind (api env ''DELETE'' (event_path env eid) None True) (\<lambda>_.
               mlift (Inr [(''deleted'', JStr eid)]))))"

text \<open>The calls of the tools, one after the other, with time between them.\<close>

datatype tool_call =
    Idle nat
  | ListEvents int string
  | AddEvent string string string string string bool
  | UpdateEvent string string string string string string bool
  | DeleteEvent string string

fun tool :: "cal_env \<Rightarrow> tool_call \<Rightarrow> agenda \<Rightarrow> agenda" where
  "tool env (Idle n) s = s\<lparr>ag_clock := ag_clock s + int n\<rparr>"
| "tool env (ListEvents d p) s = snd (list_events env d p s)"
| "tool env (AddEvent p t a b d l) s = snd (add_event env p t a b d l s)"
| "tool env (UpdateEvent p i t a b d l) s = snd (update_event env p i t a b d l s)"
| "tool env (DeleteEvent p i) s = snd (delete_event env p i s)"

section \<open>What the tools do\<close>

fun modifies :: "cal_event \<Rightarrow> bool" where
  "modifies (Requested q) \<longleftrightarrow> cq_method q \<noteq> ''GET''"
| "modifies _ \<longleftrightarrow> False"

fun grant :: "cal_event \<Rightarrow> int option" where
  "grant (Granted t) = Some t"
| "grant _ = None"

abbreviation granted :: "cal_event list \<Rightarrow> int list" where
  "granted \<equiv> List.map_filter grant"

text \<open>Up to every point there are no more changes than grants, and there are neither in a dry run.\<close>

definition modest :: "bool \<Rightarrow> cal_event list \<Rightarrow> bool" where
  "modest dry xs \<longleftrightarrow>
     (\<forall>n. length (filter modifies (take n xs)) \<le> length (granted (take n xs)))
     \<and> (dry \<longrightarrow> filter modifies xs = [] \<and> granted xs = [])"

definition one_request :: "string \<Rightarrow> cal_event list \<Rightarrow> bool" where
  "one_request v xs \<longleftrightarrow> granted xs = [] \<and> length (filter modifies xs) \<le> (if v = ''GET'' then 0 else 1)"

lemma granted_append: "granted (xs @ ys) = granted xs @ granted ys"
  by (simp add: map_filter_def)

lemma granted_simps [simp]:
  "granted [] = []" "granted (Refreshed # xs) = granted xs" "granted (Requested q # xs) = granted xs"
  "granted (Granted t # xs) = t # granted xs"
  by (simp_all add: map_filter_simps)

lemma modest_Nil [simp]: "modest dry []"
  by (simp add: modest_def)

lemma modest_append: "modest dry xs \<Longrightarrow> modest dry ys \<Longrightarrow> modest dry (xs @ ys)"
  unfolding modest_def
proof (elim conjE, intro conjI allI impI)
  fix n
  assume x: "\<forall>n. length (filter modifies (take n xs)) \<le> length (granted (take n xs))"
    and y: "\<forall>n. length (filter modifies (take n ys)) \<le> length (granted (take n ys))"
  from x [THEN spec, of n] y [THEN spec, of "n - length xs"]
  show "length (filter modifies (take n (xs @ ys))) \<le> length (granted (take n (xs @ ys)))"
    by (simp add: granted_append)
qed (auto simp: granted_append)

lemma one_request_modest: "one_request ''GET'' xs \<Longrightarrow> modest dry xs"
proof -
  assume "one_request ''GET'' xs"
  then have none: "\<And>x. x \<in> set xs \<Longrightarrow> \<not> modifies x" "granted xs = []" by (auto simp: one_request_def filter_empty_conv)
  have "filter modifies (take n xs) = []" for n using none(1) by (auto simp: filter_empty_conv dest: in_set_takeD)
  moreover from this [of "length xs"] have "filter modifies xs = []" by simp
  ultimately show "modest dry xs" using none(2) unfolding modest_def by simp
qed

lemma one_request_granted: "one_request v xs \<Longrightarrow> modest False (Granted t # xs)"
  unfolding modest_def
proof (intro conjI allI)
  fix n
  assume x: "one_request v xs"
  show "length (filter modifies (take n (Granted t # xs))) \<le> length (granted (take n (Granted t # xs)))"
  proof (cases n)
    case (Suc m)
    have "length (filter modifies (take m xs)) + length (filter modifies (drop m xs)) = length (filter modifies xs)"
      by (metis append_take_drop_id filter_append length_append)
    with x Suc show ?thesis by (simp add: one_request_def split: if_splits)
  qed simp
qed simp

lemma traces_state: "(\<And>s. tr (f s) = tr s) \<Longrightarrow> P [] \<Longrightarrow> traces tr P (\<lambda>s. (r s, f s))"
  by (simp add: traces_def)

lemma traces_token: "traces ag_log (\<lambda>xs. set xs \<subseteq> {Refreshed}) (token env)"
  by (auto simp: traces_def token_def happens_def Let_def split: sum.splits)

lemma traces_request:
  "traces ag_log (\<lambda>xs. \<exists>q. xs = [Requested q] \<and> cq_method q = v)
     (\<lambda>s. let q = \<lparr>cq_method = v, cq_url = u, cq_token = tok, cq_body = b\<rparr> in (r s q, happens env (Requested q) s))"
  by (auto simp: traces_def happens_def Let_def)

lemma traces_api: "traces ag_log (one_request v) (api env v path body ok404)"
proof -
  have r: "granted xs = [] \<and> filter modifies xs = []" if "set xs \<subseteq> {Refreshed}" for xs
    using that by (induction xs) auto
  show ?thesis
    unfolding api_def
    by (rule traces_bind [OF traces_token traces_request]) (use r in \<open>auto simp: one_request_def granted_append\<close>)
qed

lemma traces_get: "traces ag_log (modest dry) (api env ''GET'' path body ok404)"
  by (rule traces_mono [OF traces_api one_request_modest])

lemma traces_modest_bind:
  "traces ag_log (modest dry) m \<Longrightarrow> (\<And>a. traces ag_log (modest dry) (f a)) \<Longrightarrow> traces ag_log (modest dry) (mbind m f)"
  by (rule traces_bind [where P = "modest dry" and Q = "\<lambda>_. modest dry"]) (auto intro: modest_append)

lemma traces_modest_lift [intro]: "traces ag_log (modest dry) (mlift r)"
  by (rule traces_lift) simp

lemma traces_guarded:
  assumes "traces ag_log (one_request v) m"
  shows "traces ag_log (modest False) (guarded_write env m)"
  unfolding traces_def
proof
  fix s
  show "\<exists>new. ag_log (snd (guarded_write env m s)) = ag_log s @ new \<and> modest False new"
  proof (cases "ce_cap env \<le> int (length (filter (\<lambda>t. ag_clock s - t < hour) (ag_writes s)))")
    case True
    then show ?thesis by (auto simp: guarded_write_def rate_ok_def Let_def)
  next
    case False
    let ?s = "s\<lparr>ag_writes := filter (\<lambda>t. ag_clock s - t < hour) (ag_writes s) @ [ag_clock s], ag_log := ag_log s @ [Granted (ag_clock s)]\<rparr>"
    obtain new where "ag_log (snd (m ?s)) = ag_log ?s @ new" "one_request v new"
      using assms unfolding traces_def by blast
    with False one_request_granted [of v new "ag_clock s"] show ?thesis
      by (intro exI [of _ "Granted (ag_clock s) # new"]) (simp add: guarded_write_def rate_ok_def Let_def)
  qed
qed

lemma traces_write:
  assumes "\<not> dry"
  shows "traces ag_log (modest dry) (guarded_write env (mbind (api env v path body ok404) (\<lambda>a. mlift (f a))))"
proof -
  have "traces ag_log (one_request v) (mbind (api env v path body ok404) (\<lambda>a. mlift (f a)))"
    by (rule traces_bind [OF traces_api traces_lift [where P = "\<lambda>xs. xs = []"]]) auto
  with assms show ?thesis by (simp add: traces_guarded)
qed

lemma traces_own:
  "traces ag_log (modest dry) m \<Longrightarrow> traces ag_log (modest dry) (own_event env p eid m)"
  unfolding own_event_def by (intro traces_modest_bind traces_get) (auto intro!: traces_modest_bind)

lemma traces_tools:
  "traces ag_log (modest (ce_dry_run env)) (list_events env d p)"
  "traces ag_log (modest (ce_dry_run env)) (add_event env p t a b c l)"
  "traces ag_log (modest (ce_dry_run env)) (update_event env p i t a b c l)"
  "traces ag_log (modest (ce_dry_run env)) (delete_event env p i)"
proof -
  show "traces ag_log (modest (ce_dry_run env)) (list_events env d p)"
    unfolding traces_def list_events_def
  proof
    fix s
    show "\<exists>new. ag_log (snd (mbind (mlift (iso_utc (ag_clock s))) (\<lambda>a. mbind (mlift (days_ahead (ag_clock s) d)) (\<lambda>b.
       mbind (api env ''GET'' (cal env (''/events?timeMin='' @ quote_plus a @ ''&timeMax='' @ quote_plus b
         @ ''&singleEvents=true&orderBy=startTime&maxResults=250'')) None False) (\<lambda>r.
       mlift (rbind (if truthy r then field r ''items'' (JList []) else Inr (JList [])) (\<lambda>is. rbind (iterate is)
         (listed (persona_of p))))))) s)) = ag_log s @ new \<and> modest (ce_dry_run env) new"
      by (rule spec [OF iffD1 [OF traces_def]]) (intro traces_modest_bind traces_modest_lift traces_get)
  qed
  show "traces ag_log (modest (ce_dry_run env)) (add_event env p t a b c l)"
    by (auto simp: add_event_def Let_def intro!: traces_write)
  show "traces ag_log (modest (ce_dry_run env)) (update_event env p i t a b c l)"
    by (auto simp: update_event_def Let_def intro!: traces_own traces_write)
  show "traces ag_log (modest (ce_dry_run env)) (delete_event env p i)"
    by (auto simp: delete_event_def intro!: traces_own traces_write)
qed

section \<open>The cap\<close>

definition in_hour :: "int \<Rightarrow> int list \<Rightarrow> int list" where
  "in_hour a ts = filter (\<lambda>t. a \<le> t \<and> t < a + hour) ts"

text \<open>
  The grants do not lie in the future, in no hour there are more than the cap allows, and the list of
  the server holds those of the hour before its last look at the clock.
\<close>

definition capped :: "cal_env \<Rightarrow> agenda \<Rightarrow> bool" where
  "capped env s \<longleftrightarrow>
     (\<forall>t \<in> set (granted (ag_log s)). t \<le> ag_clock s)
     \<and> (\<forall>a. length (in_hour a (granted (ag_log s))) \<le> nat (ce_cap env))
     \<and> (\<exists>c \<le> ag_clock s. ag_writes s = filter (\<lambda>t. c - t < hour) (granted (ag_log s)))"

definition keeps_cap :: "cal_env \<Rightarrow> ('a, agenda) stm \<Rightarrow> bool" where
  "keeps_cap env m \<longleftrightarrow> (\<forall>s. capped env s \<longrightarrow> capped env (snd (m s)))"

lemma capped_later:
  assumes "capped env s" "granted (ag_log s') = granted (ag_log s)" "ag_writes s' = ag_writes s" "ag_clock s \<le> ag_clock s'"
  shows "capped env s'"
  using assms unfolding capped_def by (metis order_trans)

lemma capped_happens: "capped env s \<Longrightarrow> grant x = None \<Longrightarrow> capped env (happens env x s)"
  by (rule capped_later [of env s]) (simp_all add: happens_def granted_append map_filter_simps)

lemma recent_grants:
  assumes "capped env s"
  shows "filter (\<lambda>t. ag_clock s - t < hour) (ag_writes s) = filter (\<lambda>t. ag_clock s - t < hour) (granted (ag_log s))"
proof -
  from assms obtain c where c: "c \<le> ag_clock s" "ag_writes s = filter (\<lambda>t. c - t < hour) (granted (ag_log s))"
    by (auto simp: capped_def)
  from c(1) have "(c - t < hour \<and> ag_clock s - t < hour) = (ag_clock s - t < hour)" for t by auto
  then show ?thesis by (simp add: c(2))
qed

lemma in_hour_recent:
  assumes "\<forall>t \<in> set ts. t \<le> now" "a \<le> now"
  shows "length (in_hour a ts) \<le> length (filter (\<lambda>t. now - t < hour) ts) \<or> a + hour \<le> now"
proof (cases "a + hour \<le> now")
  case False
  with assms(2) have sub: "a \<le> t \<and> t < a + hour \<Longrightarrow> now - t < hour" for t by auto
  have "in_hour a ts = filter (\<lambda>t. a \<le> t \<and> t < a + hour) (filter (\<lambda>t. now - t < hour) ts)"
    unfolding in_hour_def filter_filter by (rule filter_cong) (use sub in auto)
  with length_filter_le [of "\<lambda>t. a \<le> t \<and> t < a + hour" "filter (\<lambda>t. now - t < hour) ts"]
  show ?thesis by (simp del: filter_filter)
qed simp

lemma capped_granted:
  assumes "capped env s" "int (length (filter (\<lambda>t. ag_clock s - t < hour) (ag_writes s))) < ce_cap env"
  shows "capped env (s\<lparr>ag_writes := filter (\<lambda>t. ag_clock s - t < hour) (ag_writes s) @ [ag_clock s],
    ag_log := ag_log s @ [Granted (ag_clock s)]\<rparr>)"
proof -
  let ?g = "granted (ag_log s)" and ?now = "ag_clock s"
  have past: "\<forall>t \<in> set ?g. t \<le> ?now" and cap: "length (in_hour a ?g) \<le> nat (ce_cap env)" for a
    using assms(1) by (auto simp: capped_def)
  note recent = recent_grants [OF assms(1)]
  have "length (in_hour a (?g @ [?now])) \<le> nat (ce_cap env)" for a
  proof (cases "a \<le> ?now \<and> ?now < a + hour")
    case True
    with in_hour_recent [OF past, of a] assms(2) recent show ?thesis by (auto simp: in_hour_def)
  next
    case False
    then have "in_hour a (?g @ [?now]) = in_hour a ?g" by (auto simp: in_hour_def)
    with cap show ?thesis by simp
  qed
  moreover have "?now - ?now < hour" by (simp add: hour_def)
  ultimately show ?thesis using past recent
    by (auto simp: capped_def granted_append intro!: exI [of _ ?now])
qed

lemma capped_refused:
  assumes "capped env s"
  shows "capped env (s\<lparr>ag_writes := filter (\<lambda>t. ag_clock s - t < hour) (ag_writes s)\<rparr>)"
  using assms recent_grants [OF assms] by (auto simp: capped_def)

lemma keeps_lift [intro]: "keeps_cap env (mlift r)"
  by (simp add: keeps_cap_def)

lemma cap_bind: "keeps_cap env m \<Longrightarrow> (\<And>a. keeps_cap env (f a)) \<Longrightarrow> keeps_cap env (mbind m f)"
  unfolding keeps_cap_def mbind_def by (auto split: prod.split sum.split)

lemma keeps_api: "keeps_cap env (api env v path body ok404)"
  unfolding api_def
proof (rule cap_bind)
  show "keeps_cap env (token env)"
    by (auto simp: keeps_cap_def token_def Let_def intro: capped_happens split: sum.split)
qed (auto simp: keeps_cap_def Let_def intro: capped_happens)

lemma keeps_guarded: "keeps_cap env m \<Longrightarrow> keeps_cap env (guarded_write env m)"
  using capped_granted [of env] capped_refused [of env]
  by (simp add: keeps_cap_def guarded_write_def rate_ok_def Let_def not_le)

lemma keeps_own: "keeps_cap env m \<Longrightarrow> keeps_cap env (own_event env p eid m)"
  unfolding own_event_def by (intro cap_bind keeps_api) (auto intro!: cap_bind)

lemma keeps_tools:
  "capped env s \<Longrightarrow> capped env (snd (list_events env d p s))"
  "keeps_cap env (add_event env p t a b c l)"
  "keeps_cap env (update_event env p i t a b c l)"
  "keeps_cap env (delete_event env p i)"
proof -
  show "capped env s \<Longrightarrow> capped env (snd (list_events env d p s))"
    unfolding list_events_def
    by (rule mp [OF spec [OF iffD1 [OF keeps_cap_def]]]) (intro cap_bind keeps_lift keeps_api)
qed (auto simp: add_event_def update_event_def delete_event_def Let_def
       intro!: keeps_guarded keeps_own cap_bind keeps_api)

lemma capped_tool: "capped env s \<Longrightarrow> capped env (tool env c s)"
proof (cases c)
  case (Idle n)
  assume "capped env s"
  then show ?thesis unfolding Idle by (rule capped_later) simp_all
qed (use keeps_tools in \<open>auto simp: keeps_cap_def\<close>)

definition fresh_agenda :: "int \<Rightarrow> agenda" where
  "fresh_agenda now = \<lparr>ag_clock = now, ag_writes = [], ag_log = []\<rparr>"

abbreviation served :: "cal_env \<Rightarrow> int \<Rightarrow> tool_call list \<Rightarrow> agenda" where
  "served env now calls \<equiv> foldl (\<lambda>s c. tool env c s) (fresh_agenda now) calls"

lemma capped_served: "capped env (served env now calls)"
proof -
  have "capped env s \<Longrightarrow> capped env (foldl (\<lambda>s c. tool env c s) s calls)" for s
    by (induction calls arbitrary: s) (auto intro: capped_tool)
  moreover have "capped env (fresh_agenda now)" by (auto simp: capped_def fresh_agenda_def in_hour_def)
  ultimately show ?thesis by blast
qed

lemma modest_served: "modest (ce_dry_run env) (ag_log (served env now calls))"
proof -
  have "modest (ce_dry_run env) (ag_log (tool env c s))" if "modest (ce_dry_run env) (ag_log s)" for s c
  proof (cases c)
    case (Idle n)
    with that show ?thesis by simp
  qed (use that traces_tools [of env] modest_append in \<open>auto simp: traces_def, metis\<close>)+
  then have "modest (ce_dry_run env) (ag_log s) \<Longrightarrow> modest (ce_dry_run env) (ag_log (foldl (\<lambda>s c. tool env c s) s calls))" for s
    by (induction calls arbitrary: s) auto
  then show ?thesis by (simp add: fresh_agenda_def)
qed

text \<open>
  Property C11. Whatever the API answers and whatever sequence of tools is called: in no hour are more
  changes let pass than the cap, and at no point have more changes been sent than were let pass.
\<close>

theorem writes_are_capped:
  "length (in_hour a (granted (ag_log (served env now calls)))) \<le> nat (ce_cap env)
     \<and> length (filter modifies (take n (ag_log (served env now calls)))) \<le> length (granted (take n (ag_log (served env now calls))))"
  using capped_served [of env now calls] modest_served [of env now calls] by (simp add: capped_def modest_def)

text \<open>In a dry run no sequence of tools sends anything but reads.\<close>

theorem dry_run_only_reads:
  assumes "ce_dry_run env"
  shows "filter modifies (ag_log (served env now calls)) = []"
  using modest_served [of env now calls] assms by (simp add: modest_def)

text \<open>
  A change is sent only after the event was read, and the answer named the persona as its owner: the
  events of a call that changes or deletes an event.
\<close>

definition names_owner :: "json \<Rightarrow> string \<Rightarrow> bool" where
  \<comment> \<open>the event carries the tag of that persona\<close>
  "names_owner ev p \<longleftrightarrow>
     (\<exists>e x v. ev = JObj e \<and> map_of e ''extendedProperties'' = Some (JObj x) \<and> map_of x ''private'' = Some (JObj v)
        \<and> map_of v ''persona'' = Some (JStr p))"

lemma owns_names:
  assumes "owns ev p = Inr True" "p \<noteq> []"
  shows "names_owner ev p"
proof -
  from assms(1) obtain x y where x: "field ev ''extendedProperties'' (JObj []) = Inr x" "field x ''private'' (JObj []) = Inr y"
      "field y ''persona'' (JStr []) = Inr (JStr p)"
    by (auto simp: owns_def private_persona_def rbind_Inr_iff)
  obtain e x' v where d: "ev = JObj e" "x = JObj x'" "y = JObj v" using x by (cases ev; cases x; cases y) (auto simp: field_def)
  with x(3) assms(2) have v: "map_of v ''persona'' = Some (JStr p)" by (auto simp: field_def get_or_def split: option.splits)
  with x(2) d have x': "map_of x' ''private'' = Some (JObj v)" by (auto simp: field_def get_or_def split: option.splits)
  with x(1) d have "map_of e ''extendedProperties'' = Some (JObj x')" by (auto simp: field_def get_or_def split: option.splits)
  with d(1) v x' show ?thesis by (auto simp: names_owner_def)
qed

definition answered_own :: "cal_env \<Rightarrow> cal_event list \<Rightarrow> cal_request \<Rightarrow> string \<Rightarrow> bool" where
  "answered_own env log q p \<longleftrightarrow> (\<exists>raw ev. ce_api env log q = Body raw \<and> json_loads raw = Inr ev \<and> names_owner ev p)"

definition reads_first :: "cal_env \<Rightarrow> string \<Rightarrow> string \<Rightarrow> cal_event list \<Rightarrow> cal_event list \<Rightarrow> bool" where
  "reads_first env p eid old new \<longleftrightarrow>
     list_all (\<lambda>x. \<not> modifies x) new
     \<or> (\<exists>pre q post. new = pre @ Requested q # post \<and> list_all (\<lambda>x. \<not> modifies x) pre
          \<and> cq_method q = ''GET'' \<and> cq_url q = cal_api @ event_path env eid \<and> answered_own env (old @ pre) q p
          \<and> list_all (\<lambda>x. modifies x \<longrightarrow> (\<exists>w. x = Requested w \<and> cq_url w = cal_api @ event_path env eid)) post)"

lemma api_cases:
  obtains e new where "api env v path body ok404 s = (Inl e, s)"
  | e new s' where "api env v path body ok404 s = (Inl e, s')" "ag_log s' = ag_log s @ new" "list_all (\<lambda>x. \<not> modifies x) new"
  | r pre q s' where "api env v path body ok404 s = (r, s')" "ag_log s' = ag_log s @ pre @ [Requested q]"
      "list_all (\<lambda>x. \<not> modifies x) pre" "cq_method q = v" "cq_url q = cal_api @ path"
      "r = (case ce_api env (ag_log s @ pre) q of
          Body raw \<Rightarrow> if raw = [] then Inr (JObj []) else json_loads raw
        | Status code detail \<Rightarrow>
            if ok404 \<and> (code = 404 \<or> code = 410) then Inr JNull else Inl (api_error v path code detail)
        | Unreached e \<Rightarrow> Inl e)"
proof -
  have w: "list_all (\<lambda>x. \<not> modifies x) pre" if "set pre \<subseteq> {Refreshed}" for pre
    using that by (induction pre) auto
  obtain t s1 where t: "token env s = (t, s1)" by fastforce
  with traces_token [of env] obtain pre where pre: "ag_log s1 = ag_log s @ pre" "set pre \<subseteq> {Refreshed}"
    by (rule traces_step)
  show thesis
  proof (cases t)
    case (Inl e)
    with t pre w [OF pre(2)] show thesis by (intro that(2)) (auto simp: api_def mbind_def)
  next
    case (Inr tok)
    let ?q = "\<lparr>cq_method = v, cq_url = cal_api @ path, cq_token = tok, cq_body = map_option dumps body\<rparr>"
    from Inr t pre w [OF pre(2)] show thesis
      by (intro that(3) [of _ "happens env (Requested ?q) s1" pre ?q]) (auto simp: api_def mbind_def Let_def happens_def)
  qed
qed

lemma api_writes:
  "\<exists>new. ag_log (snd (api env v path body ok404 s)) = ag_log s @ new
     \<and> list_all (\<lambda>x. modifies x \<longrightarrow> (\<exists>w. x = Requested w \<and> cq_url w = cal_api @ path)) new"
  by (cases rule: api_cases [of env v path body ok404 s]) (auto simp: list_all_iff)

lemma guarded_writes:
  assumes "\<And>s. \<exists>new. ag_log (snd (m s)) = ag_log s @ new \<and> list_all P new" "\<And>t. P (Granted t)"
  shows "\<exists>new. ag_log (snd (guarded_write env m s)) = ag_log s @ new \<and> list_all P new"
proof (cases "rate_ok env s")
  case (Pair ok s1)
  then consider "\<not> ok" "ag_log s1 = ag_log s" | "ok" "ag_log s1 = ag_log s @ [Granted (ag_clock s)]"
    by (auto simp: rate_ok_def Let_def split: if_splits)
  then show ?thesis
  proof cases
    case 2
    with assms(1) [of s1] obtain new where "ag_log (snd (m s1)) = ag_log s1 @ new" "list_all P new" by blast
    with 2 Pair assms(2) show ?thesis by (intro exI [of _ "Granted (ag_clock s) # new"]) (simp add: guarded_write_def)
  qed (use Pair in \<open>simp add: guarded_write_def\<close>)
qed

lemma own_event_reads_first:
  assumes "p \<noteq> []" and m: "\<And>s. \<exists>new. ag_log (snd (m s)) = ag_log s @ new
     \<and> list_all (\<lambda>x. modifies x \<longrightarrow> (\<exists>w. x = Requested w \<and> cq_url w = cal_api @ event_path env eid)) new"
  shows "\<exists>new. ag_log (snd (own_event env p eid m s)) = ag_log s @ new \<and> reads_first env p eid (ag_log s) new"
proof (cases rule: api_cases [of env "''GET''" "event_path env eid" None True s])
  case (3 r pre q s1)
  have quiet: "reads_first env p eid (ag_log s) (pre @ [Requested q])"
    using 3 by (simp add: reads_first_def)
  show ?thesis
  proof (cases "\<exists>ev. r = Inr ev \<and> ev \<noteq> JNull \<and> owns ev p = Inr True")
    case True
    then obtain ev where ev: "r = Inr ev" "ev \<noteq> JNull" "owns ev p = Inr True" by blast
    obtain new where new: "ag_log (snd (m s1)) = ag_log s1 @ new"
      "list_all (\<lambda>x. modifies x \<longrightarrow> (\<exists>w. x = Requested w \<and> cq_url w = cal_api @ event_path env eid)) new"
      using m [of s1] by blast
    from owns_names [OF ev(3) assms(1)] have named: "names_owner ev p" .
    obtain raw where raw: "ce_api env (ag_log s @ pre) q = Body raw" "(if raw = [] then Inr (JObj []) else json_loads raw) = Inr ev"
      using 3(6) ev(1,2) by (auto split: cal_reply.splits if_splits)
    have "raw \<noteq> []" using raw(2) named by (auto simp: names_owner_def)
    with raw named have "answered_own env (ag_log s @ pre) q p" by (auto simp: answered_own_def)
    with 3 new have reads: "reads_first env p eid (ag_log s) (pre @ Requested q # new)"
      unfolding reads_first_def by blast
    have call: "api env ''GET'' (event_path env eid) None True s = (Inr ev, s1)" using 3(1) ev(1) by simp
    have "own_event env p eid m s = m s1" by (simp add: own_event_def mbind_def call ev)
    with 3(2) new reads show ?thesis by (intro exI [of _ "pre @ Requested q # new"]) simp
  next
    case False
    with 3 have "snd (own_event env p eid m s) = s1"
      by (cases r) (auto simp: own_event_def mbind_def split: sum.split)
    with 3 quiet show ?thesis by auto
  qed
qed (auto simp: own_event_def mbind_def reads_first_def)

text \<open>
  Property C12. A call of a persona that changes or deletes an event sends changes only to the event of the
  call, and only after it has read the event and the answer carried the tag of that very persona,
  whatever the API answers otherwise. A call without a persona is another matter, see below.
\<close>

theorem only_owners_change:
  assumes "persona_of persona \<noteq> []"
  shows "(\<exists>new. ag_log (snd (update_event env persona eid title start until description all_day s)) = ag_log s @ new
       \<and> reads_first env (persona_of persona) eid (ag_log s) new)
   \<and> (\<exists>new. ag_log (snd (delete_event env persona eid s)) = ag_log s @ new
       \<and> reads_first env (persona_of persona) eid (ag_log s) new)"
proof -
  have bind: "\<exists>new. ag_log (snd (mbind (api env v path body ok) (\<lambda>a. mlift (f a)) s)) = ag_log s @ new
     \<and> list_all (\<lambda>x. modifies x \<longrightarrow> (\<exists>w. x = Requested w \<and> cq_url w = cal_api @ path)) new" for v path body ok f s
    using api_writes [of env v path body ok s] by (simp only: snd_mbind_mlift)
  show ?thesis unfolding update_event_def delete_event_def Let_def
    by (intro conjI own_event_reads_first [OF assms]) (auto intro!: guarded_writes bind)
qed

text \<open>A calendar whose events are those of one persona, who deletes one.\<close>

definition tagged_calendar :: "string \<Rightarrow> cal_env" where
  "tagged_calendar p =
     \<lparr>ce_dry_run = False, ce_cap = 50, ce_id = ''c'', ce_valid = (\<lambda>_. True), ce_refresh = (\<lambda>_. Inr ()), ce_token = (\<lambda>_. ''t''),
      ce_api = (\<lambda>_ _. Body (dumps (JObj [(''extendedProperties'', JObj [(''private'', JObj [(''persona'', JStr p)])])]))), ce_took = (\<lambda>_. 0)\<rparr>"

lemma tagged_delete:
  "\<not> list_all (\<lambda>x. \<not> modifies x) (ag_log (snd (delete_event (tagged_calendar ''rick'') ''Rick'' ''e'' (fresh_agenda 0))))"
  by code_simp

lemma only_owners_change_witness:
  "\<exists>new. ag_log (snd (delete_event (tagged_calendar ''rick'') ''Rick'' ''e'' (fresh_agenda 0))) = new
     \<and> reads_first (tagged_calendar ''rick'') ''rick'' ''e'' [] new \<and> \<not> list_all (\<lambda>x. \<not> modifies x) new"
proof -
  have p: "persona_of ''Rick'' = ''rick''" "persona_of ''Rick'' \<noteq> []" "ag_log (fresh_agenda 0) = []" by code_simp+
  from only_owners_change [OF p(2), of "tagged_calendar ''rick''" "''e''" "[]" "[]" "[]" "[]" False "fresh_agenda 0"] tagged_delete
  show ?thesis unfolding p(1,3) by simp
qed

section \<open>Events without an owner\<close>

text \<open>
  An event which no tool has made has no persona. A call without a persona counts as its owner: it
  changes the event, although the tools let an agent change only events which it has tagged.
\<close>

definition bare_event :: string where
  "bare_event = dumps (JObj [(''id'', JStr ''e'')])"

definition open_calendar :: "bool \<Rightarrow> cal_env" where
  "open_calendar dry =
     \<lparr>ce_dry_run = dry, ce_cap = 50, ce_id = ''c'', ce_valid = (\<lambda>_. True), ce_refresh = (\<lambda>_. Inr ()), ce_token = (\<lambda>_. ''t''),
      ce_api = (\<lambda>_ _. Body bare_event), ce_took = (\<lambda>_. 0)\<rparr>"

lemma bare_event_read: "json_loads bare_event = Inr (JObj [(''id'', JStr ''e'')])" "bare_event \<noteq> []"
  by code_simp+

lemma blank_persona: "persona_of '' '' = []"
  by code_simp

lemma open_api:
  "api (open_calendar dry) v path body ok404 s =
     (Inr (JObj [(''id'', JStr ''e'')]),
      s\<lparr>ag_log := ag_log s @ [Requested \<lparr>cq_method = v, cq_url = cal_api @ path, cq_token = ''t'', cq_body = map_option dumps body\<rparr>]\<rparr>)"
  by (simp add: api_def token_def mbind_def Let_def open_calendar_def happens_def bare_event_read)

lemma blank_owns: "owns (JObj [(''id'', JStr ''e'')]) [] = Inr True"
  by (simp add: owns_def private_persona_def field_def get_or_def)

lemma open_own:
  "own_event (open_calendar dry) [] eid m s =
     m (s\<lparr>ag_log := ag_log s @ [Requested \<lparr>cq_method = ''GET'', cq_url = cal_api @ event_path (open_calendar dry) eid,
        cq_token = ''t'', cq_body = None\<rparr>]\<rparr>)"
  by (simp add: own_event_def mbind_def open_api blank_owns)

lemma untagged_event_is_changed:
  "fst (delete_event (open_calendar False) '' '' ''e'' (fresh_agenda 0)) = Inr [(''deleted'', JStr ''e'')]
     \<and> map modifies (ag_log (snd (delete_event (open_calendar False) '' '' ''e'' (fresh_agenda 0)))) = [False, False, True]"
proof -
  have c: "\<not> ce_dry_run (open_calendar False)" "ce_cap (open_calendar False) = 50" by (simp_all add: open_calendar_def)
  show ?thesis unfolding delete_event_def blank_persona open_own
    by (simp add: c guarded_write_def rate_ok_def mbind_def open_api fresh_agenda_def)
qed

text \<open>The witness: a dry run of a deletion.\<close>

lemma dry_deletion:
  "map modifies (ag_log (snd (delete_event (open_calendar True) '' '' ''e'' (fresh_agenda 0)))) = [False]"
proof -
  have c: "ce_dry_run (open_calendar True)" by (simp add: open_calendar_def)
  show ?thesis unfolding delete_event_def blank_persona open_own by (simp add: c fresh_agenda_def)
qed

theorem dry_run_only_reads_witness:
  "filter modifies (ag_log (served (open_calendar True) 0 [DeleteEvent '' '' ''e''])) = []
     \<and> map modifies (ag_log (served (open_calendar True) 0 [DeleteEvent '' '' ''e''])) = [False]"
proof
  show "filter modifies (ag_log (served (open_calendar True) 0 [DeleteEvent '' '' ''e''])) = []"
    by (rule dry_run_only_reads) (simp add: open_calendar_def)
qed (simp add: dry_deletion)

lemma civil_days:
  "civil 0 = (1970, 1, 1)" "civil 11016 = (2000, 2, 29)" "civil 2932896 = (9999, 12, 31)" "civil (- 719162) = (1, 1, 1)"
  by code_simp+

end
