(* ===== verification/Digests.thy ===== *)
theory Digests
  imports A2a PyScan
begin

text \<open>
  The three short runs of \<open>local-cron\<close> that ask an agent once and mail what it says:
  \<open>arnold_queue_check.py\<close>, which mails a reminder only on the agent's verdict, \<open>crusher_review.py\<close>, which
  mails every review, and \<open>crusher_weight_sync.py\<close>, which mails only if the counts of the last line
  name a correction or an error. The agent, the notification service and the date are parameters.
\<close>

section \<open>What the runs share\<close>

record digest =
  dg_url :: string
  dg_agent :: string
  dg_title :: string
  dg_budget :: nat
  dg_prompt :: string

definition digest_settings :: "string \<Rightarrow> string \<Rightarrow> string \<Rightarrow> (string \<Rightarrow> string option) \<Rightarrow> digest res" where
  \<comment> \<open>with the defaults of a script; a negative budget polls as little as none\<close>
  "digest_settings agent title budget var =
     (let or_default = (\<lambda>k d. case var k of Some v \<Rightarrow> v | None \<Rightarrow> d);
          needed = (\<lambda>k. case var k of Some v \<Rightarrow> Inr v | None \<Rightarrow> Inl (key_error k));
          seconds = or_default ''BUDGET_SECONDS'' budget in
      rbind (needed ''AGENT_URL'') (\<lambda>url.
      rbind (case parse_int seconds of
          Some i \<Rightarrow> Inr (nat i)
        | None \<Rightarrow> Inl (ValueError (''invalid literal for int() with base 10: '' @ repr_str seconds))) (\<lambda>b.
      rbind (needed ''PROMPT'') (\<lambda>prompt.
        Inr \<lparr>dg_url = url, dg_agent = or_default ''AGENT_NAME'' agent, dg_title = or_default ''TITLE'' title,
             dg_budget = b, dg_prompt = prompt\<rparr>))))"

definition queue_settings :: "(string \<Rightarrow> string option) \<Rightarrow> digest res" where
  "queue_settings = digest_settings ''arnold'' ''arnold plan-queue check'' ''300''"

definition review_settings :: "(string \<Rightarrow> string option) \<Rightarrow> digest res" where
  "review_settings = digest_settings ''crusher'' ''crusher trend review'' ''800''"

definition weight_settings :: "(string \<Rightarrow> string option) \<Rightarrow> digest res" where
  "weight_settings = digest_settings ''crusher'' ''crusher weight sync'' ''600''"

datatype digest_end =
    Skipped
  | Quiet
  | Mailed dict
  | Undelivered dict

type_synonym notifier = "string \<Rightarrow> unit res"

definition digest_mail :: "digest \<Rightarrow> string \<Rightarrow> json \<Rightarrow> dict" where
  "digest_mail cfg subject body = [(''subject'', JStr subject), (''body'', body), (''agent'', JStr (dg_agent cfg))]"

definition deliver_digest :: "notifier \<Rightarrow> dict \<Rightarrow> digest_end" where
  \<comment> \<open>a mail that cannot be sent is only logged\<close>
  "deliver_digest notify m = (case notify (dumps (JObj m)) of Inr _ \<Rightarrow> Mailed m | Inl _ \<Rightarrow> Undelivered m)"

definition dated :: "string \<Rightarrow> string \<Rightarrow> string" where
  "dated title day = title @ '' '' @ [em_dash] @ '' '' @ day"

definition once :: "digest \<Rightarrow> 's agent \<Rightarrow> string \<Rightarrow> string \<Rightarrow> (json \<Rightarrow> digest_end res) \<Rightarrow> (digest_end, 's call_run) stm" where
  \<comment> \<open>one call of the agent, and what becomes of an answer with text\<close>
  "once cfg agent contract mid f =
     mbind (call_agent agent (dg_url cfg) (strip (dg_prompt cfg) @ contract) (dg_budget cfg) 10 mid) (\<lambda>(reply, state).
       if \<not> truthy reply then mlift (Inr Skipped) else mlift (f reply))"

section \<open>The reminder\<close>

definition QUEUE_CONTRACT :: string where
  "QUEUE_CONTRACT =
     [newline] @ [newline] @ ''OUTPUT CONTRACT '' @ [em_dash]
     @ '' follow it exactly, it is as important as the task:'' @ [newline]
     @ ''- Reply in ENGLISH ONLY. This is a ONE-WAY notification: never ask a question or request ''
     @ ''input or confirmation '' @ [em_dash] @ '' nobody can reply.'' @ [newline]
     @ ''- You have NO email/notify/alert tool and MUST NOT attempt to send anything yourself ''
     @ [em_dash]
     @ '' THIS job delivers your reply. Return ONLY a verdict, nothing else: no reasoning, no preamble, ''
     @ ''no '' @ [CHR 0x27] @ ''let me...'' @ [CHR 0x27] @ '' narration.'' @ [newline]
     @ ''- NEVER fabricate a number; the session count must come from your tool (api.v_plan_progress). ''
     @ ''If you cannot read it, reply with exactly: NONE'' @ [newline]
     @ ''- If NO reminder should be sent (queue healthy, or you already reminded during this low-queue ''
     @ ''stretch), reply with EXACTLY the single word NONE and nothing else.'' @ [newline]
     @ ''- If a reminder IS due, reply with EXACTLY '' @ [CHR 0x27] @ ''REMIND:'' @ [CHR 0x27]
     @ '' (that literal prefix) followed by the short reminder message for Rob '' @ [em_dash]
     @ '' a few lines in your coaching voice, GENERIC training/check-in language, NO medical / recovery ''
     @ ''/ TRT specifics. Put NOTHING before '' @ [CHR 0x27] @ ''REMIND:'' @ [CHR 0x27] @ ''.'' @ [newline]
     @ ''- Keep the whole reply under 600 characters. Light markdown is fine; no tables, no images.''"

definition capitals :: "char \<Rightarrow> string" where
  \<comment> \<open>\<open>upper\<close> of a character; the two whose capital lies beyond the model stay\<close>
  "capitals c =
     (let n = code_point c in
      if 97 \<le> n \<and> n \<le> 122 \<or> 224 \<le> n \<and> n \<le> 254 \<and> n \<noteq> 247 then [char_of (n - 32)]
      else if n = 223 then ''SS'' else [c])"

definition upper :: "string \<Rightarrow> string" where
  "upper s = concat (map capitals s)"

definition reminder :: "string \<Rightarrow> string option" where
  \<comment> \<open>the message after the verdict\<close>
  "reminder reply =
     (let t = strip reply; msg = strip (drop 7 t) in
      if \<not> startswith (upper t) ''REMIND:'' \<or> msg = [] then None else Some msg)"

definition text_reply :: "json \<Rightarrow> string \<Rightarrow> string res" where
  "text_reply j method = (case j of JStr s \<Rightarrow> Inr s | _ \<Rightarrow> Inl (attr_error j method))"

definition queue_check :: "digest \<Rightarrow> 's agent \<Rightarrow> notifier \<Rightarrow> (digest_end, 's call_run) stm" where
  "queue_check cfg agent notify =
     once cfg agent QUEUE_CONTRACT ''arnold-queue-check'' (\<lambda>reply. rbind (text_reply reply ''strip'') (\<lambda>s.
       Inr (case reminder s of
           None \<Rightarrow> Quiet
         | Some msg \<Rightarrow> deliver_digest notify (digest_mail cfg (dg_title cfg) (JStr msg)))))"

section \<open>The review\<close>

definition REVIEW_CONTRACT :: string where
  "REVIEW_CONTRACT =
     [newline] @ [newline] @ ''OUTPUT CONTRACT '' @ [em_dash]
     @ '' follow it exactly, it is as important as the task:'' @ [newline]
     @ ''- Reply in ENGLISH ONLY. This is a ONE-WAY notification: never ask a question or request ''
     @ ''input or confirmation '' @ [em_dash]
     @ '' nobody can reply. If unsure, state your best assessment and proceed.'' @ [newline]
     @ ''- NEVER fabricate or round a number; every figure must come from a tool. If a value is unknown, ''
     @ ''say so '' @ [em_dash] @ '' never fill it in.'' @ [newline]
     @ ''- You are NOT a clinician. Track, trend, and surface what is worth raising with a doctor; ''
     @ ''never diagnose, prescribe, or adjust a dose.'' @ [newline]
     @ ''- Lead with the single headline finding and what it means, then at most a few short lines: ''
     @ ''the trailing BP trend, the weight<->BP relationship, and any line-up with a dose change. ''
     @ ''End with the one thing to raise at the next visit.'' @ [newline]
     @ ''- Keep the WHOLE reply under 900 characters. Light markdown is fine (**bold**, '' @ [CHR 0x60]
     @ ''code'' @ [CHR 0x60] @ '', '' @ [CHR 0x60] @ ''- bullets'' @ [CHR 0x60] @ '', short headings) ''
     @ [em_dash] @ '' no tables, no images; it is rendered into a themed HTML email.'' @ [newline]
     @ ''- Do NOT call any notify/alert/email tool '' @ [em_dash]
     @ '' THIS job delivers your reply. Just return the interpretation as your answer.''"

definition review :: "digest \<Rightarrow> 's agent \<Rightarrow> notifier \<Rightarrow> string \<Rightarrow> (digest_end, 's call_run) stm" where
  "review cfg agent notify day =
     once cfg agent REVIEW_CONTRACT ''crusher-review'' (\<lambda>reply.
       Inr (deliver_digest notify (digest_mail cfg (dated (dg_title cfg) day) reply)))"

section \<open>The weight reconciliation\<close>

definition WEIGHT_CONTRACT :: string where
  "WEIGHT_CONTRACT =
     [newline] @ [newline] @ ''OUTPUT CONTRACT '' @ [em_dash] @ '' follow it exactly:'' @ [newline]
     @ ''- Reply in ENGLISH ONLY. This is a ONE-WAY notification: never ask a question or request ''
     @ ''confirmation '' @ [em_dash] @ '' nobody can reply.'' @ [newline]
     @ ''- Call upsert_weight exactly once. NEVER fabricate a count or a value; report only what ''
     @ ''the tool returned.'' @ [newline]
     @ ''- Report ONLY exceptions: list each date the tool UPDATED (a PUMP correction) as '' @ [CHR 0x60]
     @ ''YYYY-MM-DD: <old> -> <new> lb'' @ [CHR 0x60]
     @ '', and list any errors verbatim. Do NOT list newly-created daily weigh-ins and do NOT write ''
     @ ''an all-clear line '' @ [em_dash] @ '' a routine run with no updates and no errors has no prose.''
     @ [newline] @ ''- END your reply with EXACTLY one final line, no matter what:'' @ [newline]
     @ ''  WEIGHT_SYNC dry_run=<true|false> creates=<n> updates=<n> skips=<n> errors=<n>'' @ [newline]
     @ ''  using the exact integer counts from the tool'' @ [CHR 0x27] @ ''s result.''"

definition Word_char :: re where
  "Word_char = Cls is_word"

definition count_re :: "nat \<Rightarrow> string \<Rightarrow> re" where
  \<comment> \<open>white space, a name, and the digits of its group\<close>
  "count_re n k = Cat (Plus Space) (Cat (StrI k) (Grp n (Plus Digit)))"

definition sentinel_re :: re where
  "sentinel_re =
     Cat (StrI ''WEIGHT_SYNC'') (Cat (Plus Space) (Cat (StrI ''dry_run='') (Cat (Grp 1 (Plus Word_char))
       (Cat (count_re 2 ''creates='') (Cat (count_re 3 ''updates='') (Cat (count_re 4 ''skips='') (count_re 5 ''errors='')))))))"

definition counts :: "string \<Rightarrow> (nat \<times> nat \<times> nat \<times> nat) option" where
  "counts reply =
     (case re_search sentinel_re reply of
        None \<Rightarrow> None
      | Some (_, m) \<Rightarrow> Some (digits_val (group 2 m), digits_val (group 3 m), digits_val (group 4 m), digits_val (group 5 m)))"

definition weight_sync :: "digest \<Rightarrow> 's agent \<Rightarrow> notifier \<Rightarrow> string \<Rightarrow> (digest_end, 's call_run) stm" where
  "weight_sync cfg agent notify day =
     once cfg agent WEIGHT_CONTRACT ''crusher-weight-sync'' (\<lambda>reply.
       (case reply of
          JStr s \<Rightarrow>
            Inr (case counts s of
                None \<Rightarrow> deliver_digest notify
                  (digest_mail cfg (dg_title cfg @ '' '' @ [em_dash] @ '' unparsed result '' @ day) reply)
              | Some (creates, updates, skips, errors) \<Rightarrow>
                  if 0 < updates \<or> 0 < errors
                  then deliver_digest notify (digest_mail cfg (dated (dg_title cfg) day) reply)
                  else Quiet)
        | _ \<Rightarrow> Inl (TypeError ''expected string or bytes-like object'')))"

section \<open>The last line\<close>

definition sentinel_line :: "string \<Rightarrow> nat \<Rightarrow> nat \<Rightarrow> nat \<Rightarrow> nat \<Rightarrow> string" where
  "sentinel_line dry c u s e =
     ''WEIGHT_SYNC dry_run='' @ dry @ '' creates='' @ nat_str c @ '' updates='' @ nat_str u @ '' skips='' @ nat_str s
       @ '' errors='' @ nat_str e"

definition stops_digits :: "string \<Rightarrow> bool" where
  "stops_digits s \<longleftrightarrow> s = [] \<or> \<not> is_digit (hd s)"

lemma leads_count:
  assumes "stops_digits s" "\<not> is_space (hd k)" "k \<noteq> []"
  shows "\<exists>q. leads (count_re i k) (p, CHR '' '' # k @ nat_str n @ s, c) (q, s, AList.update i (nat_str n) c)"
proof -
  have sp: "leads (Plus Space) (p, CHR '' '' # k @ nat_str n @ s, c) (CHR '' '' # p, k @ nat_str n @ s, c)"
    using leads_Plus [of "'' ''" is_space "k @ nat_str n @ s" p c] assms(2,3) by (simp add: is_space_def code_point_def)
  have dg: "leads (Plus Digit) (rev k @ CHR '' '' # p, nat_str n @ s, c) (rev (nat_str n) @ rev k @ CHR '' '' # p, s, c)"
    using assms(1) nat_str_digits by (intro leads_Plus) (auto simp: stops_digits_def)
  show ?thesis unfolding count_re_def
    by (rule exI, rule leads_Cat [OF sp leads_Cat [OF leads_StrI leads_Grp [OF dg]]]) simp
qed

lemma space_stops: "stops_digits (CHR '' '' # s)"
  by (simp add: stops_digits_def is_digit_def code_point_def)

lemma leads_sentinel:
  assumes "dry \<noteq> []" "\<forall>x \<in> set dry. is_word x" "stops_digits t"
  obtains m where "leads sentinel_re (p, sentinel_line dry c u s e @ t, []) m"
    "group 2 m = nat_str c" "group 3 m = nat_str u" "group 4 m = nat_str s" "group 5 m = nat_str e"
proof -
  let ?c5 = "'' errors='' @ nat_str e @ t" and ?p0 = "rev ''WEIGHT_SYNC'' @ p"
  let ?c4 = "'' skips='' @ nat_str s @ ?c5"
  let ?c3 = "'' updates='' @ nat_str u @ ?c4"
  let ?c2 = "'' creates='' @ nat_str c @ ?c3"
  let ?d2 = "AList.update 2 (nat_str c) (AList.update 1 dry [])"
  let ?d3 = "AList.update 3 (nat_str u) ?d2"
  let ?d4 = "AList.update 4 (nat_str s) ?d3"
  have a: "leads (StrI ''WEIGHT_SYNC'') (p, ''WEIGHT_SYNC'' @ CHR '' '' # ''dry_run='' @ dry @ ?c2, []) (?p0, CHR '' '' # ''dry_run='' @ dry @ ?c2, [])"
    by (rule leads_StrI) simp
  have b: "leads (Plus Space) (?p0, CHR '' '' # ''dry_run='' @ dry @ ?c2, []) (CHR '' '' # ?p0, ''dry_run='' @ dry @ ?c2, [])"
    using leads_Plus [of "'' ''" is_space "''dry_run='' @ dry @ ?c2" ?p0 "[]"] by (simp add: is_space_def code_point_def)
  let ?p1 = "rev ''dry_run='' @ CHR '' '' # ?p0"
  have d: "leads (StrI ''dry_run='') (CHR '' '' # ?p0, ''dry_run='' @ dry @ ?c2, []) (?p1, dry @ ?c2, [])"
    by (rule leads_StrI) simp
  have e: "leads (Plus Word_char) (?p1, dry @ ?c2, []) (rev dry @ ?p1, ?c2, [])"
    unfolding Word_char_def using assms(1,2) by (intro leads_Plus) (simp_all add: is_word_def is_alnum_def code_point_def)
  have sp: "\<not> is_space (CHR ''c'')" "\<not> is_space (CHR ''u'')" "\<not> is_space (CHR ''s'')" "\<not> is_space (CHR ''e'')"
    by (simp_all add: is_space_def code_point_def)
  obtain q2 where f2: "leads (count_re 2 ''creates='') (rev dry @ ?p1, ?c2, AList.update 1 dry []) (q2, ?c3, ?d2)"
    using leads_count [of ?c3 "''creates=''" 2 "rev dry @ ?p1" c "AList.update 1 dry []"] space_stops sp by simp blast
  obtain q3 where f3: "leads (count_re 3 ''updates='') (q2, ?c3, ?d2) (q3, ?c4, ?d3)"
    using leads_count [of ?c4 "''updates=''" 3 q2 u ?d2] space_stops sp by simp blast
  obtain q4 where f4: "leads (count_re 4 ''skips='') (q3, ?c4, ?d3) (q4, ?c5, ?d4)"
    using leads_count [of ?c5 "''skips=''" 4 q3 s ?d3] space_stops sp by simp blast
  obtain q where f5: "leads (count_re 5 ''errors='') (q4, ?c5, ?d4) (q, t, AList.update 5 (nat_str e) ?d4)"
    using leads_count [of t "''errors=''" 5 q4 e ?d4] assms(3) sp by simp blast
  have lead: "leads sentinel_re (p, ''WEIGHT_SYNC'' @ CHR '' '' # ''dry_run='' @ dry @ ?c2, [])
      (q, t, AList.update 5 (nat_str e) ?d4)"
    unfolding sentinel_re_def
    by (rule leads_Cat [OF a leads_Cat [OF b leads_Cat [OF d leads_Cat [OF leads_Grp [OF e]
          leads_Cat [OF f2 leads_Cat [OF f3 leads_Cat [OF f4 f5]]]]]]])
  have line: "''WEIGHT_SYNC'' @ CHR '' '' # ''dry_run='' @ dry @ ?c2 = sentinel_line dry c u s e @ t"
    by (simp add: sentinel_line_def)
  have four: "(2 :: nat) \<noteq> 3" "(2 :: nat) \<noteq> 4" "(2 :: nat) \<noteq> 5" "(3 :: nat) \<noteq> 4" "(3 :: nat) \<noteq> 5" "(4 :: nat) \<noteq> 5"
    by simp_all
  show thesis
    by (rule that [OF lead [unfolded line]]) (simp_all add: group_def update_conv' four)
qed

lemma counts_of_line:
  assumes "prose = [] \<or> last prose = newline" "\<not> contains (lower prose) ''weight_sync''"
    "dry \<noteq> []" "\<forall>x \<in> set dry. is_word x" "stops_digits t"
  shows "counts (prose @ sentinel_line dry c u s e @ t) = Some (c, u, s, e)"
proof -
  obtain m where m: "leads sentinel_re (rev prose, sentinel_line dry c u s e @ t, []) m"
    "group 2 m = nat_str c" "group 3 m = nat_str u" "group 4 m = nat_str s" "group 5 m = nat_str e"
    using leads_sentinel [OF assms(3-5)] by blast
  have "re_search sentinel_re (prose @ sentinel_line dry c u s e @ t) = Some (length prose, m)"
  proof (rule re_search_leads [OF m(1)])
    fix v w
    assume vw: "prose = v @ w" "w \<noteq> []"
    with assms(1,2) have "\<not> startswith (lower (w @ sentinel_line dry c u s e @ t)) ''weight_sync''"
      by (intro no_start_in [of prose]) auto
    moreover have "lower ''WEIGHT_SYNC'' = ''weight_sync''" by code_simp
    ultimately show "matches sentinel_re (rev v, w @ sentinel_line dry c u s e @ t, []) = []"
      unfolding sentinel_re_def by (intro Cat_none StrI_none) simp
  qed
  with m show ?thesis by (simp add: counts_def)
qed

lemma blank_stops: "strip t = [] \<Longrightarrow> stops_digits t"
proof (cases t)
  case (Cons x u)
  assume "strip t = []"
  then have "dropWhile is_space t = []"
    unfolding strip_def lstrip_def rstrip_def by (metis dropWhile_eq_Nil_conv rev_is_Nil_conv set_dropWhileD set_rev hd_dropWhile list.set_sel(1))
  with Cons have "is_space x" by (simp split: if_splits)
  then show ?thesis using is_digit_not_space [of x] Cons by (auto simp: stops_digits_def)
qed (simp add: stops_digits_def)

text \<open>
  Property C38. If the line of the sentinel is the last line of the reply, with nothing but white space after
  it, and the text before that line does not name the sentinel, then the weight reconciliation is silent
  exactly if this last line reports neither a correction nor an error, and mails the whole reply otherwise.
\<close>

theorem sync_silent_iff:
  assumes "fst (call_agent agent (dg_url cfg) (strip (dg_prompt cfg) @ WEIGHT_CONTRACT) (dg_budget cfg) 10 ''crusher-weight-sync'' w)
      = Inr (JStr (prose @ sentinel_line dry c u s e @ t), state)"
    "prose = [] \<or> last prose = newline" "\<not> contains (lower prose) ''weight_sync''"
    "dry \<noteq> []" "\<forall>x \<in> set dry. is_word x" "strip t = []"
  shows "fst (weight_sync cfg agent notify day w) =
    Inr (if u = 0 \<and> e = 0 then Quiet
         else deliver_digest notify (digest_mail cfg (dated (dg_title cfg) day) (JStr (prose @ sentinel_line dry c u s e @ t))))"
proof -
  obtain w' where "call_agent agent (dg_url cfg) (strip (dg_prompt cfg) @ WEIGHT_CONTRACT) (dg_budget cfg) 10 ''crusher-weight-sync'' w
      = (Inr (JStr (prose @ sentinel_line dry c u s e @ t), state), w')"
    using assms(1) by (metis prod.collapse)
  moreover have "prose @ sentinel_line dry c u s e @ t \<noteq> []" by (simp add: sentinel_line_def)
  ultimately show ?thesis
    using counts_of_line [OF assms(2-5) blank_stops [OF assms(6)]] by (simp add: weight_sync_def once_def mbind_Inr)
qed

text \<open>
  The search takes the first line that has the shape of the sentinel, not the last one: a reply that
  quotes the line of an idle run before its own hides the corrections and errors which it reports.
\<close>

lemma first_sentinel_decides:
  "counts (sentinel_line ''true'' c 0 s 0 @ [newline] @ sentinel_line ''false'' c' u' s' e') = Some (c, 0, s, 0)"
proof -
  have "counts ([] @ sentinel_line ''true'' c 0 s 0 @ newline # sentinel_line ''false'' c' u' s' e') = Some (c, 0, s, 0)"
    by (rule counts_of_line) (simp_all add: lower_def is_word_def is_alnum_def stops_digits_def is_digit_def code_point_def)
  then show ?thesis by simp
qed

text \<open>The witness: an agent that reports one correction.\<close>

definition correction :: string where
  "correction = ''2026-01-01: 200 -> 201 lb'' @ [newline]"

definition correction_reply :: string where
  "correction_reply = correction @ sentinel_line ''false'' 0 1 5 0 @ []"

definition correction_body :: string where
  "correction_body = dumps (JObj [(''result'', JObj [(''status'', JObj [(''state'', JStr ''completed''),
     (''message'', JObj [(''parts'', JList [JObj [(''kind'', JStr ''text''), (''text'', JStr correction_reply)]])])])])])"

definition correction_agent :: "unit agent" where
  "correction_agent url payload w = (A2aBody correction_body 1, w)"

definition demo_digest :: digest where
  "demo_digest = \<lparr>dg_url = ''u'', dg_agent = ''crusher'', dg_title = ''t'', dg_budget = 600, dg_prompt = ''p''\<rparr>"

lemma correction_read:
  "reply_of (parse_jsonrpc correction_body)
     = Inr (JStr correction_reply, JStr ''completed'', [(''status'', JObj [(''state'', JStr ''completed''),
         (''message'', JObj [(''parts'', JList [JObj [(''kind'', JStr ''text''), (''text'', JStr correction_reply)]])])])])"
  by code_simp

lemma correction_call:
  "fst (call_agent correction_agent url prompt budget 10 mid \<lparr>cr_world = (), cr_now = 0, cr_log = []\<rparr>)
     = Inr (JStr correction_reply, JStr ''completed'')"
proof -
  have "correction_reply \<noteq> []" by (simp add: correction_reply_def correction_def)
  then show ?thesis
    by (simp add: call_agent_def a2a_post_def correction_agent_def correction_read mbind_def is_terminal_def TERMINAL_def)
qed

theorem sync_silent_iff_witness:
  "fst (weight_sync demo_digest correction_agent (\<lambda>_. Inr ()) ''d'' \<lparr>cr_world = (), cr_now = 0, cr_log = []\<rparr>)
     = Inr (Mailed (digest_mail demo_digest (dated ''t'' ''d'') (JStr correction_reply)))"
proof -
  have "\<not> contains (lower correction) ''weight_sync''" by code_simp
  moreover have "last correction = newline" by (simp add: correction_def)
  ultimately have "fst (weight_sync demo_digest correction_agent (\<lambda>_. Inr ()) ''d'' \<lparr>cr_world = (), cr_now = 0, cr_log = []\<rparr>) =
    Inr (if (1 :: nat) = 0 \<and> (0 :: nat) = 0 then Quiet
         else deliver_digest (\<lambda>_. Inr ()) (digest_mail demo_digest (dated (dg_title demo_digest) ''d'')
           (JStr (correction @ sentinel_line ''false'' 0 1 5 0 @ []))))"
    by (intro sync_silent_iff [where state = "JStr ''completed''"])
      (simp_all only: correction_call correction_reply_def,
        simp_all add: is_word_def is_alnum_def code_point_def strip_def lstrip_def rstrip_def)
  then show ?thesis by (simp add: deliver_digest_def demo_digest_def correction_reply_def)
qed

end
