(* ===== verification/Scrub.thy ===== *)
theory Scrub
  imports PyPath PyRe
begin

text \<open>
  The scrub of MusicBrainz ids after an import, \<open>beets/mbid-scrub.py\<close>: the ids of the library of beets that
  are no UUIDs are blanked and the others brought to lower case, in the database and then in the tags of
  the file. The library \<open>mediafile\<close>, which reads and writes tags, the existence and the permissions of
  files and the failures of the database are parameters. A blob of the database is its text. A commit
  that fails leaves the row as it was, also for the later commits of the run.
\<close>

section \<open>One value\<close>

definition is_hex :: "char \<Rightarrow> bool" where
  "is_hex c \<longleftrightarrow> hex_val c \<noteq> None"

definition uuid_places :: "bool list" where
  \<comment> \<open>the digits of a UUID, and the dashes between them\<close>
  "uuid_places =
     (let h = (\<lambda>n. replicate n True)
      in h 8 @ [False] @ h 4 @ [False] @ h 4 @ [False] @ h 4 @ [False] @ h 12)"

definition uuid_shape :: "(char \<Rightarrow> bool) \<Rightarrow> (char \<Rightarrow> bool) list" where
  "uuid_shape h = map (\<lambda>b. if b then h else (\<lambda>c. c = CHR ''-'')) uuid_places"

definition uuid_re :: re where
  "uuid_re = seqs (map Cls (uuid_shape is_hex) @ [EndZ])"

definition fix_mbid :: "json \<Rightarrow> string option" where
  "fix_mbid v =
     (if \<not> truthy v then None
      else let s = py_str v; st = strip s in
        if st = [] then None
        else if re_match uuid_re st = None then Some []
        else if lower st \<noteq> s then Some (lower st) else None)"

section \<open>The library\<close>

record beets_item =
  im_id :: int
  im_path :: string
  im_cells :: dict

record 'm library =
  lb_cols :: "string list"
  lb_items :: "beets_item list"
  lb_media :: 'm

record 'm scrub_env =
  se_root :: string
  se_exists :: "string \<Rightarrow> bool"
  se_writable :: "string \<Rightarrow> bool"
  se_fault :: "int \<Rightarrow> bool"
  se_open :: "'m \<Rightarrow> string \<Rightarrow> dict res"
  se_save :: "'m \<Rightarrow> string \<Rightarrow> (string \<times> string option) list \<Rightarrow> 'm res"

record tally =
  ta_db :: nat
  ta_files :: nat
  ta_missing :: nat
  ta_noperm :: nat
  ta_err :: nat

definition DB_FIELDS :: "string list" where
  "DB_FIELDS = [''mb_workid'', ''mb_trackid'', ''mb_albumid'', ''mb_artistid'', ''mb_artistids'', ''mb_albumartistid'',
     ''mb_albumartistids'', ''mb_releasetrackid'', ''mb_releasegroupid'']"

definition FILE_FIELDS :: "string list" where
  "FILE_FIELDS = [''mb_trackid'', ''mb_releasetrackid'', ''mb_albumid'', ''mb_artistid'', ''mb_albumartistid'',
     ''mb_releasegroupid'', ''mb_workid'']"

definition corrections :: "string list \<Rightarrow> dict \<Rightarrow> (string \<times> string) list" where
  \<comment> \<open>the fields that change, with their new values\<close>
  "corrections cols cells = List.map_filter (\<lambda>f. map_option (Pair f) (fix_mbid (get cells f))) cols"

definition set_cells :: "(string \<times> string) list \<Rightarrow> dict \<Rightarrow> dict" where
  "set_cells changes cells = foldl (\<lambda>d (f, v). AList.update f (JStr v) d) cells changes"

definition update_item :: "int \<Rightarrow> (string \<times> string) list \<Rightarrow> beets_item list \<Rightarrow> beets_item list" where
  \<comment> \<open>\<open>UPDATE items SET ... WHERE id=?\<close>\<close>
  "update_item i changes = map (\<lambda>r. if im_id r = i then r\<lparr>im_cells := set_cells changes (im_cells r)\<rparr> else r)"

definition file_path :: "'m scrub_env \<Rightarrow> string \<Rightarrow> string" where
  "file_path env p = (if startswith p ''/'' \<and> se_exists env p then p else path_join (se_root env) p)"

definition blank :: "string \<Rightarrow> string option" where
  \<comment> \<open>\<open>nv or None\<close>\<close>
  "blank v = (if v = [] then None else Some v)"

definition scrub_file :: "'m scrub_env \<Rightarrow> string \<Rightarrow> 'm library \<Rightarrow> tally \<Rightarrow> 'm library \<times> tally" where
  "scrub_file env p lib t =
     (let ap = file_path env p in
      if \<not> se_exists env ap then (lib, t\<lparr>ta_missing := Suc (ta_missing t)\<rparr>)
      else if \<not> se_writable env ap then (lib, t\<lparr>ta_noperm := Suc (ta_noperm t)\<rparr>)
      else (case se_open env (lb_media lib) ap of
          Inl e \<Rightarrow> (lib, t\<lparr>ta_err := Suc (ta_err t)\<rparr>)
        | Inr tags \<Rightarrow>
            (let changes = corrections FILE_FIELDS tags in
             if changes = [] then (lib, t)
             else (case se_save env (lb_media lib) ap (map (\<lambda>(f, v). (f, blank v)) changes) of
                 Inl e \<Rightarrow> (lib, t\<lparr>ta_err := Suc (ta_err t)\<rparr>)
               | Inr m \<Rightarrow> (lib\<lparr>lb_media := m\<rparr>, t\<lparr>ta_files := Suc (ta_files t)\<rparr>)))))"

definition scrub_row :: "'m scrub_env \<Rightarrow> string list \<Rightarrow> beets_item \<Rightarrow> 'm library \<Rightarrow> tally \<Rightarrow> 'm library \<times> tally" where
  "scrub_row env cols r lib t =
     (let changes = corrections cols (im_cells r) in
      if changes = [] then (lib, t)
      else if se_fault env (im_id r) then (lib, t\<lparr>ta_err := Suc (ta_err t)\<rparr>)
      else scrub_file env (im_path r) (lib\<lparr>lb_items := update_item (im_id r) changes (lb_items lib)\<rparr>) (t\<lparr>ta_db := Suc (ta_db t)\<rparr>))"

fun scrub_rows :: "'m scrub_env \<Rightarrow> string list \<Rightarrow> beets_item list \<Rightarrow> 'm library \<Rightarrow> tally \<Rightarrow> 'm library \<times> tally" where
  "scrub_rows env cols [] lib t = (lib, t)"
| "scrub_rows env cols (r # rs) lib t =
     (case scrub_row env cols r lib t of (lib', t') \<Rightarrow> scrub_rows env cols rs lib' t')"

definition scrub :: "'m scrub_env \<Rightarrow> 'm library \<Rightarrow> 'm library \<times> tally" where
  "scrub env lib =
     scrub_rows env (filter (\<lambda>f. f \<in> set (lb_cols lib)) DB_FIELDS) (lb_items lib) lib
       \<lparr>ta_db = 0, ta_files = 0, ta_missing = 0, ta_noperm = 0, ta_err = 0\<rparr>"

definition scrub_main :: "bool \<Rightarrow> 'm scrub_env \<Rightarrow> 'm library \<Rightarrow> 'm library \<times> tally option" where
  \<comment> \<open>whether \<open>mediafile\<close> can be imported; a query without a field of ids fails. The job never fails.\<close>
  "scrub_main available env lib =
     (if \<not> available \<or> (\<forall>f \<in> set DB_FIELDS. f \<notin> set (lb_cols lib)) then (lib, None)
      else (case scrub env lib of (lib', t) \<Rightarrow> (lib', Some t)))"

section \<open>The values that are written\<close>

lemma shape_match:
  "matches (seqs (map Cls Ps @ [EndZ])) (p, s, c) \<noteq> [] \<longleftrightarrow>
     length Ps \<le> length s \<and> list_all2 (\<lambda>P x. P x) Ps (take (length Ps) s) \<and> drop (length Ps) s \<in> {[], [newline]}"
proof (induction Ps arbitrary: p s)
  case (Cons P Ps)
  have "seqs (map Cls (P # Ps) @ [EndZ]) = Cat (Cls P) (seqs (map Cls Ps @ [EndZ]))" by (cases Ps) simp_all
  with Cons show ?case by (cases s) auto
qed simp

definition shaped :: "(char \<Rightarrow> bool) \<Rightarrow> string \<Rightarrow> bool" where
  "shaped h s \<longleftrightarrow> list_all2 (\<lambda>b c. if b then h c else c = CHR ''-'') uuid_places s"

definition canonical :: "string \<Rightarrow> bool" where
  \<comment> \<open>a UUID in lower case\<close>
  "canonical s \<longleftrightarrow> shaped is_hex_lower s"

lemma shaped_map:
  assumes "shaped h s" "\<And>c. h c \<Longrightarrow> k (f c)" "f (CHR ''-'') = CHR ''-''"
  shows "shaped k (map f s)"
  using assms(1) unfolding shaped_def list_all2_map2
  by (rule list_all2_mono) (use assms(2,3) in \<open>auto split: if_splits\<close>)

lemma length_places: "length uuid_places = 36"
  by (simp add: uuid_places_def)

lemma uuid_iff:
  assumes "s = [] \<or> last s \<noteq> newline"
  shows "re_match uuid_re s \<noteq> None \<longleftrightarrow> shaped is_hex s"
proof -
  have *: "list_all2 (\<lambda>P x. P x) (uuid_shape is_hex) t \<longleftrightarrow> shaped is_hex t" for t
    unfolding shaped_def uuid_shape_def list_all2_map1 by (auto simp: list_all2_conv_all_nth)
  have len: "length (uuid_shape is_hex) = 36" by (simp add: uuid_shape_def length_places)
  have "re_match uuid_re s \<noteq> None \<longleftrightarrow>
      36 \<le> length s \<and> shaped is_hex (take 36 s) \<and> drop 36 s \<in> {[], [newline]}"
    using shape_match [of "uuid_shape is_hex" "[]" s "[]"]
    by (auto simp: uuid_re_def re_match_def first_match_def * len split: list.splits)
  also have "\<dots> \<longleftrightarrow> shaped is_hex s"
  proof -
    have "drop 36 s \<noteq> [newline]" using assms by (metis drop_eq_Nil last_drop last_ConsL list.distinct(1) linorder_not_le drop_Nil)
    moreover have "shaped is_hex s \<Longrightarrow> length s = 36" using length_places by (auto simp: shaped_def dest: list_all2_lengthD)
    ultimately show ?thesis by auto
  qed
  finally show ?thesis .
qed

lemma is_hex_to_lower: "is_hex c \<Longrightarrow> is_hex_lower (to_lower c)"
  by (auto simp: is_hex_def hex_val_def is_hex_lower_def is_digit_def to_lower_def Let_def split: if_splits)

lemma is_hex_lower_facts: "is_hex_lower c \<Longrightarrow> is_hex c" "is_hex_lower c \<Longrightarrow> to_lower c = c" "is_hex_lower c \<Longrightarrow> \<not> is_space c"
  by (auto simp: is_hex_lower_def is_hex_def hex_val_def is_digit_def to_lower_def is_space_def Let_def)

lemma shaped_chars: "shaped h s \<Longrightarrow> c \<in> set s \<Longrightarrow> h c \<or> c = CHR ''-''"
  by (auto simp: shaped_def list_all2_conv_all_nth in_set_conv_nth split: if_splits)

lemma dash_facts: "\<not> is_space (CHR ''-'')" "to_lower (CHR ''-'') = CHR ''-''"
  by (simp_all add: is_space_def to_lower_def code_point_def)

lemma canonical_facts:
  assumes "canonical s"
  shows "lower s = s" "strip s = s" "re_match uuid_re s \<noteq> None" "s \<noteq> []"
proof -
  have c: "to_lower c = c" "\<not> is_space c" if "c \<in> set s" for c
    using shaped_chars [of is_hex_lower s c] assms that is_hex_lower_facts dash_facts by (auto simp: canonical_def)
  show "lower s = s" using c(1) by (simp add: lower_def map_idI)
  show ne: "s \<noteq> []" using assms length_places by (auto simp: canonical_def shaped_def dest: list_all2_lengthD)
  show "strip s = s" using c(2) ne by (intro strip_no_space) auto
  have "last s \<noteq> newline" using c(2) [of newline] ne by (auto simp: is_space_def code_point_def dest: last_in_set)
  moreover have "shaped is_hex s"
    using shaped_map [of is_hex_lower s is_hex id] assms is_hex_lower_facts(1) by (simp add: canonical_def)
  ultimately show "re_match uuid_re s \<noteq> None" using uuid_iff by blast
qed

lemma last_strip: "strip s \<noteq> [] \<Longrightarrow> \<not> is_space (last (strip s))"
  using hd_dropWhile [of is_space "rev (lstrip s)"] by (auto simp: strip_def rstrip_def last_rev)

lemma fix_mbid_cases:
  assumes "fix_mbid v = Some w"
  shows "w = [] \<or> canonical w"
proof -
  let ?st = "strip (py_str v)"
  show ?thesis
  proof (cases "re_match uuid_re ?st = None")
    case False
    have "?st = [] \<or> last ?st \<noteq> newline"
      using last_strip [of "py_str v"] by (auto simp: is_space_def code_point_def)
    with False have "shaped is_hex ?st" using uuid_iff by blast
    then have "canonical (lower ?st)"
      unfolding canonical_def lower_def by (rule shaped_map) (simp_all add: is_hex_to_lower dash_facts)
    with False assms show ?thesis by (auto simp: fix_mbid_def Let_def split: if_splits)
  qed (use assms in \<open>auto simp: fix_mbid_def Let_def split: if_splits\<close>)
qed

lemma fix_again: "fix_mbid v = Some w \<Longrightarrow> fix_mbid (JStr w) = None"
  using fix_mbid_cases [of v w] canonical_facts [of w] by (auto simp: fix_mbid_def)

text \<open>
  Property C37. Every value the scrub writes is blank or a UUID in lower case, and a value which it has
  written it leaves alone.
\<close>

theorem fixed_values:
  assumes "fix_mbid v = Some w"
  shows "(w = [] \<or> canonical w) \<and> fix_mbid (JStr w) = None"
  using fix_mbid_cases [OF assms] fix_again [OF assms] by simp

theorem fixed_values_witness:
  "fix_mbid (JStr ''16327311-1'') = Some [] \<and> fix_mbid (JStr []) = None"
proof -
  have "fix_mbid (JStr ''16327311-1'') = Some []" by code_simp
  with fixed_values [OF this] show ?thesis by simp
qed

section \<open>A run over the database\<close>

lemma scrub_file_items [simp]:
  "lb_items (fst (scrub_file env p lib t)) = lb_items lib" "lb_cols (fst (scrub_file env p lib t)) = lb_cols lib"
  by (auto simp: scrub_file_def Let_def split: sum.split)

lemma update_item_Nil [simp]: "update_item i [] rs = rs"
  by (induction rs) (auto simp: update_item_def set_cells_def)

lemma scrub_row_items:
  "lb_items (fst (scrub_row env cols r lib t)) =
     (if se_fault env (im_id r) then lb_items lib else update_item (im_id r) (corrections cols (im_cells r)) (lb_items lib))"
  "lb_cols (fst (scrub_row env cols r lib t)) = lb_cols lib"
  by (auto simp: scrub_row_def Let_def)

definition scrubbed :: "'m scrub_env \<Rightarrow> string list \<Rightarrow> beets_item list \<Rightarrow> beets_item \<Rightarrow> beets_item" where
  \<comment> \<open>an item of the table after the rows which were read\<close>
  "scrubbed env cols rs x =
     (case find (\<lambda>r. im_id r = im_id x) rs of
        Some r \<Rightarrow> (if se_fault env (im_id r) then x else x\<lparr>im_cells := set_cells (corrections cols (im_cells r)) (im_cells x)\<rparr>)
      | None \<Rightarrow> x)"

lemma find_none_id: "im_id r \<notin> im_id ` set rs \<Longrightarrow> find (\<lambda>x. im_id x = im_id r) rs = None"
  by (force simp: find_None_iff image_iff)

lemma scrub_rows_items:
  "distinct (map im_id rs) \<Longrightarrow>
     lb_items (fst (scrub_rows env cols rs lib t)) = map (scrubbed env cols rs) (lb_items lib)
     \<and> lb_cols (fst (scrub_rows env cols rs lib t)) = lb_cols lib"
proof (induction rs arbitrary: lib t)
  case Nil
  show ?case by (simp add: scrubbed_def)
next
  case (Cons r rs)
  obtain lib' t' where row: "scrub_row env cols r lib t = (lib', t')" by fastforce
  have rest: "scrubbed env cols rs (x\<lparr>im_cells := c\<rparr>) = x\<lparr>im_cells := c\<rparr>" if "im_id x = im_id r" for x c
  proof -
    have "find (\<lambda>y. im_id y = im_id x) rs = None" using Cons.prems that by (intro find_none_id) simp
    then show ?thesis by (simp add: scrubbed_def)
  qed
  have "map (scrubbed env cols rs) (lb_items lib') = map (scrubbed env cols (r # rs)) (lb_items lib)"
  proof (cases "se_fault env (im_id r)")
    case True
    have "scrubbed env cols rs x = scrubbed env cols (r # rs) x" for x
      using True rest [of x "im_cells x"] by (cases "im_id x = im_id r") (auto simp: scrubbed_def)
    with True row scrub_row_items [of env cols r lib t] show ?thesis by simp
  next
    case False
    have "scrubbed env cols rs (if im_id x = im_id r then x\<lparr>im_cells := set_cells (corrections cols (im_cells r)) (im_cells x)\<rparr> else x)
        = scrubbed env cols (r # rs) x" for x
      using False rest [of x] by (auto simp: scrubbed_def)
    with False row scrub_row_items [of env cols r lib t] show ?thesis by (simp add: update_item_def comp_def)
  qed
  with Cons row scrub_row_items(2) [of env cols r lib t] show ?case by simp
qed

lemma get_update: "get (AList.update k v d) f = (if f = k then v else get d f)"
  by (simp add: get_def update_conv')

lemma get_set_cells:
  "get (set_cells (corrections cols cells) d) f =
     (if f \<in> set cols then (case fix_mbid (get cells f) of Some w \<Rightarrow> JStr w | None \<Rightarrow> get d f) else get d f)"
  by (induction cols arbitrary: d)
    (auto simp: corrections_def set_cells_def map_filter_simps get_update split: option.split)

lemma corrections_done: "corrections cols (set_cells (corrections cols cells) cells) = []"
proof -
  have "fix_mbid (get (set_cells (corrections cols cells) cells) f) = None" if "f \<in> set cols" for f
    using that fix_again [of "get cells f"] by (auto simp: get_set_cells split: option.split)
  then show ?thesis by (simp add: corrections_def map_filter_def filter_empty_conv)
qed

abbreviation no_tally :: tally where
  "no_tally \<equiv> \<lparr>ta_db = 0, ta_files = 0, ta_missing = 0, ta_noperm = 0, ta_err = 0\<rparr>"

lemma scrub_rows_idle:
  "(\<And>r. r \<in> set rs \<Longrightarrow> corrections cols (im_cells r) = []) \<Longrightarrow> scrub_rows env cols rs lib t = (lib, t)"
  by (induction rs) (simp_all add: scrub_row_def)

lemma scrub_items:
  assumes "distinct (map im_id (lb_items lib))" "\<And>r. r \<in> set (lb_items lib) \<Longrightarrow> \<not> se_fault env (im_id r)"
  shows "lb_items (fst (scrub env lib)) =
    map (\<lambda>r. r\<lparr>im_cells := set_cells (corrections (filter (\<lambda>f. f \<in> set (lb_cols lib)) DB_FIELDS) (im_cells r)) (im_cells r)\<rparr>) (lb_items lib)"
    "lb_cols (fst (scrub env lib)) = lb_cols lib"
proof -
  let ?cols = "filter (\<lambda>f. f \<in> set (lb_cols lib)) DB_FIELDS"
  have own: "find (\<lambda>r. im_id r = im_id x) (lb_items lib) = Some x" if "x \<in> set (lb_items lib)" for x
    using assms(1) that by (auto simp: find_Some_iff in_set_conv_nth distinct_conv_nth dest!: nat_neq_iff [THEN iffD1])
  have "scrubbed env ?cols (lb_items lib) x = x\<lparr>im_cells := set_cells (corrections ?cols (im_cells x)) (im_cells x)\<rparr>"
    if "x \<in> set (lb_items lib)" for x
    using own [OF that] assms(2) [OF that] by (simp add: scrubbed_def)
  with scrub_rows_items [OF assms(1), of env ?cols lib no_tally]
  show "lb_items (fst (scrub env lib)) = map (\<lambda>r. r\<lparr>im_cells := set_cells (corrections ?cols (im_cells r)) (im_cells r)\<rparr>) (lb_items lib)"
    "lb_cols (fst (scrub env lib)) = lb_cols lib" by (simp_all add: scrub_def)
qed

text \<open>
  Property C36. A second run finds nothing to do, whatever became of the files and their permissions in
  between: the ids of the library are distinct, and the database took the changes of the first run.
\<close>

theorem second_scrub_is_idle:
  assumes "distinct (map im_id (lb_items lib))" "\<And>r. r \<in> set (lb_items lib) \<Longrightarrow> \<not> se_fault env (im_id r)"
  shows "scrub env' (fst (scrub env lib)) = (fst (scrub env lib), no_tally)"
  unfolding scrub_def [of env']
  by (rule scrub_rows_idle) (auto simp: scrub_items [OF assms] corrections_done)

text \<open>A file that could not be written, and a library whose rows were read before.\<close>

definition bad_item :: beets_item where
  "bad_item = \<lparr>im_id = 1, im_path = ''a.flac'', im_cells = [(''mb_trackid'', JStr ''16327311-1'')]\<rparr>"

definition bad_library :: "dict library" where
  "bad_library = \<lparr>lb_cols = [''id'', ''path'', ''mb_trackid''], lb_items = [bad_item], lb_media = [(''mb_trackid'', JStr ''16327311-1'')]\<rparr>"

definition one_file :: "bool \<Rightarrow> dict scrub_env" where
  \<comment> \<open>one file, whose tags are the media, and whether it can be written\<close>
  "one_file w =
     \<lparr>se_root = ''/media'', se_exists = (\<lambda>p. p = ''/media/a.flac''), se_writable = (\<lambda>_. w), se_fault = (\<lambda>_. False),
      se_open = (\<lambda>m p. Inr m),
      se_save = (\<lambda>m p cs. Inr (foldl (\<lambda>d (f, v). case v of None \<Rightarrow> AList.delete f d | Some x \<Rightarrow> AList.update f (JStr x) d) m cs))\<rparr>"

lemma bad_run:
  "scrub (one_file False) bad_library
     = (bad_library\<lparr>lb_items := [bad_item\<lparr>im_cells := [(''mb_trackid'', JStr [])]\<rparr>]\<rparr>, no_tally\<lparr>ta_db := 1, ta_noperm := 1\<rparr>)"
  by code_simp

theorem second_scrub_is_idle_witness:
  "scrub (one_file True) (fst (scrub (one_file False) bad_library)) = (fst (scrub (one_file False) bad_library), no_tally)"
  by (rule second_scrub_is_idle) (simp_all add: bad_library_def one_file_def)

text \<open>
  So the tags of a file that could not be written in the first run keep the bad id for good: the later
  runs look at the files of those rows only whose ids in the database still need a correction.
\<close>

lemma missed_file_keeps_its_tags:
  "lb_media (fst (scrub (one_file True) (fst (scrub (one_file False) bad_library)))) = [(''mb_trackid'', JStr ''16327311-1'')]
     \<and> lb_media (fst (scrub (one_file True) bad_library)) = []"
proof -
  have "scrub (one_file True) (fst (scrub (one_file False) bad_library)) = (fst (scrub (one_file False) bad_library), no_tally)"
    unfolding bad_run by code_simp
  moreover have "lb_media (fst (scrub (one_file True) bad_library)) = []" by code_simp
  moreover have "lb_media (fst (scrub (one_file False) bad_library)) = [(''mb_trackid'', JStr ''16327311-1'')]"
    unfolding bad_run by (simp add: bad_library_def)
  ultimately show ?thesis by simp
qed

text \<open>A field with the ids of two artists is no UUID, and is blanked although both ids are valid.\<close>

lemma two_ids_are_blanked:
  assumes "canonical u" "canonical v"
  shows "fix_mbid (JStr (u @ sep @ v)) = Some []"
proof -
  have len: "length u = 36" "length v = 36"
    using assms length_places by (auto simp: canonical_def shaped_def dest: list_all2_lengthD)
  have "\<not> is_space c" if "c \<in> set u \<or> c \<in> set v" for c
    using that assms shaped_chars is_hex_lower_facts(3) dash_facts(1) unfolding canonical_def by blast
  then have ends: "\<not> is_space (hd u)" "\<not> is_space (last v)" using len by (auto intro: hd_in_set last_in_set simp flip: length_0_conv)
  have ne: "u \<noteq> []" "v \<noteq> []" using len by auto
  with ends have st: "strip (u @ sep @ v) = u @ sep @ v" by (intro strip_no_space) (simp add: hd_append)
  have "last (u @ sep @ v) \<noteq> newline" using ends(2) ne by (auto simp: is_space_def code_point_def)
  moreover have "\<not> shaped is_hex (u @ sep @ v)"
    using len length_places by (auto simp: shaped_def dest: list_all2_lengthD)
  ultimately have "re_match uuid_re (u @ sep @ v) = None" using uuid_iff [of "u @ sep @ v"] by blast
  with ne st show ?thesis by (simp add: fix_mbid_def)
qed

end
