(* ===== verification/MemorySync.thy ===== *)
theory MemorySync
  imports PyJson PySha PyPath PyRe
begin

text \<open>
  The ingest of \<open>memory-sync/ingest.py\<close>: notes of a vault become entities of the memory server, which is
  asked over JSON-RPC. The server is a parameter: a function of the session, the request and its own
  state. A run keeps the session, the id of the last request, and the log of the requests.
\<close>

section \<open>Requests\<close>

datatype mem_answer =
    Answered string "string option"
  | Unanswered exn

type_synonym 's memory = "string option \<Rightarrow> json \<Rightarrow> 's \<Rightarrow> mem_answer \<times> 's"

record 's ingest_run =
  ig_world :: 's
  ig_session :: "string option"
  ig_id :: nat
  ig_log :: "json list"

fun last_reply :: "json \<Rightarrow> string list \<Rightarrow> json" where
  \<comment> \<open>the last line that is an object with a result or an error\<close>
  "last_reply out [] = out"
| "last_reply out (raw # rest) =
     (let line0 = strip raw; line = (if startswith line0 ''data:'' then strip (drop 5 line0) else line0) in
      if line = [] then last_reply out rest
      else (case loads line of
          Some (JObj d) \<Rightarrow>
            last_reply (if map_of d ''result'' \<noteq> None \<or> map_of d ''error'' \<noteq> None then JObj d else out) rest
        | _ \<Rightarrow> last_reply out rest))"

definition mem_post :: "'s memory \<Rightarrow> json \<Rightarrow> (json, 's ingest_run) stm" where
  \<comment> \<open>\<open>_post\<close>; no reply is \<open>None\<close>\<close>
  "mem_post mem payload c =
     (let (a, w) = mem (case ig_session c of Some [] \<Rightarrow> None | s \<Rightarrow> s) payload (ig_world c);
          c1 = c\<lparr>ig_world := w, ig_log := ig_log c @ [payload]\<rparr>
      in case a of
           Unanswered e \<Rightarrow> (Inl e, c1)
         | Answered body sid \<Rightarrow>
             (Inr (last_reply JNull (splitlines body)),
              case sid of Some (x # xs) \<Rightarrow> c1\<lparr>ig_session := Some (x # xs)\<rparr> | _ \<Rightarrow> c1))"

definition call_message :: "nat \<Rightarrow> string \<Rightarrow> dict \<Rightarrow> json" where
  "call_message i tool args =
     JObj [(''jsonrpc'', JStr ''2.0''), (''id'', JInt (int i)), (''method'', JStr ''tools/call''),
       (''params'', JObj [(''name'', JStr tool), (''arguments'', JObj args)])]"

fun texts :: "json list \<Rightarrow> string res" where
  \<comment> \<open>the texts of the blocks of type \<open>text\<close>, joined\<close>
  "texts [] = Inr []"
| "texts (b # bs) =
     rbind (field b ''type'' JNull) (\<lambda>t.
       if t \<noteq> JStr ''text'' then texts bs
       else rbind (field b ''text'' (JStr [])) (\<lambda>x. rbind (texts bs) (\<lambda>rest.
              case x of
                JStr s \<Rightarrow> Inr (s @ rest)
              | _ \<Rightarrow> Inl (TypeError (''sequence item: expected str instance, '' @ type_name x @ '' found'')))))"

definition call_result :: "json \<Rightarrow> (bool \<times> json) res" where
  "call_result r =
     (if \<not> truthy r then Inr (False, JStr ''no response'')
      else rbind (as_dict r) (\<lambda>d. case map_of d ''error'' of
          Some e \<Rightarrow> Inr (False, e)
        | None \<Rightarrow> rbind (field (get_or d ''result'' (JObj [])) ''content'' (JList [])) (\<lambda>bs.
            rbind (iterate bs) (\<lambda>blocks. rbind (texts blocks) (\<lambda>t. Inr (True, JStr t))))))"

definition mem_call :: "'s memory \<Rightarrow> string \<Rightarrow> dict \<Rightarrow> (bool \<times> json, 's ingest_run) stm" where
  "mem_call mem tool args c =
     (let c1 = c\<lparr>ig_id := Suc (ig_id c)\<rparr> in
      mbind (mem_post mem (call_message (ig_id c1) tool args)) (\<lambda>r. mlift (call_result r)) c1)"

definition initialize :: "'s memory \<Rightarrow> (unit, 's ingest_run) stm" where
  "initialize mem c =
     (let c1 = c\<lparr>ig_id := Suc (ig_id c)\<rparr> in
      mbind (mem_post mem (JObj [(''jsonrpc'', JStr ''2.0''), (''id'', JInt (int (ig_id c1))), (''method'', JStr ''initialize''),
         (''params'', JObj [(''protocolVersion'', JStr ''2025-06-18''), (''capabilities'', JObj []),
            (''clientInfo'', JObj [(''name'', JStr ''memory-sync''), (''version'', JStr ''1'')])])])) (\<lambda>_.
      mbind (mem_post mem (JObj [(''jsonrpc'', JStr ''2.0''), (''method'', JStr ''notifications/initialized'')])) (\<lambda>_.
        mlift (Inr ()))) c1)"

section \<open>Notes\<close>

definition front_matter_re :: re where
  "front_matter_re = seqs [Str (''---'' @ [newline]), Grp 1 (LazyStar Any), Str ([newline] @ ''---''), Opt (Chr newline),
     Grp 2 (Star Any), EndZ]"

definition type_re :: re where
  "type_re = seqs [Star Space, Str ''type:'', Star Space,
     Grp 1 (alts [Str ''user'', Str ''feedback'', Str ''project'', Str ''reference'']), WordB]"

definition after_colon :: "string \<Rightarrow> string" where
  \<comment> \<open>\<open>line.split(":", 1)[1].strip()\<close>\<close>
  "after_colon line = strip (drop (Suc (length (before (CHR '':'') line))) line)"

fun read_lines :: "string \<times> string \<times> string \<Rightarrow> string list \<Rightarrow> string \<times> string \<times> string" where
  \<comment> \<open>name, type and description from the lines of the front matter\<close>
  "read_lines x [] = x"
| "read_lines (name, ntype, desc) (line # rest) =
     read_lines
       (if startswith line ''name:'' then ((if after_colon line = [] then name else after_colon line), ntype, desc)
        else if startswith line ''description:'' then (name, ntype, after_colon line)
        else (case re_match type_re line of Some m \<Rightarrow> (name, group 1 m, desc) | None \<Rightarrow> (name, ntype, desc))) rest"

definition base_name :: "string \<Rightarrow> string" where
  "base_name p = last (split_on (CHR ''/'') p)"

definition stem :: "string \<Rightarrow> string" where
  \<comment> \<open>\<open>os.path.splitext(f)[0]\<close> of a file name\<close>
  "stem f = take (length f - length (extension f)) f"

record memo =
  nt_name :: string
  nt_type :: string
  nt_desc :: string
  nt_body :: string

definition parse_note :: "string \<Rightarrow> string \<Rightarrow> memo" where
  \<comment> \<open>of a path and the text of the file\<close>
  "parse_note path raw =
     (let s = universal_newlines raw;
          (front, body) = (case re_match front_matter_re s of Some m \<Rightarrow> (splitlines (group 1 m), group 2 m) | None \<Rightarrow> ([], s));
          (name, ntype, desc) = read_lines (stem (base_name path), ''memory-note'', []) front
      in \<lparr>nt_name = name, nt_type = ntype, nt_desc = desc, nt_body = strip body\<rparr>)"

definition note_hash :: "memo \<Rightarrow> string" where
  "note_hash n = take 16 (sha256_hex (encode (nt_body n)))"

definition hash_re :: re where
  "hash_re = seqs [Str ([quote] @ ''hash'' @ [quote]), Star Space, Chr (CHR '':''), Star Space, Chr quote,
     Grp 1 (Plus (Cls is_hex_lower)), Chr quote]"

definition existing_hash :: "'s memory \<Rightarrow> string \<Rightarrow> (string option, 's ingest_run) stm" where
  "existing_hash mem name =
     mbind (mem_call mem ''get_entity'' [(''name'', JStr name)]) (\<lambda>(ok, payload).
       mlift (Inr (case payload of
           JStr s \<Rightarrow> if ok then map_option (\<lambda>(_, m). group 1 m) (re_search hash_re s) else None
         | _ \<Rightarrow> None)))"

section \<open>The run\<close>

definition vault_source :: "string \<Rightarrow> string \<Rightarrow> memo \<Rightarrow> json" where
  "vault_source vault path n =
     JObj [(''agent'', JStr ''memory-sync''), (''context'', JStr (relpath (path_of path) (path_of vault))),
       (''hash'', JStr (note_hash n))]"

definition note_content :: "memo \<Rightarrow> string" where
  "note_content n =
     take 8000 ((if nt_desc n = [] then [] else nt_desc n @ [newline, newline]) @ nt_body n)"

datatype note_end = Blank | Unchanged | Created | Updated | Failed

definition sync_note :: "'s memory \<Rightarrow> string \<Rightarrow> string \<Rightarrow> memo \<Rightarrow> (note_end, 's ingest_run) stm" where
  "sync_note mem vault path n =
     (let source = (''source'', vault_source vault path n); name = JStr (nt_name n); content = JStr (note_content n) in
      if nt_body n = [] then mlift (Inr Blank)
      else mbind (existing_hash mem (nt_name n)) (\<lambda>prior.
        if prior = Some (note_hash n) then mlift (Inr Unchanged)
        else mbind (mem_call mem ''create_entity'' [(''name'', name), (''type'', JStr (nt_type n)), (''namespace'', JStr ''home-ops''),
                 (''observations'', JList [content]), source]) (\<lambda>(ok, _).
          if ok then mlift (Inr Created)
          else mbind (mem_call mem ''update_entity'' [(''name'', name), (''type'', JStr (nt_type n)),
                   (''namespace'', JStr ''home-ops''), source]) (\<lambda>(uok, _).
               mbind (mem_call mem ''add_observation'' [(''entity_name'', name), (''content'', content), source]) (\<lambda>(aok, _).
                 mlift (Inr (if uok \<and> aok then Updated else Failed)))))))"

fun sync_notes :: "'s memory \<Rightarrow> string \<Rightarrow> (string \<times> string) list \<Rightarrow> (note_end list, 's ingest_run) stm" where
  "sync_notes mem vault [] = mlift (Inr [])"
| "sync_notes mem vault ((path, raw) # fs) =
     mbind (sync_note mem vault path (parse_note path raw)) (\<lambda>x. mbind (sync_notes mem vault fs) (\<lambda>xs. mlift (Inr (x # xs))))"

definition note_files :: "(string \<times> string) list \<Rightarrow> (string \<times> string) list" where
  \<comment> \<open>of the files which the pattern names, with their texts\<close>
  "note_files fs = filter (\<lambda>(f, _). base_name f \<noteq> ''MEMORY.md'' \<and> \<not> contains f ''/topics/'') (sort_key fst fs)"

definition sync_status :: "note_end list \<Rightarrow> int" where
  "sync_status xs = (if Failed \<in> set xs \<and> Created \<notin> set xs \<and> Updated \<notin> set xs then 1 else 0)"

definition memory_sync :: "'s memory \<Rightarrow> string \<Rightarrow> (string \<times> string) list \<Rightarrow> (note_end list \<times> int, 's ingest_run) stm" where
  \<comment> \<open>the outcome of each note, and the exit status\<close>
  "memory_sync mem vault files =
     mbind (initialize mem) (\<lambda>_.
       if note_files files = [] then mlift (Inr ([], 1))
       else mbind (sync_notes mem vault (note_files files)) (\<lambda>xs. mlift (Inr (xs, sync_status xs))))"

section \<open>The ids of the requests\<close>

fun message_id :: "json \<Rightarrow> int option" where
  "message_id (JObj d) = (case get d ''id'' of JInt i \<Rightarrow> Some i | _ \<Rightarrow> None)"
| "message_id _ = None"

abbreviation message_ids :: "json list \<Rightarrow> int list" where
  "message_ids \<equiv> List.map_filter message_id"

definition numbers :: "('a, 's ingest_run) stm \<Rightarrow> bool" where
  \<comment> \<open>the requests take the next ids, one after the other\<close>
  "numbers m \<longleftrightarrow>
     (\<forall>c. ig_id c \<le> ig_id (snd (m c)) \<and> (\<exists>new. ig_log (snd (m c)) = ig_log c @ new
        \<and> message_ids new = map int [Suc (ig_id c) ..< Suc (ig_id (snd (m c)))]))"

lemma numbers_lift: "numbers (mlift r)" "numbers (Pair r)"
  by (simp_all add: numbers_def map_filter_simps)

lemma numbers_bind:
  assumes "numbers m" "\<And>a. numbers (f a)"
  shows "numbers (mbind m f)"
  unfolding numbers_def
proof
  fix c
  obtain r c1 where m: "m c = (r, c1)" by fastforce
  from assms(1) m obtain x where x: "ig_id c \<le> ig_id c1" "ig_log c1 = ig_log c @ x"
      "message_ids x = map int [Suc (ig_id c) ..< Suc (ig_id c1)]"
    unfolding numbers_def by (metis snd_conv)
  show "ig_id c \<le> ig_id (snd (mbind m f c)) \<and> (\<exists>new. ig_log (snd (mbind m f c)) = ig_log c @ new
      \<and> message_ids new = map int [Suc (ig_id c) ..< Suc (ig_id (snd (mbind m f c)))])"
  proof (cases r)
    case (Inr a)
    from assms(2) [of a] obtain y where y: "ig_id c1 \<le> ig_id (snd (f a c1))" "ig_log (snd (f a c1)) = ig_log c1 @ y"
        "message_ids y = map int [Suc (ig_id c1) ..< Suc (ig_id (snd (f a c1)))]"
      unfolding numbers_def by blast
    have "[Suc (ig_id c) ..< Suc (ig_id (snd (f a c1)))] = [Suc (ig_id c) ..< Suc (ig_id c1)] @ [Suc (ig_id c1) ..< Suc (ig_id (snd (f a c1)))]"
      using x(1) y(1) upt_add_eq_append [of "Suc (ig_id c)" "Suc (ig_id c1)" "ig_id (snd (f a c1)) - ig_id c1"] by (simp del: upt_Suc)
    then have "message_ids (x @ y) = map int [Suc (ig_id c) ..< Suc (ig_id (snd (f a c1)))]"
      using x(3) y(3) by (simp add: map_filter_def del: upt_Suc)
    with m Inr x y show ?thesis by (auto simp: mbind_def intro!: exI [of _ "x @ y"] simp del: upt_Suc)
  qed (use m x in \<open>auto simp: mbind_def simp del: upt_Suc\<close>)
qed

lemma mem_post_log:
  "ig_log (snd (mem_post mem p c)) = ig_log c @ [p]" "ig_id (snd (mem_post mem p c)) = ig_id c"
  by (auto simp: mem_post_def Let_def split: prod.split mem_answer.split option.split list.split)

lemma numbers_next:
  assumes "message_id (p (Suc (ig_id c))) = Some (int (Suc (ig_id c)))"
    "snd (m c) = snd (mem_post mem (p (Suc (ig_id c))) (c\<lparr>ig_id := Suc (ig_id c)\<rparr>))"
  shows "ig_id c \<le> ig_id (snd (m c)) \<and> (\<exists>new. ig_log (snd (m c)) = ig_log c @ new
     \<and> message_ids new = map int [Suc (ig_id c) ..< Suc (ig_id (snd (m c)))])"
  using assms by (simp add: mem_post_log map_filter_simps)

lemma numbers_call: "numbers (mem_call mem tool args)"
  unfolding numbers_def
  by (intro allI numbers_next [where p = "\<lambda>i. call_message i tool args"])
    (simp_all add: call_message_def mem_call_def Let_def snd_mbind_mlift)

lemma numbers_initialize: "numbers (initialize mem)"
proof -
  let ?p = "\<lambda>i. JObj [(''jsonrpc'', JStr ''2.0''), (''id'', JInt (int i)), (''method'', JStr ''initialize''),
    (''params'', JObj [(''protocolVersion'', JStr ''2025-06-18''), (''capabilities'', JObj []),
       (''clientInfo'', JObj [(''name'', JStr ''memory-sync''), (''version'', JStr ''1'')])])]"
  let ?q = "JObj [(''jsonrpc'', JStr ''2.0''), (''method'', JStr ''notifications/initialized'')]"
  let ?m = "\<lambda>c. mem_post mem (?p (Suc (ig_id c))) (c\<lparr>ig_id := Suc (ig_id c)\<rparr>)"
  have "numbers ?m" unfolding numbers_def
    by (intro allI numbers_next [where p = ?p]) simp_all
  moreover have "numbers (mem_post mem ?q)"
    by (simp add: numbers_def mem_post_log map_filter_simps)
  ultimately have "numbers (mbind ?m (\<lambda>_. mbind (mem_post mem ?q) (\<lambda>_. mlift (Inr ()))))"
    by (intro numbers_bind numbers_lift)
  moreover have "initialize mem = mbind ?m (\<lambda>_. mbind (mem_post mem ?q) (\<lambda>_. mlift (Inr ())))"
    by (rule ext) (simp only: initialize_def Let_def mbind_def [of ?m], simp add: mbind_def)
  ultimately show ?thesis by simp
qed

lemma numbers_sync_note: "numbers (sync_note mem vault path n)"
  by (auto simp: sync_note_def existing_hash_def Let_def intro!: numbers_bind numbers_call numbers_lift split: prod.split)

lemma numbers_sync_notes: "numbers (sync_notes mem vault fs)"
  by (induction mem vault fs rule: sync_notes.induct) (auto intro!: numbers_bind numbers_sync_note numbers_lift)

definition ingest_start :: "'s \<Rightarrow> 's ingest_run" where
  "ingest_start w = \<lparr>ig_world = w, ig_session = None, ig_id = 0, ig_log = []\<rparr>"

text \<open>
  Property C40. The requests of a run carry the ids 1, 2, 3 and so on without a gap or a repetition,
  whatever the server answers and where the run stops.
\<close>

theorem ids_count_up:
  "\<exists>n. message_ids (ig_log (snd (memory_sync mem vault files (ingest_start w)))) = map int [1..<Suc n]"
proof -
  have "numbers (memory_sync mem vault files)"
    unfolding memory_sync_def by (auto intro!: numbers_bind numbers_initialize numbers_sync_notes numbers_lift)
  then show ?thesis unfolding numbers_def ingest_start_def
    by (metis (no_types, lifting) One_nat_def append_Nil ingest_run.select_convs(3) ingest_run.select_convs(4))
qed

section \<open>A vault that was synchronised\<close>

definition hash_in :: "mem_answer \<Rightarrow> string option" where
  \<comment> \<open>the hash that an answer to \<open>get_entity\<close> carries\<close>
  "hash_in a =
     (case a of
        Unanswered e \<Rightarrow> None
      | Answered body sid \<Rightarrow>
          (case call_result (last_reply JNull (splitlines body)) of
             Inr (True, JStr s) \<Rightarrow> map_option (\<lambda>(_, m). group 1 m) (re_search hash_re s)
           | _ \<Rightarrow> None))"

abbreviation asks_entity :: "nat \<Rightarrow> string \<Rightarrow> json" where
  "asks_entity i name \<equiv> call_message i ''get_entity'' [(''name'', JStr name)]"

definition only_asks :: "json list \<Rightarrow> bool" where
  "only_asks = list_all (\<lambda>m. \<exists>i name. m = asks_entity i name)"

lemma existing_hash_known:
  assumes "\<And>sid i w. hash_in (fst (mem sid (asks_entity i name) w)) = Some h"
  obtains c' where "existing_hash mem name c = (Inr (Some h), c')"
    "ig_log c' = ig_log c @ [asks_entity (Suc (ig_id c)) name]"
proof -
  let ?p = "asks_entity (Suc (ig_id c)) name" and ?sid = "case ig_session c of Some [] \<Rightarrow> None | s \<Rightarrow> s"
  obtain a w where a: "mem ?sid ?p (ig_world c) = (a, w)" by fastforce
  with assms [of ?sid "Suc (ig_id c)" "ig_world c"] obtain body sid t where
    b: "a = Answered body sid" "call_result (last_reply JNull (splitlines body)) = Inr (True, JStr t)"
      "map_option (\<lambda>(_, m). group 1 m) (re_search hash_re t) = Some h"
    by (auto simp: hash_in_def split: mem_answer.splits sum.splits prod.splits bool.splits json.splits)
  let ?m = "mem_post mem ?p (c\<lparr>ig_id := Suc (ig_id c)\<rparr>)"
  have r: "fst ?m = Inr (last_reply JNull (splitlines body))"
    using a b(1) by (simp add: mem_post_def Let_def)
  then obtain c' where m: "?m = (Inr (last_reply JNull (splitlines body)), c')" by (metis prod.collapse)
  have "existing_hash mem name c = (Inr (Some h), c')"
    using m b by (simp add: existing_hash_def mem_call_def mbind_def Let_def)
  moreover have "ig_log c' = ig_log c @ [?p]"
    using mem_post_log(1) [of mem ?p "c\<lparr>ig_id := Suc (ig_id c)\<rparr>"] m by simp
  ultimately show thesis by (rule that)
qed

definition synchronised :: "'s memory \<Rightarrow> memo \<Rightarrow> bool" where
  \<comment> \<open>the server knows the hash of the note, whenever it is asked\<close>
  "synchronised mem n \<longleftrightarrow>
     nt_body n = [] \<or> (\<forall>sid i w. hash_in (fst (mem sid (asks_entity i (nt_name n)) w)) = Some (note_hash n))"

lemma sync_note_known:
  assumes "synchronised mem n"
  obtains x c' where "sync_note mem vault path n c = (Inr x, c')" "x \<in> {Blank, Unchanged}"
    "\<exists>new. ig_log c' = ig_log c @ new \<and> only_asks new"
proof (cases "nt_body n = []")
  case True
  then show thesis by (intro that [of Blank c]) (simp_all add: sync_note_def only_asks_def)
next
  case False
  with assms have known: "hash_in (fst (mem sid (asks_entity i (nt_name n)) w)) = Some (note_hash n)" for sid i w
    by (simp add: synchronised_def)
  obtain c' where c': "existing_hash mem (nt_name n) c = (Inr (Some (note_hash n)), c')"
    "ig_log c' = ig_log c @ [asks_entity (Suc (ig_id c)) (nt_name n)]"
    by (rule existing_hash_known [of mem "nt_name n" "note_hash n" c, OF known])
  with False have "sync_note mem vault path n c = (Inr Unchanged, c')" by (simp add: sync_note_def mbind_def Let_def)
  with c'(2) show thesis by (intro that [of Unchanged c']) (auto simp: only_asks_def)
qed

lemma sync_notes_known:
  "(\<And>path raw. (path, raw) \<in> set fs \<Longrightarrow> synchronised mem (parse_note path raw)) \<Longrightarrow>
     \<exists>xs c'. sync_notes mem vault fs c = (Inr xs, c') \<and> set xs \<subseteq> {Blank, Unchanged} \<and> (\<exists>new. ig_log c' = ig_log c @ new \<and> only_asks new)"
proof (induction fs arbitrary: c)
  case (Cons f fs)
  obtain path raw where f: "f = (path, raw)" by (cases f)
  have known: "synchronised mem (parse_note path raw)" using Cons.prems f by simp
  obtain x c1 where x: "sync_note mem vault path (parse_note path raw) c = (Inr x, c1)" "x \<in> {Blank, Unchanged}"
      "\<exists>new. ig_log c1 = ig_log c @ new \<and> only_asks new"
    by (rule sync_note_known [OF known])
  obtain xs c' new' where "sync_notes mem vault fs c1 = (Inr xs, c')" "set xs \<subseteq> {Blank, Unchanged}"
      "ig_log c' = ig_log c1 @ new'" "only_asks new'"
    using Cons.IH [of c1] Cons.prems by (metis list.set_intros(2))
  with f x show ?case by (auto simp: mbind_def only_asks_def)
qed (simp add: only_asks_def)

text \<open>
  Property C39. If the server knows the hash of every note, a run only asks for the entities: the
  requests after the two of the initialisation write nothing, no note counts as changed, and the run
  succeeds.
\<close>

theorem known_notes_are_skipped:
  assumes "\<And>path raw. (path, raw) \<in> set files \<Longrightarrow> synchronised mem (parse_note path raw)"
    "initialize mem (ingest_start w) = (Inr (), c)" "note_files files \<noteq> []"
  shows "\<exists>xs c' new. memory_sync mem vault files (ingest_start w) = (Inr (xs, 0), c')
     \<and> set xs \<subseteq> {Blank, Unchanged} \<and> ig_log c' = ig_log c @ new \<and> only_asks new"
proof -
  have "(path, raw) \<in> set (note_files files) \<Longrightarrow> synchronised mem (parse_note path raw)" for path raw
    using assms(1) by (auto simp: note_files_def)
  then obtain xs c' new where "sync_notes mem vault (note_files files) c = (Inr xs, c')" "set xs \<subseteq> {Blank, Unchanged}"
      "ig_log c' = ig_log c @ new" "only_asks new"
    using sync_notes_known [of "note_files files" mem vault c] by blast
  moreover from this(2) have "sync_status xs = 0" by (auto simp: sync_status_def)
  ultimately show ?thesis using assms(2,3) by (simp add: memory_sync_def mbind_def)
qed

text \<open>The witness: one note, and a server that always answers with its hash.\<close>

definition hash_body :: string where
  "hash_body = dumps (JObj [(''result'', JObj [(''content'', JList [JObj [(''type'', JStr ''text''),
     (''text'', JStr ([quote] @ ''hash'' @ [quote] @ '': '' @ [quote] @ ''ba7816bf8f01cfea'' @ [quote]))]])])])"

definition hash_memory :: "unit memory" where
  "hash_memory sid p w = (Answered hash_body None, w)"

lemma hash_in_body: "hash_in (Answered hash_body None) = Some ''ba7816bf8f01cfea''"
  by code_simp

lemma abc_note: "parse_note ''/v/a.md'' ''abc'' = \<lparr>nt_name = ''a'', nt_type = ''memory-note'', nt_desc = [], nt_body = ''abc''\<rparr>"
  by code_simp

theorem known_notes_are_skipped_witness:
  "\<exists>xs c'. memory_sync hash_memory ''/v'' [(''/v/a.md'', ''abc'')] (ingest_start ()) = (Inr (xs, 0), c') \<and> set xs \<subseteq> {Blank, Unchanged}"
proof -
  have "note_hash (parse_note ''/v/a.md'' ''abc'') = ''ba7816bf8f01cfea''"
    unfolding abc_note note_hash_def memo.select_convs sha256_hex_def sha256_abc
    by (simp add: hex_word_def hex_digit_def char_of_eq_iff)
  then have "synchronised hash_memory (parse_note path raw)" if "(path, raw) \<in> set [(''/v/a.md'', ''abc'')]" for path raw
    using that by (simp add: synchronised_def hash_memory_def hash_in_body)
  moreover obtain c where "initialize hash_memory (ingest_start ()) = (Inr (), c)"
    by (simp add: initialize_def mem_post_def hash_memory_def mbind_def ingest_start_def)
  moreover have "note_files [(''/v/a.md'', ''abc'')] \<noteq> []" by code_simp
  ultimately show ?thesis
    using known_notes_are_skipped [of "[(''/v/a.md'', ''abc'')]" hash_memory "()" c "''/v''"] by blast
qed

section \<open>A tool that fails\<close>

text \<open>
  A server of the protocol reports the failure of a tool as a result with \<open>isError\<close>. The ingest takes any
  result for a success: a note whose entity exists counts as created, and is never updated.
\<close>

definition refusal :: string where
  "refusal = dumps (JObj [(''result'', JObj [(''content'', JList [JObj [(''type'', JStr ''text''), (''text'', JStr ''exists'')]]),
     (''isError'', JBool True)])])"

definition refusing_memory :: "unit memory" where
  "refusing_memory sid p w = (Answered refusal None, w)"

lemma refusal_read: "call_result (last_reply JNull (splitlines refusal)) = Inr (True, JStr ''exists'')"
  by code_simp

lemma refused_note_counts_as_created:
  assumes "nt_body n \<noteq> []"
  shows "fst (sync_note refusing_memory vault path n c) = Inr Created"
proof -
  have none: "re_search hash_re ''exists'' = None" by code_simp
  have "fst (mem_call refusing_memory tool args c) = Inr (True, JStr ''exists'')" for tool args c
    by (simp add: mem_call_def mem_post_def refusing_memory_def mbind_def refusal_read Let_def)
  then have call: "mem_call refusing_memory tool args c = (Inr (True, JStr ''exists''), snd (mem_call refusing_memory tool args c))" for tool args c
    by (metis prod.collapse)
  obtain c1 where "mem_call refusing_memory ''get_entity'' [(''name'', JStr (nt_name n))] c = (Inr (True, JStr ''exists''), c1)"
    using call by blast
  then have "existing_hash refusing_memory (nt_name n) c = (Inr None, c1)" by (simp add: existing_hash_def mbind_def none)
  moreover obtain c2 where "mem_call refusing_memory ''create_entity'' [(''name'', JStr (nt_name n)), (''type'', JStr (nt_type n)),
      (''namespace'', JStr ''home-ops''), (''observations'', JList [JStr (note_content n)]), (''source'', vault_source vault path n)] c1
      = (Inr (True, JStr ''exists''), c2)"
    using call by blast
  ultimately show ?thesis using assms by (simp add: sync_note_def mbind_def Let_def)
qed

end
