(* ===== verification/Misfile.thy ===== *)
theory Misfile
  imports RickTags PyJson PyFloat
begin

text \<open>
  The audit of \<open>beets-misfile-audit/misfile-audit.py\<close>: two passes over the music library that report
  single tracks whose fingerprint, and albums whose album artist, does not belong to the folder, and the
  one report that follows. The names and the compilations are tested as in the library server, whose
  functions the script repeats. Parameters are the walk over the library, the times of its files, the
  fingerprint service \<open>acoustid\<close>, the library \<open>mutagen\<close> and the service that takes a post.
\<close>

section \<open>Settings and the library\<close>

text \<open>
  A result of the fingerprint service: score, recording, title and artist. A score is the number that the
  double stands for. Times are in microseconds.
\<close>

type_synonym fingerprint = "rat option \<times> string \<times> json \<times> json"

record audit =
  au_root :: string
  au_lookback :: int
  au_min_score :: pyfloat
  au_album_lookback :: int
  au_notify_url :: string
  au_agent :: string
  au_remediate :: bool
  au_agent_url :: string

record shelves =
  sv_walk :: "path list"
  sv_list :: "path \<Rightarrow> string list res"
  sv_is_file :: "path \<Rightarrow> bool"
  sv_mtime :: "path \<Rightarrow> int res"
  sv_match :: "path \<Rightarrow> fingerprint list res"
  sv_easy :: "path \<Rightarrow> dict option res"
  sv_raw :: "path \<Rightarrow> (string \<times> tag_value) list option res"

definition audit_settings :: "(string \<Rightarrow> string option) \<Rightarrow> audit res" where
  "audit_settings var =
     (let or_default = (\<lambda>k d. case var k of Some v \<Rightarrow> v | None \<Rightarrow> d);
          as_int = (\<lambda>s. case parse_int s of Some i \<Rightarrow> Inr i
                        | None \<Rightarrow> Inl (ValueError (''invalid literal for int() with base 10: '' @ repr_str s))) in
      rbind (as_int (or_default ''LOOKBACK_DAYS'' ''8'')) (\<lambda>days.
      rbind (case parse_float (or_default ''MIN_SCORE'' ''0.90'') of
          Some x \<Rightarrow> Inr x | None \<Rightarrow> Inl (ValueError ''could not convert string to float'')) (\<lambda>score.
      rbind (as_int (or_default ''ALBUM_LOOKBACK_DAYS'' ''0'')) (\<lambda>album_days.
        Inr \<lparr>au_root = or_default ''MEDIA_ROOT'' ''/media'', au_lookback = days, au_min_score = score, au_album_lookback = album_days,
             au_notify_url = or_default ''NOTIFY_URL'' ''http://notify-mcp.mcp-system.svc.cluster.local:8060/send'',
             au_agent = or_default ''AGENT_NAME'' ''rick'',
             au_remediate = (lower (or_default ''REMEDIATE'' ''true'') \<in> {''1'', ''true'', ''yes''}),
             au_agent_url = or_default ''REMEDIATE_AGENT_URL'' ''http://rick.ai.svc.cluster.local:8080/''\<rparr>))))"

definition audio_ending :: "string \<Rightarrow> bool" where
  "audio_ending f \<longleftrightarrow> lower (extension f) \<in> {''.flac'', ''.mp3'', ''.m4a'', ''.opus'', ''.ogg'', ''.wav'', ''.aac''}"

definition tracks_in :: "shelves \<Rightarrow> path \<Rightarrow> string list" where
  \<comment> \<open>\<open>audio_files\<close>\<close>
  "tracks_in sv d =
     (case sv_list sv d of Inl _ \<Rightarrow> [] | Inr fs \<Rightarrow> filter (\<lambda>f. audio_ending f \<and> sv_is_file sv (d @ [f])) fs)"

section \<open>The album artist of a track\<close>

fun head_value :: "json \<Rightarrow> json res" where
  \<comment> \<open>\<open>v[0]\<close>\<close>
  "head_value (JList (x # xs)) = Inr x"
| "head_value (JList []) = Inl (OSError ''list index out of range'')"
| "head_value (JStr (c # cs)) = Inr (JStr [c])"
| "head_value j = Inl (TypeError ''object is not subscriptable'')"

definition easy_album_artist :: "dict option res \<Rightarrow> string option" where
  \<comment> \<open>an error leaves the tags to the second block\<close>
  "easy_album_artist r =
     (case r of
        Inr (Some d) \<Rightarrow>
          (if truthy (get d ''albumartist'')
           then (case head_value (get d ''albumartist'') of Inr x \<Rightarrow> Some (py_str x) | Inl _ \<Rightarrow> None)
           else None)
      | _ \<Rightarrow> None)"

fun tag_text :: "tag_value \<Rightarrow> string option res" where
  \<comment> \<open>the first of a list, nothing for a false value; a frame is an object, and true\<close>
  "tag_text (Plain (JList [])) = Inl (OSError ''list index out of range'')"
| "tag_text (Plain (JList (x # xs))) = Inr (if truthy x then Some (py_str x) else None)"
| "tag_text (Plain j) = Inr (if truthy j then Some (py_str j) else None)"
| "tag_text (Frame t s) = Inr (Some s)"

fun candidate :: "(string \<times> tag_value) list \<Rightarrow> string list \<Rightarrow> string option res" where
  "candidate ts [] = Inr None"
| "candidate ts (c # cs) =
     (case map_of (rev (map (\<lambda>(k, v). (lower k, v)) ts)) c of
        None \<Rightarrow> candidate ts cs
      | Some v \<Rightarrow> rbind (tag_text v) (\<lambda>x. case x of Some s \<Rightarrow> Inr (Some s) | None \<Rightarrow> candidate ts cs))"

definition band_frame :: "(string \<times> tag_value) list \<Rightarrow> string option" where
  \<comment> \<open>the frame \<open>TPE2\<close>: the first of its texts, or its own text\<close>
  "band_frame ts =
     (case map_of ts ''TPE2'' of
        None \<Rightarrow> None
      | Some (Plain j) \<Rightarrow> Some (py_str j)
      | Some (Frame t s) \<Rightarrow>
          if truthy t then (case head_value t of Inr x \<Rightarrow> Some (py_str x) | Inl _ \<Rightarrow> None) else Some s)"

definition raw_album_artist :: "(string \<times> tag_value) list option res \<Rightarrow> string option" where
  "raw_album_artist r =
     (case r of
        Inr (Some ts) \<Rightarrow>
          (if ts = [] then None
           else case candidate ts [''album_artist'', ''album artist'', ''albumartist''] of
               Inl _ \<Rightarrow> None
             | Inr (Some s) \<Rightarrow> Some s
             | Inr None \<Rightarrow> band_frame ts)
      | _ \<Rightarrow> None)"

definition read_album_artist :: "shelves \<Rightarrow> path \<Rightarrow> string option" where
  "read_album_artist sv p = or_tag (easy_album_artist (sv_easy sv p)) (raw_album_artist (sv_raw sv p))"

section \<open>The passes\<close>

definition cutoff :: "int \<Rightarrow> int \<Rightarrow> int" where
  "cutoff now days = (if 0 < days then now - days * 86400000000 else 0)"

definition fresh :: "shelves \<Rightarrow> int \<Rightarrow> path \<Rightarrow> bool" where
  \<comment> \<open>without a cutoff every file counts; one whose time cannot be read does not, if there is one\<close>
  "fresh sv since p \<longleftrightarrow> since = 0 \<or> (case sv_mtime sv p of Inr t \<Rightarrow> since \<le> t | Inl _ \<Rightarrow> False)"

definition rel_dir :: "audit \<Rightarrow> path \<Rightarrow> string" where
  "rel_dir cfg d = relpath d (path_of (au_root cfg))"

definition artist_of :: "string \<Rightarrow> string" where
  "artist_of rel = before (CHR ''/'') rel"

record content_find =
  cf_rel :: string
  cf_folder :: string
  cf_artist :: json
  cf_title :: json
  cf_score :: rat

definition best_first :: "fingerprint list \<Rightarrow> fingerprint list" where
  "best_first rs = sort_key (\<lambda>(score, _). - (case score of Some q \<Rightarrow> q | None \<Rightarrow> 0)) rs"

definition related_value :: "json \<Rightarrow> string \<Rightarrow> bool res" where
  \<comment> \<open>\<open>related\<close> of a true value that came from outside\<close>
  "related_value j b =
     (case j of JStr a \<Rightarrow> Inr (related a b) | _ \<Rightarrow> Inl (TypeError (''normalize() argument 2 must be str, not '' @ type_name j)))"

definition judge_content :: "audit \<Rightarrow> string \<Rightarrow> fingerprint list \<Rightarrow> content_find list res" where
  \<comment> \<open>of the results for the one track of a directory\<close>
  "judge_content cfg rel rs =
     (case best_first rs of
        [] \<Rightarrow> Inr []
      | (None, _) # _ \<Rightarrow> Inl (TypeError ''< not supported between instances of NoneType and float'')
      | (Some q, _, title, artist) # _ \<Rightarrow>
          if flt (Fin q) (au_min_score cfg) \<or> \<not> truthy artist then Inr []
          else rbind (related_value artist (artist_of rel)) (\<lambda>same.
                 Inr (if same then []
                      else [\<lparr>cf_rel = rel, cf_folder = artist_of rel, cf_artist = artist, cf_title = title, cf_score = q\<rparr>])))"

fun scan_content :: "audit \<Rightarrow> shelves \<Rightarrow> int \<Rightarrow> path list \<Rightarrow> (content_find list \<times> nat \<times> nat) res" where
  \<comment> \<open>the findings, the directories scanned and the failed lookups\<close>
  "scan_content cfg sv since [] = Inr ([], 0, 0)"
| "scan_content cfg sv since (d # ds) =
     (let rel = rel_dir cfg d; skip = scan_content cfg sv since ds in
      if rel = ''.'' then skip
      else case tracks_in sv d of
          [f] \<Rightarrow>
            if \<not> fresh sv since (d @ [f]) then skip
            else (case sv_match sv (d @ [f]) of
                Inl _ \<Rightarrow> rbind skip (\<lambda>(out, n, e). Inr (out, Suc n, Suc e))
              | Inr rs \<Rightarrow> rbind (judge_content cfg rel rs) (\<lambda>x. rbind skip (\<lambda>(out, n, e). Inr (x @ out, Suc n, e))))
        | _ \<Rightarrow> skip)"

record album_find =
  af_rel :: string
  af_folder :: string
  af_artist :: string

definition judge_album :: "shelves \<Rightarrow> string \<Rightarrow> path \<Rightarrow> album_find option" where
  "judge_album sv rel p =
     (case read_album_artist sv p of
        None \<Rightarrow> None
      | Some aa \<Rightarrow>
          if aa = [] \<or> is_various aa \<or> related (artist_of rel) aa then None
          else Some \<lparr>af_rel = rel, af_folder = artist_of rel, af_artist = aa\<rparr>)"

fun scan_albums :: "audit \<Rightarrow> shelves \<Rightarrow> int \<Rightarrow> path list \<Rightarrow> album_find list \<times> nat" where
  "scan_albums cfg sv since [] = ([], 0)"
| "scan_albums cfg sv since (d # ds) =
     (let rel = rel_dir cfg d; skip = scan_albums cfg sv since ds in
      if rel = ''.'' \<or> is_various (artist_of rel) then skip
      else case sort (tracks_in sv d) of
          [] \<Rightarrow> skip
        | f # _ \<Rightarrow>
            if \<not> fresh sv since (d @ [f]) then skip
            else (case judge_album sv rel (d @ [f]) of
                None \<Rightarrow> (fst skip, Suc (snd skip))
              | Some x \<Rightarrow> (x # fst skip, Suc (snd skip))))"

section \<open>The report\<close>

definition bt :: "string \<Rightarrow> string" where
  \<comment> \<open>the text between back ticks\<close>
  "bt s = CHR 0x60 # s @ [CHR 0x60]"

definition bold :: "string \<Rightarrow> string" where
  "bold s = ''**'' @ s @ ''**''"

definition content_line :: "content_find \<Rightarrow> string" where
  "content_line x =
     ''- under '' @ bt (cf_folder x) @ '' but is '' @ bold (py_str (cf_artist x)) @ '' '' @ [em_dash] @ '' ''
       @ py_str (cf_title x) @ '' ('' @ fixed 2 (cf_score x) @ '') :: '' @ bt (cf_rel x)"

definition album_line :: "album_find \<Rightarrow> string" where
  "album_line x =
     ''- folder '' @ bt (af_folder x) @ '' vs album-artist '' @ bold (af_artist x) @ '' :: '' @ bt (af_rel x)"

definition audit_digest :: "content_find list \<Rightarrow> nat \<Rightarrow> nat \<Rightarrow> album_find list \<Rightarrow> nat \<Rightarrow> string" where
  "audit_digest tracks scanned errors album albums =
     join [newline] (
       [''FYI: music library misfile audit'', [],
        ''Single-track content check: '' @ nat_str scanned @ '' dirs scanned, '' @ nat_str errors @ '' lookup errors, ''
          @ nat_str (length tracks) @ '' misfiled.'',
        ''Album tag check: '' @ nat_str albums @ '' album dirs scanned, '' @ nat_str (length album) @ '' folder-vs-tag mismatches.'']
       @ (if tracks = [] then [] else [[], ''**Content misfiles (audio fingerprint != folder):**''] @ map content_line tracks)
       @ (if album = [] then [] else [[], ''**Album tag mismatches (album-artist tag != folder):**''] @ map album_line album)
       @ [[], ''Report-only '' @ [em_dash] @ '' nothing was changed. Review and fix deliberately.'',
          ''This is a one-way notification; no reply is possible.''])"

definition ward_prompt :: string where
  "ward_prompt =
     ''Weekly library-ward sweep. You are the ward of the library. Using rick-library-mcp, ''
     @ [CHR 0x60] @ ''evaluate'' @ [CHR 0x60]
     @ '' each directory below (MusicBrainz is the identity authority) and AUTONOMOUSLY carry out ''
     @ ''the action it returns '' @ [em_dash] @ '' '' @ [CHR 0x60] @ ''apply'' @ [CHR 0x60]
     @ '' a retag, '' @ [CHR 0x60] @ ''relocate'' @ [CHR 0x60]
     @ '' a wrong-content album, or leave an alias/rename/correct one. Resolve every item yourself: ''
     @ ''there is NO PROPOSE list and NO approval step. This is unattended '' @ [em_dash]
     @ '' never ask for confirmation and never pass confirmed=true. Every write is backed up and ''
     @ ''reversible; that is the safety net, not a human. After making any change(s), call '' @ [CHR 0x60]
     @ ''rescan'' @ [CHR 0x60] @ '' once so the player updates.'' @ [newline] @ [newline]
     @ ''Then notify Rob (notify_rob) with a summary of what you DID '' @ [em_dash]
     @ '' each album retagged (its new album_artist, from the result'' @ [CHR 0x27]
     @ ''s change_id), each relocated (to which artist), and anything left and why. REPORT ACCURATELY: ''
     @ ''an item you just fixed is NOT a no-op '' @ [em_dash] @ '' never describe an applied change as ''
     @ [CHR 0x27] @ ''already correct'' @ [CHR 0x27] @ '' or '' @ [CHR 0x27] @ ''no changes needed''
     @ [CHR 0x27] @ ''.'' @ [newline] @ [newline] @ ''Directories:'' @ [newline]"

definition candidate_dirs :: "content_find list \<Rightarrow> album_find list \<Rightarrow> string list" where
  \<comment> \<open>of both passes, each once, in the order of their first appearance\<close>
  "candidate_dirs tracks album = rev (remdups (rev (map cf_rel tracks @ map af_rel album)))"

definition handoff :: "string list \<Rightarrow> json" where
  "handoff dirs = JObj
     [(''jsonrpc'', JStr ''2.0''), (''id'', JInt 1), (''method'', JStr ''message/send''),
      (''params'', JObj [(''message'', JObj
         [(''role'', JStr ''user''),
          (''parts'', JList [JObj [(''kind'', JStr ''text''),
             (''text'', JStr (ward_prompt @ join [newline] (map (\<lambda>d. ''- '' @ d) dirs)))]]),
          (''messageId'', JStr ''misfile-audit-remediate''), (''kind'', JStr ''message'')])])]"

definition audit_mail :: "audit \<Rightarrow> string \<Rightarrow> string \<Rightarrow> (string \<times> string) list" where
  \<comment> \<open>\<open>notify\<close>: what is posted where; a failure is only printed\<close>
  "audit_mail cfg subject body =
     (if au_notify_url cfg = [] then []
      else [(au_notify_url cfg, dumps (JObj [(''subject'', JStr subject), (''body'', JStr body), (''agent'', JStr (au_agent cfg))]))])"

definition remediate :: "audit \<Rightarrow> content_find list \<Rightarrow> album_find list \<Rightarrow> (string \<times> string) list" where
  "remediate cfg tracks album =
     (let dirs = candidate_dirs tracks album in
      if \<not> (au_remediate cfg \<and> au_agent_url cfg \<noteq> []) \<or> dirs = [] then []
      else [(au_agent_url cfg, dumps (handoff dirs))])"

definition audit_run :: "audit \<Rightarrow> shelves \<Rightarrow> int \<Rightarrow> int \<Rightarrow> (string \<times> string) list res" where
  \<comment> \<open>\<open>main\<close>: the posts of a run whose passes begin at the two times\<close>
  "audit_run cfg sv now1 now2 =
     rbind (scan_content cfg sv (cutoff now1 (au_lookback cfg)) (sv_walk sv)) (\<lambda>(tracks, scanned, errors).
       let (album, albums) = scan_albums cfg sv (cutoff now2 (au_album_lookback cfg)) (sv_walk sv) in
       Inr ((if tracks = [] \<and> album = [] \<or> au_remediate cfg then []
             else audit_mail cfg (''Music misfile audit: '' @ nat_str (length tracks + length album) @ '' finding(s)'')
                    (audit_digest tracks scanned errors album albums))
            @ remediate cfg tracks album))"

section \<open>What is reported\<close>

text \<open>The album directories that count as misfiled, one by one.\<close>

definition misfiled_album :: "audit \<Rightarrow> shelves \<Rightarrow> int \<Rightarrow> path \<Rightarrow> string \<Rightarrow> bool" where
  "misfiled_album cfg sv since d aa \<longleftrightarrow>
     rel_dir cfg d \<noteq> ''.'' \<and> \<not> is_various (artist_of (rel_dir cfg d)) \<and> tracks_in sv d \<noteq> []
     \<and> (let p = d @ [Min (set (tracks_in sv d))] in
          fresh sv since p \<and> read_album_artist sv p = Some aa)
     \<and> aa \<noteq> [] \<and> \<not> is_various aa \<and> \<not> related (artist_of (rel_dir cfg d)) aa"

lemma sorted_head: "sort xs = f # fs \<Longrightarrow> xs \<noteq> [] \<and> f = Min (set xs)" for xs :: "'a :: linorder list"
proof -
  assume s: "sort xs = f # fs"
  then have "sorted (f # fs)" "set (f # fs) = set xs" by (metis sorted_sort, metis set_sort)
  with s show ?thesis by (auto intro!: Min_eqI [symmetric])
qed

lemma scan_albums_set:
  "set (fst (scan_albums cfg sv since ds)) =
     {\<lparr>af_rel = rel_dir cfg d, af_folder = artist_of (rel_dir cfg d), af_artist = aa\<rparr> | d aa. d \<in> set ds \<and> misfiled_album cfg sv since d aa}"
proof (induction ds)
  case (Cons d ds)
  let ?new = "{\<lparr>af_rel = rel_dir cfg d, af_folder = artist_of (rel_dir cfg d), af_artist = aa\<rparr> | aa. misfiled_album cfg sv since d aa}"
  have split: "{\<lparr>af_rel = rel_dir cfg e, af_folder = artist_of (rel_dir cfg e), af_artist = aa\<rparr> | e aa. e \<in> set (d # ds) \<and> misfiled_album cfg sv since e aa}
      = ?new \<union> set (fst (scan_albums cfg sv since ds))"
    unfolding Cons by auto
  have "set (fst (scan_albums cfg sv since (d # ds))) = ?new \<union> set (fst (scan_albums cfg sv since ds))"
  proof (cases "sort (tracks_in sv d)")
    case Nil
    then have "tracks_in sv d = []" by (metis set_sort set_empty)
    then show ?thesis by (auto simp: misfiled_album_def Let_def)
  next
    case (Cons f fs)
    from sorted_head [OF Cons] have "tracks_in sv d \<noteq> []" "Min (set (tracks_in sv d)) = f" by auto
    with Cons show ?thesis
      by (auto simp: misfiled_album_def judge_album_def Let_def split: option.splits)
  qed
  then show ?case unfolding split .
qed simp

definition misfiled_track :: "audit \<Rightarrow> shelves \<Rightarrow> int \<Rightarrow> path \<Rightarrow> content_find \<Rightarrow> bool" where
  "misfiled_track cfg sv since d x \<longleftrightarrow>
     rel_dir cfg d \<noteq> ''.''
     \<and> (\<exists>f rs. tracks_in sv d = [f] \<and> fresh sv since (d @ [f]) \<and> sv_match sv (d @ [f]) = Inr rs
          \<and> judge_content cfg (rel_dir cfg d) rs = Inr [x])"

lemma judge_content_cases: "judge_content cfg rel rs = Inr xs \<Longrightarrow> xs = [] \<or> (\<exists>x. xs = [x] \<and> cf_rel x = rel)"
  by (auto simp: judge_content_def rbind_Inr_iff split: list.splits prod.splits option.splits if_splits)

lemma scan_content_set:
  "scan_content cfg sv since ds = Inr (out, n, e) \<Longrightarrow> set out = {x. \<exists>d \<in> set ds. misfiled_track cfg sv since d x}"
proof (induction ds arbitrary: out n e)
  case (Cons d ds)
  let ?new = "{x. misfiled_track cfg sv since d x}"
  have "\<exists>out' n' e'. scan_content cfg sv since ds = Inr (out', n', e') \<and> set out = ?new \<union> set out'"
  proof (cases "\<exists>f rs. rel_dir cfg d \<noteq> ''.'' \<and> tracks_in sv d = [f] \<and> fresh sv since (d @ [f]) \<and> sv_match sv (d @ [f]) = Inr rs")
    case True
    then obtain f rs where f: "rel_dir cfg d \<noteq> ''.''" "tracks_in sv d = [f]" "fresh sv since (d @ [f])" "sv_match sv (d @ [f]) = Inr rs"
      by blast
    with Cons.prems obtain x out' n' e' where x: "judge_content cfg (rel_dir cfg d) rs = Inr x"
        "scan_content cfg sv since ds = Inr (out', n', e')" "out = x @ out'"
      by (auto simp: rbind_Inr_iff)
    have "?new = set x" using f x(1) judge_content_cases [OF x(1)] by (auto simp: misfiled_track_def)
    with x show ?thesis by auto
  next
    case False
    then have "?new = {}" by (auto simp: misfiled_track_def)
    moreover from False Cons.prems have "\<exists>n' e'. scan_content cfg sv since ds = Inr (out, n', e')"
      by (auto simp: rbind_Inr_iff Let_def split: if_splits list.splits sum.splits)
    ultimately show ?thesis by auto
  qed
  then obtain out' n' e' where "scan_content cfg sv since ds = Inr (out', n', e')" "set out = ?new \<union> set out'" by blast
  with Cons.IH show ?case by auto
qed simp

lemma candidate_dirs_facts:
  "distinct (candidate_dirs tracks album)" "set (candidate_dirs tracks album) = cf_rel ` set tracks \<union> af_rel ` set album"
  by (auto simp: candidate_dirs_def)

lemma image_of_found: "f ` {g x y | x y. P x y} = {f (g x y) | x y. P x y}"
  by blast

text \<open>
  Property C10. A run that leaves the misfiled directories to the agent posts exactly one request if there
  are any, and none otherwise; the request names each of them once: the directories whose one track is
  another artist's by its fingerprint, and those whose album artist does not belong to the folder.
\<close>

theorem handoff_names_every_misfile:
  assumes "scan_content cfg sv (cutoff now1 (au_lookback cfg)) (sv_walk sv) = Inr (tracks, n, e)"
    "au_remediate cfg" "au_agent_url cfg \<noteq> []"
  shows "\<exists>dirs. audit_run cfg sv now1 now2 = Inr (if dirs = [] then [] else [(au_agent_url cfg, dumps (handoff dirs))])
     \<and> distinct dirs
     \<and> set dirs = {rel_dir cfg d | d. d \<in> set (sv_walk sv)
         \<and> ((\<exists>x. misfiled_track cfg sv (cutoff now1 (au_lookback cfg)) d x)
            \<or> (\<exists>aa. misfiled_album cfg sv (cutoff now2 (au_album_lookback cfg)) d aa))}"
proof -
  obtain album albums where a: "scan_albums cfg sv (cutoff now2 (au_album_lookback cfg)) (sv_walk sv) = (album, albums)" by fastforce
  have rel: "cf_rel x = rel_dir cfg d" if "misfiled_track cfg sv c d x" for c d x
    using that judge_content_cases by (fastforce simp: misfiled_track_def)
  have t: "cf_rel ` set tracks = {rel_dir cfg d | d. d \<in> set (sv_walk sv) \<and> (\<exists>x. misfiled_track cfg sv (cutoff now1 (au_lookback cfg)) d x)}"
    unfolding scan_content_set [OF assms(1)] using rel by (auto simp: image_iff) metis
  have "set album = {\<lparr>af_rel = rel_dir cfg d, af_folder = artist_of (rel_dir cfg d), af_artist = aa\<rparr> | d aa.
      d \<in> set (sv_walk sv) \<and> misfiled_album cfg sv (cutoff now2 (au_album_lookback cfg)) d aa}"
    using scan_albums_set [of cfg sv "cutoff now2 (au_album_lookback cfg)" "sv_walk sv"] unfolding a by simp
  then have b: "af_rel ` set album = {rel_dir cfg d | d. d \<in> set (sv_walk sv) \<and> (\<exists>aa. misfiled_album cfg sv (cutoff now2 (au_album_lookback cfg)) d aa)}"
    by (simp only: image_of_found album_find.select_convs) blast
  have "audit_run cfg sv now1 now2 = Inr (remediate cfg tracks album)"
    using assms(1,2) a by (simp add: audit_run_def)
  moreover have "remediate cfg tracks album
      = (if candidate_dirs tracks album = [] then [] else [(au_agent_url cfg, dumps (handoff (candidate_dirs tracks album)))])"
    using assms(2,3) by (simp add: remediate_def Let_def)
  ultimately show ?thesis
    using candidate_dirs_facts [of tracks album] t b by (intro exI [of _ "candidate_dirs tracks album"]) auto
qed

definition example_audit :: audit where
  "example_audit = \<lparr>au_root = ''/m'', au_lookback = 0, au_min_score = Fin (9 / 10), au_album_lookback = 0, au_notify_url = [],
     au_agent = ''a'', au_remediate = True, au_agent_url = ''u''\<rparr>"

definition example_shelves :: shelves where
  "example_shelves = \<lparr>sv_walk = [[''m''], [''m'', ''A'']], sv_list = (\<lambda>_. Inr [''1.mp3'']), sv_is_file = (\<lambda>_. True),
     sv_mtime = (\<lambda>_. Inr 0), sv_match = (\<lambda>_. Inr [(Some (19 / 20), ''i'', JStr ''T'', JStr ''B'')]),
     sv_easy = (\<lambda>_. Inr None), sv_raw = (\<lambda>_. Inr None)\<rparr>"

lemma example_scan:
  "scan_content example_audit example_shelves (cutoff 0 (au_lookback example_audit)) (sv_walk example_shelves)
     = Inr ([\<lparr>cf_rel = ''A'', cf_folder = ''A'', cf_artist = JStr ''B'', cf_title = JStr ''T'', cf_score = 19 / 20\<rparr>], 1, 0)"
  "au_remediate example_audit" "au_agent_url example_audit \<noteq> []"
  by code_simp+

lemma handoff_names_every_misfile_witness:
  "\<exists>dirs. audit_run example_audit example_shelves 0 0
         = Inr (if dirs = [] then [] else [(au_agent_url example_audit, dumps (handoff dirs))])
     \<and> distinct dirs
     \<and> set dirs = {rel_dir example_audit d | d. d \<in> set (sv_walk example_shelves)
         \<and> ((\<exists>x. misfiled_track example_audit example_shelves (cutoff 0 (au_lookback example_audit)) d x)
            \<or> (\<exists>aa. misfiled_album example_audit example_shelves (cutoff 0 (au_album_lookback example_audit)) d aa))}"
  by (rule handoff_names_every_misfile [OF example_scan])

text \<open>
  With the handoff on and no agent to hand to, the findings reach nobody: neither a mail nor a request is
  sent, although the run reports that they were handed over.
\<close>

lemma findings_reach_nobody:
  "au_remediate cfg \<Longrightarrow> au_agent_url cfg = [] \<Longrightarrow> audit_run cfg sv now1 now2 = Inr posts \<Longrightarrow> posts = []"
  by (auto simp: audit_run_def remediate_def rbind_Inr_iff split: prod.splits)

end
