(* ===== verification/Spec2Isabelle.thy ===== *)
theory Spec2Isabelle
  imports Autowrite WritebackCli Esphome Triage AlertBridge Doer AgentCallback MedikeepSync LidarrBridge Lint RickRevert Calendar Digests Scrub MemorySync Misfile
begin

text \<open>
  A verification library for the Python programs of the home-ops repository: the scripts and small
  services that watch a home cluster and its network, and change things in it. The manifests of the
  cluster (YAML, Helm, Flux) are configuration and not modelled; the programs read them, or run in
  containers which they describe.

  \<^bold>\<open>The programs and how they interact\<close>

  \<^item> The freshness sweep of \<open>ai/network-drift\<close> reads the controller Omada and the inventory NetBox over
    MCP, configuration files from GitHub and objects from the cluster, compares them, remembers the
    fingerprints of the differences and mails the new ones. An autonomous write path applies the two
    safe kinds of difference to NetBox with a REST client, which a command line shares.
  \<^item> The firmware reconciler of \<open>home/esphome\<close> compiles, uploads and verifies devices inside a pod.
  \<^item> The agent runners of \<open>ai/local-cron\<close> share a client for agents: the triage runner asks until an
    answer has a tag and mails problems only; the doer lets an agent propose one change, validates it,
    edits one line of a clone and opens a pull request.
  \<^item> The alert bridge of \<open>ai/alert-agent-bridge\<close> turns firing alerts into a question to an agent with
    evidence from Prometheus and mails the answer, on a bounded pool of threads.
  \<^item> The callback service of \<open>ai/agent-callback\<close> turns a confirmed, signed link of a mail into a message.
  \<^item> The importer of \<open>collab/medikeep-ingest\<close> copies two sheets into a health record.
  \<^item> Two scripts of \<open>media\<close> keep the queue and the failed imports of Lidarr moving.
  \<^item> The library server of \<open>media/rick-library-mcp\<close> lets an agent assess an album of the music library
    by its tags and MusicBrainz, retag it, move it to another artist, and take each change back.
  \<^item> The misfile audit of \<open>media/beets-misfile-audit\<close> compares the artists of directories with fingerprints
    and tags, and mails its findings or hands them to an agent; the scrub of \<open>media/beets\<close> corrects ids
    of MusicBrainz in the database and in the files.
  \<^item> The calendar tools of \<open>ai/calendar-mcp\<close> let personas add, change and delete events, each its own, with
    a cap on the changes of an hour.
  \<^item> The ingester of \<open>ai/memory-sync\<close> brings changed notes into a memory server; three digests of
    \<open>ai/local-cron\<close> ask an agent and mail its answer if there is something to say.
  \<^item> Three linters of \<open>tools\<close> check manifests before they are merged.

  \<^bold>\<open>Theories and sources\<close> (below \<open>src/kubernetes/apps/\<close>, the linters below \<open>src/\<close>)

  The standard library and the language:
  \<^item> \<open>Py\<close>: strings, integers, JSON values with truthiness, exceptions as \<open>exn\<close>, fallible calls as
    \<open>'a res = exn + 'a\<close>, and code that changes a state as \<open>('a, 's) stm = 's \<Rightarrow> 'a res \<times> 's\<close> with its bind;
    the relations \<open>traces\<close> and \<open>does\<close> between a computation and the events it logs.
  \<^item> \<open>PyJson\<close> (printer, parser, round trip), \<open>PyFloat\<close> (doubles as rationals with rounding), \<open>PyHash\<close>
    and \<open>PySha\<close> (SHA-1, SHA-256, HMAC on words, with test vectors), \<open>PyNet\<close> (IPv4 networks), \<open>PyRe\<close>
    (backtracking matcher), \<open>PyScan\<close> (what searches with it find), \<open>PyCodec\<close> (base64, UTF-8, URL quoting).
  \<^item> \<open>PyPath\<close>: paths and the file system as a record \<open>file_tree\<close> of files and directories, with the
    operations of \<open>os\<close> and \<open>shutil\<close> which the programs use.

  The programs:
  \<^item> \<open>McpHttp\<close>: \<open>mcp_http.py\<close>; \<open>NetboxSync\<close> and \<open>Sweep\<close>: \<open>netbox_sync.py\<close>; \<open>GhSources\<close>: \<open>gh_sources.py\<close>;
    \<open>K8sApi\<close>: \<open>k8s_api.py\<close>; \<open>Writeback\<close>: \<open>netbox_writeback.py\<close>; \<open>Autowrite\<close>: \<open>autowrite.py\<close>;
    \<open>WritebackCli\<close>: \<open>writeback_cli.py\<close>, all of \<open>ai/network-drift\<close>.
  \<^item> \<open>Esphome\<close>: \<open>home/esphome/reconciler\<close>. The state is the pod, whose answers are a parameter, and the
    log of the commands.
  \<^item> \<open>A2a\<close>, \<open>Triage\<close>, \<open>DoerEdit\<close>, \<open>Doer\<close>: \<open>a2a_client.py\<close>, \<open>triage_run.py\<close> and \<open>doer_pipeline.py\<close> of
    \<open>ai/local-cron\<close>; edits are functions on lines, the run a computation over its effects.
  \<^item> \<open>AlertBridge\<close>: \<open>bridge.py\<close>. The state of the server is the number of free permits and the workers;
    \<open>bridge_step\<close> is the step relation of requests, finished workers and threads that do not start.
  \<^item> \<open>AgentCallback\<close>: \<open>server.py\<close>. The state is the ledger of used ids and the calls made;
    \<open>thread_step\<close> interleaves requests between the test of the ledger and the write to it.
  \<^item> \<open>Medikeep\<close>, \<open>MedikeepSync\<close>: \<open>collab/medikeep-ingest\<close>: the sheets and the dose periods; the API
    client and the run, with the session and its requests as the state.
  \<^item> \<open>LidarrScan\<close>, \<open>LidarrBridge\<close>: \<open>media/lidarr-sab-autoimport\<close> and \<open>media/lidarr-bridge\<close>, with the log
    of the requests and of the changes to the file system as the state.
  \<^item> \<open>RickTags\<close>, \<open>RickLibrary\<close>, \<open>RickChanges\<close>, \<open>RickRevert\<close>: \<open>server.py\<close> of \<open>media/rick-library-mcp\<close>: names and
    tags; MusicBrainz, the identities and the assessment; the changes, their reversal and the ledger;
    the round trips. The state \<open>shelf\<close> is the file system, the two caches, the clock and the requests.
  \<^item> \<open>Misfile\<close>: \<open>misfile-audit.py\<close> of \<open>media/beets-misfile-audit\<close>, with the requests of a run as the state;
    \<open>Scrub\<close>: \<open>mbid-scrub.py\<close> of \<open>media/beets\<close>, with the rows of the database, the tags and the tally.
  \<^item> \<open>Calendar\<close>: \<open>calendar_mcp.py\<close>. The state \<open>agenda\<close> is the list of the recent changes and the log of
    the requests; \<open>MemorySync\<close>: \<open>ai/memory-sync\<close>, with the counter of the ids and the requests.
  \<^item> \<open>Digests\<close>: \<open>arnold_queue_check.py\<close>, \<open>crusher_review.py\<close> and \<open>crusher_weight_sync.py\<close> of \<open>ai/local-cron\<close>, on
    the client of \<open>A2a\<close>.
  \<^item> \<open>Lint\<close>: \<open>lint-envsubst-shell-vars.py\<close>, \<open>lint-esphome-config-substitutions.py\<close> and
    \<open>lint-cnp-empty-rules.py\<close> of \<open>tools\<close>.

  \<^bold>\<open>Interfaces\<close>

  The locales \<open>normaliser\<close> and \<open>comparator\<close> with \<open>fallible_comparator\<close> (\<open>NetboxSync\<close>) state what the
  sweep needs of the normal forms and of the comparators of all its sources; \<open>baseline_store\<close>
  (\<open>Sweep\<close>) what it needs of the file that remembers fingerprints; \<open>write_operation\<close> (\<open>Writeback\<close>)
  what the write paths need of an operation: one read, at most one write, of its own collection and
  verb, and none without \<open>apply\<close>; \<open>escaping\<close> (\<open>PyJson\<close>) what the JSON round trip needs of the way a
  printer writes characters, with or without \<open>ensure_ascii\<close>. Each is interpreted on the definitions of
  the code.

  \<^bold>\<open>What the lemmas show\<close>

  \<^item> Safety of everything that writes: which requests, commands, moves or mails a run can send at all,
    whatever its environment answers, as a shape of the log of the run. For the autonomous write path
    the shape (\<open>drift_batches\<close>) follows the drifts one by one, each against the NetBox which the requests
    before it left behind (\<open>state_after\<close>, \<open>exchanges\<close>).
  \<^item> Functional behaviour: exact descriptions of comparators, edits, dose periods, retries, page loops
    and linters, several against an independent specification.
  \<^item> Error paths: what a failed source, an agent without an answer or a malformed reply leads to.
  \<^item> Invariants and refinement: the pool of the bridge in all reachable states, the ledger of the
    callback service against a set of redeemed ids, the time between the requests to MusicBrainz over
    every sequence of calls of the library server, the cap on the changes of the calendar over every
    hour, the ids of the requests to the memory server.
  \<^item> Round trips of JSON, base64, UTF-8, signed tokens, the configuration of the DHCP server, and of the
    changes to the music library with their reversal. The scrub of ids is idempotent.
  \<^item> Where the code does not do what it says, a lemma shows the behaviour on a concrete input.

  \<^bold>\<open>Bounds\<close>

  Recursion is structural or has a measure, except for two places. The JSON parser takes fuel, twice
  the length of the text and two, which the round trip shows to be enough for every text the scripts
  write. The page loop of NetBox may run forever against a server that always has a next page: it is
  a partial function, and its result is characterised for every server.

  \<^bold>\<open>Parameters\<close>

  Servers, agents, the cluster API, the pod, the clock, the YAML parser, \<open>dateutil\<close>, \<open>mutagen\<close> and most
  uses of the file system are arguments of the definitions, mostly functions of the events so far, so a
  theorem holds for servers that change their mind. Clocks count in integers. The library server changes a file system of
  \<open>PyPath\<close>, without symbolic links; any of its operations may fail, and then changes nothing. Where a property needs more of them, it is a named hypothesis, with a
  witness at a concrete instance.

  \<^bold>\<open>Not modelled\<close>

  Printed and logged lines; argument parsers; file discovery of the linters; text beyond the code
  points 0 to 255; hash randomisation (sets are iterated in list order where no result depends on it).
  Of the other programs, the NetBox consistency script, the Gonic reader, the patch of beets and the
  documentation hook are calls of foreign objects with hardly any logic of their own. The evaluation exporter and
  the README linter are not modelled, nor the rescan of the library server, a call of the player.
\<close>

end
